(* ===== verification/Prelude.thy ===== *)
theory Prelude
  imports
    Complex_Main
    "HOL-Library.AList"
    "HOL-Library.Multiset"
    "HOL-Library.List_Lexorder"
    "HOL-Library.Char_ord"
    "HOL-Library.Product_Lexorder"
    "HOL-Library.Word"
begin

text \<open>
  What the components share: Go strings as byte lists, Go maps as association lists with
  distinct keys, results that carry an error, the library sort as an insertion sort over a
  strict weak order (the contract of \<open>sort.Slice\<close> and \<open>sort.SliceStable\<close>), and the
  "look up or create, then update" accumulator that every aggregation of the program uses.
\<close>

named_theorems go_map \<open>facts on association-list maps\<close>
named_theorems go_res \<open>facts on results with errors\<close>
named_theorems go_str \<open>facts on strings\<close>

type_synonym i64 = "64 word"

section \<open>Results\<close>

definition rbind :: "'e + 'a \<Rightarrow> ('a \<Rightarrow> 'e + 'b) \<Rightarrow> 'e + 'b" where
  "rbind r f = (case r of Inl e \<Rightarrow> Inl e | Inr a \<Rightarrow> f a)"

lemma rbind_simps [simp]: "rbind (Inl e) f = Inl e" "rbind (Inr a) f = f a"
  by (simp_all add: rbind_def)

lemma rbind_Inr_iff [go_res]: "rbind r f = Inr b \<longleftrightarrow> (\<exists>a. r = Inr a \<and> f a = Inr b)"
  by (cases r) auto

lemma rbind_Inl_iff [go_res]:
  "rbind r f = Inl e \<longleftrightarrow> r = Inl e \<or> (\<exists>a. r = Inr a \<and> f a = Inl e)"
  by (cases r) auto

lemma rbind_cong [fundef_cong]:
  "r = r' \<Longrightarrow> (\<And>a. r' = Inr a \<Longrightarrow> f a = g a) \<Longrightarrow> rbind r f = rbind r' g"
  by (cases r') auto

text \<open>A loop that appends each result and returns at the first error.\<close>

fun res_map :: "('a \<Rightarrow> 'e + 'b) \<Rightarrow> 'a list \<Rightarrow> 'e + 'b list" where
  "res_map f [] = Inr []"
| "res_map f (x # xs) = rbind (f x) (\<lambda>y. rbind (res_map f xs) (\<lambda>ys. Inr (y # ys)))"

lemma res_map_Inr_iff [go_res]:
  "res_map f xs = Inr ys \<longleftrightarrow> list_all2 (\<lambda>x y. f x = Inr y) xs ys"
  by (induction xs arbitrary: ys) (auto simp: go_res list_all2_Cons1)

lemma res_map_Inl: "res_map f xs = Inl e \<Longrightarrow> \<exists>x\<in>set xs. f x = Inl e"
  by (induction xs) (auto simp: go_res)

lemma res_map_total: "(\<And>x. x \<in> set xs \<Longrightarrow> f x = Inr (g x)) \<Longrightarrow> res_map f xs = Inr (map g xs)"
  by (induction xs) auto

lemma res_map_cong [fundef_cong]:
  "xs = ys \<Longrightarrow> (\<And>x. x \<in> set ys \<Longrightarrow> f x = g x) \<Longrightarrow> res_map f xs = res_map g ys"
proof (induction ys arbitrary: xs)
  case (Cons y ys)
  then have "res_map f ys = res_map g ys" by auto
  with Cons.prems show ?case by simp
qed simp

lemma list_all2_map_self: "(\<And>x. x \<in> set xs \<Longrightarrow> P x (f x)) \<Longrightarrow> list_all2 P xs (map f xs)"
  by (induction xs) auto

lemma map_eq_list_all2: "map f xs = map g ys \<longleftrightarrow> list_all2 (\<lambda>x y. f x = g y) xs ys"
  by (induction xs arbitrary: ys) (auto simp: list_all2_Cons1)

section \<open>Maps\<close>

type_synonym ('k, 'v) gomap = "('k \<times> 'v) list"

definition map_wf :: "('k, 'v) gomap \<Rightarrow> bool" where
  "map_wf m \<longleftrightarrow> distinct (map fst m)"

text \<open>\<open>m[k]\<close> with the zero value for an absent key, and \<open>m[k] = f(m[k])\<close>.\<close>

definition getd :: "'v \<Rightarrow> ('k, 'v) gomap \<Rightarrow> 'k \<Rightarrow> 'v" where
  "getd d m k = (case map_of m k of None \<Rightarrow> d | Some v \<Rightarrow> v)"

abbreviation put :: "'k \<Rightarrow> 'v \<Rightarrow> ('k, 'v) gomap \<Rightarrow> ('k, 'v) gomap" where
  "put \<equiv> AList.update"

definition modify :: "'k \<Rightarrow> 'v \<Rightarrow> ('v \<Rightarrow> 'v) \<Rightarrow> ('k, 'v) gomap \<Rightarrow> ('k, 'v) gomap" where
  "modify k d f m = put k (f (getd d m k)) m"

lemma map_wf_Nil [simp]: "map_wf []"
  by (simp add: map_wf_def)

lemma map_wf_put [simp]: "map_wf m \<Longrightarrow> map_wf (put k v m)"
  by (simp add: map_wf_def distinct_update)

lemma map_wf_modify [simp]: "map_wf m \<Longrightarrow> map_wf (modify k d f m)"
  by (simp add: modify_def)

lemma map_of_put [go_map]: "map_of (put k v m) = (map_of m)(k \<mapsto> v)"
  by (rule update_conv')

lemma map_of_modify [go_map]: "map_of (modify k d f m) = (map_of m)(k \<mapsto> f (getd d m k))"
  by (simp add: modify_def map_of_put)

lemma getd_Nil [simp]: "getd d [] k = d"
  by (simp add: getd_def)

lemma getd_put [go_map]: "getd d (put k v m) k' = (if k' = k then v else getd d m k')"
  by (simp add: getd_def map_of_put)

lemma getd_modify [go_map]:
  "getd d (modify k d f m) k' = (if k' = k then f (getd d m k) else getd d m k')"
  by (simp add: modify_def getd_put)

text \<open>\<open>for k, v := range kvs { m[k] = v }\<close>.\<close>

definition put_all :: "('k \<times> 'v) list \<Rightarrow> ('k, 'v) gomap \<Rightarrow> ('k, 'v) gomap" where
  "put_all ps m = fold (\<lambda>p m. put (fst p) (snd p) m) ps m"

lemma map_of_put_all:
  "distinct (map fst ps) \<Longrightarrow> map_of (put_all ps m) k = (case map_of ps k of None \<Rightarrow> map_of m k | Some v \<Rightarrow> Some v)"
proof (induction ps arbitrary: m)
  case (Cons p ps)
  then have "map_of ps (fst p) = None" by (simp add: map_of_eq_None_iff)
  moreover have "map_of (put_all ps m') k = (case map_of ps k of None \<Rightarrow> map_of m' k | Some v \<Rightarrow> Some v)" for m'
    using Cons by simp
  ultimately show ?case by (cases p) (auto simp: put_all_def map_of_put split: option.splits)
qed (simp add: put_all_def)

lemma map_wf_put_all [simp]: "map_wf m \<Longrightarrow> map_wf (put_all ps m)"
  by (induction ps arbitrary: m) (simp_all add: put_all_def)

lemma keys_put: "fst ` set (put k v m) = insert k (fst ` set m)"
  by (simp add: dom_update)

lemma keys_modify: "fst ` set (modify k d f m) = insert k (fst ` set m)"
  by (simp add: modify_def keys_put)

lemma put_absent: "k \<notin> fst ` set m \<Longrightarrow> put k v m = m @ [(k, v)]"
  by (induction m) auto

lemma map_wf_perm_map_of:
  assumes "map_wf m" "mset m = mset m'"
  shows "map_of m = map_of m'"
proof -
  have "distinct (map fst m')"
    using assms by (metis map_wf_def mset_eq_imp_distinct_iff mset_map)
  moreover have "set m = set m'" using assms(2) by (rule mset_eq_setD)
  ultimately show ?thesis
    using assms(1) by (simp add: map_wf_def map_of_inject_set)
qed

lemma map_of_eq_perm:
  assumes "map_wf m" "map_wf m'" "map_of m = map_of m'"
  shows "mset m = mset m'"
proof -
  have "set m = set m'"
    using assms by (simp add: map_wf_def map_of_inject_set)
  then show ?thesis
    using assms by (metis map_wf_def distinct_map set_eq_iff_mset_eq_distinct)
qed

subsection \<open>Sums over a map of counters\<close>

lemma sum_list_put:
  fixes m :: "('k, nat) gomap"
  assumes "map_wf m"
  shows "sum_list (map snd (put k v m)) + getd 0 m k = sum_list (map snd m) + v"
  using assms
proof (induction m)
  case (Cons p m)
  obtain a b where p: "p = (a, b)" by force
  show ?case
  proof (cases "a = k")
    case True
    with p show ?thesis by (simp add: getd_def)
  next
    case False
    have "map_wf m" using Cons.prems by (simp add: map_wf_def)
    from Cons.IH [OF this] False p show ?thesis by (simp add: getd_def)
  qed
qed (simp add: getd_def)

lemma sum_list_modify_Suc:
  fixes m :: "('k, nat) gomap"
  shows "map_wf m \<Longrightarrow> sum_list (map snd (modify k 0 Suc m)) = Suc (sum_list (map snd m))"
  using sum_list_put [of m k "Suc (getd 0 m k)"] by (simp add: modify_def)

section \<open>Accumulating by key\<close>

text \<open>
  The pattern \<open>a := m[key]; if a == nil { a = new(acc); m[key] = a }; a.update(x)\<close> inside a
  loop. The result at a key is the fold of the updates of the elements with that key, in
  order: no element of another key is seen.
\<close>

definition accum :: "('x \<Rightarrow> 'k) \<Rightarrow> ('k \<Rightarrow> 'v) \<Rightarrow> ('x \<Rightarrow> 'v \<Rightarrow> 'v) \<Rightarrow> 'x list \<Rightarrow> ('k, 'v) gomap \<Rightarrow> ('k, 'v) gomap" where
  "accum key init f xs m = fold (\<lambda>x m. modify (key x) (init (key x)) (f x) m) xs m"

lemma accum_simps [simp]:
  "accum key init f [] m = m"
  "accum key init f (x # xs) m = accum key init f xs (modify (key x) (init (key x)) (f x) m)"
  by (simp_all add: accum_def)

lemma accum_append: "accum key init f (xs @ ys) m = accum key init f ys (accum key init f xs m)"
  by (simp add: accum_def)

lemma map_wf_accum [simp]: "map_wf m \<Longrightarrow> map_wf (accum key init f xs m)"
  by (induction xs arbitrary: m) auto

lemma keys_accum: "fst ` set (accum key init f xs m) = fst ` set m \<union> key ` set xs"
  by (induction xs arbitrary: m) (auto simp: keys_modify)

lemma getd_accum:
  "getd (init k) (accum key init f xs m) k
   = fold f (filter (\<lambda>x. key x = k) xs) (getd (init k) m k)"
  by (induction xs arbitrary: m) (auto simp: getd_def go_map)

lemma map_of_accum:
  "map_of (accum key init f xs []) k
   = (if k \<in> key ` set xs then Some (fold f (filter (\<lambda>x. key x = k) xs) (init k)) else None)"
proof (cases "k \<in> key ` set xs")
  case True
  then have "k \<in> fst ` set (accum key init f xs [])" by (simp add: keys_accum)
  then obtain v where v: "map_of (accum key init f xs []) k = Some v"
    by (metis weak_map_of_SomeI imageE prod.collapse)
  with getd_accum [of init k key f xs "[]"] True show ?thesis by (simp add: getd_def)
next
  case False
  then have "k \<notin> fst ` set (accum key init f xs [])" by (simp add: keys_accum)
  then show ?thesis using False by (simp add: map_of_eq_None_iff)
qed

section \<open>First appearances\<close>

text \<open>The pattern \<open>if seen[x] { continue }; seen[x] = true; out = append(out, x)\<close>.\<close>

definition dedup :: "'a list \<Rightarrow> 'a list" where
  "dedup xs = fold (\<lambda>x out. if x \<in> set out then out else out @ [x]) xs []"

lemma dedup_fold_rev:
  "fold (\<lambda>x out. if x \<in> set out then out else out @ [x]) xs (rev (remdups ys))
   = rev (remdups (rev xs @ ys))"
proof (induction xs arbitrary: ys)
  case (Cons x xs)
  have "(if x \<in> set (rev (remdups ys)) then rev (remdups ys) else rev (remdups ys) @ [x])
        = rev (remdups (x # ys))" by simp
  with Cons.IH [of "x # ys"] show ?case by simp
qed simp

lemma dedup_remdups: "dedup xs = rev (remdups (rev xs))"
  using dedup_fold_rev [of xs "[]"] by (simp add: dedup_def)

lemma set_dedup [simp]: "set (dedup xs) = set xs"
  by (simp add: dedup_remdups)

lemma distinct_dedup [simp]: "distinct (dedup xs)"
  by (simp add: dedup_remdups)

lemma dedup_distinct_id: "distinct xs \<Longrightarrow> dedup xs = xs"
  by (simp add: dedup_remdups distinct_remdups_id)

lemma dedup_eq_Nil [simp]: "dedup xs = [] \<longleftrightarrow> xs = []"
  by (simp add: dedup_remdups)

lemma keys_accum_order:
  "map fst (accum key init f xs []) = dedup (map key xs)"
proof (induction xs rule: rev_induct)
  case (snoc x xs)
  let ?m = "accum key init f xs []"
  have eq: "set (map fst ?m) = key ` set xs"
    using keys_accum [of key init f xs "[]"] by simp
  show ?case
  proof (cases "key x \<in> key ` set xs")
    case True
    then have "key x \<in> set (map fst ?m)" using eq by simp
    then show ?thesis
      using snoc True by (auto simp: accum_append modify_def update_keys dedup_def image_iff)
  next
    case False
    then have "key x \<notin> set (map fst ?m)" using eq by simp
    then show ?thesis
      using snoc False by (auto simp: accum_append modify_def update_keys dedup_def dedup_remdups image_iff)
  qed
qed (simp add: dedup_def)

lemma concat_map_Nil: "concat (map f xs) = [] \<longleftrightarrow> (\<forall>x\<in>set xs. f x = [])"
  by (induction xs) auto

lemma remdups_snoc: "remdups (xs @ [x]) = filter (\<lambda>y. y \<noteq> x) (remdups xs) @ [x]"
  by (induction xs) auto

lemma dedup_Cons: "dedup (x # xs) = x # filter (\<lambda>y. y \<noteq> x) (dedup xs)"
  by (simp add: dedup_remdups remdups_snoc rev_filter)

section \<open>64-bit integers\<close>

lemma sint_add_in_range:
  fixes a b :: i64
  assumes "- (2 ^ 63) \<le> sint a + sint b" "sint a + sint b < 2 ^ 63"
  shows "sint (a + b) = sint a + sint b"
  unfolding sint_word_ariths(1) using assms by (simp add: signed_take_bit_int_eq_self)

lemma sint_sub_in_range:
  fixes a b :: i64
  assumes "- (2 ^ 63) \<le> sint a - sint b" "sint a - sint b < 2 ^ 63"
  shows "sint (a - b) = sint a - sint b"
  unfolding sint_word_ariths(2) using assms by (simp add: signed_take_bit_int_eq_self)

end
