(* ===== verification/SliceSort.thy ===== *)
theory SliceSort
  imports Prelude
begin

text \<open>
  The contract of \<open>sort.SliceStable\<close>: given a \<open>less\<close> that is a strict weak order, the
  result is a permutation, ordered, and keeps the input order of equivalent elements. It is
  modelled by a stable insertion sort; \<open>sort.Slice\<close> promises the same without stability,
  and where \<open>less\<close> is total on the elements there is only one such result
  (\<open>sort_by_unique\<close>), so the same function models it. \<open>sort.Strings\<close> and
  \<open>sort.Float64s\<close> are the library \<open>sort\<close>.
\<close>

fun ins_by :: "('a \<Rightarrow> 'a \<Rightarrow> bool) \<Rightarrow> 'a \<Rightarrow> 'a list \<Rightarrow> 'a list" where
  "ins_by lt x [] = [x]"
| "ins_by lt x (y # ys) = (if lt y x then y # ins_by lt x ys else x # y # ys)"

fun sort_by :: "('a \<Rightarrow> 'a \<Rightarrow> bool) \<Rightarrow> 'a list \<Rightarrow> 'a list" where
  "sort_by lt [] = []"
| "sort_by lt (x # xs) = ins_by lt x (sort_by lt xs)"

lemma mset_ins_by [simp]: "mset (ins_by lt x ys) = add_mset x (mset ys)"
  by (induction ys) auto

lemma mset_sort_by [simp]: "mset (sort_by lt xs) = mset xs"
  by (induction xs) auto

lemma set_sort_by [simp]: "set (sort_by lt xs) = set xs"
  by (metis mset_sort_by set_mset_mset)

lemma set_ins_by [simp]: "set (ins_by lt x ys) = insert x (set ys)"
  by (induction ys) auto

lemma length_sort_by [simp]: "length (sort_by lt xs) = length xs"
  by (metis mset_sort_by size_mset)

lemma sort_by_eq_Nil [simp]: "sort_by lt xs = [] \<longleftrightarrow> xs = []"
  by (metis length_0_conv length_sort_by)

lemma distinct_sort_by [simp]: "distinct (sort_by lt xs) \<longleftrightarrow> distinct xs"
  by (metis mset_eq_imp_distinct_iff mset_sort_by)

lemma distinct_map_sort_by [simp]: "distinct (map f (sort_by lt xs)) \<longleftrightarrow> distinct (map f xs)"
  by (metis mset_eq_imp_distinct_iff mset_map mset_sort_by)

section \<open>Strict weak orders\<close>

locale strict_weak =
  fixes lt :: "'a \<Rightarrow> 'a \<Rightarrow> bool"
  assumes irrefl: "\<not> lt x x"
    and less_trans: "lt x y \<Longrightarrow> lt y z \<Longrightarrow> lt x z"
    and incomp_trans: "\<not> lt x y \<Longrightarrow> \<not> lt y z \<Longrightarrow> \<not> lt x z"
begin

lemma asym: "lt x y \<Longrightarrow> \<not> lt y x"
  using irrefl less_trans by blast

lemma sorted_ins_by:
  "sorted_wrt (\<lambda>x y. \<not> lt y x) ys \<Longrightarrow> sorted_wrt (\<lambda>x y. \<not> lt y x) (ins_by lt x ys)"
  by (induction ys) (auto dest: asym incomp_trans)

lemma sorted_sort_by: "sorted_wrt (\<lambda>x y. \<not> lt y x) (sort_by lt xs)"
  by (induction xs) (auto intro: sorted_ins_by)

lemma filter_ins_by:
  assumes "\<And>y. P y \<Longrightarrow> P x \<Longrightarrow> \<not> lt y x"
  shows "filter P (ins_by lt x ys) = (if P x then x # filter P ys else filter P ys)"
  using assms by (induction ys) auto

lemma sort_by_stable:
  assumes "\<And>y z. P y \<Longrightarrow> P z \<Longrightarrow> \<not> lt y z"
  shows "filter P (sort_by lt xs) = filter P xs"
proof (induction xs)
  case (Cons x xs)
  have "filter P (ins_by lt x (sort_by lt xs))
        = (if P x then x # filter P (sort_by lt xs) else filter P (sort_by lt xs))"
    using assms by (intro filter_ins_by) blast
  with Cons.IH show ?case by simp
qed simp

lemma sort_by_sorted_id:
  "sorted_wrt (\<lambda>x y. \<not> lt y x) xs \<Longrightarrow> sort_by lt xs = xs"
proof (induction xs)
  case (Cons x xs)
  then have "sort_by lt xs = xs" by simp
  then show ?case using Cons.prems by (cases xs) auto
qed simp

lemma sort_by_idem [simp]: "sort_by lt (sort_by lt xs) = sort_by lt xs"
  by (rule sort_by_sorted_id) (rule sorted_sort_by)

lemma sort_by_hd_min: "y \<in> set xs \<Longrightarrow> \<not> lt y (hd (sort_by lt xs))"
proof (cases "sort_by lt xs")
  case (Cons z zs)
  assume "y \<in> set xs"
  then have "y \<in> set (z # zs)" using Cons by (metis set_sort_by)
  moreover have "sorted_wrt (\<lambda>x y. \<not> lt y x) (z # zs)" using sorted_sort_by [of xs] Cons by simp
  ultimately show ?thesis using Cons irrefl by auto
qed simp

end

text \<open>A total order: the sorted permutation is unique, so \<open>sort.Slice\<close> is a function.\<close>

locale strict_total = strict_weak +
  assumes total: "\<not> lt x y \<Longrightarrow> \<not> lt y x \<Longrightarrow> x = y"
begin

lemma sorted_unique:
  assumes "sorted_wrt (\<lambda>x y. \<not> lt y x) xs" "sorted_wrt (\<lambda>x y. \<not> lt y x) ys"
    and "mset xs = mset ys"
  shows "xs = ys"
  using assms
proof (induction xs arbitrary: ys)
  case (Cons x xs)
  from Cons.prems(3) obtain y ys' where ys: "ys = y # ys'" by (cases ys) auto
  have x: "x \<in> set ys" and y: "y \<in> set (x # xs)"
    using Cons.prems(3) ys by (metis list.set_intros(1) set_mset_mset)+
  have "x = y"
  proof (rule ccontr)
    assume "x \<noteq> y"
    with x ys have "\<not> lt x y" using Cons.prems(2) by auto
    moreover from \<open>x \<noteq> y\<close> y have "\<not> lt y x" using Cons.prems(1) by auto
    ultimately show False using total \<open>x \<noteq> y\<close> by blast
  qed
  with Cons.prems ys show ?case by (auto intro: Cons.IH)
qed simp

lemma sort_by_unique: "mset xs = mset ys \<Longrightarrow> sort_by lt xs = sort_by lt ys"
  by (rule sorted_unique) (simp_all add: sorted_sort_by)

lemma sort_by_strict: "distinct xs \<Longrightarrow> sorted_wrt lt (sort_by lt xs)"
proof -
  assume d: "distinct xs"
  have "sorted_wrt (\<lambda>x y. \<not> lt y x) zs \<Longrightarrow> distinct zs \<Longrightarrow> sorted_wrt lt zs" for zs
    by (induction zs) (auto dest: total)
  from this [OF sorted_sort_by] d show ?thesis by simp
qed

end

section \<open>Ordering by a key\<close>

lemma strict_weak_key:
  fixes k :: "'a \<Rightarrow> 'b :: linorder"
  shows "strict_weak (\<lambda>a b. k a < k b)"
  by unfold_locales auto

lemma sort_by_key: "sort_by (\<lambda>a b. k a < k b) xs = sort_key k xs"
proof -
  have "ins_by (\<lambda>a b. k a < k b) x ys = insort_key k x ys" for x ys
    by (induction ys) auto
  then show ?thesis by (induction xs) auto
qed

lemma strict_total_less: "strict_total ((<) :: 'a :: linorder \<Rightarrow> 'a \<Rightarrow> bool)"
  by unfold_locales auto

lemma sort_key_perm:
  assumes "mset xs = mset ys" "inj_on k (set xs)"
  shows "sort_key k xs = sort_key k ys"
proof -
  have "sorted (map k (sort_key k ys))" by simp
  moreover have "mset xs = mset (sort_key k ys)" using assms(1) by simp
  ultimately show ?thesis using sort_key_inj_key_eq assms(2) by blast
qed

lemma sort_set_eq:
  assumes "distinct xs" "distinct ys" "set xs = set ys"
  shows "sort xs = sort ys"
  using assms by (metis properties_for_sort set_eq_iff_mset_eq_distinct sort_key_perm inj_on_id2)

section \<open>Grouping, then sorting by the group key\<close>

lemma accum_values:
  "map snd (accum key init f xs [])
   = map (\<lambda>k. fold f (filter (\<lambda>x. key x = k) xs) (init k)) (dedup (map key xs))"
proof -
  let ?m = "accum key init f xs []"
  have "map snd ?m = map (\<lambda>k. the (map_of ?m k)) (map fst ?m)"
    using map_wf_accum [of "[]" key init f xs] by (auto simp: map_wf_def)
  also have "\<dots> = map (\<lambda>k. fold f (filter (\<lambda>x. key x = k) xs) (init k)) (dedup (map key xs))"
    unfolding keys_accum_order by (intro map_cong refl) (simp add: map_of_accum)
  finally show ?thesis .
qed

lemma insort_key_map:
  "g (h k) = k \<Longrightarrow> (\<And>x. x \<in> set ks \<Longrightarrow> g (h x) = x) \<Longrightarrow> insort_key g (h k) (map h ks) = map h (insort k ks)"
  by (induction ks) auto

lemma sort_key_map_inj:
  "(\<And>k. k \<in> set ks \<Longrightarrow> g (h k) = k) \<Longrightarrow> sort_key g (map h ks) = map h (sort ks)"
proof (induction ks)
  case (Cons k ks)
  then show ?case using insort_key_map [of g h k "sort ks"] by simp
qed simp

lemma sort_dedup: "sort (dedup xs) = sorted_list_of_set (set xs)"
  unfolding sorted_list_of_set_sort_remdups by (rule sort_set_eq) auto

lemma group_sorted:
  assumes "\<And>k. k \<in> key ` set xs \<Longrightarrow> g (fold f (filter (\<lambda>x. key x = k) xs) (init k)) = k"
  shows "sort_key g (map snd (accum key init f xs []))
     = map (\<lambda>k. fold f (filter (\<lambda>x. key x = k) xs) (init k)) (sorted_list_of_set (key ` set xs))"
  unfolding accum_values using assms
  by (subst sort_key_map_inj) (auto simp: sort_dedup)

end
