(* ===== verification/Canon.thy ===== *)
theory Canon
  imports SliceSort GoStrings
begin

text \<open>
  Package \<open>internal/canon\<close>: canonical key order, redaction of sensitive keys and replacement
  of machine-specific path prefixes, over decoded JSON values. A \<open>map[string]any\<close> is
  \<open>JObj\<close> of an association list (of a decoded document: in document order, where a key may
  repeat). A number literal without fraction or exponent is \<open>JInt\<close>, any other
  \<open>JFloat\<close>: \<open>encoding/json\<close> decodes only the first into an integer field. The SHA-256
  digest is a parameter \<open>sha\<close>, the text of a number a parameter \<open>num\<close>. No function of
  the package but the decoder returns an error, so the results are plain values.
\<close>

datatype json =
    JNull
  | JBool bool
  | JInt int
  | JFloat real
  | JStr string
  | JArr "json list"
  | JObj "(string \<times> json) list"

lemma size_json_entry [termination_simp]:
  "(k, v) \<in> set kvs \<Longrightarrow> size v < Suc (size_list (size_prod (\<lambda>x. 0) size) kvs)"
  by (induction kvs) auto

lemma size_json_entry' [termination_simp]:
  "p \<in> set kvs \<Longrightarrow> size (snd p) < Suc (size_list (size_prod (\<lambda>x. 0) size) kvs)"
  by (induction kvs) auto

section \<open>Canonical order\<close>

fun toCanonical :: "json \<Rightarrow> json" where
  "toCanonical (JObj kvs) = JObj (sort_key fst (map (\<lambda>p. (fst p, toCanonical (snd p))) kvs))"
| "toCanonical (JArr vs) = JArr (map toCanonical vs)"
| "toCanonical v = v"

text \<open>
  The encoder: object keys in byte order, no HTML escaping. Strings are valid UTF-8; U+2028
  and U+2029 (bytes E2 80 A8 and E2 80 A9) are escaped, as are quotes, backslashes and
  control characters.
\<close>

definition hex_digit :: "nat \<Rightarrow> char" where
  "hex_digit n = ''0123456789abcdef'' ! n"

definition esc :: "char \<Rightarrow> string" where
  "esc c = (let n = (of_char c :: nat) in
     if n = 34 then [CHR 0x5C, CHR 0x22]
     else if n = 92 then [CHR 0x5C, CHR 0x5C]
     else if n = 8 then [CHR 0x5C, CHR ''b'']
     else if n = 12 then [CHR 0x5C, CHR ''f'']
     else if n = 10 then [CHR 0x5C, CHR ''n'']
     else if n = 13 then [CHR 0x5C, CHR ''r'']
     else if n = 9 then [CHR 0x5C, CHR ''t'']
     else if n < 32 then [CHR 0x5C, CHR ''u'', CHR ''0'', CHR ''0'', hex_digit (n div 16), hex_digit (n mod 16)]
     else [c])"

fun escape :: "string \<Rightarrow> string" where
  "escape [] = []"
| "escape (c # s) =
     (if take 3 (c # s) = [CHR 0xE2, CHR 0x80, CHR 0xA8] then CHR 0x5C # ''u2028'' @ escape (drop 2 s)
      else if take 3 (c # s) = [CHR 0xE2, CHR 0x80, CHR 0xA9] then CHR 0x5C # ''u2029'' @ escape (drop 2 s)
      else esc c @ escape s)"

definition quote :: "string \<Rightarrow> string" where
  "quote s = [CHR 0x22] @ escape s @ [CHR 0x22]"

fun encode :: "(json \<Rightarrow> string) \<Rightarrow> json \<Rightarrow> string" where
  "encode num JNull = ''null''"
| "encode num (JBool b) = (if b then ''true'' else ''false'')"
| "encode num (JInt i) = num (JInt i)"
| "encode num (JFloat r) = num (JFloat r)"
| "encode num (JStr s) = quote s"
| "encode num (JArr vs) = ''['' @ join '','' (map (encode num) vs) @ '']''"
| "encode num (JObj kvs) =
     ''{'' @ join '','' (map (\<lambda>p. quote (fst p) @ '':'' @ snd p)
        (sort_key fst (map (\<lambda>p. (fst p, encode num (snd p))) kvs))) @ ''}''"

text \<open>\<open>json.Marshal\<close> escapes the HTML characters of a string.\<close>

definition html_escape :: "string \<Rightarrow> string" where
  "html_escape s = concat (map (\<lambda>c. if c = CHR ''<'' then CHR 0x5C # ''u003c'' else if c = CHR ''>'' then CHR 0x5C # ''u003e''
     else if c = CHR ''&'' then CHR 0x5C # ''u0026'' else [c]) s)"

text \<open>\<open>json.MarshalIndent\<close> with two spaces; \<open>nl\<close> is the line break and the indentation of the value.\<close>

fun indent_json :: "(json \<Rightarrow> string) \<Rightarrow> string \<Rightarrow> json \<Rightarrow> string" where
  "indent_json num nl (JArr vs) =
     (if vs = [] then ''[]''
      else ''['' @ join '','' (map (\<lambda>v. nl @ ''  '' @ indent_json num (nl @ ''  '') v) vs) @ nl @ '']'')"
| "indent_json num nl (JObj kvs) =
     (if kvs = [] then ''{}''
      else ''{'' @ join '','' (map (\<lambda>p. nl @ ''  '' @ html_escape (quote (fst p)) @ '': ''
             @ indent_json num (nl @ ''  '') (snd p)) kvs) @ nl @ ''}'')"
| "indent_json num nl v = html_escape (encode num v)"

definition MarshalIndent :: "(json \<Rightarrow> string) \<Rightarrow> json \<Rightarrow> string" where
  "MarshalIndent num v = indent_json num [CHR 0x0A] v"

definition JSON :: "(json \<Rightarrow> string) \<Rightarrow> json \<Rightarrow> string" where
  "JSON num v = encode num (toCanonical v)"

definition Hash :: "(string \<Rightarrow> string) \<Rightarrow> (json \<Rightarrow> string) \<Rightarrow> json \<Rightarrow> string" where
  "Hash sha num v = sha (JSON num v)"

text \<open>Two values that differ in the order of object entries only; objects are maps.\<close>

inductive same_json :: "json \<Rightarrow> json \<Rightarrow> bool" where
  leaf: "same_json v v"
| arr: "list_all2 same_json vs ws \<Longrightarrow> same_json (JArr vs) (JArr ws)"
| obj: "distinct (map fst kvs) \<Longrightarrow> mset kvs = mset kvs' \<Longrightarrow>
    list_all2 (\<lambda>p q. fst p = fst q \<and> same_json (snd p) (snd q)) kvs' lws \<Longrightarrow>
    same_json (JObj kvs) (JObj lws)"

lemma toCanonical_same: "same_json v w \<Longrightarrow> toCanonical v = toCanonical w"
proof (induction rule: same_json.induct)
  case (arr vs ws)
  then have "map toCanonical vs = map toCanonical ws"
    by (auto simp: map_eq_list_all2 elim: list_all2_mono)
  then show ?case by simp
next
  case (obj kvs kvs' lws)
  let ?c = "\<lambda>p. (fst p, toCanonical (snd p))"
  have "map ?c kvs' = map ?c lws"
    using obj by (auto simp: map_eq_list_all2 elim: list_all2_mono)
  moreover have "sort_key fst (map ?c kvs) = sort_key fst (map ?c kvs')"
  proof (rule sort_key_perm)
    show "mset (map ?c kvs) = mset (map ?c kvs')" using obj by simp
    have "distinct (map fst (map ?c kvs))" using obj by (simp add: comp_def)
    then show "inj_on fst (set (map ?c kvs))" by (simp only: distinct_map)
  qed
  ultimately show ?case by simp
qed simp

lemma toCanonical_idem: "toCanonical (toCanonical v) = toCanonical v"
proof (induction v rule: toCanonical.induct)
  case (1 kvs)
  let ?c = "\<lambda>p. (fst p, toCanonical (snd p))"
  have "map ?c (sort_key fst (map ?c kvs)) = sort_key fst (map ?c kvs)"
    by (rule map_idI) (use 1 in auto)
  then show ?case by (simp add: sort_key_id_if_sorted)
qed auto

fun canonical :: "json \<Rightarrow> bool" where
  "canonical (JObj kvs) = (sorted (map fst kvs) \<and> list_all (\<lambda>p. canonical (snd p)) kvs)"
| "canonical (JArr vs) = list_all canonical vs"
| "canonical v = True"

lemma canonical_toCanonical: "canonical (toCanonical v)"
  by (induction v rule: toCanonical.induct) (auto simp: list_all_iff)

section \<open>Redaction\<close>

definition RedactedValue :: string where "RedactedValue = ''<redacted>''"

text \<open>
  One letter of a case-insensitive pattern against the front of a UTF-8 string. Case folding
  is Unicode folding: besides the two ASCII cases, \<open>k\<close> matches U+212A (bytes E2 84 AA) and
  \<open>s\<close> matches U+017F (bytes C5 BF).
\<close>

definition lower :: "char \<Rightarrow> char" where
  "lower c = (let n = (of_char c :: nat) in if 65 \<le> n \<and> n \<le> 90 then char_of (n + 32) else c)"

definition eat :: "char \<Rightarrow> string \<Rightarrow> string option" where
  "eat p s = (case s of
      [] \<Rightarrow> None
    | c # r \<Rightarrow>
        if lower c = p then Some r
        else if p = CHR ''k'' \<and> take 3 s = [CHR 0xE2, CHR 0x84, CHR 0xAA] then Some (drop 3 s)
        else if p = CHR ''s'' \<and> take 2 s = [CHR 0xC5, CHR 0xBF] then Some (drop 2 s)
        else None)"

fun ci_prefix :: "string \<Rightarrow> string \<Rightarrow> bool" where
  "ci_prefix [] s = True"
| "ci_prefix (p # ps) s = (case eat p s of None \<Rightarrow> False | Some r \<Rightarrow> ci_prefix ps r)"

fun ci_contains :: "string \<Rightarrow> string \<Rightarrow> bool" where
  "ci_contains w [] = (w = [])"
| "ci_contains w (c # s) = (ci_prefix w (c # s) \<or> ci_contains w s)"

definition sensitiveKey :: "string list" where
  "sensitiveKey = [''api_key'', ''api-key'', ''apikey'', ''token'', ''secret'', ''password'', ''passwd'',
     ''credential'', ''authorization'', ''cookie'']"

definition IsSensitiveKey :: "string \<Rightarrow> bool" where
  "IsSensitiveKey key = list_ex (\<lambda>w. ci_contains w key) sensitiveKey"

fun Redact :: "json \<Rightarrow> json" where
  "Redact (JObj kvs) =
     JObj (map (\<lambda>p. if IsSensitiveKey (fst p) then (fst p, JStr RedactedValue)
                    else (fst p, Redact (snd p))) kvs)"
| "Redact (JArr vs) = JArr (map Redact vs)"
| "Redact v = v"

definition RedactRaw :: "(string \<Rightarrow> json option) \<Rightarrow> string \<Rightarrow> json option" where
  "RedactRaw parse raw = map_option Redact (parse raw)"

text \<open>
  Equality up to what is stored below sensitive keys, and the values a document stores below
  them.
\<close>

inductive public_eq :: "json \<Rightarrow> json \<Rightarrow> bool" where
  public_leaf: "public_eq v v"
| public_arr: "list_all2 public_eq vs ws \<Longrightarrow> public_eq (JArr vs) (JArr ws)"
| public_obj:
    "list_all2 (\<lambda>p q. fst p = fst q \<and> (IsSensitiveKey (fst p) \<or> public_eq (snd p) (snd q))) kvs lws \<Longrightarrow>
     public_eq (JObj kvs) (JObj lws)"

fun secrets :: "json \<Rightarrow> json list" where
  "secrets (JObj kvs) =
     concat (map (\<lambda>p. if IsSensitiveKey (fst p) then [snd p] else secrets (snd p)) kvs)"
| "secrets (JArr vs) = concat (map secrets vs)"
| "secrets v = []"

lemma Redact_public: "public_eq v w \<Longrightarrow> Redact v = Redact w"
proof (induction rule: public_eq.induct)
  case (public_arr vs ws)
  then have "map Redact vs = map Redact ws"
    by (auto simp: map_eq_list_all2 elim: list_all2_mono)
  then show ?case by simp
next
  case (public_obj kvs lws)
  then show ?case by (auto simp: map_eq_list_all2 elim: list_all2_mono)
qed simp

lemma Redact_public_eq: "public_eq v (Redact v)"
proof (induction v rule: Redact.induct)
  case (1 kvs)
  have "public_eq (snd p) (Redact (snd p))" if "p \<in> set kvs" "\<not> IsSensitiveKey (fst p)" for p
    using 1 that by blast
  then have "list_all2 (\<lambda>p q. fst p = fst q \<and> (IsSensitiveKey (fst p) \<or> public_eq (snd p) (snd q))) kvs
      (map (\<lambda>p. if IsSensitiveKey (fst p) then (fst p, JStr RedactedValue)
                else (fst p, Redact (snd p))) kvs)"
    by (intro list_all2_map_self) auto
  then show ?case by (simp add: public_obj)
next
  case (2 vs)
  then show ?case by (auto intro!: public_arr list_all2_map_self)
qed (auto intro: public_leaf)

lemma Redact_eq_iff: "Redact v = Redact w \<Longrightarrow> public_eq v (Redact w)"
  using Redact_public_eq [of v] by simp

lemma secrets_Redact: "x \<in> set (secrets (Redact v)) \<Longrightarrow> x = JStr RedactedValue"
  by (induction v rule: Redact.induct) (auto split: if_splits)

lemma Redact_idem: "Redact (Redact v) = Redact v"
  by (rule Redact_public [symmetric]) (rule Redact_public_eq)

lemma Redact_no_secrets_id: "secrets v = [] \<Longrightarrow> Redact v = v"
proof (induction v rule: Redact.induct)
  case (1 kvs)
  have "map (\<lambda>p. if IsSensitiveKey (fst p) then (fst p, JStr RedactedValue)
          else (fst p, Redact (snd p))) kvs = kvs"
    by (rule map_idI) (use 1 in \<open>auto split: if_splits\<close>)
  then show ?case by simp
next
  case (2 vs)
  have "map Redact vs = vs" by (rule map_idI) (use 2 in auto)
  then show ?case by simp
qed auto

section \<open>Path prefixes\<close>

record path_prefix =
  From :: string
  To :: string

fun normalizeString :: "string \<Rightarrow> path_prefix list \<Rightarrow> string" where
  "normalizeString s [] = s"
| "normalizeString s (p # ps) =
     (if s = From p then To p
      else if has_prefix s (From p @ ''/'') then To p @ drop (length (From p)) s
      else normalizeString s ps)"

fun normalize :: "json \<Rightarrow> path_prefix list \<Rightarrow> json" where
  "normalize (JObj kvs) ps = JObj (map (\<lambda>p. (fst p, normalize (snd p) ps)) kvs)"
| "normalize (JArr vs) ps = JArr (map (\<lambda>v. normalize v ps) vs)"
| "normalize (JStr s) ps = JStr (normalizeString s ps)"
| "normalize v ps = v"

definition order_prefixes :: "path_prefix list \<Rightarrow> path_prefix list" where
  "order_prefixes prefixes =
     sort_by (\<lambda>p q. length (From p) > length (From q)) (filter (\<lambda>p. From p \<noteq> []) prefixes)"

definition NormalizePaths :: "json \<Rightarrow> path_prefix list \<Rightarrow> json" where
  "NormalizePaths v prefixes = normalize v (order_prefixes prefixes)"

interpretation longest_first: strict_weak "\<lambda>p q. length (From p) > length (From (q :: path_prefix))"
  by unfold_locales auto

text \<open>A prefix applies to a string when it names it or one of its leading directories.\<close>

definition applies :: "string \<Rightarrow> path_prefix \<Rightarrow> bool" where
  "applies s p \<longleftrightarrow> s = From p \<or> has_prefix s (From p @ ''/'')"

definition rewrite :: "string \<Rightarrow> path_prefix \<Rightarrow> string" where
  "rewrite s p = To p @ drop (length (From p)) s"

lemma normalizeString_find:
  "normalizeString s ps = (case find (applies s) ps of None \<Rightarrow> s | Some p \<Rightarrow> rewrite s p)"
  by (induction ps) (auto simp: applies_def rewrite_def)

lemma find_hd_filter: "find P xs = (case filter P xs of [] \<Rightarrow> None | x # _ \<Rightarrow> Some x)"
  by (induction xs) auto

lemma normalizeString_longest:
  assumes "p \<in> set prefixes" "From p \<noteq> []" "applies s p"
  shows "\<exists>q\<in>set prefixes. applies s q \<and> length (From p) \<le> length (From q)
    \<and> normalizeString s (order_prefixes prefixes) = rewrite s q"
proof -
  let ?o = "order_prefixes prefixes"
  have p: "p \<in> set ?o" using assms by (simp add: order_prefixes_def)
  then obtain q where q: "find (applies s) ?o = Some q"
    using assms(3) by (cases "find (applies s) ?o") (auto simp: find_None_iff)
  then obtain i where i: "i < length ?o" "?o ! i = q" "applies s q" "\<forall>j<i. \<not> applies s (?o ! j)"
    by (auto simp: find_Some_iff)
  obtain j where j: "j < length ?o" "?o ! j = p" using p by (auto simp: in_set_conv_nth)
  have "i \<le> j" using i j assms(3) by (metis not_le)
  have "sorted_wrt (\<lambda>x y. \<not> length (From x) < length (From y)) ?o"
    unfolding order_prefixes_def using longest_first.sorted_sort_by by simp
  then have "length (From p) \<le> length (From q)"
    using \<open>i \<le> j\<close> i j by (cases "i = j") (auto simp: sorted_wrt_iff_nth_less not_less)
  moreover have "q \<in> set ?o" using i nth_mem by blast
  then have "q \<in> set prefixes" by (simp add: order_prefixes_def)
  ultimately show ?thesis using i q by (auto simp: normalizeString_find)
qed

lemma normalizeString_unchanged:
  assumes "\<And>p. p \<in> set prefixes \<Longrightarrow> From p \<noteq> [] \<Longrightarrow> \<not> applies s p"
  shows "normalizeString s (order_prefixes prefixes) = s"
proof -
  have "find (applies s) (order_prefixes prefixes) = None"
    using assms by (auto simp: find_None_iff order_prefixes_def)
  then show ?thesis by (simp add: normalizeString_find)
qed

section \<open>Properties\<close>

text \<open>Documents that differ only in the order of object entries, at any depth, have the same canonical
  text and the same hash.\<close>

theorem Hash_order_independent:
  assumes "same_json v w"
  shows "JSON num v = JSON num w \<and> Hash sha num v = Hash sha num w"
  using toCanonical_same [OF assms] by (simp add: JSON_def Hash_def)

theorem Hash_order_independent_witness:
  "Hash id (\<lambda>_. ''1'') (JObj [(''b'', JNull), (''a'', JBool True)])
   = Hash id (\<lambda>_. ''1'') (JObj [(''a'', JBool True), (''b'', JNull)])"
proof -
  have "same_json (JObj [(''b'', JNull), (''a'', JBool True)]) (JObj [(''a'', JBool True), (''b'', JNull)])"
    by (rule same_json.obj [where kvs' = "[(''a'', JBool True), (''b'', JNull)]"])
      (auto intro: same_json.leaf)
  then show ?thesis using Hash_order_independent by blast
qed

text \<open>C30: redaction hides every value under a sensitive key: two documents that agree outside such values
  are redacted alike, only the placeholder remains under such keys, and redacting again changes
  nothing.\<close>

theorem Redact_hides:
  assumes "public_eq v w"
  shows "Redact v = Redact w \<and> set (secrets (Redact v)) \<subseteq> {JStr RedactedValue} \<and> Redact (Redact v) = Redact v"
  using Redact_public [OF assms] secrets_Redact [of _ v] Redact_idem [of v] by auto

theorem Redact_hides_witness:
  "Redact (JObj [(''api_key'', JStr ''s3cr3t'')]) = Redact (JObj [(''api_key'', JStr ''other'')])"
proof -
  have "public_eq (JObj [(''api_key'', JStr ''s3cr3t'')]) (JObj [(''api_key'', JStr ''other'')])"
    by (rule public_obj) (simp add: IsSensitiveKey_def, code_simp)
  then show ?thesis using Redact_hides by blast
qed

text \<open>Of the prefixes that apply to a string, normalisation uses a longest one, however the prefixes
  are listed; a string none applies to is unchanged.\<close>

theorem NormalizePaths_longest:
  assumes "p \<in> set prefixes" "From p \<noteq> []" "applies s p"
  shows "\<exists>q\<in>set prefixes. applies s q \<and> length (From p) \<le> length (From q)
    \<and> NormalizePaths (JStr s) prefixes = JStr (rewrite s q)"
  using normalizeString_longest [OF assms] by (auto simp: NormalizePaths_def)

theorem NormalizePaths_longest_witness:
  "\<exists>q\<in>{\<lparr>From = ''/h'', To = ''$HOME''\<rparr>, \<lparr>From = ''/h/r'', To = ''$RUN''\<rparr>}. 4 \<le> length (From q) \<and>
     NormalizePaths (JStr ''/h/r/f'') [\<lparr>From = ''/h'', To = ''$HOME''\<rparr>, \<lparr>From = ''/h/r'', To = ''$RUN''\<rparr>]
       = JStr (rewrite ''/h/r/f'' q)"
  using NormalizePaths_longest [of "\<lparr>From = ''/h/r'', To = ''$RUN''\<rparr>"
      "[\<lparr>From = ''/h'', To = ''$HOME''\<rparr>, \<lparr>From = ''/h/r'', To = ''$RUN''\<rparr>]" "''/h/r/f''"]
  by (simp add: applies_def del: has_prefix.simps) (simp add: has_prefix_iff)

end
