(* ===== verification/GoJson.thy ===== *)
theory GoJson
  imports Canon
begin

text \<open>
  How \<open>encoding/json\<close> stores a decoded document into a struct, as the program relies on it:
  keys match field names up to case folding, entries are stored in document order (a later
  one wins), unknown keys are ignored, \<open>null\<close> leaves a non-pointer field as it is, and an
  entry of the wrong type is skipped while the rest is still stored; the call then returns an
  error. A decoder therefore gives the new value and whether it reports success. The
  tokenizer, which turns bytes into a document or a syntax error, is the parameter \<open>parse\<close>
  of the functions that take raw lines; a \<open>json.RawMessage\<close> is kept as its document.
\<close>

type_synonym 'a dec = "json \<Rightarrow> 'a \<Rightarrow> 'a \<times> bool"

definition dec_string :: "string dec" where
  "dec_string j v = (case j of JStr s \<Rightarrow> (s, True) | JNull \<Rightarrow> (v, True) | _ \<Rightarrow> (v, False))"

definition in_i64 :: "int \<Rightarrow> bool" where
  "in_i64 n \<longleftrightarrow> - (2 ^ 63) \<le> n \<and> n < 2 ^ 63"

definition dec_i64 :: "i64 dec" where
  "dec_i64 j v = (case j of
      JInt n \<Rightarrow> if in_i64 n then (word_of_int n, True) else (v, False)
    | JNull \<Rightarrow> (v, True) | _ \<Rightarrow> (v, False))"

definition dec_float :: "real dec" where
  "dec_float j v = (case j of
      JInt n \<Rightarrow> (real_of_int n, True) | JFloat r \<Rightarrow> (r, True) | JNull \<Rightarrow> (v, True) | _ \<Rightarrow> (v, False))"

definition dec_raw :: "json option dec" where
  "dec_raw j v = (Some j, True)"

definition dec_ptr :: "'a \<Rightarrow> 'a dec \<Rightarrow> 'a option dec" where
  "dec_ptr zero d j v =
     (if j = JNull then (None, True)
      else (let (x, ok) = d j (case v of None \<Rightarrow> zero | Some x \<Rightarrow> x) in (Some x, ok)))"

text \<open>A slice decodes element-wise; \<open>null\<close> gives the nil slice.\<close>

fun dec_elems :: "'a \<Rightarrow> 'a dec \<Rightarrow> json list \<Rightarrow> 'a list \<times> bool" where
  "dec_elems zero d [] = ([], True)"
| "dec_elems zero d (j # js) =
     (let (x, ok) = d j zero; (xs, ok') = dec_elems zero d js in (x # xs, ok \<and> ok'))"

definition dec_list :: "'a \<Rightarrow> 'a dec \<Rightarrow> 'a list dec" where
  "dec_list zero d j v = (case j of
      JArr js \<Rightarrow> dec_elems zero d js | JNull \<Rightarrow> ([], True) | _ \<Rightarrow> (v, False))"

text \<open>Case folding of a key, byte by byte, with the two non-ASCII folds onto ASCII.\<close>

fun fold_key :: "string \<Rightarrow> string" where
  "fold_key [] = []"
| "fold_key (c # s) =
     (if take 3 (c # s) = [CHR 0xE2, CHR 0x84, CHR 0xAA] then CHR ''k'' # fold_key (drop 2 s)
      else if take 2 (c # s) = [CHR 0xC5, CHR 0xBF] then CHR ''s'' # fold_key (drop 1 s)
      else lower c # fold_key s)"

fun dec_fields :: "(string \<Rightarrow> 'a dec) \<Rightarrow> (string \<times> json) list \<Rightarrow> 'a \<Rightarrow> bool \<Rightarrow> 'a \<times> bool" where
  "dec_fields f [] v ok = (v, ok)"
| "dec_fields f ((k, j) # kvs) v ok =
     (let (v', ok') = f (fold_key k) j v in dec_fields f kvs v' (ok \<and> ok'))"

definition dec_struct :: "(string \<Rightarrow> 'a dec) \<Rightarrow> 'a dec" where
  "dec_struct f j v = (case j of
      JNull \<Rightarrow> (v, True) | JObj kvs \<Rightarrow> dec_fields f kvs v True | _ \<Rightarrow> (v, False))"

text \<open>\<open>json.Unmarshal\<close> into a zero value: the value, or an error.\<close>

definition unmarshal :: "'a dec \<Rightarrow> 'a \<Rightarrow> json \<Rightarrow> 'a option" where
  "unmarshal d zero j = (case d j zero of (v, ok) \<Rightarrow> if ok then Some v else None)"

text \<open>Storing into one field of a record, given its update and selector.\<close>

definition dec_field :: "(('b \<Rightarrow> 'b) \<Rightarrow> 'r \<Rightarrow> 'r) \<Rightarrow> ('r \<Rightarrow> 'b) \<Rightarrow> 'b dec \<Rightarrow> 'r dec" where
  "dec_field upd sel d j r = (let (x, ok) = d j (sel r) in (upd (\<lambda>_. x) r, ok))"

definition skip_field :: "'r dec" where "skip_field j r = (r, True)"

definition dec_bool :: "bool dec" where
  "dec_bool j v = (case j of JBool b \<Rightarrow> (b, True) | JNull \<Rightarrow> (v, True) | _ \<Rightarrow> (v, False))"

text \<open>
  Decoding into \<open>any\<close>: the document itself, an object as a map (of a repeated key the last
  entry counts). Decoding into a map \<open>map[string]T\<close> stores every entry, an undecodable one as
  what could be stored of it.
\<close>

fun any_of :: "json \<Rightarrow> json" where
  "any_of (JObj kvs) = JObj (fold (\<lambda>p m. put (fst p) (snd p) m) (map (\<lambda>p. (fst p, any_of (snd p))) kvs) [])"
| "any_of (JArr vs) = JArr (map any_of vs)"
| "any_of v = v"

definition dec_any :: "json dec" where "dec_any j v = (any_of j, True)"

fun dec_entries :: "'a \<Rightarrow> 'a dec \<Rightarrow> (string \<times> json) list \<Rightarrow> (string, 'a) gomap \<Rightarrow> bool \<Rightarrow> (string, 'a) gomap \<times> bool" where
  "dec_entries zero d [] m ok = (m, ok)"
| "dec_entries zero d ((k, j) # kvs) m ok =
     (let (x, ok') = d j zero in dec_entries zero d kvs (put k x m) (ok \<and> ok'))"

definition dec_map :: "'a \<Rightarrow> 'a dec \<Rightarrow> (string, 'a) gomap dec" where
  "dec_map zero d j v = (case j of
      JObj kvs \<Rightarrow> dec_entries zero d kvs v True | JNull \<Rightarrow> ([], True) | _ \<Rightarrow> (v, False))"

lemma any_of_distinct: "any_of v = JObj kvs \<Longrightarrow> map_wf kvs"
proof -
  have "map_wf m \<Longrightarrow> map_wf (fold (\<lambda>p m. put (fst p) (snd p) m) xs m)" for xs and m :: "(string \<times> json) list"
    by (induction xs arbitrary: m) auto
  then show "any_of v = JObj kvs \<Longrightarrow> map_wf kvs" by (cases v) auto
qed

lemmas dec_defs = dec_string_def dec_i64_def dec_float_def dec_raw_def dec_ptr_def dec_list_def
  dec_struct_def dec_field_def skip_field_def unmarshal_def in_i64_def

end
