(* ===== verification/GoPath.thy ===== *)
theory GoPath
  imports GoStrings
begin

text \<open>
  The functions of package \<open>path\<close> and \<open>unicode/utf8\<close> the program calls: \<open>path.Clean\<close>,
  \<open>path.Match\<close>, \<open>utf8.DecodeRuneInString\<close> and \<open>utf8.RuneStart\<close>, transcribed over byte
  strings.
\<close>

section \<open>Clean\<close>

text \<open>The elements of the result, last first; empty and \<open>.\<close> elements vanish.\<close>

fun clean_elems :: "bool \<Rightarrow> string list \<Rightarrow> string list \<Rightarrow> string list" where
  "clean_elems rooted [] out = rev out"
| "clean_elems rooted (e # es) out =
     (if e = [] \<or> e = ''.'' then clean_elems rooted es out
      else if e = ''..'' then
        (case out of
           [] \<Rightarrow> clean_elems rooted es (if rooted then [] else [''..''])
         | prev # below \<Rightarrow>
             if prev \<noteq> ''..'' then clean_elems rooted es below
             else clean_elems rooted es (''..'' # out))
      else clean_elems rooted es (e # out))"

definition path_clean :: "string \<Rightarrow> string" where
  "path_clean p =
     (if p = [] then ''.''
      else
        let rooted = (hd p = CHR ''/'');
            body = join ''/'' (clean_elems rooted (split_on (CHR ''/'') p) [])
        in if rooted then CHR ''/'' # body
           else if body = [] then ''.'' else body)"

text \<open>A relative path whose elements are all ordinary names is already clean.\<close>

definition plain :: "string \<Rightarrow> bool" where
  "plain e \<longleftrightarrow> e \<noteq> [] \<and> e \<noteq> ''.'' \<and> e \<noteq> ''..''"

definition clean_rel :: "string \<Rightarrow> bool" where
  "clean_rel p \<longleftrightarrow> list_all plain (split_on (CHR ''/'') p)"

lemma clean_elems_plain: "list_all plain es \<Longrightarrow> clean_elems r es out = rev out @ es"
  by (induction es arbitrary: out) (auto simp: plain_def)

lemma path_clean_plain:
  assumes "clean_rel p"
  shows "path_clean p = p"
proof -
  obtain c q where p: "p = c # q" using assms by (cases p) (auto simp: clean_rel_def plain_def)
  have "c \<noteq> CHR ''/''" using assms p by (auto simp: clean_rel_def plain_def)
  moreover have "join ''/'' (clean_elems False (split_on (CHR ''/'') p) []) = p"
    using assms by (simp add: clean_elems_plain clean_rel_def del: split_on.simps)
  ultimately show ?thesis using p by (simp add: path_clean_def del: split_on.simps)
qed

text \<open>An element of a cleaned relative path is ordinary, or a leading \<open>..\<close>.\<close>

lemma clean_elems_shape:
  assumes "out = rev os @ replicate k ''..''" "list_all plain os"
  shows "\<exists>n ps. clean_elems False es out = replicate n ''..'' @ ps \<and> list_all plain ps"
  using assms
proof (induction False es out arbitrary: os k rule: clean_elems.induct)
  case (1 out)
  then have "clean_elems False [] out = replicate k ''..'' @ os" by simp
  then show ?case using 1 by blast
next
  case (2 e es out)
  consider (skip) "e = [] \<or> e = ''.''" | (up) "e = ''..''" | (name) "plain e"
    by (auto simp: plain_def)
  then show ?case
  proof cases
    case skip
    then show ?thesis using "2.hyps"(1) [OF skip "2.prems"] by simp
  next
    case up
    show ?thesis
    proof (cases os rule: rev_cases)
      case Nil
      then have out: "out = replicate k ''..''" using "2.prems" by simp
      have up': "clean_elems False (e # es) out = clean_elems False es (replicate (Suc k) ''..'')"
        using up out by (cases k) auto
      show ?thesis
      proof (cases k)
        case 0
        then show ?thesis using "2.hyps"(2) [of "[]" 1] up out up' by simp
      next
        case (Suc m)
        then show ?thesis using "2.hyps"(4) [of "''..''" "replicate m ''..''" "[]" "Suc (Suc m)"] up out up'
          by simp
      qed
    next
      case (snoc os' o')
      then have out: "out = o' # rev os' @ replicate k ''..''" and p: "plain o'" "list_all plain os'"
        using "2.prems" by auto
      then have "o' \<noteq> ''..''" by (simp add: plain_def)
      then show ?thesis
        using "2.hyps"(3) [OF _ _ out _ refl p(2)] up out by simp
    qed
  next
    case name
    then have n: "\<not> (e = [] \<or> e = ''.'')" "e \<noteq> ''..''" by (auto simp: plain_def)
    have "e # out = rev (os @ [e]) @ replicate k ''..''" "list_all plain (os @ [e])"
      using "2.prems" name by auto
    from "2.hyps"(5) [OF n this] n show ?thesis by simp
  qed
qed

section \<open>Runes\<close>

definition byte :: "char \<Rightarrow> nat" where "byte c = of_char c"

definition RuneError :: nat where "RuneError = 0xFFFD"

definition is_cont :: "char \<Rightarrow> bool" where
  "is_cont c \<longleftrightarrow> 0x80 \<le> byte c \<and> byte c \<le> 0xBF"

definition RuneStart :: "char \<Rightarrow> bool" where
  "RuneStart c \<longleftrightarrow> \<not> is_cont c"

text \<open>The rune at the front of a string and its width in bytes.\<close>

definition rune2 :: "nat \<Rightarrow> nat \<Rightarrow> nat \<times> nat" where
  "rune2 b0 b1 =
     (if 0x80 \<le> b1 \<and> b1 \<le> 0xBF then ((b0 - 0xC0) * 64 + (b1 - 0x80), 2) else (RuneError, 1))"

definition rune3 :: "nat \<Rightarrow> nat \<Rightarrow> nat \<Rightarrow> nat \<times> nat" where
  "rune3 b0 b1 b2 =
     (if (if b0 = 0xE0 then 0xA0 else 0x80) \<le> b1 \<and> b1 \<le> (if b0 = 0xED then 0x9F else 0xBF)
         \<and> 0x80 \<le> b2 \<and> b2 \<le> 0xBF
      then ((b0 - 0xE0) * 4096 + (b1 - 0x80) * 64 + (b2 - 0x80), 3) else (RuneError, 1))"

definition rune4 :: "nat \<Rightarrow> nat \<Rightarrow> nat \<Rightarrow> nat \<Rightarrow> nat \<times> nat" where
  "rune4 b0 b1 b2 b3 =
     (if (if b0 = 0xF0 then 0x90 else 0x80) \<le> b1 \<and> b1 \<le> (if b0 = 0xF4 then 0x8F else 0xBF)
         \<and> 0x80 \<le> b2 \<and> b2 \<le> 0xBF \<and> 0x80 \<le> b3 \<and> b3 \<le> 0xBF
      then ((b0 - 0xF0) * 262144 + (b1 - 0x80) * 4096 + (b2 - 0x80) * 64 + (b3 - 0x80), 4)
      else (RuneError, 1))"

text \<open>The \<open>i\<close>th byte, 0 (never a continuation byte) past the end.\<close>

definition byte_at :: "string \<Rightarrow> nat \<Rightarrow> nat" where
  "byte_at s i = (if i < length s then byte (s ! i) else 0)"

definition decode_rune :: "string \<Rightarrow> nat \<times> nat" where
  "decode_rune s =
     (if s = [] then (RuneError, 0)
      else
        let b0 = byte_at s 0; b1 = byte_at s 1; b2 = byte_at s 2; b3 = byte_at s 3
        in if b0 < 0x80 then (b0, 1)
           else if 0xC2 \<le> b0 \<and> b0 \<le> 0xDF then rune2 b0 b1
           else if 0xE0 \<le> b0 \<and> b0 \<le> 0xEF then rune3 b0 b1 b2
           else if 0xF0 \<le> b0 \<and> b0 \<le> 0xF4 then rune4 b0 b1 b2 b3
           else (RuneError, 1))"

lemma rune_widths:
  "1 \<le> snd (rune2 b0 b1)" "1 \<le> snd (rune3 b0 b1 b2)" "1 \<le> snd (rune4 b0 b1 b2 b3)"
  by (simp_all add: rune2_def rune3_def rune4_def)

lemma decode_rune_width: "s \<noteq> [] \<Longrightarrow> 1 \<le> snd (decode_rune s)"
  unfolding decode_rune_def Let_def using rune_widths by (simp only: if_False snd_conv split: if_split) simp

section \<open>Match\<close>

text \<open>\<open>None\<close> is \<open>ErrBadPattern\<close>.\<close>

fun scan_stars :: "string \<Rightarrow> bool \<times> string" where
  "scan_stars (c # r) = (if c = CHR ''*'' then (True, snd (scan_stars r)) else (False, c # r))"
| "scan_stars [] = (False, [])"

fun scan_lit :: "bool \<Rightarrow> string \<Rightarrow> string \<times> string" where
  "scan_lit inrange [] = ([], [])"
| "scan_lit inrange (c # r) =
     (if c = CHR 0x5C then
        (case r of [] \<Rightarrow> ([c], []) | d # r' \<Rightarrow> (let (a, b) = scan_lit inrange r' in (c # d # a, b)))
      else if c = CHR ''*'' \<and> \<not> inrange then ([], c # r)
      else (let (a, b) = scan_lit (if c = CHR ''['' then True else if c = CHR '']'' then False else inrange) r
            in (c # a, b)))"

definition scanChunk :: "string \<Rightarrow> bool \<times> string \<times> string" where
  "scanChunk pattern = (let (star, r) = scan_stars pattern; (chunk, rest) = scan_lit False r
     in (star, chunk, rest))"

definition getEsc :: "string \<Rightarrow> (nat \<times> string) option" where
  "getEsc chunk =
     (case chunk of
        [] \<Rightarrow> None
      | c # r \<Rightarrow>
          if c = CHR ''-'' \<or> c = CHR '']'' then None
          else
            let body = (if c = CHR 0x5C then r else chunk)
            in if body = [] then None
               else let (rn, n) = decode_rune body; rest = drop n body
                    in if rn = RuneError \<and> n = 1 then None
                       else if rest = [] then None
                       else Some (rn, rest))"

lemma getEsc_shorter: "getEsc chunk = Some (rn, rest) \<Longrightarrow> length rest < length chunk"
proof -
  assume g: "getEsc chunk = Some (rn, rest)"
  then obtain c r where chunk: "chunk = c # r" by (cases chunk) (auto simp: getEsc_def)
  let ?body = "if c = CHR 0x5C then r else chunk"
  obtain n where "rest = drop n ?body" "?body \<noteq> []" "1 \<le> n"
    using g chunk decode_rune_width [of ?body]
    by (auto simp: getEsc_def Let_def split: if_splits prod.splits)
  then have "length rest < length ?body" by (cases ?body) auto
  then show ?thesis using chunk by (auto split: if_splits)
qed

text \<open>The ranges of a class: whether \<open>r\<close> is in one, and the pattern after the bracket.\<close>

function match_ranges :: "nat \<Rightarrow> nat \<Rightarrow> bool \<Rightarrow> string \<Rightarrow> (bool \<times> string) option" where
  "match_ranges r nrange match chunk =
     (if chunk \<noteq> [] \<and> hd chunk = CHR '']'' \<and> nrange > 0 then Some (match, tl chunk)
      else (case getEsc chunk of
          None \<Rightarrow> None
        | Some (lo, chunk1) \<Rightarrow>
            (case (if hd chunk1 = CHR ''-'' then getEsc (tl chunk1) else Some (lo, chunk1)) of
               None \<Rightarrow> None
             | Some (hi, chunk2) \<Rightarrow>
                 match_ranges r (Suc nrange) (match \<or> (lo \<le> r \<and> r \<le> hi)) chunk2)))"
  by pat_completeness auto
termination
proof (relation "measure (\<lambda>(r, n, m, chunk). length chunk)", goal_cases)
  case 1
  then show ?case by simp
next
  case (2 r nrange match chunk a lo chunk1 b hi chunk2)
  have "getEsc chunk = Some (lo, chunk1)" using 2(2,3) by simp
  then have 1: "length chunk1 < length chunk" by (rule getEsc_shorter)
  have b: "(if hd chunk1 = CHR ''-'' then getEsc (tl chunk1) else Some (lo, chunk1)) = Some (hi, chunk2)"
    using 2(4,5) by simp
  show ?case
  proof (cases "hd chunk1 = CHR ''-''")
    case True
    then have "length chunk2 < length (tl chunk1)" using b by (intro getEsc_shorter) simp
    then show ?thesis using 1 by simp
  next
    case False
    then show ?thesis using 1 b by simp
  qed
qed

declare match_ranges.simps [simp del]

lemma match_ranges_shorter:
  "match_ranges r n m chunk = Some (m', rest) \<Longrightarrow> length rest < length chunk"
proof (induction r n m chunk rule: match_ranges.induct)
  case (1 r nrange match chunk)
  show ?case
  proof (cases "chunk \<noteq> [] \<and> hd chunk = CHR '']'' \<and> nrange > 0")
    case True
    then show ?thesis using "1.prems" by (cases chunk) (auto simp: match_ranges.simps [of r nrange match "_ # _"])
  next
    case False
    then obtain lo chunk1 hi chunk2 where
      a: "getEsc chunk = Some (lo, chunk1)" and
      b: "(if hd chunk1 = CHR ''-'' then getEsc (tl chunk1) else Some (lo, chunk1)) = Some (hi, chunk2)" and
      c: "match_ranges r (Suc nrange) (match \<or> (lo \<le> r \<and> r \<le> hi)) chunk2 = Some (m', rest)"
      using "1.prems" by (subst (asm) match_ranges.simps) (auto split: option.splits)
    have "length rest < length chunk2" using "1.IH" [OF False a refl b refl c] .
    moreover have "length chunk2 \<le> length chunk1"
      using b getEsc_shorter [of "tl chunk1" hi chunk2] by (auto split: if_splits)
    ultimately show ?thesis using getEsc_shorter [OF a] by linarith
  qed
qed

text \<open>
  \<open>None\<close>: bad pattern; \<open>Some None\<close>: no match; \<open>Some (Some t)\<close>: match, \<open>t\<close> left. After
  a failed comparison (\<open>failed\<close>) the chunk is only checked for syntax.
\<close>

function matchChunk :: "bool \<Rightarrow> string \<Rightarrow> string \<Rightarrow> string option option" where
  "matchChunk failed [] s = Some (if failed then None else Some s)"
| "matchChunk failed (c # chunk) s =
     (let failed = (failed \<or> s = [])
      in if c = CHR ''['' then
           (let (r, n) = (if failed then (0, 0) else decode_rune s);
                s' = drop n s;
                negated = (chunk \<noteq> [] \<and> hd chunk = CHR ''^'');
                chunk1 = (if negated then tl chunk else chunk)
            in (case match_ranges r 0 False chunk1 of
                  None \<Rightarrow> None
                | Some (match, chunk2) \<Rightarrow> matchChunk (failed \<or> match = negated) chunk2 s'))
         else if c = CHR ''?'' then
           (if failed then matchChunk True chunk s
            else matchChunk (hd s = CHR ''/'') chunk (drop (snd (decode_rune s)) s))
         else if c = CHR 0x5C then
           (case chunk of
              [] \<Rightarrow> None
            | d # chunk1 \<Rightarrow>
                if failed then matchChunk True chunk1 s else matchChunk (d \<noteq> hd s) chunk1 (tl s))
         else if failed then matchChunk True chunk s
         else matchChunk (c \<noteq> hd s) chunk (tl s))"
  by pat_completeness auto
termination
proof (relation "measure (\<lambda>(f, chunk, s). length chunk)", goal_cases)
  case 1
  then show ?case by simp
next
  case (2 failed c chunk s)
  then show ?case using match_ranges_shorter
    by (fastforce split: if_splits dest: match_ranges_shorter)
qed auto

fun star_match :: "string \<Rightarrow> bool \<Rightarrow> string \<Rightarrow> string option option" where
  "star_match chunk final [] = Some None"
| "star_match chunk final (c # r) =
     (if c = CHR ''/'' then Some None
      else (case matchChunk False chunk r of
          None \<Rightarrow> None
        | Some None \<Rightarrow> star_match chunk final r
        | Some (Some t) \<Rightarrow> if final \<and> t \<noteq> [] then star_match chunk final r else Some (Some t)))"

lemma scan_stars_le: "length (snd (scan_stars p)) \<le> length p"
  by (induction p) auto

lemma scan_stars_no_star: "\<not> fst (scan_stars p) \<Longrightarrow> snd (scan_stars p) = p"
  by (cases p) auto

lemma scan_lit_append: "scan_lit b p = (a, r) \<Longrightarrow> p = a @ r"
  by (induction b p arbitrary: a r rule: scan_lit.induct)
     (auto split: if_splits list.splits prod.splits)

lemma scan_stars_star: "fst (scan_stars p) \<Longrightarrow> length (snd (scan_stars p)) < length p"
  by (cases p) (auto simp: scan_stars_le le_imp_less_Suc split: if_splits)

lemma scanChunk_shorter [dest]:
  assumes "scanChunk p = (star, chunk, rest)" "p \<noteq> []"
  shows "length rest < length p"
proof -
  obtain b r where sr: "scan_stars p = (b, r)" by force
  then have sl: "scan_lit False r = (chunk, rest)" and b: "star = b"
    using assms by (auto simp: scanChunk_def split: prod.splits)
  have r: "r = chunk @ rest" using sl by (rule scan_lit_append)
  show ?thesis
  proof (cases b)
    case True
    then show ?thesis using scan_stars_star [of p] sr r by auto
  next
    case False
    then have rp: "r = p" using scan_stars_no_star [of p] sr by simp
    then obtain c q where p: "p = c # q" using assms by (cases p) auto
    then have "c \<noteq> CHR ''*''" using False sr by auto
    then have "chunk \<noteq> []" using sl rp p by (auto split: if_splits list.splits prod.splits)
    then show ?thesis using r rp by (cases chunk) auto
  qed
qed

lemma scanChunk_shorter' [dest]:
  "(star, chunk, rest) = scanChunk p \<Longrightarrow> p \<noteq> [] \<Longrightarrow> length rest < length p"
  using scanChunk_shorter by metis

function check_rest :: "string \<Rightarrow> bool option" where
  "check_rest pattern =
     (if pattern = [] then Some False
      else (case scanChunk pattern of (star, chunk, rest) \<Rightarrow>
        (case matchChunk False chunk [] of None \<Rightarrow> None | Some _ \<Rightarrow> check_rest rest)))"
  by pat_completeness auto
termination
  by (relation "measure length") auto

function path_match :: "string \<Rightarrow> string \<Rightarrow> bool option" where
  "path_match pattern name =
     (if pattern = [] then Some (name = [])
      else (case scanChunk pattern of (star, chunk, rest) \<Rightarrow>
        if star \<and> chunk = [] then Some (CHR ''/'' \<notin> set name)
        else
          (case matchChunk False chunk name of
             None \<Rightarrow> None
           | Some mr \<Rightarrow>
               if (case mr of None \<Rightarrow> False | Some t \<Rightarrow> t = [] \<or> rest \<noteq> [])
               then path_match rest (the mr)
               else if star then
                 (case star_match chunk (rest = []) name of
                    None \<Rightarrow> None
                  | Some (Some t) \<Rightarrow> path_match rest t
                  | Some None \<Rightarrow> check_rest rest)
               else check_rest rest)))"
  by pat_completeness auto
termination
  by (relation "measure (\<lambda>(p, n). length p)") auto

declare check_rest.simps [simp del] path_match.simps [simp del]

section \<open>Directories\<close>

text \<open>\<open>filepath.Dir\<close>.\<close>

definition file_dir :: "string \<Rightarrow> string" where
  "file_dir p = (case last_index (CHR ''/'') p of None \<Rightarrow> path_clean [] | Some i \<Rightarrow> path_clean (take (Suc i) p))"

end
