(* ===== verification/Fmt.thy ===== *)
theory Fmt
  imports GoStrings GoPath Canon
begin

text \<open>
  The verbs of \<open>fmt\<close> the messages of the program use: \<open>%d\<close> (decimal), \<open>%.4f\<close> (fixed-point)
  and \<open>%q\<close> (\<open>strconv.Quote\<close>). Whether a rune above ASCII is printable is a Unicode table outside
  the source, the parameter \<open>uni\<close> of \<open>go_quote\<close>.
\<close>

section \<open>Decimal\<close>

definition digit :: "nat \<Rightarrow> char" where
  "digit n = char_of (48 + n)"

fun show_nat :: "nat \<Rightarrow> string" where
  "show_nat n = (if n < 10 then [digit n] else show_nat (n div 10) @ [digit (n mod 10)])"

declare show_nat.simps [simp del]

definition show_int :: "int \<Rightarrow> string" where
  "show_int n = (if n < 0 then CHR ''-'' # show_nat (nat (- n)) else show_nat (nat n))"

definition undigit :: "char \<Rightarrow> nat" where
  "undigit c = of_char c - 48"

definition read_nat :: "string \<Rightarrow> nat" where
  "read_nat s = foldl (\<lambda>n c. 10 * n + undigit c) 0 s"

lemma undigit_digit: "n < 10 \<Longrightarrow> undigit (digit n) = n"
  by (simp add: undigit_def digit_def)

lemma read_show_nat [go_str]: "read_nat (show_nat n) = n"
proof (induction n rule: show_nat.induct)
  case (1 n)
  show ?case
  proof (cases "n < 10")
    case True
    then show ?thesis by (simp add: show_nat.simps [of n] read_nat_def undigit_digit)
  next
    case False
    then have "read_nat (show_nat n) = 10 * read_nat (show_nat (n div 10)) + undigit (digit (n mod 10))"
      by (simp add: show_nat.simps [of n] read_nat_def)
    then show ?thesis using 1 False by (simp add: undigit_digit)
  qed
qed

lemma show_nat_inj [simp]: "show_nat a = show_nat b \<longleftrightarrow> a = b"
  by (metis read_show_nat)

lemma show_nat_digits: "c \<in> set (show_nat n) \<Longrightarrow> 48 \<le> byte c \<and> byte c \<le> 57"
proof (induction n rule: show_nat.induct)
  case (1 n)
  have d: "k < 10 \<Longrightarrow> 48 \<le> byte (digit k) \<and> byte (digit k) \<le> 57" for k
    by (simp add: byte_def digit_def)
  show ?case
  proof (cases "n < 10")
    case True
    then show ?thesis using 1 d [of n] by (simp add: show_nat.simps [of n])
  next
    case False
    then have "c \<in> set (show_nat (n div 10)) \<or> c = digit (n mod 10)"
      using 1(2) by (auto simp: show_nat.simps [of n])
    then show ?thesis using 1(1) [OF False] d [of "n mod 10"] by auto
  qed
qed

section \<open>Fixed-point\<close>

text \<open>\<open>%.<k>f\<close>: the nearest decimal with \<open>k\<close> places, ties to even.\<close>

definition round_half_even :: "real \<Rightarrow> int" where
  "round_half_even x =
     (let f = \<lfloor>x\<rfloor>; d = x - real_of_int f
      in if d < 1 / 2 then f else if 1 / 2 < d then f + 1 else if even f then f else f + 1)"

definition pad_zeros :: "nat \<Rightarrow> string \<Rightarrow> string" where
  "pad_zeros k s = replicate (k - length s) (CHR ''0'') @ s"

definition show_fixed :: "nat \<Rightarrow> real \<Rightarrow> string" where
  "show_fixed k x =
     (let n = nat (round_half_even (\<bar>x\<bar> * 10 ^ k))
      in (if x < 0 then ''-'' else []) @ show_nat (n div 10 ^ k) @ ''.'' @ pad_zeros k (show_nat (n mod 10 ^ k)))"

section \<open>Quoting\<close>

definition is_print :: "(nat \<Rightarrow> bool) \<Rightarrow> nat \<Rightarrow> bool" where
  "is_print uni r = (if r < 0x80 then 0x20 \<le> r \<and> r < 0x7F else uni r)"

fun hex_n :: "nat \<Rightarrow> nat \<Rightarrow> string" where
  "hex_n 0 r = []"
| "hex_n (Suc k) r = hex_n k (r div 16) @ [hex_digit (r mod 16)]"

definition escaped_rune :: "(nat \<Rightarrow> bool) \<Rightarrow> nat \<Rightarrow> string \<Rightarrow> string" where
  "escaped_rune uni r bytes =
     (if r = 0x22 \<or> r = 0x5C then CHR 0x5C # bytes
      else if is_print uni r then bytes
      else if r = 7 then [CHR 0x5C, CHR ''a'']
      else if r = 8 then [CHR 0x5C, CHR ''b'']
      else if r = 12 then [CHR 0x5C, CHR ''f'']
      else if r = 10 then [CHR 0x5C, CHR ''n'']
      else if r = 13 then [CHR 0x5C, CHR ''r'']
      else if r = 9 then [CHR 0x5C, CHR ''t'']
      else if r = 11 then [CHR 0x5C, CHR ''v'']
      else if r < 0x20 \<or> r = 0x7F then [CHR 0x5C, CHR ''x''] @ hex_n 2 r
      else if r < 0x10000 then [CHR 0x5C, CHR ''u''] @ hex_n 4 r
      else [CHR 0x5C, CHR ''U''] @ hex_n 8 r)"

function quote_body :: "(nat \<Rightarrow> bool) \<Rightarrow> string \<Rightarrow> string" where
  "quote_body uni s =
     (if s = [] then []
      else let (r, n) = decode_rune s
           in (if r = RuneError \<and> n = 1 then [CHR 0x5C, CHR ''x''] @ hex_n 2 (byte (hd s))
               else escaped_rune uni r (take n s)) @ quote_body uni (drop n s))"
  by pat_completeness auto
termination
proof (relation "measure (\<lambda>(u, s). length s)", goal_cases)
  case (2 uni s x r n)
  then have "1 \<le> n" using decode_rune_width [of s] by (metis snd_conv)
  then show ?case using 2 by (cases s) auto
qed simp

declare quote_body.simps [simp del]

definition go_quote :: "(nat \<Rightarrow> bool) \<Rightarrow> string \<Rightarrow> string" where
  "go_quote uni s = CHR 0x22 # quote_body uni s @ [CHR 0x22]"

section \<open>Well-formed UTF-8\<close>

function utf8_valid :: "string \<Rightarrow> bool" where
  "utf8_valid s =
     (if s = [] then True
      else let (r, n) = decode_rune s in \<not> (r = RuneError \<and> n = 1) \<and> utf8_valid (drop n s))"
  by pat_completeness auto
termination
proof (relation "measure length", goal_cases)
  case (2 s x r n)
  then have "1 \<le> n" using decode_rune_width [of s] by (metis snd_conv)
  then show ?case using 2 by (cases s) auto
qed simp

declare utf8_valid.simps [simp del]

text \<open>A decoded rune is one of four shapes, told apart by its first byte.\<close>

lemma decode_rune_shapes:
  assumes "decode_rune s = (r, n)" "\<not> (r = RuneError \<and> n = 1)" "s \<noteq> []"
  obtains (one) "n = 1" "byte_at s 0 < 0x80" "r = byte_at s 0"
  | (two) "n = 2" "0xC2 \<le> byte_at s 0" "byte_at s 0 \<le> 0xDF" "rune2 (byte_at s 0) (byte_at s 1) = (r, n)"
      "0x80 \<le> byte_at s 1" "byte_at s 1 \<le> 0xBF"
  | (three) "n = 3" "0xE0 \<le> byte_at s 0" "byte_at s 0 \<le> 0xEF"
      "rune3 (byte_at s 0) (byte_at s 1) (byte_at s 2) = (r, n)"
      "0x80 \<le> byte_at s 1" "byte_at s 1 \<le> 0xBF" "0x80 \<le> byte_at s 2" "byte_at s 2 \<le> 0xBF"
  | (four) "n = 4" "0xF0 \<le> byte_at s 0" "byte_at s 0 \<le> 0xF4"
      "rune4 (byte_at s 0) (byte_at s 1) (byte_at s 2) (byte_at s 3) = (r, n)"
      "0x80 \<le> byte_at s 1" "byte_at s 1 \<le> 0xBF" "0x80 \<le> byte_at s 2" "byte_at s 2 \<le> 0xBF"
      "0x80 \<le> byte_at s 3" "byte_at s 3 \<le> 0xBF"
proof -
  have r2: "rune2 a b = (r, n) \<Longrightarrow> n = 2 \<and> 0x80 \<le> b \<and> b \<le> 0xBF" for a b
    using assms(2) by (auto simp: rune2_def split: if_split_asm)
  have r3: "rune3 a b c = (r, n) \<Longrightarrow> n = 3 \<and> 0x80 \<le> b \<and> b \<le> 0xBF \<and> 0x80 \<le> c \<and> c \<le> 0xBF" for a b c
    using assms(2) by (auto simp: rune3_def split: if_split_asm)
  have r4: "rune4 a b c d = (r, n) \<Longrightarrow> n = 4 \<and> 0x80 \<le> b \<and> b \<le> 0xBF \<and> 0x80 \<le> c \<and> c \<le> 0xBF
      \<and> 0x80 \<le> d \<and> d \<le> 0xBF" for a b c d
    using assms(2) by (auto simp: rune4_def split: if_split_asm)
  let ?b = "byte_at s 0"
  note d = assms(1) [unfolded decode_rune_def Let_def, simplified assms(3) if_False]
  consider "?b < 0x80" | "0x80 \<le> ?b" "0xC2 \<le> ?b" "?b \<le> 0xDF" | "0x80 \<le> ?b" "0xE0 \<le> ?b" "?b \<le> 0xEF"
    | "0x80 \<le> ?b" "0xF0 \<le> ?b" "?b \<le> 0xF4" | "0x80 \<le> ?b" "?b < 0xC2" | "0x80 \<le> ?b" "0xF4 < ?b"
    by linarith
  then show thesis
  proof cases
    case 1
    then have "(r, n) = (byte_at s 0, 1)" using d by (simp only: if_True)
    then show thesis using one 1 by blast
  next
    case 2
    then have "rune2 ?b (byte_at s 1) = (r, n)" using d by simp
    from two [OF _ _ _ this] r2 [OF this] 2 show thesis by simp
  next
    case 3
    then have "rune3 ?b (byte_at s 1) (byte_at s 2) = (r, n)" using d by simp
    from three [OF _ _ _ this] r3 [OF this] 3 show thesis by simp
  next
    case 4
    then have "rune4 ?b (byte_at s 1) (byte_at s 2) (byte_at s 3) = (r, n)" using d by simp
    from four [OF _ _ _ this] r4 [OF this] 4 show thesis by simp
  qed (use d assms(2) in auto)
qed

lemma byte_at_take: "j < k \<Longrightarrow> byte_at (take k s) j = byte_at s j"
  by (simp add: byte_at_def)

lemma decode_rune_parts:
  assumes "decode_rune s = (r, n)" "\<not> (r = RuneError \<and> n = 1)" "s \<noteq> []"
  shows "n \<le> length s" "0 < i \<Longrightarrow> i < n \<Longrightarrow> is_cont (s ! i)"
    "n \<le> k \<Longrightarrow> decode_rune (take k s) = (r, n)"
proof -
  have len: "0x80 \<le> byte_at s j \<Longrightarrow> j < length s" for j by (simp add: byte_at_def split: if_splits)
  have cont: "is_cont (s ! j)" if "0x80 \<le> byte_at s j" "byte_at s j \<le> 0xBF" for j
    using that len [OF that(1)] by (simp add: byte_at_def is_cont_def)
  have one_le: "1 \<le> length s" using assms(3) by (cases s) auto
  show "n \<le> length s"
    using assms by (rule decode_rune_shapes) (use one_le len [of 1] len [of 2] len [of 3] in linarith)+
  show "is_cont (s ! i)" if i: "0 < i" "i < n"
    using assms
  proof (rule decode_rune_shapes)
    assume "n = 2" and b: "0x80 \<le> byte_at s 1" "byte_at s 1 \<le> 0xBF"
    then have "i = 1" using i by simp
    then show ?thesis using cont [OF b] by simp
  next
    assume "n = 3" and b: "0x80 \<le> byte_at s 1" "byte_at s 1 \<le> 0xBF" "0x80 \<le> byte_at s 2" "byte_at s 2 \<le> 0xBF"
    then have "i = 1 \<or> i = 2" using i by auto
    then show ?thesis using cont [OF b(1,2)] cont [OF b(3,4)] by auto
  next
    assume "n = 4" and b: "0x80 \<le> byte_at s 1" "byte_at s 1 \<le> 0xBF" "0x80 \<le> byte_at s 2" "byte_at s 2 \<le> 0xBF"
      "0x80 \<le> byte_at s 3" "byte_at s 3 \<le> 0xBF"
    then have "i = 1 \<or> i = 2 \<or> i = 3" using i by auto
    then show ?thesis using cont [OF b(1,2)] cont [OF b(3,4)] cont [OF b(5,6)] by auto
  qed (use i in simp)
  show "decode_rune (take k s) = (r, n)" if k: "n \<le> k"
  proof -
    have n1: "1 \<le> n" using decode_rune_width [OF assms(3)] assms(1) by simp
    then have b0: "byte_at (take k s) 0 = byte_at s 0" using k by (intro byte_at_take) simp
    have k0: "0 < k" using n1 k by simp
    note simps = decode_rune_def k0 assms(3) b0 Let_def
    from assms show ?thesis
    proof (rule decode_rune_shapes)
      assume "n = 1" "byte_at s 0 < 0x80" "r = byte_at s 0"
      then show ?thesis by (simp add: simps)
    next
      assume "n = 2" "0xC2 \<le> byte_at s 0" "byte_at s 0 \<le> 0xDF" "rune2 (byte_at s 0) (byte_at s 1) = (r, n)"
      then show ?thesis using k byte_at_take [of 1 k s] by (simp add: simps)
    next
      assume "n = 3" "0xE0 \<le> byte_at s 0" "byte_at s 0 \<le> 0xEF"
        "rune3 (byte_at s 0) (byte_at s 1) (byte_at s 2) = (r, n)"
      then show ?thesis using k byte_at_take [of 1 k s] byte_at_take [of 2 k s] by (simp add: simps)
    next
      assume "n = 4" "0xF0 \<le> byte_at s 0" "byte_at s 0 \<le> 0xF4"
        "rune4 (byte_at s 0) (byte_at s 1) (byte_at s 2) (byte_at s 3) = (r, n)"
      then show ?thesis
        using k byte_at_take [of 1 k s] byte_at_take [of 2 k s] byte_at_take [of 3 k s] by (simp add: simps)
    qed
  qed
qed

text \<open>Cutting well-formed text where a rune starts leaves well-formed text.\<close>

lemma utf8_valid_cut:
  "utf8_valid s \<Longrightarrow> i < length s \<Longrightarrow> RuneStart (s ! i) \<Longrightarrow> utf8_valid (take i s)"
proof (induction "length s" arbitrary: s i rule: less_induct)
  case (less s)
  then have ne: "s \<noteq> []" by auto
  obtain r n where d: "decode_rune s = (r, n)" by fastforce
  have ok: "\<not> (r = RuneError \<and> n = 1)" and rest: "utf8_valid (drop n s)"
    using less.prems(1) ne d by (subst (asm) utf8_valid.simps; simp)+
  note parts = decode_rune_parts [OF d ok ne]
  have n1: "1 \<le> n" using decode_rune_width [OF ne] d by simp
  show ?case
  proof (cases "i = 0")
    case True
    then show ?thesis by (simp add: utf8_valid.simps)
  next
    case False
    have ni: "n \<le> i"
      using parts(2) [of i] less.prems(3) False by (force simp: RuneStart_def not_less [symmetric])
    have "utf8_valid (take (i - n) (drop n s))"
    proof (rule less.hyps)
      show "length (drop n s) < length s" using n1 ne by simp
      show "i - n < length (drop n s)" using ni less.prems(2) by simp
      show "RuneStart (drop n s ! (i - n))" using ni less.prems(2,3) by simp
    qed (fact rest)
    then have "utf8_valid (drop n (take i s))" by (simp add: drop_take)
    then show ?thesis
      using parts(3) [OF ni] ok by (subst utf8_valid.simps) simp
  qed
qed

text \<open>\<open>strings.TrimSpace\<close>: the UTF-8 encodings of the white-space runes, off both ends.\<close>

definition spaces :: "string list" where
  "spaces = map (\<lambda>n. [char_of n]) [9, 10, 11, 12, 13, 32 :: nat]
     @ map (map char_of) ([[0xC2, 0x85], [0xC2, 0xA0], [0xE1, 0x9A, 0x80], [0xE2, 0x80, 0xA8], [0xE2, 0x80, 0xA9],
         [0xE2, 0x80, 0xAF], [0xE2, 0x81, 0x9F], [0xE3, 0x80, 0x80]]
       @ map (\<lambda>n. [0xE2, 0x80, n]) [0x80..<0x8B :: nat])"

fun strip :: "string list \<Rightarrow> nat \<Rightarrow> string \<Rightarrow> string" where
  "strip ws 0 s = s"
| "strip ws (Suc fuel) s = (case find (has_prefix s) ws of None \<Rightarrow> s | Some w \<Rightarrow> strip ws fuel (drop (length w) s))"

definition trim_space :: "string \<Rightarrow> string" where
  "trim_space s = (let s = strip spaces (length s) s in rev (strip (map rev spaces) (length s) (rev s)))"

end
