(* ===== verification/Events.thy ===== *)
theory Events
  imports GoJson GoPath
begin

text \<open>
  \<open>internal/evaluation/events.go\<close> and \<open>metrics.go\<close>: the event stream of a run and the
  metrics folded from it. Counters are naturals (an \<open>int\<close> that counts events does not
  overflow); token sums and timestamps come from the data and are 64-bit words.
\<close>

section \<open>Events\<close>

record event =
  ev_type :: string
  ev_timestamp :: i64
  ev_session :: string
  ev_part :: "json option"

record tokens =
  tk_total :: i64
  tk_input :: i64
  tk_output :: i64
  tk_reasoning :: i64
  tk_cache_read :: i64
  tk_cache_write :: i64

record part =
  pt_type :: string
  pt_tool :: string
  pt_callid :: string
  pt_state :: "json option"
  pt_text :: string
  pt_reason :: string
  pt_tokens :: "tokens option"
  pt_cost :: "real option"
  pt_attempt :: "i64 option"

definition zero_event :: event where
  "zero_event = \<lparr>ev_type = [], ev_timestamp = 0, ev_session = [], ev_part = None\<rparr>"

definition zero_tokens :: tokens where
  "zero_tokens = \<lparr>tk_total = 0, tk_input = 0, tk_output = 0, tk_reasoning = 0,
     tk_cache_read = 0, tk_cache_write = 0\<rparr>"

definition zero_part :: part where
  "zero_part = \<lparr>pt_type = [], pt_tool = [], pt_callid = [], pt_state = None, pt_text = [],
     pt_reason = [], pt_tokens = None, pt_cost = None, pt_attempt = None\<rparr>"

definition dec_event :: "event dec" where
  "dec_event = dec_struct (\<lambda>k.
     if k = ''type'' then dec_field ev_type_update ev_type dec_string
     else if k = ''timestamp'' then dec_field ev_timestamp_update ev_timestamp dec_i64
     else if k = ''sessionid'' then dec_field ev_session_update ev_session dec_string
     else if k = ''part'' then dec_field ev_part_update ev_part dec_raw
     else skip_field)"

definition dec_tokens :: "tokens dec" where
  "dec_tokens = dec_struct (\<lambda>k.
     if k = ''total'' then dec_field tk_total_update tk_total dec_i64
     else if k = ''input'' then dec_field tk_input_update tk_input dec_i64
     else if k = ''output'' then dec_field tk_output_update tk_output dec_i64
     else if k = ''reasoning'' then dec_field tk_reasoning_update tk_reasoning dec_i64
     else if k = ''cache'' then dec_struct (\<lambda>k.
       if k = ''read'' then dec_field tk_cache_read_update tk_cache_read dec_i64
       else if k = ''write'' then dec_field tk_cache_write_update tk_cache_write dec_i64
       else skip_field)
     else skip_field)"

definition dec_part :: "part dec" where
  "dec_part = dec_struct (\<lambda>k.
     if k = ''type'' then dec_field pt_type_update pt_type dec_string
     else if k = ''tool'' then dec_field pt_tool_update pt_tool dec_string
     else if k = ''callid'' then dec_field pt_callid_update pt_callid dec_string
     else if k = ''state'' then dec_field pt_state_update pt_state dec_raw
     else if k = ''text'' then dec_field pt_text_update pt_text dec_string
     else if k = ''reason'' then dec_field pt_reason_update pt_reason dec_string
     else if k = ''tokens'' then dec_field pt_tokens_update pt_tokens (dec_ptr zero_tokens dec_tokens)
     else if k = ''cost'' then dec_field pt_cost_update pt_cost (dec_ptr 0 dec_float)
     else if k = ''attempt'' then dec_field pt_attempt_update pt_attempt (dec_ptr 0 dec_i64)
     else skip_field)"

datatype event_error = BadJson | EmptyType

definition ParseLine :: "(string \<Rightarrow> json option) \<Rightarrow> string \<Rightarrow> event_error + event" where
  "ParseLine parse line =
     (case parse line of
        None \<Rightarrow> Inl BadJson
      | Some j \<Rightarrow>
          (case unmarshal dec_event zero_event j of
             None \<Rightarrow> Inl BadJson
           | Some e \<Rightarrow> if ev_type e = [] then Inl EmptyType else Inr e))"

definition PartDecoded :: "event \<Rightarrow> part option" where
  "PartDecoded e =
     (case ev_part e of
        None \<Rightarrow> Some zero_part
      | Some j \<Rightarrow> unmarshal dec_part zero_part j)"

section \<open>Metrics\<close>

record metrics =
  Steps :: nat
  ToolCalls :: nat
  ToolCallsFailed :: nat
  SubagentCalls :: nat
  SkillLoads :: nat
  MCPCalls :: nat
  Retries :: nat
  Compactions :: nat
  ParseErrors :: nat
  ToolCallsByName :: "(string, nat) gomap"
  MCPCallsByServer :: "(string, nat) gomap"
  TokensInput :: i64
  TokensOutput :: i64
  TokensReasoning :: i64
  TokensCacheRead :: i64
  TokensCacheWrite :: i64
  TokensTotal :: i64
  Cost :: real
  Texts :: "string list"
  FinalAnswer :: string
  FirstEditMS :: i64
  ToolCallsBeforeFirstEdit :: nat
  RedundantReads :: nat
  VerificationCommands :: nat
  mcpServers :: "string list"
  readsSeen :: "string list"
  lastTimestamp :: i64

definition NewMetrics :: "string list \<Rightarrow> metrics" where
  "NewMetrics servers =
     \<lparr>Steps = 0, ToolCalls = 0, ToolCallsFailed = 0, SubagentCalls = 0, SkillLoads = 0, MCPCalls = 0,
      Retries = 0, Compactions = 0, ParseErrors = 0, ToolCallsByName = [],
      MCPCallsByServer = fold (\<lambda>s m. put s 0 m) servers [],
      TokensInput = 0, TokensOutput = 0, TokensReasoning = 0, TokensCacheRead = 0,
      TokensCacheWrite = 0, TokensTotal = 0, Cost = 0, Texts = [], FinalAnswer = [],
      FirstEditMS = 0, ToolCallsBeforeFirstEdit = 0, RedundantReads = 0, VerificationCommands = 0,
      mcpServers = servers, readsSeen = [], lastTimestamp = 0\<rparr>"

record tool_state =
  ts_status :: string
  ts_command :: string
  ts_filepath :: string

definition dec_tool_state :: "tool_state dec" where
  "dec_tool_state = dec_struct (\<lambda>k.
     if k = ''status'' then dec_field ts_status_update ts_status dec_string
     else if k = ''input'' then dec_struct (\<lambda>k.
       if k = ''command'' then dec_field ts_command_update ts_command dec_string
       else if k = ''filepath'' then dec_field ts_filepath_update ts_filepath dec_string
       else skip_field)
     else skip_field)"

definition zero_tool_state :: tool_state where
  "zero_tool_state = \<lparr>ts_status = [], ts_command = [], ts_filepath = []\<rparr>"

text \<open>\<open>len(p.State) > 0 && json.Unmarshal(p.State, &st) == nil\<close>.\<close>

definition part_state :: "part \<Rightarrow> tool_state option" where
  "part_state p =
     (case pt_state p of None \<Rightarrow> None | Some j \<Rightarrow> unmarshal dec_tool_state zero_tool_state j)"

definition editTools :: "string list" where
  "editTools = [''edit'', ''write'', ''patch'']"

definition verificationPattern :: "string list" where
  "verificationPattern = [''unittest'', ''pytest'', ''go test'', ''npm test'', ''cargo test'',
     ''make test'', ''lint'', ''golangci'']"

definition is_verification :: "string \<Rightarrow> bool" where
  "is_verification cmd = list_ex (\<lambda>w. ci_contains w cmd) verificationPattern"

fun first_server :: "string list \<Rightarrow> string \<Rightarrow> string option" where
  "first_server [] tool = None"
| "first_server (s # ss) tool = (if has_prefix tool (s @ ''_'') then Some s else first_server ss tool)"

text \<open>The statements of \<open>observeTool\<close>, in order.\<close>

definition note_edit :: "part \<Rightarrow> metrics \<Rightarrow> metrics" where
  "note_edit p m =
     (if FirstEditMS m = 0 then
        (if pt_tool p \<in> set editTools then m\<lparr>FirstEditMS := lastTimestamp m\<rparr>
         else m\<lparr>ToolCallsBeforeFirstEdit := ToolCallsBeforeFirstEdit m + 1\<rparr>)
      else m)"

definition note_read :: "part \<Rightarrow> metrics \<Rightarrow> metrics" where
  "note_read p m =
     (if pt_tool p = ''read'' then
        (case part_state p of
           None \<Rightarrow> m
         | Some st \<Rightarrow>
             if ts_filepath st \<noteq> [] then
               (let m = (if ts_filepath st \<in> set (readsSeen m)
                         then m\<lparr>RedundantReads := RedundantReads m + 1\<rparr> else m)
                in m\<lparr>readsSeen := List.insert (ts_filepath st) (readsSeen m)\<rparr>)
             else m)
      else m)"

definition note_command :: "part \<Rightarrow> metrics \<Rightarrow> metrics" where
  "note_command p m =
     (if pt_tool p = ''bash'' \<or> pt_tool p = ''shell'' then
        (case part_state p of
           None \<Rightarrow> m
         | Some st \<Rightarrow>
             if ts_command st \<noteq> [] \<and> is_verification (ts_command st)
             then m\<lparr>VerificationCommands := VerificationCommands m + 1\<rparr> else m)
      else m)"

definition note_failure :: "part \<Rightarrow> metrics \<Rightarrow> metrics" where
  "note_failure p m =
     (case part_state p of
        None \<Rightarrow> m
      | Some st \<Rightarrow>
          if ts_status st = ''error'' then m\<lparr>ToolCallsFailed := ToolCallsFailed m + 1\<rparr> else m)"

definition note_delegate :: "part \<Rightarrow> metrics \<Rightarrow> metrics" where
  "note_delegate p m =
     (if pt_tool p = ''task'' then m\<lparr>SubagentCalls := SubagentCalls m + 1\<rparr>
      else if pt_tool p = ''skill'' then m\<lparr>SkillLoads := SkillLoads m + 1\<rparr>
      else m)"

definition note_server :: "part \<Rightarrow> metrics \<Rightarrow> metrics" where
  "note_server p m =
     (case first_server (mcpServers m) (pt_tool p) of
        None \<Rightarrow> m
      | Some s \<Rightarrow> m\<lparr>MCPCalls := MCPCalls m + 1, MCPCallsByServer := modify s 0 Suc (MCPCallsByServer m)\<rparr>)"

definition observeTool :: "part \<Rightarrow> metrics \<Rightarrow> metrics" where
  "observeTool p m =
     (let m = m\<lparr>ToolCalls := ToolCalls m + 1, ToolCallsByName := modify (pt_tool p) 0 Suc (ToolCallsByName m)\<rparr>;
          m = note_edit p m;
          m = note_read p m;
          m = note_command p m;
          m = note_failure p m;
          m = note_delegate p m
      in note_server p m)"

definition observeStepFinish :: "part \<Rightarrow> metrics \<Rightarrow> metrics" where
  "observeStepFinish p m =
     (let m = (case pt_cost p of None \<Rightarrow> m | Some c \<Rightarrow> m\<lparr>Cost := Cost m + c\<rparr>)
      in (case pt_tokens p of
            None \<Rightarrow> m
          | Some t \<Rightarrow>
              if tk_total t = 0 then m
              else m\<lparr>TokensInput := TokensInput m + tk_input t,
                     TokensOutput := TokensOutput m + tk_output t,
                     TokensReasoning := TokensReasoning m + tk_reasoning t,
                     TokensCacheRead := TokensCacheRead m + tk_cache_read t,
                     TokensCacheWrite := TokensCacheWrite m + tk_cache_write t,
                     TokensTotal := TokensTotal m + tk_total t\<rparr>))"

definition observeText :: "part \<Rightarrow> metrics \<Rightarrow> metrics" where
  "observeText p m = m\<lparr>Texts := Texts m @ [pt_text p], FinalAnswer := pt_text p\<rparr>"

definition Observe :: "event \<Rightarrow> metrics \<Rightarrow> metrics" where
  "Observe e m =
     (let m = m\<lparr>lastTimestamp := ev_timestamp e\<rparr>
      in (case PartDecoded e of
            None \<Rightarrow> m\<lparr>ParseErrors := ParseErrors m + 1\<rparr>
          | Some p \<Rightarrow>
              (let m = (if ev_type e = ''step_start'' then m\<lparr>Steps := Steps m + 1\<rparr>
                        else if ev_type e = ''tool_use'' then observeTool p m
                        else if ev_type e = ''step_finish'' then observeStepFinish p m
                        else if ev_type e = ''text'' then observeText p m
                        else m)
               in if pt_type p = ''retry'' then m\<lparr>Retries := Retries m + 1\<rparr>
                  else if pt_type p = ''compaction'' then m\<lparr>Compactions := Compactions m + 1\<rparr>
                  else m)))"

definition ObserveLine :: "(string \<Rightarrow> json option) \<Rightarrow> string \<Rightarrow> metrics \<Rightarrow> metrics" where
  "ObserveLine parse line m =
     (case ParseLine parse line of
        Inl err \<Rightarrow> m\<lparr>ParseErrors := ParseErrors m + 1\<rparr>
      | Inr e \<Rightarrow> Observe e m)"

section \<open>The metric map\<close>

text \<open>
  \<open>sanitize\<close> keeps letters and digits of any script; \<open>uni\<close> is \<open>unicode.IsLetter ||
  unicode.IsDigit\<close> above ASCII, where its tables are not part of the source.
\<close>

definition alnum :: "(nat \<Rightarrow> bool) \<Rightarrow> nat \<Rightarrow> bool" where
  "alnum uni r = (if r < 0x80 then 48 \<le> r \<and> r \<le> 57 \<or> 65 \<le> r \<and> r \<le> 90 \<or> 97 \<le> r \<and> r \<le> 122
                  else r \<noteq> RuneError \<and> uni r)"

function sanitize :: "(nat \<Rightarrow> bool) \<Rightarrow> string \<Rightarrow> string" where
  "sanitize uni s =
     (if s = [] then []
      else let (r, n) = decode_rune s
           in (if alnum uni r then take n s else ''_'') @ sanitize uni (drop n s))"
  by pat_completeness auto
termination
proof (relation "measure (\<lambda>(u, s). length s)", goal_cases)
  case (2 uni s x r n)
  then have "1 \<le> n" using decode_rune_width [of s] by (metis snd_conv)
  then show ?case using 2 by (cases s) auto
qed simp

declare sanitize.simps [simp del]

definition SanitizeName :: "(nat \<Rightarrow> bool) \<Rightarrow> string \<Rightarrow> string" where
  "SanitizeName uni s = sanitize uni s"

abbreviation real_of_i64 :: "i64 \<Rightarrow> real" where
  "real_of_i64 x \<equiv> real_of_int (sint x)"

definition base_metrics :: "metrics \<Rightarrow> (string, real) gomap" where
  "base_metrics m =
     [(''steps'', real (Steps m)), (''tool_calls_total'', real (ToolCalls m)),
      (''tool_calls_failed'', real (ToolCallsFailed m)), (''subagent_calls'', real (SubagentCalls m)),
      (''skill_loads'', real (SkillLoads m)), (''mcp_calls'', real (MCPCalls m)),
      (''retries'', real (Retries m)), (''compactions'', real (Compactions m)),
      (''parse_errors'', real (ParseErrors m)), (''tokens_input'', real_of_i64 (TokensInput m)),
      (''tokens_output'', real_of_i64 (TokensOutput m)), (''tokens_reasoning'', real_of_i64 (TokensReasoning m)),
      (''tokens_cache_read'', real_of_i64 (TokensCacheRead m)),
      (''tokens_cache_write'', real_of_i64 (TokensCacheWrite m)),
      (''tokens_total'', real_of_i64 (TokensTotal m)), (''cost'', Cost m),
      (''tool_calls_before_first_edit'', real (ToolCallsBeforeFirstEdit m)),
      (''redundant_reads'', real (RedundantReads m)),
      (''verification_commands'', real (VerificationCommands m))]"

definition put_named :: "(nat \<Rightarrow> bool) \<Rightarrow> string \<Rightarrow> (string, nat) gomap \<Rightarrow> (string, real) gomap \<Rightarrow> (string, real) gomap" where
  "put_named uni prefix counts out =
     fold (\<lambda>(name, n) out. put (prefix @ sanitize uni name) (real n) out) counts out"

definition MetricsMap :: "(nat \<Rightarrow> bool) \<Rightarrow> metrics \<Rightarrow> (string, real) gomap" where
  "MetricsMap uni m =
     (let out = base_metrics m;
          out = (if 0 <s FirstEditMS m then put ''time_to_first_edit_ms'' (real_of_i64 (FirstEditMS m)) out
                 else out);
          out = put_named uni ''tool_calls_'' (ToolCallsByName m) out
      in put_named uni ''mcp_calls_'' (MCPCallsByServer m) out)"

section \<open>What each statement changes\<close>

lemma note_edit_frame [simp]:
  "Steps (note_edit p m) = Steps m" "ToolCalls (note_edit p m) = ToolCalls m"
  "ToolCallsFailed (note_edit p m) = ToolCallsFailed m" "SubagentCalls (note_edit p m) = SubagentCalls m"
  "SkillLoads (note_edit p m) = SkillLoads m" "MCPCalls (note_edit p m) = MCPCalls m"
  "Retries (note_edit p m) = Retries m" "Compactions (note_edit p m) = Compactions m"
  "ParseErrors (note_edit p m) = ParseErrors m" "ToolCallsByName (note_edit p m) = ToolCallsByName m"
  "MCPCallsByServer (note_edit p m) = MCPCallsByServer m" "TokensInput (note_edit p m) = TokensInput m"
  "TokensOutput (note_edit p m) = TokensOutput m" "TokensReasoning (note_edit p m) = TokensReasoning m"
  "TokensCacheRead (note_edit p m) = TokensCacheRead m"
  "TokensCacheWrite (note_edit p m) = TokensCacheWrite m" "TokensTotal (note_edit p m) = TokensTotal m"
  "Cost (note_edit p m) = Cost m" "Texts (note_edit p m) = Texts m"
  "FinalAnswer (note_edit p m) = FinalAnswer m" "RedundantReads (note_edit p m) = RedundantReads m"
  "VerificationCommands (note_edit p m) = VerificationCommands m"
  "mcpServers (note_edit p m) = mcpServers m" "readsSeen (note_edit p m) = readsSeen m"
  "lastTimestamp (note_edit p m) = lastTimestamp m"
  by (auto simp: note_edit_def Let_def split: option.splits)

lemma note_read_frame [simp]:
  "Steps (note_read p m) = Steps m" "ToolCalls (note_read p m) = ToolCalls m"
  "ToolCallsFailed (note_read p m) = ToolCallsFailed m" "SubagentCalls (note_read p m) = SubagentCalls m"
  "SkillLoads (note_read p m) = SkillLoads m" "MCPCalls (note_read p m) = MCPCalls m"
  "Retries (note_read p m) = Retries m" "Compactions (note_read p m) = Compactions m"
  "ParseErrors (note_read p m) = ParseErrors m" "ToolCallsByName (note_read p m) = ToolCallsByName m"
  "MCPCallsByServer (note_read p m) = MCPCallsByServer m" "TokensInput (note_read p m) = TokensInput m"
  "TokensOutput (note_read p m) = TokensOutput m" "TokensReasoning (note_read p m) = TokensReasoning m"
  "TokensCacheRead (note_read p m) = TokensCacheRead m"
  "TokensCacheWrite (note_read p m) = TokensCacheWrite m" "TokensTotal (note_read p m) = TokensTotal m"
  "Cost (note_read p m) = Cost m" "Texts (note_read p m) = Texts m"
  "FinalAnswer (note_read p m) = FinalAnswer m" "FirstEditMS (note_read p m) = FirstEditMS m"
  "ToolCallsBeforeFirstEdit (note_read p m) = ToolCallsBeforeFirstEdit m"
  "VerificationCommands (note_read p m) = VerificationCommands m"
  "mcpServers (note_read p m) = mcpServers m" "lastTimestamp (note_read p m) = lastTimestamp m"
  by (auto simp: note_read_def Let_def split: option.splits)

lemma note_command_frame [simp]:
  "Steps (note_command p m) = Steps m" "ToolCalls (note_command p m) = ToolCalls m"
  "ToolCallsFailed (note_command p m) = ToolCallsFailed m"
  "SubagentCalls (note_command p m) = SubagentCalls m" "SkillLoads (note_command p m) = SkillLoads m"
  "MCPCalls (note_command p m) = MCPCalls m" "Retries (note_command p m) = Retries m"
  "Compactions (note_command p m) = Compactions m" "ParseErrors (note_command p m) = ParseErrors m"
  "ToolCallsByName (note_command p m) = ToolCallsByName m"
  "MCPCallsByServer (note_command p m) = MCPCallsByServer m"
  "TokensInput (note_command p m) = TokensInput m" "TokensOutput (note_command p m) = TokensOutput m"
  "TokensReasoning (note_command p m) = TokensReasoning m"
  "TokensCacheRead (note_command p m) = TokensCacheRead m"
  "TokensCacheWrite (note_command p m) = TokensCacheWrite m"
  "TokensTotal (note_command p m) = TokensTotal m" "Cost (note_command p m) = Cost m"
  "Texts (note_command p m) = Texts m" "FinalAnswer (note_command p m) = FinalAnswer m"
  "FirstEditMS (note_command p m) = FirstEditMS m"
  "ToolCallsBeforeFirstEdit (note_command p m) = ToolCallsBeforeFirstEdit m"
  "RedundantReads (note_command p m) = RedundantReads m" "mcpServers (note_command p m) = mcpServers m"
  "readsSeen (note_command p m) = readsSeen m" "lastTimestamp (note_command p m) = lastTimestamp m"
  by (auto simp: note_command_def Let_def split: option.splits)

lemma note_failure_frame [simp]:
  "Steps (note_failure p m) = Steps m" "ToolCalls (note_failure p m) = ToolCalls m"
  "SubagentCalls (note_failure p m) = SubagentCalls m" "SkillLoads (note_failure p m) = SkillLoads m"
  "MCPCalls (note_failure p m) = MCPCalls m" "Retries (note_failure p m) = Retries m"
  "Compactions (note_failure p m) = Compactions m" "ParseErrors (note_failure p m) = ParseErrors m"
  "ToolCallsByName (note_failure p m) = ToolCallsByName m"
  "MCPCallsByServer (note_failure p m) = MCPCallsByServer m"
  "TokensInput (note_failure p m) = TokensInput m" "TokensOutput (note_failure p m) = TokensOutput m"
  "TokensReasoning (note_failure p m) = TokensReasoning m"
  "TokensCacheRead (note_failure p m) = TokensCacheRead m"
  "TokensCacheWrite (note_failure p m) = TokensCacheWrite m"
  "TokensTotal (note_failure p m) = TokensTotal m" "Cost (note_failure p m) = Cost m"
  "Texts (note_failure p m) = Texts m" "FinalAnswer (note_failure p m) = FinalAnswer m"
  "FirstEditMS (note_failure p m) = FirstEditMS m"
  "ToolCallsBeforeFirstEdit (note_failure p m) = ToolCallsBeforeFirstEdit m"
  "RedundantReads (note_failure p m) = RedundantReads m"
  "VerificationCommands (note_failure p m) = VerificationCommands m"
  "mcpServers (note_failure p m) = mcpServers m" "readsSeen (note_failure p m) = readsSeen m"
  "lastTimestamp (note_failure p m) = lastTimestamp m"
  by (auto simp: note_failure_def Let_def split: option.splits)

lemma note_delegate_frame [simp]:
  "Steps (note_delegate p m) = Steps m" "ToolCalls (note_delegate p m) = ToolCalls m"
  "ToolCallsFailed (note_delegate p m) = ToolCallsFailed m" "MCPCalls (note_delegate p m) = MCPCalls m"
  "Retries (note_delegate p m) = Retries m" "Compactions (note_delegate p m) = Compactions m"
  "ParseErrors (note_delegate p m) = ParseErrors m"
  "ToolCallsByName (note_delegate p m) = ToolCallsByName m"
  "MCPCallsByServer (note_delegate p m) = MCPCallsByServer m"
  "TokensInput (note_delegate p m) = TokensInput m" "TokensOutput (note_delegate p m) = TokensOutput m"
  "TokensReasoning (note_delegate p m) = TokensReasoning m"
  "TokensCacheRead (note_delegate p m) = TokensCacheRead m"
  "TokensCacheWrite (note_delegate p m) = TokensCacheWrite m"
  "TokensTotal (note_delegate p m) = TokensTotal m" "Cost (note_delegate p m) = Cost m"
  "Texts (note_delegate p m) = Texts m" "FinalAnswer (note_delegate p m) = FinalAnswer m"
  "FirstEditMS (note_delegate p m) = FirstEditMS m"
  "ToolCallsBeforeFirstEdit (note_delegate p m) = ToolCallsBeforeFirstEdit m"
  "RedundantReads (note_delegate p m) = RedundantReads m"
  "VerificationCommands (note_delegate p m) = VerificationCommands m"
  "mcpServers (note_delegate p m) = mcpServers m" "readsSeen (note_delegate p m) = readsSeen m"
  "lastTimestamp (note_delegate p m) = lastTimestamp m"
  by (auto simp: note_delegate_def Let_def split: option.splits)

lemma note_server_frame [simp]:
  "Steps (note_server p m) = Steps m" "ToolCalls (note_server p m) = ToolCalls m"
  "ToolCallsFailed (note_server p m) = ToolCallsFailed m"
  "SubagentCalls (note_server p m) = SubagentCalls m" "SkillLoads (note_server p m) = SkillLoads m"
  "Retries (note_server p m) = Retries m" "Compactions (note_server p m) = Compactions m"
  "ParseErrors (note_server p m) = ParseErrors m" "ToolCallsByName (note_server p m) = ToolCallsByName m"
  "TokensInput (note_server p m) = TokensInput m" "TokensOutput (note_server p m) = TokensOutput m"
  "TokensReasoning (note_server p m) = TokensReasoning m"
  "TokensCacheRead (note_server p m) = TokensCacheRead m"
  "TokensCacheWrite (note_server p m) = TokensCacheWrite m"
  "TokensTotal (note_server p m) = TokensTotal m" "Cost (note_server p m) = Cost m"
  "Texts (note_server p m) = Texts m" "FinalAnswer (note_server p m) = FinalAnswer m"
  "FirstEditMS (note_server p m) = FirstEditMS m"
  "ToolCallsBeforeFirstEdit (note_server p m) = ToolCallsBeforeFirstEdit m"
  "RedundantReads (note_server p m) = RedundantReads m"
  "VerificationCommands (note_server p m) = VerificationCommands m"
  "mcpServers (note_server p m) = mcpServers m" "readsSeen (note_server p m) = readsSeen m"
  "lastTimestamp (note_server p m) = lastTimestamp m"
  by (auto simp: note_server_def Let_def split: option.splits)

lemma observeStepFinish_frame [simp]:
  "Steps (observeStepFinish p m) = Steps m" "ToolCalls (observeStepFinish p m) = ToolCalls m"
  "ToolCallsFailed (observeStepFinish p m) = ToolCallsFailed m"
  "SubagentCalls (observeStepFinish p m) = SubagentCalls m"
  "SkillLoads (observeStepFinish p m) = SkillLoads m" "MCPCalls (observeStepFinish p m) = MCPCalls m"
  "Retries (observeStepFinish p m) = Retries m" "Compactions (observeStepFinish p m) = Compactions m"
  "ParseErrors (observeStepFinish p m) = ParseErrors m"
  "ToolCallsByName (observeStepFinish p m) = ToolCallsByName m"
  "MCPCallsByServer (observeStepFinish p m) = MCPCallsByServer m"
  "Texts (observeStepFinish p m) = Texts m" "FinalAnswer (observeStepFinish p m) = FinalAnswer m"
  "FirstEditMS (observeStepFinish p m) = FirstEditMS m"
  "ToolCallsBeforeFirstEdit (observeStepFinish p m) = ToolCallsBeforeFirstEdit m"
  "RedundantReads (observeStepFinish p m) = RedundantReads m"
  "VerificationCommands (observeStepFinish p m) = VerificationCommands m"
  "mcpServers (observeStepFinish p m) = mcpServers m" "readsSeen (observeStepFinish p m) = readsSeen m"
  "lastTimestamp (observeStepFinish p m) = lastTimestamp m"
  by (auto simp: observeStepFinish_def Let_def split: option.splits)

lemma observeText_fields [simp]:
  "ToolCalls (observeText p m) = ToolCalls m" "ToolCallsByName (observeText p m) = ToolCallsByName m"
  "TokensTotal (observeText p m) = TokensTotal m" "RedundantReads (observeText p m) = RedundantReads m"
  "readsSeen (observeText p m) = readsSeen m" "FirstEditMS (observeText p m) = FirstEditMS m"
  "ToolCallsBeforeFirstEdit (observeText p m) = ToolCallsBeforeFirstEdit m"
  "FinalAnswer (observeText p m) = pt_text p" "Texts (observeText p m) = Texts m @ [pt_text p]"
  "mcpServers (observeText p m) = mcpServers m" "MCPCalls (observeText p m) = MCPCalls m"
  "MCPCallsByServer (observeText p m) = MCPCallsByServer m"
  "ToolCallsFailed (observeText p m) = ToolCallsFailed m"
  "SubagentCalls (observeText p m) = SubagentCalls m" "SkillLoads (observeText p m) = SkillLoads m"
  "VerificationCommands (observeText p m) = VerificationCommands m"
  "Cost (observeText p m) = Cost m" "ParseErrors (observeText p m) = ParseErrors m"
  by (simp_all add: observeText_def)

section \<open>The metrics of a stream\<close>

definition is_tool :: "event \<Rightarrow> bool" where
  "is_tool e \<longleftrightarrow> ev_type e = ''tool_use'' \<and> PartDecoded e \<noteq> None"

definition tool_of :: "event \<Rightarrow> string" where
  "tool_of e = pt_tool (the (PartDecoded e))"

definition state_of :: "event \<Rightarrow> tool_state option" where
  "state_of e = part_state (the (PartDecoded e))"

definition observe_all :: "event list \<Rightarrow> metrics \<Rightarrow> metrics" where
  "observe_all es m = fold Observe es m"

lemma observe_all_simps [simp]:
  "observe_all [] m = m" "observe_all (e # es) m = observe_all es (Observe e m)"
  by (simp_all add: observe_all_def)

text \<open>Two steps that agree on the parts an observation reads.\<close>

lemma Observe_tool:
  "is_tool e \<Longrightarrow> \<exists>p. PartDecoded e = Some p \<and> tool_of e = pt_tool p \<and> state_of e = part_state p \<and>
    (Observe e m = observeTool p (m\<lparr>lastTimestamp := ev_timestamp e\<rparr>) \<or>
     Observe e m = (observeTool p (m\<lparr>lastTimestamp := ev_timestamp e\<rparr>))
        \<lparr>Retries := Retries (observeTool p (m\<lparr>lastTimestamp := ev_timestamp e\<rparr>)) + 1\<rparr> \<or>
     Observe e m = (observeTool p (m\<lparr>lastTimestamp := ev_timestamp e\<rparr>))
        \<lparr>Compactions := Compactions (observeTool p (m\<lparr>lastTimestamp := ev_timestamp e\<rparr>)) + 1\<rparr>)"
  by (auto simp: is_tool_def tool_of_def state_of_def Observe_def Let_def)

lemma observe_counts:
  "ToolCalls (Observe e m) = ToolCalls m + (if is_tool e then 1 else 0)"
  "ParseErrors (Observe e m) = ParseErrors m + (if PartDecoded e = None then 1 else 0)"
  by (auto simp: Observe_def Let_def is_tool_def observeTool_def split: option.splits)

lemma observe_by_name:
  "ToolCallsByName (Observe e m)
   = (if is_tool e then modify (tool_of e) 0 Suc (ToolCallsByName m) else ToolCallsByName m)"
  by (auto simp: Observe_def Let_def is_tool_def tool_of_def observeTool_def split: option.splits)

lemma observe_all_ToolCalls:
  "ToolCalls (observe_all es m) = ToolCalls m + length (filter is_tool es)"
  by (induction es arbitrary: m) (auto simp: observe_counts)

lemma observe_all_ParseErrors:
  "ParseErrors (observe_all es m) = ParseErrors m + length (filter (\<lambda>e. PartDecoded e = None) es)"
  by (induction es arbitrary: m) (auto simp: observe_counts)

lemma observe_all_by_name:
  "getd 0 (ToolCallsByName (observe_all es m)) t
   = getd 0 (ToolCallsByName m) t + length (filter (\<lambda>e. is_tool e \<and> tool_of e = t) es)"
  by (induction es arbitrary: m) (auto simp: observe_by_name go_map)

lemma observe_all_map_wf:
  "map_wf (ToolCallsByName m) \<Longrightarrow> map_wf (ToolCallsByName (observe_all es m))"
  by (induction es arbitrary: m) (auto simp: observe_by_name)

text \<open>Tokens: a finished step counts as a whole, and only when its total is not zero.\<close>

definition step_tokens :: "event \<Rightarrow> tokens" where
  "step_tokens e =
     (case PartDecoded e of
        Some p \<Rightarrow>
          (case pt_tokens p of
             Some t \<Rightarrow> if ev_type e = ''step_finish'' \<and> tk_total t \<noteq> 0 then t else zero_tokens
           | None \<Rightarrow> zero_tokens)
      | None \<Rightarrow> zero_tokens)"

lemma observe_tokens:
  "TokensTotal (Observe e m) = TokensTotal m + tk_total (step_tokens e)"
  "TokensInput (Observe e m) = TokensInput m + tk_input (step_tokens e)"
  "TokensOutput (Observe e m) = TokensOutput m + tk_output (step_tokens e)"
  by (auto simp: Observe_def Let_def step_tokens_def zero_tokens_def observeTool_def observeText_def
      observeStepFinish_def split: option.splits)

lemma observe_all_tokens:
  "TokensTotal (observe_all es m) = TokensTotal m + sum_list (map (tk_total \<circ> step_tokens) es)"
  "TokensInput (observe_all es m) = TokensInput m + sum_list (map (tk_input \<circ> step_tokens) es)"
  "TokensOutput (observe_all es m) = TokensOutput m + sum_list (map (tk_output \<circ> step_tokens) es)"
  by (induction es arbitrary: m) (auto simp: observe_tokens)

text \<open>Reads: the files named by the decodable read calls, in order.\<close>

definition part_reads :: "part \<Rightarrow> string list" where
  "part_reads p =
     (if pt_tool p = ''read'' then
        (case part_state p of
           Some st \<Rightarrow> if ts_filepath st \<noteq> [] then [ts_filepath st] else []
         | None \<Rightarrow> [])
      else [])"

definition read_files :: "event \<Rightarrow> string list" where
  "read_files e = (if is_tool e then part_reads (the (PartDecoded e)) else [])"

lemma note_read_reads:
  "readsSeen (note_read p m) = fold List.insert (part_reads p) (readsSeen m)"
  "RedundantReads (note_read p m) = RedundantReads m
     + (if part_reads p \<noteq> [] \<and> set (part_reads p) \<subseteq> set (readsSeen m) then 1 else 0)"
  by (cases "part_state p"; cases "pt_tool p = ''read''"; simp add: note_read_def part_reads_def Let_def)+

lemma observe_reads:
  "readsSeen (Observe e m) = fold List.insert (read_files e) (readsSeen m)"
  "RedundantReads (Observe e m) = RedundantReads m
     + (if read_files e \<noteq> [] \<and> set (read_files e) \<subseteq> set (readsSeen m) then 1 else 0)"
  by (simp_all add: Observe_def Let_def read_files_def is_tool_def note_read_reads observeTool_def
      split: option.split)

lemma read_files_cases: "read_files e = [] \<or> (\<exists>f. read_files e = [f])"
  by (simp add: read_files_def part_reads_def split: option.split)

lemma observe_all_reads:
  "distinct (readsSeen m) \<Longrightarrow>
   RedundantReads (observe_all es m) + card (set (readsSeen m) \<union> set (concat (map read_files es)))
   = RedundantReads m + card (set (readsSeen m)) + length (concat (map read_files es))"
proof (induction es arbitrary: m)
  case (Cons e es)
  let ?R = "set (concat (map read_files es))"
  have d: "distinct (readsSeen (Observe e m))"
    using Cons.prems read_files_cases [of e] by (auto simp: observe_reads)
  note IH = Cons.IH [OF d]
  show ?case
  proof (cases "read_files e")
    case Nil
    then show ?thesis using IH by (simp add: observe_reads)
  next
    case (Cons f fs)
    then have f: "read_files e = [f]" using read_files_cases [of e] by auto
    have s: "set (readsSeen (Observe e m)) = insert f (set (readsSeen m))"
      by (simp add: observe_reads f)
    have r: "RedundantReads (Observe e m) = RedundantReads m + (if f \<in> set (readsSeen m) then 1 else 0)"
      by (simp add: observe_reads f)
    show ?thesis using IH f s r by (auto simp: card_insert_if insert_absorb)
  qed
qed (simp add: Un_absorb)

text \<open>The first edit: the first edit call whose timestamp is not zero.\<close>

definition is_edit :: "event \<Rightarrow> bool" where
  "is_edit e \<longleftrightarrow> is_tool e \<and> tool_of e \<in> set editTools"

definition stamped_edit :: "event \<Rightarrow> bool" where
  "stamped_edit e \<longleftrightarrow> is_edit e \<and> ev_timestamp e \<noteq> 0"

lemma observe_edit:
  "FirstEditMS (Observe e m) = (if FirstEditMS m = 0 \<and> is_edit e then ev_timestamp e else FirstEditMS m)"
  "ToolCallsBeforeFirstEdit (Observe e m) = ToolCallsBeforeFirstEdit m
     + (if FirstEditMS m = 0 \<and> is_tool e \<and> \<not> is_edit e then 1 else 0)"
  by (auto simp: Observe_def Let_def is_edit_def is_tool_def tool_of_def observeTool_def note_edit_def
      split: option.splits)

lemma observe_all_edit_stuck:
  "FirstEditMS m \<noteq> 0 \<Longrightarrow>
   FirstEditMS (observe_all es m) = FirstEditMS m \<and>
   ToolCallsBeforeFirstEdit (observe_all es m) = ToolCallsBeforeFirstEdit m"
  by (induction es arbitrary: m) (auto simp: observe_edit)

lemma observe_all_edit:
  "FirstEditMS m = 0 \<Longrightarrow>
   FirstEditMS (observe_all es m)
     = (case find stamped_edit es of None \<Rightarrow> 0 | Some e \<Rightarrow> ev_timestamp e) \<and>
   ToolCallsBeforeFirstEdit (observe_all es m) = ToolCallsBeforeFirstEdit m
     + length (filter (\<lambda>e. is_tool e \<and> \<not> is_edit e) (takeWhile (\<lambda>e. \<not> stamped_edit e) es))"
proof (induction es arbitrary: m)
  case (Cons e es)
  show ?case
  proof (cases "stamped_edit e")
    case True
    then have "FirstEditMS (Observe e m) = ev_timestamp e" "ev_timestamp e \<noteq> 0" "is_edit e"
      using Cons.prems by (auto simp: observe_edit stamped_edit_def)
    then show ?thesis using True observe_all_edit_stuck [of "Observe e m" es] Cons.prems
      by (auto simp: observe_edit)
  next
    case False
    then have z: "FirstEditMS (Observe e m) = 0"
      using Cons.prems by (auto simp: observe_edit stamped_edit_def)
    show ?thesis using Cons.IH [OF z] False Cons.prems by (auto simp: observe_edit)
  qed
qed simp

section \<open>The invariant of the counters\<close>

definition metrics_inv :: "metrics \<Rightarrow> bool" where
  "metrics_inv m \<longleftrightarrow>
     map_wf (ToolCallsByName m) \<and> map_wf (MCPCallsByServer m) \<and> distinct (readsSeen m) \<and>
     ToolCalls m = sum_list (map snd (ToolCallsByName m)) \<and>
     MCPCalls m = sum_list (map snd (MCPCallsByServer m)) \<and>
     SubagentCalls m = getd 0 (ToolCallsByName m) ''task'' \<and>
     SkillLoads m = getd 0 (ToolCallsByName m) ''skill'' \<and>
     RedundantReads m + length (readsSeen m) \<le> getd 0 (ToolCallsByName m) ''read'' \<and>
     VerificationCommands m \<le> getd 0 (ToolCallsByName m) ''bash'' + getd 0 (ToolCallsByName m) ''shell'' \<and>
     ToolCallsFailed m \<le> ToolCalls m \<and> MCPCalls m \<le> ToolCalls m \<and>
     ToolCallsBeforeFirstEdit m \<le> ToolCalls m \<and>
     FinalAnswer m = (if Texts m = [] then [] else last (Texts m))"

lemma set_snd_put: "set (map snd (put k v m)) \<subseteq> insert v (set (map snd m))"
proof (induction m)
  case Nil
  show ?case by simp
next
  case (Cons a m)
  then show ?case by (cases a) auto
qed

lemma NewMetrics_servers:
  "map_wf m \<Longrightarrow> set (map snd m) \<subseteq> {0::nat} \<Longrightarrow>
   map_wf (fold (\<lambda>s m. put s 0 m) ss m) \<and> set (map snd (fold (\<lambda>s m. put s 0 m) ss m)) \<subseteq> {0}"
proof (induction ss arbitrary: m)
  case (Cons s ss)
  have "set (map snd (put s 0 m)) \<subseteq> {0}"
    using Cons.prems(2) set_snd_put [of s 0 m] by blast
  with Cons.IH [of "put s 0 m"] Cons.prems(1) show ?case by (simp del: set_map)
qed simp

lemma metrics_inv_New: "metrics_inv (NewMetrics servers)"
proof -
  let ?m = "fold (\<lambda>s m. put s (0::nat) m) servers []"
  have "map_wf ?m" "set (map snd ?m) \<subseteq> {0}"
    using NewMetrics_servers [of "[]" servers] by simp_all
  moreover have "sum_list (map snd ?m) = 0"
    using calculation(2) by (subst sum_list_eq_0_iff) blast
  ultimately show ?thesis by (simp add: metrics_inv_def NewMetrics_def getd_def)
qed

text \<open>One tool call: the invariant after each statement, given the counters of the first.\<close>

lemma note_read_bound:
  "RedundantReads m + length (readsSeen m) \<le> n \<Longrightarrow> distinct (readsSeen m) \<Longrightarrow>
   distinct (readsSeen (note_read p m)) \<and>
   RedundantReads (note_read p m) + length (readsSeen (note_read p m))
     \<le> n + (if pt_tool p = ''read'' then 1 else 0)"
  by (auto simp: note_read_def Let_def List.insert_def split: option.splits)

lemma note_bounds:
  "VerificationCommands (note_command p m)
     \<le> VerificationCommands m + (if pt_tool p = ''bash'' \<or> pt_tool p = ''shell'' then 1 else 0)"
  "ToolCallsFailed (note_failure p m) \<le> ToolCallsFailed m + 1"
  "ToolCallsBeforeFirstEdit (note_edit p m) \<le> ToolCallsBeforeFirstEdit m + 1"
  "SubagentCalls (note_delegate p m) = SubagentCalls m + (if pt_tool p = ''task'' then 1 else 0)"
  "SkillLoads (note_delegate p m) = SkillLoads m + (if pt_tool p = ''skill'' then 1 else 0)"
  "MCPCalls (note_server p m) \<le> MCPCalls m + 1"
  by (auto simp: note_command_def note_failure_def note_edit_def note_delegate_def note_server_def
      split: option.splits)

lemma note_server_sum:
  "map_wf (MCPCallsByServer m) \<Longrightarrow> MCPCalls m = sum_list (map snd (MCPCallsByServer m)) \<Longrightarrow>
   map_wf (MCPCallsByServer (note_server p m)) \<and>
   MCPCalls (note_server p m) = sum_list (map snd (MCPCallsByServer (note_server p m)))"
  by (auto simp: note_server_def sum_list_modify_Suc split: option.splits)

lemma metrics_inv_step:
  fixes m r :: metrics and t :: string
  assumes inv: "metrics_inv m"
    and nm: "ToolCallsByName r = modify t 0 Suc (ToolCallsByName m)" "ToolCalls r = Suc (ToolCalls m)"
    and sk: "SubagentCalls r = SubagentCalls m + (if t = ''task'' then 1 else 0)"
      "SkillLoads r = SkillLoads m + (if t = ''skill'' then 1 else 0)"
    and rd: "distinct (readsSeen r)" "RedundantReads r + length (readsSeen r)
        \<le> getd 0 (ToolCallsByName m) ''read'' + (if t = ''read'' then 1 else 0)"
    and vc: "VerificationCommands r \<le> VerificationCommands m + (if t = ''bash'' \<or> t = ''shell'' then 1 else 0)"
    and le: "ToolCallsFailed r \<le> ToolCallsFailed m + 1" "MCPCalls r \<le> MCPCalls m + 1"
      "ToolCallsBeforeFirstEdit r \<le> ToolCallsBeforeFirstEdit m + 1"
    and sv: "map_wf (MCPCallsByServer r)" "MCPCalls r = sum_list (map snd (MCPCallsByServer r))"
    and tx: "Texts r = Texts m" "FinalAnswer r = FinalAnswer m"
  shows "metrics_inv r"
proof -
  note I = inv [unfolded metrics_inv_def]
  have g: "getd 0 (ToolCallsByName r) x = getd 0 (ToolCallsByName m) x + (if x = t then 1 else 0)" for x
    by (simp add: nm getd_modify)
  have "VerificationCommands r \<le> getd 0 (ToolCallsByName r) ''bash'' + getd 0 (ToolCallsByName r) ''shell''"
    unfolding g using I vc by (cases "t = ''bash''"; cases "t = ''shell''") simp_all
  moreover have "SubagentCalls r = getd 0 (ToolCallsByName r) ''task''"
    "SkillLoads r = getd 0 (ToolCallsByName r) ''skill''"
    "RedundantReads r + length (readsSeen r) \<le> getd 0 (ToolCallsByName r) ''read''"
    using I sk rd(2) unfolding g eq_commute [of _ t] by simp_all
  moreover have "ToolCalls r = sum_list (map snd (ToolCallsByName r))" "map_wf (ToolCallsByName r)"
    using I by (simp_all add: nm sum_list_modify_Suc)
  moreover have "ToolCallsFailed r \<le> ToolCalls r" "MCPCalls r \<le> ToolCalls r"
    "ToolCallsBeforeFirstEdit r \<le> ToolCalls r"
    using I le nm(2) by linarith+
  ultimately show ?thesis
    using I rd(1) sv tx unfolding metrics_inv_def by (intro conjI) simp_all
qed

lemma metrics_inv_observeTool:
  assumes "metrics_inv m"
  shows "metrics_inv (observeTool p m)"
proof -
  define m0 where "m0 = m\<lparr>ToolCalls := ToolCalls m + 1, ToolCallsByName := modify (pt_tool p) 0 Suc (ToolCallsByName m)\<rparr>"
  define m1 where "m1 = note_edit p m0"
  define m2 where "m2 = note_read p m1"
  define m3 where "m3 = note_command p m2"
  define m4 where "m4 = note_failure p m3"
  define m5 where "m5 = note_delegate p m4"
  note defs = m1_def m2_def m3_def m4_def m5_def
  have eq: "observeTool p m = note_server p m5"
    by (simp add: observeTool_def Let_def m0_def defs)
  have rd: "distinct (readsSeen m2)
      \<and> RedundantReads m2 + length (readsSeen m2)
        \<le> getd 0 (ToolCallsByName m) ''read'' + (if pt_tool p = ''read'' then 1 else 0)"
    unfolding m2_def using assms by (intro note_read_bound) (auto simp: m1_def m0_def metrics_inv_def)
  have sv: "map_wf (MCPCallsByServer (note_server p m5)) \<and>
     MCPCalls (note_server p m5) = sum_list (map snd (MCPCallsByServer (note_server p m5)))"
    using assms by (intro note_server_sum) (auto simp: defs m0_def metrics_inv_def)
  show ?thesis unfolding eq
  proof (rule metrics_inv_step [OF assms, where t = "pt_tool p"])
    show "VerificationCommands (note_server p m5) \<le> VerificationCommands m
        + (if pt_tool p = ''bash'' \<or> pt_tool p = ''shell'' then 1 else 0)"
      using note_bounds(1) [of p m2] by (simp add: defs m0_def split del: if_split)
    show "ToolCallsFailed (note_server p m5) \<le> ToolCallsFailed m + 1"
      using note_bounds(2) [of p m3] by (simp add: defs m0_def)
    show "ToolCallsBeforeFirstEdit (note_server p m5) \<le> ToolCallsBeforeFirstEdit m + 1"
      using note_bounds(3) [of p m0] by (simp add: defs m0_def)
    show "MCPCalls (note_server p m5) \<le> MCPCalls m + 1"
      using note_bounds(6) [of p m5] by (simp add: defs m0_def)
    show "SubagentCalls (note_server p m5) = SubagentCalls m + (if pt_tool p = ''task'' then 1 else 0)"
      using note_bounds(4) [of p m4] by (simp add: defs m0_def)
    show "SkillLoads (note_server p m5) = SkillLoads m + (if pt_tool p = ''skill'' then 1 else 0)"
      using note_bounds(5) [of p m4] by (simp add: defs m0_def)
    show "distinct (readsSeen (note_server p m5))" using rd by (simp add: m5_def m4_def m3_def)
    show "RedundantReads (note_server p m5) + length (readsSeen (note_server p m5))
        \<le> getd 0 (ToolCallsByName m) ''read'' + (if pt_tool p = ''read'' then 1 else 0)"
      using rd by (simp add: m5_def m4_def m3_def)
  qed (use sv in \<open>simp_all add: defs m0_def\<close>)
qed

lemma metrics_inv_frame:
  "metrics_inv (m\<lparr>lastTimestamp := t\<rparr>) = metrics_inv m" "metrics_inv (m\<lparr>Retries := a\<rparr>) = metrics_inv m"
  "metrics_inv (m\<lparr>Compactions := a\<rparr>) = metrics_inv m" "metrics_inv (m\<lparr>ParseErrors := a\<rparr>) = metrics_inv m"
  "metrics_inv (m\<lparr>Steps := a\<rparr>) = metrics_inv m" "metrics_inv (observeStepFinish p m) = metrics_inv m"
  by (simp_all add: metrics_inv_def)

lemma metrics_inv_observeText: "metrics_inv m \<Longrightarrow> metrics_inv (observeText p m)"
  by (simp add: metrics_inv_def)

lemma metrics_inv_Observe: "metrics_inv m \<Longrightarrow> metrics_inv (Observe e m)"
  by (auto simp: Observe_def Let_def metrics_inv_frame metrics_inv_observeTool metrics_inv_observeText
      split: option.splits)

lemma metrics_inv_ObserveLine: "metrics_inv m \<Longrightarrow> metrics_inv (ObserveLine parse line m)"
  by (auto simp: ObserveLine_def metrics_inv_frame metrics_inv_Observe split: sum.splits)

lemma metrics_inv_lines: "metrics_inv m \<Longrightarrow> metrics_inv (fold (ObserveLine parse) lines m)"
  by (induction lines arbitrary: m) (auto intro: metrics_inv_ObserveLine)

section \<open>Properties\<close>

text \<open>C29: after any sequence of lines, well-formed or not, the counters are consistent: the per-tool and
  per-server counts sum to the totals, subagent calls and skill loads are the calls of those tools,
  the part counts are bounded by the totals, no file is recorded twice, and the final answer is the
  last text.\<close>

theorem metrics_consistent: "metrics_inv (fold (ObserveLine parse) lines (NewMetrics servers))"
  by (rule metrics_inv_lines [OF metrics_inv_New])

text \<open>Over a list of events the metrics count exactly the decodable tool events, in total and by tool
  name, and the undecodable parts, and sum the tokens of the finished steps with a non-zero total.\<close>

theorem observe_all_totals:
  "let m = observe_all es (NewMetrics servers) in
     ToolCalls m = length (filter is_tool es) \<and>
     getd 0 (ToolCallsByName m) t = length (filter (\<lambda>e. is_tool e \<and> tool_of e = t) es) \<and>
     ParseErrors m = length (filter (\<lambda>e. PartDecoded e = None) es) \<and>
     TokensTotal m = sum_list (map (tk_total \<circ> step_tokens) es)"
  by (simp add: observe_all_ToolCalls observe_all_ParseErrors observe_all_by_name observe_all_tokens NewMetrics_def)

text \<open>The redundant reads are the reads beyond the first of each file, and the first edit is the first
  edit call with a non-zero timestamp, the calls before it being counted up to there.\<close>

theorem observe_all_process:
  "let m = observe_all es (NewMetrics servers); reads = concat (map read_files es) in
     RedundantReads m = length reads - card (set reads) \<and>
     FirstEditMS m = (case find stamped_edit es of None \<Rightarrow> 0 | Some e \<Rightarrow> ev_timestamp e) \<and>
     ToolCallsBeforeFirstEdit m =
       length (filter (\<lambda>e. is_tool e \<and> \<not> is_edit e) (takeWhile (\<lambda>e. \<not> stamped_edit e) es))"
  using observe_all_reads [of "NewMetrics servers" es] observe_all_edit [of "NewMetrics servers" es]
  by (simp add: NewMetrics_def Let_def)

end
