(* ===== verification/Glob.thy ===== *)
theory Glob
  imports GoPath
begin

text \<open>
  Path globs and diff counters. The program has two of each: \<open>internal/evaluation/context.go\<close>
  (validators; here \<open>ev_\<close>) and \<open>internal/runner/artifacts.go\<close> (allowed changes and derived
  metrics; here \<open>rn_\<close>). Both matchers are shown to decide the same language, given
  declaratively by \<open>glob_spec\<close>.
\<close>

section \<open>The language of a glob\<close>

text \<open>
  A path is matched when it can be cut into one piece per glob segment: any run of segments
  for \<open>**\<close>, exactly one segment that matches for any other.
\<close>

definition piece_ok :: "(string \<Rightarrow> string \<Rightarrow> bool) \<Rightarrow> string \<Rightarrow> string list \<Rightarrow> bool" where
  "piece_ok seg g ps \<longleftrightarrow> (if g = ''**'' then True else (\<exists>s. ps = [s] \<and> seg g s))"

definition glob_spec :: "(string \<Rightarrow> string \<Rightarrow> bool) \<Rightarrow> string list \<Rightarrow> string list \<Rightarrow> bool" where
  "glob_spec seg glob p \<longleftrightarrow> (\<exists>pss. concat pss = p \<and> list_all2 (piece_ok seg) glob pss)"

lemma glob_spec_Nil [simp]: "glob_spec seg [] p \<longleftrightarrow> p = []"
  by (auto simp: glob_spec_def)

lemma glob_spec_Cons:
  "glob_spec seg (g # gs) p \<longleftrightarrow> (\<exists>ps q. p = ps @ q \<and> piece_ok seg g ps \<and> glob_spec seg gs q)"
proof
  assume "glob_spec seg (g # gs) p"
  then show "\<exists>ps q. p = ps @ q \<and> piece_ok seg g ps \<and> glob_spec seg gs q"
    unfolding glob_spec_def by (clarsimp simp: list_all2_Cons1) blast
next
  assume "\<exists>ps q. p = ps @ q \<and> piece_ok seg g ps \<and> glob_spec seg gs q"
  then obtain ps pss where "p = ps @ concat pss" "piece_ok seg g ps" "list_all2 (piece_ok seg) gs pss"
    by (auto simp: glob_spec_def)
  then show "glob_spec seg (g # gs) p"
    unfolding glob_spec_def by (intro exI [of _ "ps # pss"]) simp
qed

lemma glob_spec_star:
  "glob_spec seg (''**'' # gs) p \<longleftrightarrow> (\<exists>i\<le>length p. glob_spec seg gs (drop i p))"
proof
  assume "glob_spec seg (''**'' # gs) p"
  then obtain ps q where "p = ps @ q" "glob_spec seg gs q" by (auto simp: glob_spec_Cons)
  then show "\<exists>i\<le>length p. glob_spec seg gs (drop i p)" by (intro exI [of _ "length ps"]) simp
next
  assume "\<exists>i\<le>length p. glob_spec seg gs (drop i p)"
  then obtain i where "glob_spec seg gs (drop i p)" by blast
  then show "glob_spec seg (''**'' # gs) p"
    by (simp add: glob_spec_Cons piece_ok_def) (metis append_take_drop_id)
qed

lemma glob_spec_seg:
  "g \<noteq> ''**'' \<Longrightarrow> glob_spec seg (g # gs) p
    \<longleftrightarrow> (case p of [] \<Rightarrow> False | s # q \<Rightarrow> seg g s \<and> glob_spec seg gs q)"
  by (cases p) (auto simp: glob_spec_Cons piece_ok_def intro: exI [of _ "[_]"])

lemma glob_spec_star_star:
  "glob_spec seg (''**'' # ''**'' # gs) p \<longleftrightarrow> glob_spec seg (''**'' # gs) p"
proof -
  have "(\<exists>i\<le>length p. \<exists>j\<le>length p - i. glob_spec seg gs (drop (j + i) p))
      \<longleftrightarrow> (\<exists>i\<le>length p. glob_spec seg gs (drop i p))"
  proof
    assume "\<exists>i\<le>length p. \<exists>j\<le>length p - i. glob_spec seg gs (drop (j + i) p)"
    then obtain i j where "i \<le> length p" "j \<le> length p - i" "glob_spec seg gs (drop (j + i) p)" by blast
    then show "\<exists>i\<le>length p. glob_spec seg gs (drop i p)" by (intro exI [of _ "j + i"]) auto
  qed force
  then show ?thesis by (simp add: glob_spec_star add.commute)
qed

lemma glob_spec_collapse:
  "glob_spec seg (''**'' # gs) p
   \<longleftrightarrow> glob_spec seg (''**'' # dropWhile (\<lambda>g. g = ''**'') gs) p"
  by (induction gs) (auto simp: glob_spec_star_star)

lemma glob_spec_star_only: "glob_spec seg [''**''] p"
  by (auto simp: glob_spec_star)

section \<open>The validators' matcher\<close>

definition seg_match :: "string \<Rightarrow> string \<Rightarrow> bool" where
  "seg_match g s \<longleftrightarrow> path_match g s = Some True"

fun ev_matchSegments :: "string list \<Rightarrow> string list \<Rightarrow> bool" where
  "ev_matchSegments [] p = (p = [])"
| "ev_matchSegments (g # gs) p =
     (if g = ''**'' then
        (if gs = [] then True
         else list_ex (\<lambda>i. ev_matchSegments gs (drop i p)) [0..<Suc (length p)])
      else (case p of
          [] \<Rightarrow> False
        | s # ps \<Rightarrow> if path_match g s \<noteq> Some True then False else ev_matchSegments gs ps))"

definition ev_matchGlob :: "string \<Rightarrow> string \<Rightarrow> bool" where
  "ev_matchGlob glob p =
     ev_matchSegments (split_on (CHR ''/'') (path_clean glob)) (split_on (CHR ''/'') (path_clean p))"

fun matching :: "string \<Rightarrow> string list \<Rightarrow> string list" where
  "matching glob [] = []"
| "matching glob (p # ps) = (if ev_matchGlob glob p then p # matching glob ps else matching glob ps)"

definition anyMatch :: "string \<Rightarrow> string list \<Rightarrow> bool" where
  "anyMatch glob paths = (length (matching glob paths) > 0)"

lemma ev_matchSegments_spec: "ev_matchSegments gs p \<longleftrightarrow> glob_spec seg_match gs p"
proof (induction gs arbitrary: p)
  case (Cons g gs)
  show ?case
  proof (cases "g = ''**''")
    case True
    show ?thesis
    proof (cases "gs = []")
      case True
      then show ?thesis using \<open>g = ''**''\<close> by (simp add: glob_spec_star_only)
    next
      case False
      then have "ev_matchSegments (g # gs) p \<longleftrightarrow> (\<exists>i\<le>length p. ev_matchSegments gs (drop i p))"
        using True by (auto simp: list_ex_iff less_Suc_eq_le simp del: upt_Suc)
      then show ?thesis using True Cons.IH by (simp add: glob_spec_star)
    qed
  next
    case False
    then show ?thesis using Cons.IH
      by (cases p) (auto simp: glob_spec_seg seg_match_def)
  qed
qed simp

lemma matching_filter: "matching glob ps = filter (ev_matchGlob glob) ps"
  by (induction ps) auto

lemma anyMatch_iff: "anyMatch glob ps \<longleftrightarrow> (\<exists>p\<in>set ps. ev_matchGlob glob p)"
  by (auto simp: anyMatch_def matching_filter filter_empty_conv)

section \<open>The runner's matcher\<close>

function rn_matchSegments :: "string list \<Rightarrow> string list \<Rightarrow> bool" where
  "rn_matchSegments [] seg = (seg = [])"
| "rn_matchSegments (g # pat) seg =
     (if g = ''**'' then
        (let pat = dropWhile (\<lambda>g. g = ''**'') pat
         in if pat = [] then True
            else list_ex (\<lambda>i. rn_matchSegments pat (drop i seg)) [0..<Suc (length seg)])
      else (case seg of
          [] \<Rightarrow> False
        | s # ss \<Rightarrow> if path_match g s \<noteq> Some True then False else rn_matchSegments pat ss))"
  by pat_completeness auto
termination
  by (relation "measure (\<lambda>(pat, seg). length pat)")
     (auto simp: le_imp_less_Suc length_dropWhile_le)

definition rn_matchGlob :: "string \<Rightarrow> string \<Rightarrow> bool" where
  "rn_matchGlob pattern name = rn_matchSegments (split_on (CHR ''/'') pattern) (split_on (CHR ''/'') name)"

fun matchAny :: "string list \<Rightarrow> string \<Rightarrow> bool" where
  "matchAny [] name = False"
| "matchAny (g # globs) name = (if rn_matchGlob g name then True else matchAny globs name)"

definition unexpectedFiles :: "string list \<Rightarrow> string list \<Rightarrow> string list" where
  "unexpectedFiles allow changed = filter (\<lambda>p. \<not> matchAny allow p) changed"

lemma rn_matchSegments_spec: "rn_matchSegments gs p \<longleftrightarrow> glob_spec seg_match gs p"
proof (induction gs p rule: rn_matchSegments.induct)
  case (2 g pat seg)
  let ?pat = "dropWhile (\<lambda>g. g = ''**'') pat"
  show ?case
  proof (cases "g = ''**''")
    case True
    show ?thesis
    proof (cases "?pat = []")
      case True
      then show ?thesis
        using \<open>g = ''**''\<close> glob_spec_collapse [of seg_match pat seg]
        by (simp add: glob_spec_star_only del: dropWhile_eq_Nil_conv)
    next
      case False
      have "rn_matchSegments (g # pat) seg \<longleftrightarrow> (\<exists>i\<le>length seg. rn_matchSegments ?pat (drop i seg))"
        using True False by (auto simp: list_ex_iff less_Suc_eq_le simp del: upt_Suc)
      also have "\<dots> \<longleftrightarrow> (\<exists>i\<le>length seg. glob_spec seg_match ?pat (drop i seg))"
        using 2(1) [OF True refl False] by (auto simp: less_Suc_eq_le simp del: upt_Suc)
      finally show ?thesis
        using True glob_spec_collapse [of seg_match pat seg] by (simp add: glob_spec_star)
    qed
  next
    case False
    then show ?thesis using 2(2) [OF False]
      by (cases seg) (auto simp: glob_spec_seg seg_match_def)
  qed
qed simp

lemma matchSegments_agree: "ev_matchSegments gs p = rn_matchSegments gs p"
  by (simp add: ev_matchSegments_spec rn_matchSegments_spec)

lemma matchGlob_agree:
  "path_clean glob = glob \<Longrightarrow> path_clean p = p \<Longrightarrow> ev_matchGlob glob p = rn_matchGlob glob p"
  by (simp add: ev_matchGlob_def rn_matchGlob_def matchSegments_agree)

lemma matchAny_iff: "matchAny globs name \<longleftrightarrow> (\<exists>g\<in>set globs. rn_matchGlob g name)"
  by (induction globs) auto

section \<open>Diff line counts\<close>

fun count_lines :: "string list \<Rightarrow> nat \<Rightarrow> nat \<Rightarrow> nat \<times> nat" where
  "count_lines [] added removed = (added, removed)"
| "count_lines (line # rest) added removed =
     (if has_prefix line ''+++ '' \<or> has_prefix line ''--- '' then count_lines rest added removed
      else if has_prefix line ''+'' then count_lines rest (added + 1) removed
      else if has_prefix line ''-'' then count_lines rest added (removed + 1)
      else count_lines rest added removed)"

definition DiffLineCounts :: "string \<Rightarrow> nat \<times> nat" where
  "DiffLineCounts diff = count_lines (split_on (CHR 0x0A) diff) 0 0"

definition diffLineCounts :: "string \<Rightarrow> nat \<times> nat" where
  "diffLineCounts diff = count_lines (split_on (CHR 0x0A) diff) 0 0"

text \<open>A line of a unified diff, and its text.\<close>

datatype diff_line = Added string | Removed string | Context string | OldFile string | NewFile string | Meta string

fun render_line :: "diff_line \<Rightarrow> string" where
  "render_line (Added s) = ''+'' @ s"
| "render_line (Removed s) = ''-'' @ s"
| "render_line (Context s) = '' '' @ s"
| "render_line (OldFile s) = ''--- '' @ s"
| "render_line (NewFile s) = ''+++ '' @ s"
| "render_line (Meta s) = s"

fun meta_ok :: "diff_line \<Rightarrow> bool" where
  "meta_ok (Meta s) = (\<not> has_prefix s ''+'' \<and> \<not> has_prefix s ''-'')"
| "meta_ok _ = True"

fun counted_add :: "diff_line \<Rightarrow> bool" where
  "counted_add (Added s) = (\<not> has_prefix s ''++ '')"
| "counted_add _ = False"

fun counted_del :: "diff_line \<Rightarrow> bool" where
  "counted_del (Removed s) = (\<not> has_prefix s ''-- '')"
| "counted_del _ = False"

lemma count_lines_render:
  "list_all meta_ok ls \<Longrightarrow>
   count_lines (map render_line ls) a r
   = (a + length (filter counted_add ls), r + length (filter counted_del ls))"
proof (induction ls arbitrary: a r)
  case (Cons l ls)
  then show ?case by (cases l) auto
qed simp

lemma DiffLineCounts_render:
  assumes "ls \<noteq> []" "list_all meta_ok ls"
    and "\<And>l. l \<in> set ls \<Longrightarrow> CHR 0x0A \<notin> set (render_line l)"
  shows "DiffLineCounts (join [CHR 0x0A] (map render_line ls))
    = (length (filter counted_add ls), length (filter counted_del ls))"
proof -
  have "split_on (CHR 0x0A) (join [CHR 0x0A] (map render_line ls)) = map render_line ls"
    using assms by (intro split_on_join) auto
  then show ?thesis by (simp add: DiffLineCounts_def count_lines_render assms)
qed

section \<open>Properties\<close>


text \<open>On the text of a unified diff both line counters count the added and the removed lines, except an
  added line that starts with \<open>++\<close> and a space and a removed one that starts with \<open>--\<close> and a space,
  which they take for file headers.\<close>

theorem DiffLineCounts_exact:
  assumes "ls \<noteq> []" "list_all meta_ok ls"
    and "\<And>l. l \<in> set ls \<Longrightarrow> CHR 0x0A \<notin> set (render_line l)"
  shows "DiffLineCounts (join [CHR 0x0A] (map render_line ls))
      = (length (filter counted_add ls), length (filter counted_del ls)) \<and>
    diffLineCounts (join [CHR 0x0A] (map render_line ls))
      = (length (filter counted_add ls), length (filter counted_del ls))"
  using DiffLineCounts_render [OF assms] by (simp add: DiffLineCounts_def diffLineCounts_def)

theorem DiffLineCounts_exact_witness:
  "DiffLineCounts (join [CHR 0x0A] (map render_line [OldFile ''a/f'', NewFile ''b/f'', Added ''x'', Removed ''-- y'']))
   = (1, 0)"
proof -
  let ?ls = "[OldFile ''a/f'', NewFile ''b/f'', Added ''x'', Removed ''-- y'']"
  have "\<And>l. l \<in> set ?ls \<Longrightarrow> CHR 0x0A \<notin> set (render_line l)" by auto
  from DiffLineCounts_exact [of ?ls, OF _ _ this]
  have "DiffLineCounts (join [CHR 0x0A] (map render_line ?ls)) = (length (filter counted_add ?ls), length (filter counted_del ?ls))"
    by simp
  then show ?thesis by simp
qed

end
