(* ===== verification/Validators.thy ===== *)
theory Validators
  imports Events Glob Fmt
begin

text \<open>
  \<open>internal/evaluation/validator.go\<close> and \<open>context.go\<close>: the five kinds of task validators
  and their dispatch. Parameters: \<open>compile\<close> is \<open>regexp.Compile\<close> (the matcher of a
  pattern, or the error text), \<open>uni\<close> the printable runes above ASCII (for \<open>%q\<close>),
  \<open>proc\<close> the operating system running a command, \<open>fs\<close> the file tree under a path.
\<close>

type_synonym regexp = "string \<Rightarrow> bool"

record validator_spec =
  vs_kind :: string
  vs_name :: string
  vs_command :: "string list"
  vs_patterns :: "string list"
  vs_mode :: string
  vs_required :: "string list"
  vs_forbidden :: "string list"
  vs_maxlines :: int
  vs_present :: "string list"
  vs_absent :: "string list"
  vs_toolpattern :: string
  vs_weight :: real

definition zero_spec :: validator_spec where
  "zero_spec = \<lparr>vs_kind = [], vs_name = [], vs_command = [], vs_patterns = [], vs_mode = [], vs_required = [],
     vs_forbidden = [], vs_maxlines = 0, vs_present = [], vs_absent = [], vs_toolpattern = [], vs_weight = 0\<rparr>"

record validation_result =
  vr_seq :: int
  vr_kind :: string
  vr_name :: string
  vr_status :: string
  vr_exitcode :: int
  vr_duration :: int
  vr_output :: string
  vr_excerpt :: string
  vr_weight :: real

definition new_result :: "int \<Rightarrow> validator_spec \<Rightarrow> validation_result" where
  "new_result seq spec =
     \<lparr>vr_seq = seq, vr_kind = vs_kind spec, vr_name = vs_name spec, vr_status = [], vr_exitcode = -1,
      vr_duration = 0, vr_output = [], vr_excerpt = [], vr_weight = vs_weight spec\<rparr>"

section \<open>Output bounds\<close>

definition maxOutputBytes :: nat where "maxOutputBytes = 4 * 1024 * 1024"
definition excerptBytes :: nat where "excerptBytes = 2 * 1024"

fun back_to_start :: "string \<Rightarrow> nat \<Rightarrow> nat" where
  "back_to_start s 0 = 0"
| "back_to_start s (Suc n) = (if RuneStart (s ! Suc n) then Suc n else back_to_start s n)"

definition excerpt :: "string \<Rightarrow> string" where
  "excerpt s = (if length s \<le> excerptBytes then s else take (back_to_start s excerptBytes) s)"

definition setOutput :: "string \<Rightarrow> validation_result \<Rightarrow> validation_result" where
  "setOutput s r = r\<lparr>vr_output := s, vr_excerpt := excerpt s\<rparr>"

definition finish :: "string \<Rightarrow> int \<Rightarrow> string \<Rightarrow> validation_result \<Rightarrow> validation_result" where
  "finish status code out r = setOutput out (r\<lparr>vr_status := status, vr_exitcode := code\<rparr>)"

record boundedBuffer =
  bb_buf :: string
  bb_max :: nat

definition bb_Write :: "string \<Rightarrow> boundedBuffer \<Rightarrow> boundedBuffer \<times> nat" where
  "bb_Write p b =
     (let remaining = int (bb_max b) - int (length (bb_buf b))
      in if remaining \<le> 0 then (b, length p)
         else if int (length p) \<le> remaining then (b\<lparr>bb_buf := bb_buf b @ p\<rparr>, length p)
         else (b\<lparr>bb_buf := bb_buf b @ take (nat remaining) p\<rparr>, length p))"

definition capture :: "string list \<Rightarrow> string" where
  "capture chunks = bb_buf (fold (\<lambda>p b. fst (bb_Write p b)) chunks \<lparr>bb_buf = [], bb_max = maxOutputBytes\<rparr>)"

section \<open>Command validators\<close>

datatype ctx_err = Deadline | Canceled

text \<open>What running the argv did: it did not start, or ended with the context's error, the
  error of \<open>Wait\<close>, the process state (if any) and the writes to the two pipes.\<close>

datatype proc_outcome =
  NotStarted string int
| Ended "ctx_err option" "string option" "(bool \<times> int) option" "string list" int

definition runCommandValidator ::
  "(string list \<Rightarrow> string \<Rightarrow> string list \<Rightarrow> int \<Rightarrow> proc_outcome) \<Rightarrow> int \<Rightarrow> validator_spec \<Rightarrow> string \<Rightarrow>
   string list \<Rightarrow> int \<Rightarrow> validation_result" where
  "runCommandValidator proc seq spec dir env timeout =
     (let res = new_result seq spec
      in if vs_command spec = [] then finish ''error'' (-1) ''command validator requires a non-empty argv'' res
         else (case proc (vs_command spec) dir env timeout of
                 NotStarted err ms \<Rightarrow> finish ''error'' (-1) err (res\<lparr>vr_duration := ms\<rparr>)
               | Ended ctx err state chunks ms \<Rightarrow>
                   (let res = res\<lparr>vr_duration := ms\<rparr>
                    in case ctx of
                         Some c \<Rightarrow> finish (if c = Deadline then ''timeout'' else ''error'') (-1) (capture chunks) res
                       | None \<Rightarrow>
                           (case (err, state) of
                              (Some e, None) \<Rightarrow> finish ''error'' (-1) e res
                            | (Some e, Some (False, _)) \<Rightarrow> finish ''error'' (-1) e res
                            | (_, st) \<Rightarrow>
                                (let code = (case st of Some (_, c) \<Rightarrow> c | None \<Rightarrow> -1)
                                 in finish (if code = 0 then ''passed'' else ''failed'') code (capture chunks) res)))))"

section \<open>Answer validators\<close>

fun unmatched_patterns :: "(string \<Rightarrow> string + regexp) \<Rightarrow> string \<Rightarrow> string list \<Rightarrow> (string \<times> string) + string list" where
  "unmatched_patterns compile s [] = Inr []"
| "unmatched_patterns compile s (p # ps) =
     (case compile p of
        Inl err \<Rightarrow> Inl (p, err)
      | Inr re \<Rightarrow> rbind (unmatched_patterns compile s ps) (\<lambda>u. Inr (if re s then u else p # u)))"

definition runAnswerValidator ::
  "(nat \<Rightarrow> bool) \<Rightarrow> (string \<Rightarrow> string + regexp) \<Rightarrow> int \<Rightarrow> validator_spec \<Rightarrow> string \<Rightarrow> validation_result" where
  "runAnswerValidator uni compile seq spec finalAnswer =
     (let res = new_result seq spec;
          mode = (if vs_mode spec = [] then ''all'' else vs_mode spec)
      in if mode \<noteq> ''all'' \<and> mode \<noteq> ''any''
         then finish ''error'' (-1) (''unknown answer mode '' @ go_quote uni (vs_mode spec)) res
         else if vs_patterns spec = []
         then finish ''error'' (-1) ''answer validator requires at least one pattern'' res
         else (case unmatched_patterns compile finalAnswer (vs_patterns spec) of
                 Inl (p, err) \<Rightarrow>
                   finish ''error'' (-1) (''invalid pattern '' @ go_quote uni p @ '': '' @ err) res
               | Inr u \<Rightarrow>
                   if u = [] \<or> (mode = ''any'' \<and> length u < length (vs_patterns spec))
                   then res\<lparr>vr_status := ''passed'', vr_exitcode := 0\<rparr>
                   else if mode = ''all''
                   then finish ''failed'' 1 (''answer did not match all patterns; unmatched: '' @ join '', '' u) res
                   else finish ''failed'' 1 (''answer did not match any pattern; unmatched: '' @ join '', '' u) res))"

section \<open>Diff validators\<close>

definition required_problems :: "(nat \<Rightarrow> bool) \<Rightarrow> string list \<Rightarrow> string list \<Rightarrow> string list" where
  "required_problems uni globs changed =
     concat (map (\<lambda>g. if \<not> anyMatch g changed
                       then [''no changed path matches required '' @ go_quote uni g] else []) globs)"

definition forbidden_problems :: "(nat \<Rightarrow> bool) \<Rightarrow> string list \<Rightarrow> string list \<Rightarrow> string list" where
  "forbidden_problems uni globs changed =
     concat (map (\<lambda>g. case matching g changed of
                         [] \<Rightarrow> []
                       | hit # _ \<Rightarrow> [''changed path '' @ go_quote uni hit @ '' matches forbidden '' @ go_quote uni g]) globs)"

definition ceiling_problems :: "int \<Rightarrow> string \<Rightarrow> string list" where
  "ceiling_problems max_lines diff =
     (if max_lines > 0 then
        (let (added, removed) = DiffLineCounts diff
         in if int (added + removed) > max_lines
            then [''changed '' @ show_nat (added + removed) @ '' lines (added '' @ show_nat added @ '', removed ''
                  @ show_nat removed @ ''), ceiling is '' @ show_int max_lines]
            else [])
      else [])"

definition runDiffValidator ::
  "(nat \<Rightarrow> bool) \<Rightarrow> int \<Rightarrow> validator_spec \<Rightarrow> string list \<Rightarrow> string \<Rightarrow> validation_result" where
  "runDiffValidator uni seq spec changed diff =
     (let res = new_result seq spec;
          problems = required_problems uni (vs_required spec) changed
                     @ forbidden_problems uni (vs_forbidden spec) changed
                     @ ceiling_problems (vs_maxlines spec) diff
      in if problems = []
         then finish ''passed'' 0 (show_nat (length changed) @ '' changed paths, no diff constraint violated'') res
         else finish ''failed'' 1 (join [CHR 0x0A] problems) res)"

section \<open>Grep validators\<close>

datatype entry = EFile string | EUnreadable | ESpecial | EDir "(string \<times> entry) list"

definition maxGrepFileBytes :: nat where "maxGrepFileBytes = 1024 * 1024"

definition isBinary :: "string \<Rightarrow> bool" where
  "isBinary b \<longleftrightarrow> CHR 0x00 \<in> set (take 8192 b)"

definition rel_path :: "string list \<Rightarrow> string" where
  "rel_path comps = (if comps = [] then ''.'' else join ''/'' comps)"

lemma size_entry_child [termination_simp]: "(n, e) \<in> set kids \<Longrightarrow> size e < Suc (size_list (size_prod (\<lambda>x. 0) size) kids)"
  by (induction kids) auto

text \<open>The visits of \<open>filepath.WalkDir\<close>; an entry that cannot be read is skipped.\<close>

fun walk :: "string list \<Rightarrow> string \<Rightarrow> entry \<Rightarrow> string list" where
  "walk dir name (EDir kids) =
     (if name = ''.git'' then [] else concat (map (\<lambda>(n, e). walk (dir @ [n]) n e) kids))"
| "walk dir name (EFile b) =
     (if length b > maxGrepFileBytes then [] else if isBinary b then [] else [rel_path dir])"
| "walk dir name EUnreadable = []"
| "walk dir name ESpecial = []"

type_synonym file_tree = "string \<Rightarrow> (string \<times> entry) option"

definition worktreeFiles :: "file_tree \<Rightarrow> string \<Rightarrow> string + string list" where
  "worktreeFiles fs wt =
     (if wt = [] then Inl ''no worktree''
      else Inr (case fs wt of None \<Rightarrow> [] | Some (name, e) \<Rightarrow> sort (walk [] name e)))"

fun read_at :: "entry \<Rightarrow> string list \<Rightarrow> string option" where
  "read_at (EFile b) [] = Some b"
| "read_at (EDir kids) (c # cs) = (case map_of kids c of None \<Rightarrow> None | Some e \<Rightarrow> read_at e cs)"
| "read_at _ _ = None"

definition ReadFile :: "file_tree \<Rightarrow> string \<Rightarrow> string \<Rightarrow> string option" where
  "ReadFile fs wt f =
     (case fs wt of None \<Rightarrow> None
      | Some (name, e) \<Rightarrow> read_at e (if f = ''.'' then [] else split_on (CHR ''/'') f))"

fun firstMatch :: "file_tree \<Rightarrow> string \<Rightarrow> regexp \<Rightarrow> string list \<Rightarrow> string option" where
  "firstMatch fs wt re [] = None"
| "firstMatch fs wt re (f # files) =
     (case ReadFile fs wt f of
        None \<Rightarrow> firstMatch fs wt re files
      | Some b \<Rightarrow> if re b then Some f else firstMatch fs wt re files)"

definition compilePatterns ::
  "(nat \<Rightarrow> bool) \<Rightarrow> (string \<Rightarrow> string + regexp) \<Rightarrow> string list \<Rightarrow> string + regexp list" where
  "compilePatterns uni compile ps =
     res_map (\<lambda>p. case compile p of
                     Inl err \<Rightarrow> Inl (''invalid pattern '' @ go_quote uni p @ '': '' @ err)
                   | Inr re \<Rightarrow> Inr re) ps"

definition present_problems ::
  "(nat \<Rightarrow> bool) \<Rightarrow> file_tree \<Rightarrow> string \<Rightarrow> string list \<Rightarrow> string list \<Rightarrow> regexp list \<Rightarrow> string list" where
  "present_problems uni fs wt files ps res =
     concat (map (\<lambda>(p, re). if firstMatch fs wt re files = None
                            then [''no file matches required pattern '' @ go_quote uni p] else []) (zip ps res))"

definition absent_problems ::
  "(nat \<Rightarrow> bool) \<Rightarrow> file_tree \<Rightarrow> string \<Rightarrow> string list \<Rightarrow> string list \<Rightarrow> regexp list \<Rightarrow> string list" where
  "absent_problems uni fs wt files ps res =
     concat (map (\<lambda>(p, re). case firstMatch fs wt re files of
                              None \<Rightarrow> []
                            | Some file \<Rightarrow> [''pattern '' @ go_quote uni p @ '' matched '' @ file]) (zip ps res))"

definition runGrepValidator ::
  "(nat \<Rightarrow> bool) \<Rightarrow> (string \<Rightarrow> string + regexp) \<Rightarrow> file_tree \<Rightarrow> int \<Rightarrow> validator_spec \<Rightarrow> string \<Rightarrow> validation_result" where
  "runGrepValidator uni compile fs seq spec worktree =
     (let res = new_result seq spec
      in case compilePatterns uni compile (vs_present spec @ vs_absent spec) of
           Inl err \<Rightarrow> finish ''error'' (-1) err res
         | Inr compiled \<Rightarrow>
             (let present = take (length (vs_present spec)) compiled;
                  absent = drop (length (vs_present spec)) compiled
              in case worktreeFiles fs worktree of
                   Inl err \<Rightarrow> finish ''error'' (-1) (''scan worktree: '' @ err) res
                 | Inr files \<Rightarrow>
                     (let problems = present_problems uni fs worktree files (vs_present spec) present
                                     @ absent_problems uni fs worktree files (vs_absent spec) absent
                      in if problems = []
                         then finish ''passed'' 0
                           (''scanned '' @ show_nat (length files) @ '' files, all grep constraints satisfied'') res
                         else finish ''failed'' 1 (join [CHR 0x0A] problems) res)))"

section \<open>Process validators\<close>

record call_input =
  ci_command :: string
  ci_description :: string
  ci_filepath :: string

definition zero_input :: call_input where
  "zero_input = \<lparr>ci_command = [], ci_description = [], ci_filepath = []\<rparr>"

definition dec_call_input :: "call_input dec" where
  "dec_call_input = dec_struct (\<lambda>k.
     if k = ''command'' then dec_field ci_command_update ci_command dec_string
     else if k = ''description'' then dec_field ci_description_update ci_description dec_string
     else if k = ''filepath'' then dec_field ci_filepath_update ci_filepath dec_string
     else skip_field)"

definition dec_state_input :: "json option dec" where
  "dec_state_input = dec_struct (\<lambda>k. if k = ''input'' then dec_raw else skip_field)"

definition call_input :: "part \<Rightarrow> call_input" where
  "call_input p =
     (case pt_state p of
        None \<Rightarrow> zero_input
      | Some j \<Rightarrow>
          (case unmarshal dec_state_input None j of
             Some (Some i) \<Rightarrow> fst (dec_call_input i zero_input)
           | _ \<Rightarrow> zero_input))"

definition call_label :: "part \<Rightarrow> string" where
  "call_label p =
     (let i = call_input p
      in fold (\<lambda>extra label. if extra \<noteq> [] then label @ '' '' @ extra else label)
           [ci_command i, ci_description i, ci_filepath i] (pt_tool p))"

fun toolCallLabels :: "event list \<Rightarrow> string list" where
  "toolCallLabels [] = []"
| "toolCallLabels (e # es) =
     (case PartDecoded e of
        None \<Rightarrow> toolCallLabels es
      | Some p \<Rightarrow> if pt_tool p = [] then toolCallLabels es else call_label p # toolCallLabels es)"

definition runProcessValidator ::
  "(nat \<Rightarrow> bool) \<Rightarrow> (string \<Rightarrow> string + regexp) \<Rightarrow> int \<Rightarrow> validator_spec \<Rightarrow> event list \<Rightarrow> validation_result" where
  "runProcessValidator uni compile seq spec events =
     (let res = new_result seq spec
      in if vs_toolpattern spec = []
         then finish ''error'' (-1) ''process validator requires tool_pattern'' res
         else (case compile (vs_toolpattern spec) of
                 Inl err \<Rightarrow> finish ''error'' (-1)
                   (''invalid tool_pattern '' @ go_quote uni (vs_toolpattern spec) @ '': '' @ err) res
               | Inr re \<Rightarrow>
                   (let seen = toolCallLabels events
                    in case find re seen of
                         Some label \<Rightarrow> finish ''passed'' 0
                           (''matched '' @ go_quote uni label @ '' against '' @ show_nat (length seen) @ '' tool calls'') res
                       | None \<Rightarrow> finish ''failed'' 1
                           (''no tool call matched '' @ go_quote uni (vs_toolpattern spec) @ ''; seen: ''
                            @ join '', '' seen) res)))"

section \<open>Dispatch\<close>

record validator_context =
  vc_worktree :: string
  vc_changed :: "string list"
  vc_diff :: string
  vc_events :: "event list"
  vc_answer :: string

text \<open>What a validator needs from outside the program.\<close>

record host =
  h_uni :: "nat \<Rightarrow> bool"
  h_compile :: "string \<Rightarrow> string + regexp"
  h_fs :: file_tree
  h_proc :: "string list \<Rightarrow> string \<Rightarrow> string list \<Rightarrow> int \<Rightarrow> proc_outcome"

definition RunValidatorContext ::
  "host \<Rightarrow> int \<Rightarrow> validator_spec \<Rightarrow> validator_context \<Rightarrow> string list \<Rightarrow> int \<Rightarrow> validation_result" where
  "RunValidatorContext h seq spec vctx env timeout =
     (if vs_kind spec = ''command'' then runCommandValidator (h_proc h) seq spec (vc_worktree vctx) env timeout
      else if vs_kind spec = ''answer'' then runAnswerValidator (h_uni h) (h_compile h) seq spec (vc_answer vctx)
      else if vs_kind spec = ''diff'' then runDiffValidator (h_uni h) seq spec (vc_changed vctx) (vc_diff vctx)
      else if vs_kind spec = ''grep'' then runGrepValidator (h_uni h) (h_compile h) (h_fs h) seq spec (vc_worktree vctx)
      else if vs_kind spec = ''process'' then runProcessValidator (h_uni h) (h_compile h) seq spec (vc_events vctx)
      else finish ''error'' (-1) (''unknown validator kind '' @ go_quote (h_uni h) (vs_kind spec)) (new_result seq spec))"

definition RunValidator ::
  "host \<Rightarrow> int \<Rightarrow> validator_spec \<Rightarrow> string \<Rightarrow> string list \<Rightarrow> int \<Rightarrow> string \<Rightarrow> validation_result" where
  "RunValidator h seq spec dir env timeout finalAnswer =
     RunValidatorContext h seq spec
       \<lparr>vc_worktree = dir, vc_changed = [], vc_diff = [], vc_events = [], vc_answer = finalAnswer\<rparr> env timeout"

text \<open>\<open>Requirements\<close>: the names not found on the path, once each; \<open>found\<close> is \<open>exec.LookPath\<close>.\<close>

fun missing_from :: "(string \<Rightarrow> bool) \<Rightarrow> string list \<Rightarrow> string list \<Rightarrow> string list" where
  "missing_from found seen [] = []"
| "missing_from found seen (n # ns) =
     (if n \<in> set seen then missing_from found seen ns
      else if found n then missing_from found (n # seen) ns
      else n # missing_from found (n # seen) ns)"

definition Requirements :: "(string \<Rightarrow> bool) \<Rightarrow> string list \<Rightarrow> string list" where
  "Requirements found requires = missing_from found [] requires"

section \<open>Results\<close>

lemma setOutput_simps [simp]:
  "vr_status (setOutput s r) = vr_status r" "vr_exitcode (setOutput s r) = vr_exitcode r"
  "vr_seq (setOutput s r) = vr_seq r" "vr_kind (setOutput s r) = vr_kind r" "vr_name (setOutput s r) = vr_name r"
  "vr_weight (setOutput s r) = vr_weight r" "vr_duration (setOutput s r) = vr_duration r"
  "vr_output (setOutput s r) = s" "vr_excerpt (setOutput s r) = excerpt s"
  by (simp_all add: setOutput_def)

lemma finish_simps [simp]:
  "vr_status (finish st c out r) = st" "vr_exitcode (finish st c out r) = c"
  "vr_seq (finish st c out r) = vr_seq r" "vr_kind (finish st c out r) = vr_kind r"
  "vr_name (finish st c out r) = vr_name r" "vr_weight (finish st c out r) = vr_weight r"
  "vr_duration (finish st c out r) = vr_duration r"
  "vr_output (finish st c out r) = out" "vr_excerpt (finish st c out r) = excerpt out"
  by (simp_all add: finish_def)

lemma new_result_simps [simp]:
  "vr_seq (new_result seq spec) = seq" "vr_kind (new_result seq spec) = vs_kind spec"
  "vr_name (new_result seq spec) = vs_name spec" "vr_weight (new_result seq spec) = vs_weight spec"
  "vr_status (new_result seq spec) = []" "vr_exitcode (new_result seq spec) = -1"
  "vr_output (new_result seq spec) = []" "vr_excerpt (new_result seq spec) = []"
  by (simp_all add: new_result_def)

lemma excerpt_Nil [simp]: "excerpt [] = []"
  by (simp add: excerpt_def)

text \<open>What every result satisfies: it names the validator, passed is exit code 0, and the
  excerpt is cut from the output.\<close>

definition result_ok :: "int \<Rightarrow> validator_spec \<Rightarrow> validation_result \<Rightarrow> bool" where
  "result_ok seq spec r \<longleftrightarrow>
     vr_seq r = seq \<and> vr_kind r = vs_kind spec \<and> vr_name r = vs_name spec \<and> vr_weight r = vs_weight spec \<and>
     vr_status r \<in> {''passed'', ''failed'', ''error'', ''timeout''} \<and>
     (vr_status r = ''passed'') = (vr_exitcode r = 0) \<and>
     (vr_status r = ''error'' \<or> vr_status r = ''timeout'' \<longrightarrow> vr_exitcode r = -1) \<and>
     vr_excerpt r = excerpt (vr_output r)"

lemma result_ok_command: "result_ok seq spec (runCommandValidator proc seq spec dir env timeout)"
  unfolding runCommandValidator_def Let_def result_ok_def
  by (auto split: proc_outcome.splits option.splits prod.splits bool.splits)

lemma result_ok_answer: "result_ok seq spec (runAnswerValidator uni compile seq spec ans)"
  unfolding runAnswerValidator_def Let_def result_ok_def by (auto split: sum.splits prod.splits)

lemma result_ok_diff: "result_ok seq spec (runDiffValidator uni seq spec changed diff)"
  unfolding runDiffValidator_def Let_def result_ok_def by simp

lemma result_ok_grep: "result_ok seq spec (runGrepValidator uni compile fs seq spec wt)"
  unfolding runGrepValidator_def Let_def result_ok_def by (simp split: sum.splits)

lemma result_ok_process: "result_ok seq spec (runProcessValidator uni compile seq spec es)"
  unfolding runProcessValidator_def Let_def result_ok_def by (simp split: sum.splits option.splits)

lemmas result_ok_all = result_ok_command result_ok_answer result_ok_diff result_ok_grep result_ok_process

lemma result_ok_dispatch: "result_ok seq spec (RunValidatorContext h seq spec vctx env timeout)"
proof -
  have "result_ok seq spec (finish ''error'' (-1) m (new_result seq spec))" for m
    by (simp add: result_ok_def)
  then show ?thesis unfolding RunValidatorContext_def by (simp add: result_ok_all)
qed

section \<open>Excerpts and buffers\<close>

lemma back_to_start_le: "back_to_start s n \<le> n"
  by (induction n) (auto simp: le_SucI)

lemma back_to_start_start: "back_to_start s n = 0 \<or> RuneStart (s ! back_to_start s n)"
  by (induction n) auto

lemma back_to_start_skip: "back_to_start s n < i \<Longrightarrow> i \<le> n \<Longrightarrow> \<not> RuneStart (s ! i)"
  by (induction n) (auto split: if_splits simp: le_Suc_eq)

lemma excerpt_prefix: "\<exists>r. s = excerpt s @ r"
  by (metis append_Nil2 append_take_drop_id excerpt_def)

lemma excerpt_length: "length (excerpt s) \<le> excerptBytes"
  using back_to_start_le [of s excerptBytes] by (auto simp: excerpt_def)

lemma excerpt_valid:
  assumes "utf8_valid s"
  shows "utf8_valid (excerpt s)"
proof (cases "length s \<le> excerptBytes \<or> back_to_start s excerptBytes = 0")
  case True
  then show ?thesis using assms by (auto simp: excerpt_def utf8_valid.simps [of "[]"])
next
  case False
  then have "RuneStart (s ! back_to_start s excerptBytes)" "back_to_start s excerptBytes < length s"
    using back_to_start_start [of s excerptBytes] back_to_start_le [of s excerptBytes] by auto
  then show ?thesis using utf8_valid_cut [OF assms] False by (simp add: excerpt_def)
qed

lemma bb_Write_buf:
  "length (bb_buf b) \<le> bb_max b \<Longrightarrow>
   bb_buf (fst (bb_Write p b)) = take (bb_max b) (bb_buf b @ p) \<and> bb_max (fst (bb_Write p b)) = bb_max b"
  by (auto simp: bb_Write_def Let_def nat_diff_distrib)

lemma take_take_append: "take n (take n xs @ ys) = take n (xs @ ys)"
  by (cases "n \<le> length xs") auto

lemma bb_Write_all:
  "length (bb_buf b) \<le> bb_max b \<Longrightarrow>
   bb_buf (fold (\<lambda>p b. fst (bb_Write p b)) ps b) = take (bb_max b) (bb_buf b @ concat ps)"
proof (induction ps arbitrary: b)
  case (Cons p ps)
  note w = bb_Write_buf [OF Cons.prems, of p]
  have "length (bb_buf (fst (bb_Write p b))) \<le> bb_max (fst (bb_Write p b))" using w by simp
  from Cons.IH [OF this] w
  have "bb_buf (fold (\<lambda>p b. fst (bb_Write p b)) ps (fst (bb_Write p b)))
      = take (bb_max b) (take (bb_max b) (bb_buf b @ p) @ concat ps)" by (simp only:)
  then show ?case unfolding take_take_append by simp
qed simp

lemma capture_take: "capture chunks = take maxOutputBytes (concat chunks)"
  by (simp add: capture_def bb_Write_all)

section \<open>Meaning of the validators\<close>

lemma required_problems_none:
  "required_problems uni globs changed = [] \<longleftrightarrow> (\<forall>g\<in>set globs. \<exists>p\<in>set changed. ev_matchGlob g p)"
  unfolding required_problems_def concat_map_Nil anyMatch_iff by (intro ball_cong) auto

lemma matching_Nil: "matching g ps = [] \<longleftrightarrow> (\<forall>p\<in>set ps. \<not> ev_matchGlob g p)"
  by (simp add: matching_filter filter_empty_conv)

lemma forbidden_problems_none:
  "forbidden_problems uni globs changed = [] \<longleftrightarrow> (\<forall>g\<in>set globs. \<forall>p\<in>set changed. \<not> ev_matchGlob g p)"
  unfolding forbidden_problems_def concat_map_Nil matching_Nil [symmetric]
  by (intro ball_cong) (auto split: list.split)

lemma ceiling_problems_none:
  "ceiling_problems n diff = [] \<longleftrightarrow> (n > 0 \<longrightarrow> int (fst (DiffLineCounts diff)) + int (snd (DiffLineCounts diff)) \<le> n)"
  by (auto simp: ceiling_problems_def split: prod.splits)

lemma unmatched_patterns_Inr:
  "unmatched_patterns compile s ps = Inr u \<Longrightarrow>
   (\<forall>p\<in>set ps. \<exists>re. compile p = Inr re) \<and> u = filter (\<lambda>p. \<exists>re. compile p = Inr re \<and> \<not> re s) ps"
  by (induction ps arbitrary: u) (auto split: sum.splits simp: go_res)

lemma unmatched_patterns_Inl:
  "unmatched_patterns compile s ps = Inl (p, err) \<Longrightarrow> p \<in> set ps \<and> compile p = Inl err"
  by (induction ps) (auto split: sum.splits simp: go_res)

inductive text_at :: "string \<Rightarrow> entry \<Rightarrow> string list \<Rightarrow> string \<Rightarrow> bool" where
  text_file: "length b \<le> maxGrepFileBytes \<Longrightarrow> \<not> isBinary b \<Longrightarrow> text_at n (EFile b) [] b"
| text_dir: "n \<noteq> ''.git'' \<Longrightarrow> (c, e) \<in> set kids \<Longrightarrow> text_at c e cs b \<Longrightarrow> text_at n (EDir kids) (c # cs) b"

inductive_simps text_at_simps [simp]:
  "text_at n (EFile b) cs b'" "text_at n EUnreadable cs b'" "text_at n ESpecial cs b'" "text_at n (EDir kids) cs b'"

text \<open>A tree a file system can hold: names are distinct and are single path elements.\<close>

fun tree_ok :: "entry \<Rightarrow> bool" where
  "tree_ok (EDir kids) \<longleftrightarrow>
     distinct (map fst kids) \<and> list_all (\<lambda>(n, e). plain n \<and> CHR ''/'' \<notin> set n \<and> tree_ok e) kids"
| "tree_ok _ \<longleftrightarrow> True"

lemma walk_iff: "f \<in> set (walk dir n e) \<longleftrightarrow> (\<exists>cs b. text_at n e cs b \<and> f = rel_path (dir @ cs))"
proof (induction dir n e rule: walk.induct)
  case (1 dir name kids)
  show ?case
  proof (cases "name = ''.git''")
    case False
    have sub: "f \<in> set (walk (dir @ [n]) n e) \<longleftrightarrow> (\<exists>cs b. text_at n e cs b \<and> f = rel_path (dir @ n # cs))"
      if "(n, e) \<in> set kids" for n e
      using 1 [OF False that refl] by simp
    have "f \<in> set (walk dir name (EDir kids)) \<longleftrightarrow> (\<exists>n e. (n, e) \<in> set kids \<and> f \<in> set (walk (dir @ [n]) n e))"
      using False by auto
    also have "\<dots> \<longleftrightarrow> (\<exists>n e. (n, e) \<in> set kids \<and> (\<exists>cs b. text_at n e cs b \<and> f = rel_path (dir @ n # cs)))"
      by (intro ex_cong1 conj_cong refl) (rule sub)
    also have "\<dots> \<longleftrightarrow> (\<exists>cs b. text_at name (EDir kids) cs b \<and> f = rel_path (dir @ cs))"
      using False by simp blast
    finally show ?thesis .
  qed simp
qed (auto split: if_splits)

lemma text_at_read: "text_at n e cs b \<Longrightarrow> tree_ok e \<Longrightarrow> read_at e cs = Some b"
proof (induction rule: text_at.induct)
  case (text_dir n c e kids cs b)
  then have "map_of kids c = Some e" by (simp add: map_of_is_SomeI)
  moreover have "tree_ok e" using text_dir by (auto simp: list_all_iff)
  ultimately show ?case using text_dir by simp
qed simp

lemma text_at_comps:
  "text_at n e cs b \<Longrightarrow> tree_ok e \<Longrightarrow> \<forall>c\<in>set cs. plain c \<and> CHR ''/'' \<notin> set c"
  by (induction rule: text_at.induct) (auto simp: list_all_iff)

lemma rel_path_read:
  assumes "\<forall>c\<in>set cs. plain c \<and> CHR ''/'' \<notin> set c"
  shows "(if rel_path cs = ''.'' then [] else split_on (CHR ''/'') (rel_path cs)) = cs"
proof (cases "cs = []")
  case True
  then show ?thesis by (simp add: rel_path_def)
next
  case False
  then have sp: "split_on (CHR ''/'') (join ''/'' cs) = cs"
    using assms by (intro split_on_join) auto
  moreover have "join ''/'' cs \<noteq> ''.''"
  proof
    assume eq: "join ''/'' cs = ''.''"
    have "cs = split_on (CHR ''/'') ''.''" by (simp only: sp [unfolded eq])
    then show False using assms by (simp add: plain_def)
  qed
  ultimately show ?thesis using False by (simp add: rel_path_def)
qed

lemma ReadFile_text:
  assumes "fs wt = Some (name, e)" "tree_ok e" "text_at name e cs b"
  shows "ReadFile fs wt (rel_path cs) = Some b"
  using rel_path_read [OF text_at_comps [OF assms(3,2)]] text_at_read [OF assms(3,2)] assms(1)
  by (simp add: ReadFile_def)

lemma firstMatch_None:
  "firstMatch fs wt re files = None \<longleftrightarrow> (\<forall>f\<in>set files. \<forall>b. ReadFile fs wt f = Some b \<longrightarrow> \<not> re b)"
  by (induction files) (auto split: option.split)

lemma firstMatch_tree:
  assumes "fs wt = Some (name, e)" "tree_ok e"
  shows "firstMatch fs wt re (sort (walk [] name e)) = None \<longleftrightarrow> (\<forall>cs b. text_at name e cs b \<longrightarrow> \<not> re b)"
  unfolding firstMatch_None set_sort
  using ReadFile_text [where fs = fs and wt = wt and name = name and e = e] assms by (fastforce simp: walk_iff)

lemma compilePatterns_ok:
  assumes "\<And>p. p \<in> set ps \<Longrightarrow> compile p = Inr (re p)"
  shows "compilePatterns uni compile ps = Inr (map re ps)"
  unfolding compilePatterns_def using assms by (intro res_map_total) simp

lemma zip_map_self: "zip xs (map f xs) = map (\<lambda>x. (x, f x)) xs"
  by (induction xs) auto

lemma present_problems_none:
  "present_problems uni fs wt files ps (map re ps) = [] \<longleftrightarrow> (\<forall>p\<in>set ps. firstMatch fs wt (re p) files \<noteq> None)"
  unfolding present_problems_def concat_map_Nil zip_map_self by auto

lemma absent_problems_none:
  "absent_problems uni fs wt files ps (map re ps) = [] \<longleftrightarrow> (\<forall>p\<in>set ps. firstMatch fs wt (re p) files = None)"
  unfolding absent_problems_def concat_map_Nil zip_map_self by (auto split: option.splits)

lemma toolCallLabels_set:
  "l \<in> set (toolCallLabels es)
   \<longleftrightarrow> (\<exists>e\<in>set es. \<exists>p. PartDecoded e = Some p \<and> pt_tool p \<noteq> [] \<and> l = call_label p)"
  by (induction es) (auto split: option.split)

lemma missing_from_spec:
  "missing_from found seen ns = filter (\<lambda>n. \<not> found n \<and> n \<notin> set seen) (dedup ns)"
proof (induction ns arbitrary: seen)
  case (Cons n ns)
  have "dedup (n # ns) = n # filter (\<lambda>x. x \<noteq> n) (dedup ns)" by (rule dedup_Cons)
  then show ?case using Cons by (auto intro!: filter_cong)
qed (simp add: dedup_def)

section \<open>Properties\<close>

text \<open>C34: every validator run, of any kind and whatever the host does, names its validator, reports
  one of the four statuses, has exit code 0 exactly when it passed and -1 on an error or a
  timeout, and stores the excerpt of the output it stores.\<close>

theorem RunValidatorContext_result:
  "result_ok seq spec (RunValidatorContext h seq spec vctx env timeout)"
  by (rule result_ok_dispatch)

text \<open>A diff validator passes exactly when every required glob matches a changed path, no
  forbidden glob does, and the added plus removed lines respect the ceiling when there is one;
  otherwise it fails, and never errs.\<close>

theorem runDiffValidator_verdict:
  "vr_status (runDiffValidator uni seq spec changed diff) =
     (if (\<forall>g\<in>set (vs_required spec). \<exists>p\<in>set changed. ev_matchGlob g p) \<and>
         (\<forall>g\<in>set (vs_forbidden spec). \<forall>p\<in>set changed. \<not> ev_matchGlob g p) \<and>
         (vs_maxlines spec > 0 \<longrightarrow>
            int (fst (DiffLineCounts diff)) + int (snd (DiffLineCounts diff)) \<le> vs_maxlines spec)
      then ''passed'' else ''failed'')"
  unfolding runDiffValidator_def Let_def
  by (simp add: required_problems_none forbidden_problems_none ceiling_problems_none)

theorem runDiffValidator_verdict_witness:
  "vr_status (runDiffValidator (\<lambda>_. True) 1 (zero_spec\<lparr>vs_maxlines := 1\<rparr>) [] [CHR ''+'', CHR 0x0A, CHR ''-'']) = ''failed''"
  using runDiffValidator_verdict [of "\<lambda>_. True" 1 "zero_spec\<lparr>vs_maxlines := 1\<rparr>" "[]" "[CHR ''+'', CHR 0x0A, CHR ''-'']"]
  by (simp add: zero_spec_def DiffLineCounts_def)

text \<open>A grep validator whose patterns compile passes exactly when each required pattern matches
  some text file of the worktree (outside \<open>.git\<close>, at most 1 MiB, no NUL early on) and each
  forbidden one matches none; otherwise it fails.\<close>

theorem runGrepValidator_verdict:
  assumes "wt \<noteq> []" "fs wt = Some (name, e)" "tree_ok e"
    and "\<And>p. p \<in> set (vs_present spec @ vs_absent spec) \<Longrightarrow> compile p = Inr (re p)"
  shows "vr_status (runGrepValidator uni compile fs seq spec wt) =
     (if (\<forall>p\<in>set (vs_present spec). \<exists>cs b. text_at name e cs b \<and> re p b) \<and>
         (\<forall>p\<in>set (vs_absent spec). \<not> (\<exists>cs b. text_at name e cs b \<and> re p b))
      then ''passed'' else ''failed'')"
proof -
  have files: "worktreeFiles fs wt = Inr (sort (walk [] name e))"
    using assms(1,2) by (simp add: worktreeFiles_def)
  have m: "firstMatch fs wt r (sort (walk [] name e)) = None \<longleftrightarrow> \<not> (\<exists>cs b. text_at name e cs b \<and> r b)" for r
    using firstMatch_tree [where fs = fs and wt = wt and name = name and e = e] assms(2,3) by simp
  have c: "compilePatterns uni compile (vs_present spec @ vs_absent spec) = Inr (map re (vs_present spec @ vs_absent spec))"
    using assms(4) by (rule compilePatterns_ok)
  show ?thesis
    unfolding runGrepValidator_def Let_def c files
    by (simp add: present_problems_none absent_problems_none m del: not_ex)
qed

theorem runGrepValidator_verdict_witness:
  "vr_status (runGrepValidator (\<lambda>_. True) (\<lambda>p. Inr (\<lambda>b. b = p))
     (\<lambda>_. Some (''w'', EDir [(''f'', EFile ''x'')])) 1 (zero_spec\<lparr>vs_present := [''x''], vs_absent := [''y'']\<rparr>) ''/w'')
   = ''passed''"
  using runGrepValidator_verdict [of "''/w''" "\<lambda>_. Some (''w'', EDir [(''f'', EFile ''x'')])" "''w''"
      "EDir [(''f'', EFile ''x'')]" "zero_spec\<lparr>vs_present := [''x''], vs_absent := [''y'']\<rparr>"
      "\<lambda>p. Inr (\<lambda>b. b = p)" "\<lambda>p b. b = p" "\<lambda>_. True" 1]
  by (simp add: zero_spec_def plain_def isBinary_def maxGrepFileBytes_def)

text \<open>An answer validator whose patterns compile passes in mode \<open>any\<close> exactly when some pattern
  matches the final answer, and in the default mode exactly when all do.\<close>

theorem runAnswerValidator_verdict:
  assumes "vs_patterns spec \<noteq> []" "vs_mode spec = [] \<or> vs_mode spec = ''all'' \<or> vs_mode spec = ''any''"
    and "\<And>p. p \<in> set (vs_patterns spec) \<Longrightarrow> compile p = Inr (re p)"
  shows "vr_status (runAnswerValidator uni compile seq spec answer) =
     (if (if vs_mode spec = ''any'' then \<exists>p\<in>set (vs_patterns spec). re p answer
          else \<forall>p\<in>set (vs_patterns spec). re p answer)
      then ''passed'' else ''failed'')"
proof -
  obtain u where u: "unmatched_patterns compile answer (vs_patterns spec) = Inr u"
    using unmatched_patterns_Inl [of compile answer "vs_patterns spec"] assms(3)
    by (cases "unmatched_patterns compile answer (vs_patterns spec)") force+
  have "u = filter (\<lambda>p. \<not> re p answer) (vs_patterns spec)"
    unfolding conjunct2 [OF unmatched_patterns_Inr [OF u]] using assms(3) by (intro filter_cong) auto
  moreover have "length (filter P xs) < length xs \<longleftrightarrow> (\<exists>x\<in>set xs. \<not> P x)" for P and xs :: "string list"
    by (metis length_filter_less length_filter_le filter_True less_irrefl)
  ultimately show ?thesis
    using assms(1,2) unfolding runAnswerValidator_def Let_def u
    by (auto simp: filter_empty_conv)
qed

theorem runAnswerValidator_verdict_witness:
  "vr_status (runAnswerValidator (\<lambda>_. True) (\<lambda>p. Inr (\<lambda>b. b = p)) 1
     (zero_spec\<lparr>vs_patterns := [''x'', ''y''], vs_mode := ''any''\<rparr>) ''y'') = ''passed''"
  using runAnswerValidator_verdict [of "zero_spec\<lparr>vs_patterns := [''x'', ''y''], vs_mode := ''any''\<rparr>"
      "\<lambda>p. Inr (\<lambda>b. b = p)" "\<lambda>p b. b = p" "\<lambda>_. True" 1 "''y''"]
  by simp

text \<open>A process validator whose pattern compiles passes exactly when some decodable tool call of
  the run, rendered with its command, description and file, matches.\<close>

theorem runProcessValidator_verdict:
  assumes "vs_toolpattern spec \<noteq> []" "compile (vs_toolpattern spec) = Inr re"
  shows "vr_status (runProcessValidator uni compile seq spec es) =
     (if \<exists>e\<in>set es. \<exists>p. PartDecoded e = Some p \<and> pt_tool p \<noteq> [] \<and> re (call_label p)
      then ''passed'' else ''failed'')"
proof (cases "find re (toolCallLabels es)")
  case None
  then have "\<not> (\<exists>l\<in>set (toolCallLabels es). re l)" by (simp add: find_None_iff)
  then show ?thesis using None assms unfolding runProcessValidator_def toolCallLabels_set Bex_def
    by (auto simp: Let_def)
next
  case (Some l)
  then have "l \<in> set (toolCallLabels es)" "re l" by (auto simp: find_Some_iff)
  then show ?thesis using Some assms unfolding runProcessValidator_def toolCallLabels_set
    by (auto simp: Let_def)
qed

theorem runProcessValidator_verdict_witness:
  "vr_status (runProcessValidator (\<lambda>_. True) (\<lambda>p. Inr (\<lambda>b. b = p)) 1 (zero_spec\<lparr>vs_toolpattern := ''bash''\<rparr>)
     [zero_event\<lparr>ev_part := Some (JObj [(''tool'', JStr ''bash'')])\<rparr>]) = ''passed''"
  using runProcessValidator_verdict [of "zero_spec\<lparr>vs_toolpattern := ''bash''\<rparr>" "\<lambda>p. Inr (\<lambda>b. b = p)" "\<lambda>b. b = ''bash''"
      "\<lambda>_. True" 1 "[zero_event\<lparr>ev_part := Some (JObj [(''tool'', JStr ''bash'')])\<rparr>]"]
  by (simp add: PartDecoded_def dec_part_def dec_defs zero_part_def lower_def call_label_def call_input_def zero_input_def)

text \<open>The stored output of a command is the first 4 MiB of what it wrote, however the writes
  were split, and the excerpt is a prefix of at most 2 KiB that is well-formed UTF-8 when the
  text is.\<close>

theorem command_output_bounds:
  "capture chunks = take maxOutputBytes (concat chunks) \<and>
   (\<exists>r. out = excerpt out @ r) \<and> length (excerpt out) \<le> excerptBytes \<and>
   (utf8_valid out \<longrightarrow> utf8_valid (excerpt out))"
  using capture_take excerpt_prefix excerpt_length excerpt_valid by blast

theorem command_output_bounds_witness:
  "capture [''ab'', ''c''] = take maxOutputBytes ''abc'' \<and> length (excerpt ''abc'') \<le> excerptBytes"
  using command_output_bounds [of "[''ab'', ''c'']" "''abc''"] by simp

end
