(* ===== verification/Suite.thy ===== *)
theory Suite
  imports Validators SliceSort
begin

text \<open>
  \<open>internal/suite\<close>: the suite and task definitions, their validation while loading
  (\<open>load.go\<close>, \<open>suite.go\<close>), the search order of \<open>Resolve\<close> (\<open>resolve.go\<close>) and the content
  hashes (\<open>hash.go\<close>). A file system is the tree \<open>entry\<close> of the validators, a path its list
  of elements; a \<open>Stat\<close> finds an entry or reports that it does not exist. Parameters
  (record \<open>loader\<close>): the YAML decoder, which is third-party, the JSON tokenizer,
  \<open>regexp.Compile\<close> and SHA-256. Error texts are constructors.
\<close>

section \<open>Definitions of suites and tasks\<close>

record task =
  t_id :: string
  t_version :: string
  t_name :: string
  t_tags :: "string list"
  t_difficulty :: string
  t_capabilities :: "string list"
  t_expected :: int
  t_timeout :: int
  t_requires :: "string list"
  t_allow :: "string list"
  t_validators :: "validator_spec list"
  t_prompt :: string
  t_dir :: string
  t_fixture :: entry
  t_evaluator :: "(string \<times> string) list"
  t_hidden :: "entry option"
  t_hidden_dest :: string
  t_reference :: "entry option"
  t_fixture_hash :: string
  t_spec_hash :: string

definition zero_task :: task where
  "zero_task = \<lparr>t_id = [], t_version = [], t_name = [], t_tags = [], t_difficulty = [], t_capabilities = [],
     t_expected = 0, t_timeout = 0, t_requires = [], t_allow = [], t_validators = [], t_prompt = [], t_dir = [],
     t_fixture = EDir [], t_evaluator = [], t_hidden = None, t_hidden_dest = [], t_reference = None,
     t_fixture_hash = [], t_spec_hash = []\<rparr>"

record suite =
  s_name :: string
  s_version :: string
  s_description :: string
  s_tier :: string
  s_timeout :: int
  s_dir :: string
  s_fs :: "entry option"
  s_tasks :: "task list"
  s_hash :: string

record raw_suite =
  rs_name :: string
  rs_version :: string
  rs_description :: string
  rs_tier :: string
  rs_timeout :: int

text \<open>A raw validator has the fields of a validator.\<close>

record raw_task =
  rk_id :: string
  rk_version :: string
  rk_name :: string
  rk_tags :: "string list"
  rk_difficulty :: string
  rk_capabilities :: "string list"
  rk_expected :: int
  rk_hidden_dest :: string
  rk_timeout :: int
  rk_requires :: "string list"
  rk_allow :: "string list"
  rk_validators :: "validator_spec list"

record loader =
  ld_suite :: "string \<Rightarrow> raw_suite option"
  ld_task :: "string \<Rightarrow> raw_task option"
  ld_json :: "string \<Rightarrow> json option"
  ld_compile :: "string \<Rightarrow> string + regexp"
  ld_sha :: "string \<Rightarrow> string"

definition difficultyLevels :: "string list" where
  "difficultyLevels = [''easy'', ''medium'', ''hard'']"

definition suiteTiers :: "string list" where
  "suiteTiers = [''smoke'', ''standard'', ''hard'']"

definition CapabilityVocabulary :: "string list" where
  "CapabilityVocabulary =
     [''delegation'', ''planning'', ''tool-use'', ''context'', ''skill-use'',
      ''instruction-following'', ''restraint'', ''debugging'', ''multi-file'', ''search'']"

definition DefaultTimeoutSeconds :: int where "DefaultTimeoutSeconds = 900"

datatype validator_error = EmptyArgv | NoDiffRule | NegativeMaxLines | NoGrepPattern | BadGrep string
  | NoToolPattern | BadToolPattern string | NoAnswerPatterns | BadAnswerJson | BadMode string | UnknownKind string

datatype task_error = TaskRead | TaskParse | TaskFields | IdMismatch string | AbsoluteDest string
  | EscapingDest string | BadDifficulty string | BadCapability string | NegativeTokens int | NoPrompt
  | NoFixture | FixtureNotDir | FixtureWalk | EvaluatorNotDir | EvaluatorWalk | HiddenNotDir | ReferenceNotDir
  | BadValidator nat validator_error

datatype suite_error = SuiteRead | SuiteParse | SuiteFields | BadTier string | NoTasksDir | BadTask string task_error

definition validateDifficulty :: "string \<Rightarrow> task_error + unit" where
  "validateDifficulty v = (if v = [] \<or> v \<in> set difficultyLevels then Inr () else Inl (BadDifficulty v))"

fun validateCapabilities :: "string list \<Rightarrow> task_error + unit" where
  "validateCapabilities [] = Inr ()"
| "validateCapabilities (c # cs) =
     (if c \<notin> set CapabilityVocabulary then Inl (BadCapability c) else validateCapabilities cs)"

definition validateTier :: "string \<Rightarrow> suite_error + unit" where
  "validateTier v = (if v = [] \<or> v \<in> set suiteTiers then Inr () else Inl (BadTier v))"

definition suite_Task :: "suite \<Rightarrow> string \<Rightarrow> task option" where
  "suite_Task s i = find (\<lambda>t. t_id t = i) (s_tasks s)"

definition EffectiveTimeout :: "task \<Rightarrow> suite option \<Rightarrow> int" where
  "EffectiveTimeout t s =
     (let seconds = t_timeout t;
          seconds = (case s of Some s \<Rightarrow> if seconds \<le> 0 then s_timeout s else seconds | None \<Rightarrow> seconds);
          seconds = (if seconds \<le> 0 then DefaultTimeoutSeconds else seconds)
      in seconds * 1000000000)"

definition TaskIDs :: "task list \<Rightarrow> string list" where
  "TaskIDs tasks = map t_id tasks"

definition resolveTimeout :: "int \<Rightarrow> int \<Rightarrow> int" where
  "resolveTimeout task suiteDefault =
     (if task > 0 then task else if suiteDefault > 0 then suiteDefault else DefaultTimeoutSeconds)"

definition resolveHiddenTestsDest :: "string \<Rightarrow> string" where
  "resolveHiddenTestsDest v = (if v = [] then ''tests'' else v)"

definition validateHiddenTestsDest :: "string \<Rightarrow> task_error + unit" where
  "validateHiddenTestsDest v =
     (if v = [] then Inr ()
      else if has_prefix v ''/'' then Inl (AbsoluteDest v)
      else if ''..'' \<in> set (split_on (CHR ''/'') v) then Inl (EscapingDest v)
      else Inr ())"

section \<open>Hashes\<close>

record validator_hash_spec =
  hv_kind :: string
  hv_name :: string
  hv_command :: "string list"
  hv_patterns :: "string list"
  hv_mode :: string

record taskSpec =
  ht_id :: string
  ht_version :: string
  ht_difficulty :: string
  ht_capabilities :: "string list"
  ht_timeout :: int
  ht_requires :: "string list"
  ht_allow :: "string list"
  ht_validators :: "validator_hash_spec list"
  ht_prompt :: string
  ht_fixture :: string
  ht_evaluator :: string

definition validatorSpecs :: "validator_spec list \<Rightarrow> validator_hash_spec list" where
  "validatorSpecs vs =
     map (\<lambda>v. \<lparr>hv_kind = vs_kind v, hv_name = vs_name v, hv_command = vs_command v,
               hv_patterns = vs_patterns v, hv_mode = vs_mode v\<rparr>) vs"

definition manifestHash :: "(string \<Rightarrow> string) \<Rightarrow> (string \<times> string) list \<Rightarrow> string" where
  "manifestHash sha files =
     (let entries = map (\<lambda>(rel, b). rel @ [CHR 0x00] @ sha b) files
      in sha (join [CHR 0x0A] (sort entries)))"

definition taskSpecOf :: "(string \<Rightarrow> string) \<Rightarrow> task \<Rightarrow> taskSpec" where
  "taskSpecOf sha t =
     \<lparr>ht_id = t_id t, ht_version = t_version t, ht_difficulty = t_difficulty t,
      ht_capabilities = t_capabilities t, ht_timeout = t_timeout t, ht_requires = t_requires t,
      ht_allow = t_allow t, ht_validators = validatorSpecs (t_validators t),
      ht_prompt = sha (t_prompt t), ht_fixture = t_fixture_hash t,
      ht_evaluator = manifestHash sha (t_evaluator t)\<rparr>"

definition taskSpecs :: "(string \<Rightarrow> string) \<Rightarrow> task list \<Rightarrow> taskSpec list" where
  "taskSpecs sha tasks = sort_by (\<lambda>a b. ht_id a < ht_id b) (map (taskSpecOf sha) tasks)"

text \<open>The encoder on these structs: fields in declaration order, \<open>omitempty\<close> where declared.\<close>

definition struct_text :: "(string \<times> string) list \<Rightarrow> string" where
  "struct_text kvs = ''{'' @ join '','' (map (\<lambda>(k, v). quote k @ '':'' @ v) kvs) @ ''}''"

definition array_text :: "string list \<Rightarrow> string" where
  "array_text vs = ''['' @ join '','' vs @ '']''"

definition strings_text :: "string list \<Rightarrow> string" where
  "strings_text ss = array_text (map quote ss)"

definition validator_text :: "validator_hash_spec \<Rightarrow> string" where
  "validator_text v = struct_text
     [(''kind'', quote (hv_kind v)), (''name'', quote (hv_name v)), (''command'', strings_text (hv_command v)),
      (''patterns'', strings_text (hv_patterns v)), (''mode'', quote (hv_mode v))]"

definition taskSpec_text :: "taskSpec \<Rightarrow> string" where
  "taskSpec_text t = struct_text
     ([(''id'', quote (ht_id t)), (''version'', quote (ht_version t))]
      @ (if ht_difficulty t = [] then [] else [(''difficulty'', quote (ht_difficulty t))])
      @ (if ht_capabilities t = [] then [] else [(''capabilities'', strings_text (ht_capabilities t))])
      @ [(''timeout'', show_int (ht_timeout t)), (''requires'', strings_text (ht_requires t)),
         (''allow_changes'', strings_text (ht_allow t)),
         (''validators'', array_text (map validator_text (ht_validators t))),
         (''prompt_sha256'', quote (ht_prompt t)), (''fixture_hash'', quote (ht_fixture t)),
         (''evaluator_sha256'', quote (ht_evaluator t))])"

definition HashTasks :: "(string \<Rightarrow> string) \<Rightarrow> task list \<Rightarrow> string" where
  "HashTasks sha tasks = sha (array_text (map taskSpec_text (taskSpecs sha tasks)))"

definition suiteHash :: "(string \<Rightarrow> string) \<Rightarrow> string \<Rightarrow> string \<Rightarrow> task list \<Rightarrow> string" where
  "suiteHash sha name version tasks =
     sha (struct_text [(''name'', quote name), (''version'', quote version),
       (''tasks'', array_text (map taskSpec_text (taskSpecs sha tasks)))])"

section \<open>Loading\<close>

fun stat :: "entry \<Rightarrow> string list \<Rightarrow> entry option" where
  "stat e [] = Some e"
| "stat (EDir kids) (c # cs) = (case map_of kids c of None \<Rightarrow> None | Some e \<Rightarrow> stat e cs)"
| "stat _ (c # cs) = None"

definition read_file :: "entry \<Rightarrow> string list \<Rightarrow> string option" where
  "read_file fsys p = (case stat fsys p of Some (EFile b) \<Rightarrow> Some b | _ \<Rightarrow> None)"

fun is_dir :: "entry \<Rightarrow> bool" where
  "is_dir (EDir _) = True"
| "is_dir _ = False"

text \<open>The regular files under a directory, by relative path; an unreadable one is an error.\<close>

fun tree_files :: "string list \<Rightarrow> entry \<Rightarrow> unit + (string \<times> string) list" where
  "tree_files dir (EDir kids) =
     rbind (res_map (\<lambda>p. tree_files (dir @ [fst p]) (snd p)) kids) (\<lambda>xss. Inr (concat xss))"
| "tree_files dir (EFile b) = Inr [(rel_path dir, b)]"
| "tree_files dir EUnreadable = Inl ()"
| "tree_files dir ESpecial = Inr []"

definition loadFixture :: "loader \<Rightarrow> entry \<Rightarrow> string list \<Rightarrow> task_error + (entry \<times> string)" where
  "loadFixture ld fsys dir =
     (case stat fsys dir of
        None \<Rightarrow> Inl NoFixture
      | Some e \<Rightarrow>
          if \<not> is_dir e then Inl FixtureNotDir
          else (case tree_files [] e of
                  Inl _ \<Rightarrow> Inl FixtureWalk
                | Inr files \<Rightarrow> Inr (e, manifestHash (ld_sha ld) files)))"

definition readEvaluator :: "entry \<Rightarrow> string list \<Rightarrow> task_error + (string \<times> string) list" where
  "readEvaluator fsys dir =
     (case stat fsys dir of
        None \<Rightarrow> Inr []
      | Some e \<Rightarrow>
          if \<not> is_dir e then Inl EvaluatorNotDir
          else (case tree_files [] e of Inl _ \<Rightarrow> Inl EvaluatorWalk | Inr files \<Rightarrow> Inr files))"

definition loadHiddenTests :: "entry \<Rightarrow> string list \<Rightarrow> task_error \<Rightarrow> task_error + entry option" where
  "loadHiddenTests fsys dir notdir =
     (case stat fsys dir of
        None \<Rightarrow> Inr None
      | Some e \<Rightarrow> if \<not> is_dir e then Inl notdir else Inr (Some e))"

record raw_answer =
  ra_patterns :: "string list"
  ra_mode :: string

definition dec_answer :: "raw_answer dec" where
  "dec_answer = dec_struct (\<lambda>k.
     if k = ''patterns'' then dec_field ra_patterns_update ra_patterns (dec_list [] dec_string)
     else if k = ''mode'' then dec_field ra_mode_update ra_mode dec_string
     else skip_field)"

definition blank_validator :: "validator_spec \<Rightarrow> validator_spec" where
  "blank_validator raw =
     \<lparr>vs_kind = vs_kind raw, vs_name = vs_name raw, vs_command = [], vs_patterns = [], vs_mode = [],
      vs_required = [], vs_forbidden = [], vs_maxlines = 0, vs_present = [], vs_absent = [],
      vs_toolpattern = [], vs_weight = vs_weight raw\<rparr>"

definition answer_source ::
  "loader \<Rightarrow> validator_spec \<Rightarrow> (string \<times> string) list \<Rightarrow> validator_error + (string list \<times> string)" where
  "answer_source ld raw evaluator =
     (if vs_patterns raw \<noteq> [] then Inr (vs_patterns raw, vs_mode raw)
      else (case map_of evaluator ''answer.json'' of
              None \<Rightarrow> Inl NoAnswerPatterns
            | Some data \<Rightarrow>
                (case ld_json ld data of
                   None \<Rightarrow> Inl BadAnswerJson
                 | Some j \<Rightarrow>
                     (case unmarshal dec_answer \<lparr>ra_patterns = [], ra_mode = []\<rparr> j of
                        None \<Rightarrow> Inl BadAnswerJson
                      | Some a \<Rightarrow> Inr (ra_patterns a, if vs_mode raw = [] then ra_mode a else vs_mode raw)))))"

definition resolveValidator ::
  "loader \<Rightarrow> validator_spec \<Rightarrow> (string \<times> string) list \<Rightarrow> validator_error + validator_spec" where
  "resolveValidator ld raw evaluator =
     (if vs_kind raw = ''command'' then
        (if vs_command raw = [] then Inl EmptyArgv
         else Inr ((blank_validator raw)\<lparr>vs_command := vs_command raw\<rparr>))
      else if vs_kind raw = ''diff'' then
        (if vs_required raw = [] \<and> vs_forbidden raw = [] \<and> vs_maxlines raw \<le> 0 then Inl NoDiffRule
         else if vs_maxlines raw < 0 then Inl NegativeMaxLines
         else Inr ((blank_validator raw)\<lparr>vs_required := vs_required raw, vs_forbidden := vs_forbidden raw,
                     vs_maxlines := vs_maxlines raw\<rparr>))
      else if vs_kind raw = ''grep'' then
        (if vs_present raw = [] \<and> vs_absent raw = [] then Inl NoGrepPattern
         else (case ld_compile ld (join ''|'' (vs_present raw @ vs_absent raw)) of
                 Inl err \<Rightarrow> Inl (BadGrep err)
               | Inr _ \<Rightarrow> Inr ((blank_validator raw)\<lparr>vs_present := vs_present raw, vs_absent := vs_absent raw\<rparr>)))
      else if vs_kind raw = ''process'' then
        (if vs_toolpattern raw = [] then Inl NoToolPattern
         else (case ld_compile ld (vs_toolpattern raw) of
                 Inl err \<Rightarrow> Inl (BadToolPattern err)
               | Inr _ \<Rightarrow> Inr ((blank_validator raw)\<lparr>vs_toolpattern := vs_toolpattern raw\<rparr>)))
      else if vs_kind raw = ''answer'' then
        (case answer_source ld raw evaluator of
           Inl err \<Rightarrow> Inl err
         | Inr (patterns, mode) \<Rightarrow>
             if patterns = [] then Inl NoAnswerPatterns
             else (let mode = (if mode = [] then ''all'' else mode)
                   in if mode \<noteq> ''all'' \<and> mode \<noteq> ''any'' then Inl (BadMode mode)
                      else Inr ((blank_validator raw)\<lparr>vs_patterns := patterns, vs_mode := mode\<rparr>)))
      else Inl (UnknownKind (vs_kind raw)))"

fun resolve_all ::
  "loader \<Rightarrow> (string \<times> string) list \<Rightarrow> nat \<Rightarrow> validator_spec list \<Rightarrow> task_error + validator_spec list" where
  "resolve_all ld evaluator i [] = Inr []"
| "resolve_all ld evaluator i (rv # rvs) =
     (case resolveValidator ld rv evaluator of
        Inl err \<Rightarrow> Inl (BadValidator i err)
      | Inr v \<Rightarrow> rbind (resolve_all ld evaluator (Suc i) rvs) (\<lambda>vs. Inr (v # vs)))"

definition check_raw_task :: "string \<Rightarrow> raw_task \<Rightarrow> task_error + unit" where
  "check_raw_task i raw =
     (if rk_id raw = [] \<or> rk_version raw = [] \<or> rk_name raw = [] then Inl TaskFields
      else if rk_id raw \<noteq> i then Inl (IdMismatch (rk_id raw))
      else rbind (validateHiddenTestsDest (rk_hidden_dest raw)) (\<lambda>_.
           rbind (validateDifficulty (rk_difficulty raw)) (\<lambda>_.
           rbind (validateCapabilities (rk_capabilities raw)) (\<lambda>_.
           if rk_expected raw < 0 then Inl (NegativeTokens (rk_expected raw)) else Inr ()))))"

definition new_task ::
  "raw_task \<Rightarrow> int \<Rightarrow> validator_spec list \<Rightarrow> string \<Rightarrow> entry \<Rightarrow> (string \<times> string) list \<Rightarrow>
   entry option \<Rightarrow> entry option \<Rightarrow> string \<Rightarrow> task" where
  "new_task raw suiteDefault validators prompt fixture evaluator hidden reference fixtureHash =
     \<lparr>t_id = rk_id raw, t_version = rk_version raw, t_name = rk_name raw, t_tags = rk_tags raw,
      t_difficulty = rk_difficulty raw, t_capabilities = rk_capabilities raw,
      t_expected = rk_expected raw, t_timeout = resolveTimeout (rk_timeout raw) suiteDefault,
      t_requires = rk_requires raw, t_allow = rk_allow raw, t_validators = validators,
      t_prompt = prompt, t_dir = [], t_fixture = fixture, t_evaluator = evaluator,
      t_hidden = hidden, t_hidden_dest = resolveHiddenTestsDest (rk_hidden_dest raw),
      t_reference = reference, t_fixture_hash = fixtureHash, t_spec_hash = []\<rparr>"

definition loadTask :: "loader \<Rightarrow> entry \<Rightarrow> string \<Rightarrow> int \<Rightarrow> task_error + task" where
  "loadTask ld fsys i suiteDefault =
     (let base = [''tasks'', i]
      in case read_file fsys (base @ [''task.yaml'']) of
           None \<Rightarrow> Inl TaskRead
         | Some yaml \<Rightarrow>
         (case ld_task ld yaml of
            None \<Rightarrow> Inl TaskParse
          | Some raw \<Rightarrow>
          rbind (check_raw_task i raw) (\<lambda>_.
          (case read_file fsys (base @ [''prompt.md'']) of
             None \<Rightarrow> Inl NoPrompt
           | Some prompt \<Rightarrow>
           rbind (loadFixture ld fsys (base @ [''fixture''])) (\<lambda>(fixture, fixtureHash).
           rbind (readEvaluator fsys (base @ [''evaluator''])) (\<lambda>evaluator.
           rbind (loadHiddenTests fsys (base @ [''evaluator'', ''tests'']) HiddenNotDir) (\<lambda>hidden.
           rbind (loadHiddenTests fsys (base @ [''evaluator'', ''reference'']) ReferenceNotDir) (\<lambda>reference.
           rbind (resolve_all ld evaluator 0 (rk_validators raw)) (\<lambda>validators.
             let t = new_task raw suiteDefault validators prompt fixture evaluator hidden reference fixtureHash
             in Inr (t\<lparr>t_spec_hash := ld_sha ld (taskSpec_text (taskSpecOf (ld_sha ld) t))\<rparr>))))))))))"

fun load_tasks :: "loader \<Rightarrow> entry \<Rightarrow> int \<Rightarrow> (string \<times> entry) list \<Rightarrow> suite_error + task list" where
  "load_tasks ld fsys suiteDefault [] = Inr []"
| "load_tasks ld fsys suiteDefault ((n, e) # entries) =
     (if \<not> is_dir e then load_tasks ld fsys suiteDefault entries
      else (case loadTask ld fsys n suiteDefault of
              Inl err \<Rightarrow> Inl (BadTask n err)
            | Inr t \<Rightarrow> rbind (load_tasks ld fsys suiteDefault entries) (\<lambda>ts. Inr (t # ts))))"

definition load_root :: "loader \<Rightarrow> entry \<Rightarrow> suite_error + suite" where
  "load_root ld fsys =
     (case read_file fsys [''suite.yaml''] of
        None \<Rightarrow> Inl SuiteRead
      | Some yaml \<Rightarrow>
      (case ld_suite ld yaml of
         None \<Rightarrow> Inl SuiteParse
       | Some raw \<Rightarrow>
       if rs_name raw = [] \<or> rs_version raw = [] then Inl SuiteFields
       else rbind (validateTier (rs_tier raw)) (\<lambda>_.
       (case stat fsys [''tasks''] of
          Some (EDir kids) \<Rightarrow>
            rbind (load_tasks ld fsys (rs_timeout raw) (sort_key fst kids)) (\<lambda>tasks.
              Inr \<lparr>s_name = rs_name raw, s_version = rs_version raw, s_description = rs_description raw,
                   s_tier = rs_tier raw, s_timeout = rs_timeout raw, s_dir = [], s_fs = Some fsys,
                   s_tasks = tasks, s_hash = suiteHash (ld_sha ld) (rs_name raw) (rs_version raw) tasks\<rparr>)
        | _ \<Rightarrow> Inl NoTasksDir))))"

definition LoadFS :: "loader \<Rightarrow> entry \<Rightarrow> string list \<Rightarrow> suite_error + suite" where
  "LoadFS ld fsys sub = (case stat fsys sub of None \<Rightarrow> Inl SuiteRead | Some e \<Rightarrow> load_root ld e)"

definition path_join :: "string \<Rightarrow> string \<Rightarrow> string" where
  "path_join a b = path_clean (a @ ''/'' @ b)"

text \<open>\<open>disk\<close> is the tree at an absolute directory, if there is an entry.\<close>

definition LoadDir :: "loader \<Rightarrow> (string \<Rightarrow> entry option) \<Rightarrow> (string \<Rightarrow> string) \<Rightarrow> string \<Rightarrow> suite_error + suite" where
  "LoadDir ld disk fabs dir =
     (case disk (fabs dir) of
        None \<Rightarrow> Inl SuiteRead
      | Some e \<Rightarrow>
          rbind (LoadFS ld e []) (\<lambda>s.
            Inr (s\<lparr>s_dir := fabs dir,
                  s_tasks := map (\<lambda>t. t\<lparr>t_dir := path_clean (fabs dir @ ''/tasks/'' @ t_id t)\<rparr>) (s_tasks s)\<rparr>)))"

section \<open>Resolution\<close>

record source =
  src_name :: string
  src_embedded :: bool
  src_dir :: string

datatype resolve_error = NameRequired | FromSuiteDir string suite_error | FromHome string suite_error
  | FromEmbedded suite_error | NotFound "string list"

definition ListSources :: "entry \<Rightarrow> source list option" where
  "ListSources fsys =
     (case fsys of
        EDir kids \<Rightarrow>
          Some (map (\<lambda>(n, e). \<lparr>src_name = n, src_embedded = True, src_dir = []\<rparr>)
            (filter (\<lambda>(n, e). is_dir e \<and> stat fsys [n, ''suite.yaml''] \<noteq> None) (sort_key fst kids)))
      | _ \<Rightarrow> None)"

definition try_embedded ::
  "loader \<Rightarrow> entry option \<Rightarrow> string \<Rightarrow> string list \<Rightarrow> resolve_error + (suite \<times> source)" where
  "try_embedded ld embedded name tried =
     (case embedded of
        None \<Rightarrow> Inl (NotFound tried)
      | Some fsys \<Rightarrow>
          (case stat fsys [name, ''suite.yaml''] of
             None \<Rightarrow> Inl (NotFound tried)
           | Some _ \<Rightarrow>
               (case LoadFS ld fsys [name] of
                  Inl err \<Rightarrow> Inl (FromEmbedded err)
                | Inr s \<Rightarrow> Inr (s, \<lparr>src_name = name, src_embedded = True, src_dir = []\<rparr>))))"

definition Resolve ::
  "loader \<Rightarrow> (string \<Rightarrow> entry option) \<Rightarrow> (string \<Rightarrow> string) \<Rightarrow> entry option \<Rightarrow> string \<Rightarrow> string \<Rightarrow> string \<Rightarrow>
   resolve_error + (suite \<times> source)" where
  "Resolve ld disk fabs embedded home name suiteDirFlag =
     (if name = [] then Inl NameRequired
      else if suiteDirFlag \<noteq> [] then
        (case LoadDir ld disk fabs (fabs suiteDirFlag) of
           Inl err \<Rightarrow> Inl (FromSuiteDir (fabs suiteDirFlag) err)
         | Inr s \<Rightarrow> Inr (s, \<lparr>src_name = name, src_embedded = False, src_dir = fabs suiteDirFlag\<rparr>))
      else if home \<noteq> [] then
        (let dir = path_join home name
         in case disk dir of
              Some (EDir kids) \<Rightarrow>
                (case LoadDir ld disk fabs dir of
                   Inl err \<Rightarrow> Inl (FromHome dir err)
                 | Inr s \<Rightarrow> Inr (s, \<lparr>src_name = name, src_embedded = False, src_dir = dir\<rparr>))
            | _ \<Rightarrow> try_embedded ld embedded name [dir, name])
      else try_embedded ld embedded name [name])"

section \<open>Hashing lemmas\<close>

lemma taskSpecOf_id [simp]: "ht_id (taskSpecOf sha t) = t_id t"
  by (simp add: taskSpecOf_def)

lemma taskSpecs_sorted:
  "taskSpecs sha tasks = map (taskSpecOf sha) (sort_key t_id tasks)"
proof -
  have "sort_key ht_id (map (taskSpecOf sha) ts) = map (taskSpecOf sha) (sort_key t_id ts)" for ts
  proof (induction ts)
    case (Cons t ts)
    have "insort_key ht_id (taskSpecOf sha t) (map (taskSpecOf sha) xs)
        = map (taskSpecOf sha) (insort_key t_id t xs)" for xs
      by (induction xs) auto
    then show ?case using Cons by simp
  qed simp
  then show ?thesis by (simp add: taskSpecs_def sort_by_key)
qed

lemma taskSpecs_perm:
  assumes "mset ts = mset us" "distinct (map t_id ts)"
  shows "taskSpecs sha ts = taskSpecs sha us"
  unfolding taskSpecs_sorted using assms by (simp add: sort_key_perm distinct_map)

lemma manifestHash_perm: "mset fs = mset gs \<Longrightarrow> manifestHash sha fs = manifestHash sha gs"
proof -
  assume "mset fs = mset gs"
  then have "mset (map h fs) = mset (map h gs)" for h :: "string \<times> string \<Rightarrow> string" by (metis mset_map)
  then have "sort (map h fs) = sort (map h gs)" for h :: "string \<times> string \<Rightarrow> string"
    by (intro sort_key_perm) auto
  then show ?thesis by (simp add: manifestHash_def Let_def)
qed

section \<open>What loading establishes\<close>

definition validator_ok :: "loader \<Rightarrow> validator_spec \<Rightarrow> bool" where
  "validator_ok ld v \<longleftrightarrow>
     (vs_kind v = ''command'' \<and> vs_command v \<noteq> []) \<or>
     (vs_kind v = ''diff'' \<and> 0 \<le> vs_maxlines v \<and> (vs_required v \<noteq> [] \<or> vs_forbidden v \<noteq> [] \<or> 0 < vs_maxlines v)) \<or>
     (vs_kind v = ''grep'' \<and> vs_present v @ vs_absent v \<noteq> [] \<and>
        (\<exists>re. ld_compile ld (join ''|'' (vs_present v @ vs_absent v)) = Inr re)) \<or>
     (vs_kind v = ''process'' \<and> vs_toolpattern v \<noteq> [] \<and> (\<exists>re. ld_compile ld (vs_toolpattern v) = Inr re)) \<or>
     (vs_kind v = ''answer'' \<and> vs_patterns v \<noteq> [] \<and> (vs_mode v = ''all'' \<or> vs_mode v = ''any''))"

lemma resolveValidator_kind:
  "resolveValidator ld raw ev = Inr v \<Longrightarrow>
   vs_kind v = vs_kind raw \<and> vs_name v = vs_name raw \<and> vs_weight v = vs_weight raw"
  by (simp add: resolveValidator_def blank_validator_def Let_def
      split: if_split_asm sum.split_asm prod.split_asm) (auto split: if_split_asm)

lemma resolveValidator_ok:
  assumes r: "resolveValidator ld raw ev = Inr v"
  shows "validator_ok ld v"
proof -
  note k = resolveValidator_kind [OF r]
  have "vs_kind raw \<in> {''command'', ''diff'', ''grep'', ''process'', ''answer''}"
    using r unfolding resolveValidator_def by (simp split: if_split_asm)
  then consider "vs_kind raw = ''command''" | "vs_kind raw = ''diff''" | "vs_kind raw = ''grep''"
    | "vs_kind raw = ''process''" | "vs_kind raw = ''answer''" by auto
  then show ?thesis
  proof cases
    case 1
    then have "vs_command v \<noteq> []" using r
      by (auto simp: resolveValidator_def blank_validator_def split: if_split_asm)
    then show ?thesis using 1 k by (simp add: validator_ok_def)
  next
    case 2
    then have "0 \<le> vs_maxlines v \<and> (vs_required v \<noteq> [] \<or> vs_forbidden v \<noteq> [] \<or> 0 < vs_maxlines v)" using r
      by (auto simp: resolveValidator_def blank_validator_def split: if_split_asm)
    then show ?thesis using 2 k by (simp add: validator_ok_def)
  next
    case 3
    then have "vs_present v @ vs_absent v \<noteq> [] \<and> (\<exists>re. ld_compile ld (join ''|'' (vs_present v @ vs_absent v)) = Inr re)"
      using r by (auto simp: resolveValidator_def blank_validator_def split: if_split_asm sum.split_asm)
    then show ?thesis using 3 k by (simp add: validator_ok_def)
  next
    case 4
    then have "vs_toolpattern v \<noteq> [] \<and> (\<exists>re. ld_compile ld (vs_toolpattern v) = Inr re)"
      using r by (auto simp: resolveValidator_def blank_validator_def split: if_split_asm sum.split_asm)
    then show ?thesis using 4 k by (simp add: validator_ok_def)
  next
    case 5
    then have "vs_patterns v \<noteq> [] \<and> (vs_mode v = ''all'' \<or> vs_mode v = ''any'')"
      using r by (auto simp: resolveValidator_def blank_validator_def Let_def split: if_split_asm sum.split_asm prod.split_asm)
    then show ?thesis using 5 k by (simp add: validator_ok_def)
  qed
qed

lemma resolve_all_Cons:
  "resolve_all ld ev i (rv # rvs) = Inr vs \<longleftrightarrow>
   (\<exists>v vs'. resolveValidator ld rv ev = Inr v \<and> resolve_all ld ev (Suc i) rvs = Inr vs' \<and> vs = v # vs')"
  by (simp add: go_res split: sum.split) blast

lemma resolve_all_ok: "resolve_all ld ev i rvs = Inr vs \<Longrightarrow> list_all (validator_ok ld) vs"
proof (induction rvs arbitrary: i vs)
  case (Cons rv rvs)
  then obtain v vs' where "resolveValidator ld rv ev = Inr v" "resolve_all ld ev (Suc i) rvs = Inr vs'" "vs = v # vs'"
    unfolding resolve_all_Cons by blast
  then show ?case using Cons.IH resolveValidator_ok by simp
qed simp

lemma validateCapabilities_ok: "validateCapabilities cs = Inr u \<longleftrightarrow> set cs \<subseteq> set CapabilityVocabulary"
  by (induction cs) auto

lemma resolveTimeout_pos: "0 < resolveTimeout t d"
  by (simp add: resolveTimeout_def DefaultTimeoutSeconds_def)

definition dest_inside :: "string \<Rightarrow> bool" where
  "dest_inside d \<longleftrightarrow> \<not> has_prefix d ''/'' \<and> ''..'' \<notin> set (split_on (CHR ''/'') d)"

lemma dest_default: "dest_inside (resolveHiddenTestsDest d)" if "validateHiddenTestsDest d = Inr u"
  using that by (auto simp: validateHiddenTestsDest_def resolveHiddenTestsDest_def dest_inside_def split: if_split_asm)

lemma clean_elems_no_up:
  "''..'' \<notin> set es \<Longrightarrow> list_all plain out \<Longrightarrow> list_all plain (clean_elems r es out)"
proof (induction r es out rule: clean_elems.induct)
  case (1 r out)
  then show ?case by simp
next
  case (2 r e es out)
  then show ?case by (cases "e = [] \<or> e = ''.''") (auto simp: plain_def)
qed

definition task_ok :: "loader \<Rightarrow> string \<Rightarrow> task \<Rightarrow> bool" where
  "task_ok ld i t \<longleftrightarrow>
     t_id t = i \<and> i \<noteq> [] \<and> t_version t \<noteq> [] \<and> t_name t \<noteq> [] \<and> 0 < t_timeout t \<and> 0 \<le> t_expected t \<and>
     (t_difficulty t = [] \<or> t_difficulty t \<in> set difficultyLevels) \<and>
     set (t_capabilities t) \<subseteq> set CapabilityVocabulary \<and> dest_inside (t_hidden_dest t) \<and>
     list_all (validator_ok ld) (t_validators t) \<and> is_dir (t_fixture t) \<and>
     t_spec_hash t = ld_sha ld (taskSpec_text (taskSpecOf (ld_sha ld) t))"

lemma check_raw_task_ok:
  "check_raw_task i raw = Inr u \<Longrightarrow>
   rk_id raw = i \<and> i \<noteq> [] \<and> rk_version raw \<noteq> [] \<and> rk_name raw \<noteq> [] \<and> 0 \<le> rk_expected raw \<and>
   (rk_difficulty raw = [] \<or> rk_difficulty raw \<in> set difficultyLevels) \<and>
   set (rk_capabilities raw) \<subseteq> set CapabilityVocabulary \<and>
   dest_inside (resolveHiddenTestsDest (rk_hidden_dest raw))"
  by (auto simp: check_raw_task_def go_res validateDifficulty_def validateCapabilities_ok dest_default
      split: if_split_asm)

lemma loadFixture_dir: "loadFixture ld fsys dir = Inr (e, h) \<Longrightarrow> is_dir e"
  by (auto simp: loadFixture_def split: option.splits if_splits sum.splits)

lemma taskSpecOf_hash [simp]: "taskSpecOf sha (t\<lparr>t_spec_hash := h\<rparr>) = taskSpecOf sha t"
  by (simp add: taskSpecOf_def)

lemma loadTask_ok:
  assumes "loadTask ld fsys i d = Inr t"
  shows "task_ok ld i t"
proof -
  obtain raw vs prompt fx ev hid ref fh where
    c: "check_raw_task i raw = Inr ()" and fx: "is_dir fx" and vs: "list_all (validator_ok ld) vs"
    and t: "t = (let t = new_task raw d vs prompt fx ev hid ref fh
      in t\<lparr>t_spec_hash := ld_sha ld (taskSpec_text (taskSpecOf (ld_sha ld) t))\<rparr>)"
    using assms
    by (auto simp: loadTask_def Let_def go_res split: option.splits dest!: loadFixture_dir resolve_all_ok)
  have "t_spec_hash t = ld_sha ld (taskSpec_text (taskSpecOf (ld_sha ld) t))"
    by (simp add: t Let_def)
  moreover have "t_id t = rk_id raw" "t_version t = rk_version raw" "t_name t = rk_name raw"
      "t_expected t = rk_expected raw" "t_difficulty t = rk_difficulty raw" "t_capabilities t = rk_capabilities raw"
      "t_hidden_dest t = resolveHiddenTestsDest (rk_hidden_dest raw)" "t_timeout t = resolveTimeout (rk_timeout raw) d"
      "t_fixture t = fx" "t_validators t = vs"
    by (simp_all add: t Let_def new_task_def)
  ultimately show ?thesis
    using check_raw_task_ok [OF c] fx vs by (simp add: task_ok_def resolveTimeout_pos)
qed

lemma load_tasks_ok:
  "load_tasks ld fsys d es = Inr ts \<Longrightarrow>
   map t_id ts = map fst (filter (\<lambda>p. is_dir (snd p)) es) \<and> list_all (\<lambda>t. task_ok ld (t_id t) t) ts"
proof (induction es arbitrary: ts)
  case (Cons p es)
  obtain n e where p: "p = (n, e)" by fastforce
  show ?case
  proof (cases "is_dir e")
    case True
    then obtain t ts' where t: "loadTask ld fsys n d = Inr t" "load_tasks ld fsys d es = Inr ts'" "ts = t # ts'"
      using Cons.prems p by (auto simp: go_res split: sum.splits)
    have "task_ok ld n t" by (rule loadTask_ok [OF t(1)])
    then show ?thesis using Cons.IH [OF t(2)] t(3) p True by (auto simp: task_ok_def)
  next
    case False
    then show ?thesis using Cons p by simp
  qed
qed simp

definition suite_ok :: "loader \<Rightarrow> suite \<Rightarrow> bool" where
  "suite_ok ld s \<longleftrightarrow>
     s_name s \<noteq> [] \<and> s_version s \<noteq> [] \<and> (s_tier s = [] \<or> s_tier s \<in> set suiteTiers) \<and>
     sorted_wrt (<) (TaskIDs (s_tasks s)) \<and> list_all (\<lambda>t. task_ok ld (t_id t) t) (s_tasks s) \<and>
     s_hash s = suiteHash (ld_sha ld) (s_name s) (s_version s) (s_tasks s)"

lemma stat_tree_ok: "stat e p = Some e' \<Longrightarrow> tree_ok e \<Longrightarrow> tree_ok e'"
proof (induction e p rule: stat.induct)
  case (2 kids c cs)
  then obtain k where k: "map_of kids c = Some k" "stat k cs = Some e'" by (auto split: option.splits)
  then have "tree_ok k" using 2(3) map_of_SomeD [OF k(1)] by (auto simp: list_all_iff)
  then show ?case using 2(1) [OF k] by simp
qed auto

lemma load_root_Inr:
  assumes "load_root ld e = Inr s"
  shows "\<exists>(raw :: raw_suite) kids tasks. rs_name raw \<noteq> [] \<and> rs_version raw \<noteq> [] \<and> validateTier (rs_tier raw) = Inr () \<and>
    stat e [''tasks''] = Some (EDir kids) \<and>
    load_tasks ld e (rs_timeout raw) (sort_key fst kids) = Inr tasks \<and>
    s_name s = rs_name raw \<and> s_version s = rs_version raw \<and> s_tier s = rs_tier raw \<and> s_tasks s = tasks \<and>
    s_hash s = suiteHash (ld_sha ld) (rs_name raw) (rs_version raw) tasks"
proof -
  obtain yaml raw where y: "read_file e [''suite.yaml''] = Some yaml" "ld_suite ld yaml = Some raw"
    using assms by (auto simp: load_root_def split: option.splits)
  have r: "rs_name raw \<noteq> []" "rs_version raw \<noteq> []" "validateTier (rs_tier raw) = Inr ()"
    using assms y by (auto simp: load_root_def go_res split: if_split_asm)
  obtain kids where k: "stat e [''tasks''] = Some (EDir kids)"
    using assms y r by (auto simp: load_root_def split: option.splits entry.splits)
  obtain tasks where t: "load_tasks ld e (rs_timeout raw) (sort_key fst kids) = Inr tasks"
    using assms y r k by (auto simp: load_root_def go_res)
  have "s = \<lparr>s_name = rs_name raw, s_version = rs_version raw, s_description = rs_description raw,
       s_tier = rs_tier raw, s_timeout = rs_timeout raw, s_dir = [], s_fs = Some e,
       s_tasks = tasks, s_hash = suiteHash (ld_sha ld) (rs_name raw) (rs_version raw) tasks\<rparr>"
    using assms y r k t by (simp add: load_root_def)
  then show ?thesis using r k t by (intro exI [of _ raw] exI [of _ kids] exI [of _ tasks]) simp
qed

lemma LoadFS_suite_ok:
  assumes "tree_ok fsys" "LoadFS ld fsys sub = Inr s"
  shows "suite_ok ld s"
proof -
  obtain e where e: "stat fsys sub = Some e" "load_root ld e = Inr s"
    using assms(2) by (auto simp: LoadFS_def split: option.splits)
  obtain raw :: raw_suite and kids tasks where
    raw: "rs_name raw \<noteq> []" "rs_version raw \<noteq> []" "validateTier (rs_tier raw) = Inr ()"
    and kids: "stat e [''tasks''] = Some (EDir kids)"
    and tasks: "load_tasks ld e (rs_timeout raw) (sort_key fst kids) = Inr tasks"
    and s: "s_name s = rs_name raw" "s_version s = rs_version raw" "s_tier s = rs_tier raw" "s_tasks s = tasks"
      "s_hash s = suiteHash (ld_sha ld) (rs_name raw) (rs_version raw) tasks"
    using load_root_Inr [OF e(2)] by blast
  note ts = load_tasks_ok [OF tasks]
  have "distinct (map fst kids)"
    using stat_tree_ok [OF kids] stat_tree_ok [OF e(1) assms(1)] by simp
  then have "distinct (map fst (sort_key fst kids))" by (simp add: distinct_map)
  then have "sorted_wrt (<) (map fst (sort_key fst kids))"
    by (simp add: strict_sorted_iff)
  then have "sorted_wrt (<) (map t_id tasks)"
    unfolding conjunct1 [OF ts] sorted_wrt_map by (rule sorted_wrt_filter)
  then show ?thesis
    using raw s ts by (auto simp: suite_ok_def TaskIDs_def validateTier_def split: if_split_asm)
qed

section \<open>Properties\<close>


definition sample_tree :: entry where
  "sample_tree = EDir [(''suite.yaml'', EFile []), (''tasks'', EDir [(''t1'', EDir [(''task.yaml'', EFile []),
     (''prompt.md'', EFile []), (''fixture'', EDir [])])])]"

definition sample_loader :: loader where
  "sample_loader = \<lparr>ld_suite = (\<lambda>_. Some \<lparr>rs_name = ''s'', rs_version = ''1'', rs_description = [], rs_tier = ''hard'', rs_timeout = 0\<rparr>),
     ld_task = (\<lambda>_. Some \<lparr>rk_id = ''t1'', rk_version = ''1'', rk_name = ''n'', rk_tags = [], rk_difficulty = [], rk_capabilities = [],
       rk_expected = 0, rk_hidden_dest = [], rk_timeout = 0, rk_requires = [], rk_allow = [], rk_validators = []\<rparr>),
     ld_json = (\<lambda>_. None), ld_compile = (\<lambda>p. Inr (\<lambda>b. b = p)), ld_sha = id\<rparr>"


text \<open>The hash of a task set, and of a suite, does not depend on the order of the tasks.\<close>

theorem HashTasks_order_independent:
  assumes "mset ts = mset us" "distinct (TaskIDs ts)"
  shows "HashTasks sha ts = HashTasks sha us \<and> suiteHash sha name version ts = suiteHash sha name version us"
  using taskSpecs_perm [of ts us sha] assms by (simp add: HashTasks_def suiteHash_def TaskIDs_def)

theorem HashTasks_order_independent_witness:
  "HashTasks id [zero_task\<lparr>t_id := ''a''\<rparr>, zero_task\<lparr>t_id := ''b''\<rparr>] = HashTasks id [zero_task\<lparr>t_id := ''b''\<rparr>, zero_task\<lparr>t_id := ''a''\<rparr>]"
  using HashTasks_order_independent [of "[zero_task\<lparr>t_id := ''a''\<rparr>, zero_task\<lparr>t_id := ''b''\<rparr>]"
      "[zero_task\<lparr>t_id := ''b''\<rparr>, zero_task\<lparr>t_id := ''a''\<rparr>]"]
  by (simp add: TaskIDs_def add_mset_commute)

definition same_hashed :: "validator_spec \<Rightarrow> validator_spec \<Rightarrow> bool" where
  "same_hashed v w \<longleftrightarrow> vs_kind v = vs_kind w \<and> vs_name v = vs_name w \<and> vs_command v = vs_command w \<and>
     vs_patterns v = vs_patterns w \<and> vs_mode v = vs_mode w"

lemma validatorSpecs_same: "list_all2 same_hashed vs ws \<Longrightarrow> validatorSpecs vs = validatorSpecs ws"
  by (induction rule: list_all2_induct) (auto simp: validatorSpecs_def same_hashed_def)

text \<open>C35: the suite hash reads a validator only through its kind, name, command, patterns and mode: any
  change of its path rules, line ceiling, grep patterns, tool pattern or weight, and of a task's
  hidden-test directory, leaves the hash as it was.\<close>

theorem suiteHash_blind_to_rules:
  assumes "\<And>v. same_hashed (f v) v"
  shows "suiteHash sha name version
      (map (\<lambda>t. t\<lparr>t_validators := map f (t_validators t), t_hidden_dest := g (t_hidden_dest t)\<rparr>) ts)
    = suiteHash sha name version ts"
proof -
  let ?h = "\<lambda>t. t\<lparr>t_validators := map f (t_validators t), t_hidden_dest := g (t_hidden_dest t)\<rparr>"
  have "validatorSpecs (map f vs) = validatorSpecs vs" for vs
    using assms by (intro validatorSpecs_same) (simp add: list_all2_conv_all_nth)
  then have "taskSpecOf sha (?h t) = taskSpecOf sha t" for t by (simp add: taskSpecOf_def)
  then show ?thesis by (simp add: suiteHash_def taskSpecs_def o_def)
qed

theorem suiteHash_blind_to_rules_witness:
  "suiteHash id ''s'' ''1'' [zero_task\<lparr>t_validators := [zero_spec\<lparr>vs_forbidden := [''secret''], vs_weight := 3\<rparr>]\<rparr>]
   = suiteHash id ''s'' ''1'' [zero_task\<lparr>t_validators := [zero_spec]\<rparr>]"
  using suiteHash_blind_to_rules [of "\<lambda>v. v\<lparr>vs_forbidden := [''secret''], vs_weight := 3\<rparr>" id "''s''" "''1''" id
      "[zero_task\<lparr>t_validators := [zero_spec]\<rparr>]"]
  by (simp add: same_hashed_def zero_task_def)

text \<open>A hidden-test destination that loading accepts stays inside the worktree: cleaned, it has only
  ordinary path elements.\<close>

theorem hidden_dest_inside:
  assumes "validateHiddenTestsDest d = Inr ()"
  shows "list_all plain (clean_elems False (split_on (CHR ''/'') (resolveHiddenTestsDest d)) [])
    \<and> \<not> has_prefix (resolveHiddenTestsDest d) ''/''"
  using dest_default [OF assms] clean_elems_no_up by (simp add: dest_inside_def)

theorem hidden_dest_inside_witness:
  "list_all plain (clean_elems False (split_on (CHR ''/'') (resolveHiddenTestsDest ''pkg/./x'')) [])"
  using hidden_dest_inside [of "''pkg/./x''"] by (simp add: validateHiddenTestsDest_def)

text \<open>A diff or process validator that loading accepted never errs when it runs: it passes or fails.\<close>

theorem loaded_validator_decides:
  assumes "resolveValidator ld raw ev = Inr v" "vs_kind v = ''diff'' \<or> vs_kind v = ''process''"
    and "h_compile h = ld_compile ld"
  shows "vr_status (RunValidatorContext h seq v vctx env timeout) \<in> {''passed'', ''failed''}"
proof -
  note ok = resolveValidator_ok [OF assms(1)]
  from assms(2) show ?thesis
  proof
    assume "vs_kind v = ''diff''"
    then show ?thesis by (simp add: RunValidatorContext_def runDiffValidator_def Let_def)
  next
    assume k: "vs_kind v = ''process''"
    then obtain re where "vs_toolpattern v \<noteq> []" "h_compile h (vs_toolpattern v) = Inr re"
      using ok assms(3) by (auto simp: validator_ok_def)
    then show ?thesis using k
      by (simp add: RunValidatorContext_def runProcessValidator_verdict)
  qed
qed

theorem loaded_validator_decides_witness:
  "vr_status (RunValidatorContext \<lparr>h_uni = (\<lambda>_. True), h_compile = ld_compile sample_loader, h_fs = (\<lambda>_. None),
       h_proc = (\<lambda>_ _ _ _. NotStarted [] 0)\<rparr> 1 (zero_spec\<lparr>vs_kind := ''process'', vs_toolpattern := ''go''\<rparr>)
     \<lparr>vc_worktree = [], vc_changed = [], vc_diff = [], vc_events = [], vc_answer = []\<rparr> [] 0) \<in> {''passed'', ''failed''}"
  by (rule loaded_validator_decides [where ld = sample_loader and ev = "[]"
        and raw = "zero_spec\<lparr>vs_kind := ''process'', vs_toolpattern := ''go''\<rparr>"])
    (simp_all add: resolveValidator_def sample_loader_def blank_validator_def zero_spec_def)

end
