(* ===== verification/Profile.thy ===== *)
theory Profile
  imports GoJson Fmt Suite
begin

text \<open>
  \<open>internal/profile\<close>, from the observed configuration to the content-addressed profile
  (\<open>fingerprint.go\<close>). A \<open>map[string]any\<close> is an association list with distinct keys; a
  \<open>json.RawMessage\<close> is its document, \<open>None\<close> when empty. \<open>sha\<close> is the hexadecimal SHA-256 and
  \<open>digest\<close> its bytes, \<open>num\<close> the text of a number, \<open>parse\<close> the JSON tokenizer and \<open>disk\<close> the
  tree at a path. Files are read only to hash skills and local plugins.
\<close>

section \<open>Data\<close>

record skill_info =
  si_name :: string
  si_description :: string
  si_location :: string
  si_content :: string

record agent_info =
  ai_name :: string
  ai_description :: string
  ai_mode :: string
  ai_native :: bool
  ai_model :: string
  ai_variant :: string
  ai_steps :: "int option"
  ai_temperature :: "real option"
  ai_tools :: "json option"
  ai_options :: "json option"
  ai_permission :: "json option"
  ai_prompt :: "json option"
  ai_raw :: "json option"

record sources =
  so_version :: string
  so_config :: string
  so_skills :: "skill_info list"
  so_agents :: "agent_info list"
  so_instructions :: "(string, string) gomap"
  so_paths :: "(string, string) gomap"
  so_dir :: string
  so_home :: string

record options =
  op_dir :: string
  op_agent :: string
  op_model :: string
  op_variant :: string
  op_sandbox :: string
  op_auto :: bool
  op_pure :: bool
  op_env_names :: "string list"

record component =
  cp_kind :: string
  cp_name :: string
  cp_hash :: string
  cp_json :: string

record captures =
  ca_config :: string
  ca_skills :: string
  ca_agents :: string
  ca_instructions :: string

record profile =
  pf_id :: string
  pf_hash :: string
  pf_opencode :: string
  pf_json :: string
  pf_components :: "component list"
  pf_snapshot :: "(string, json) gomap"
  pf_captures :: captures

text \<open>What hashing and reading files rest on.\<close>

record world =
  w_sha :: "string \<Rightarrow> string"
  w_digest :: "string \<Rightarrow> string"
  w_num :: "json \<Rightarrow> string"
  w_parse :: "string \<Rightarrow> json option"
  w_disk :: "string \<Rightarrow> entry option"

section \<open>Values\<close>

definition schemaVersion :: int where "schemaVersion = 1"

definition consumedKeys :: "string list" where
  "consumedKeys = [''$schema'', ''agent'', ''default_agent'', ''mcp'', ''model'', ''permission'', ''plugin'',
     ''plugin_origins'', ''skills'', ''small_model'', ''username'']"

definition splitMapConfigKeys :: "string list" where
  "splitMapConfigKeys = [''command'', ''formatter'', ''lsp'', ''mode'', ''provider'']"

definition singletonConfigKeys :: "string list" where
  "singletonConfigKeys = [''autoupdate'', ''compaction'', ''share'', ''tools'']"

definition containsKey :: "string list \<Rightarrow> string \<Rightarrow> bool" where
  "containsKey keys key = list_ex (\<lambda>k. k = key) keys"

definition isConsumed :: "string \<Rightarrow> bool" where
  "isConsumed key = list_ex (\<lambda>k. k = key) consumedKeys"

definition toAnyMap :: "json \<Rightarrow> (string, json) gomap" where
  "toAnyMap v = (case v of JObj m \<Rightarrow> m | _ \<Rightarrow> [])"

definition is_map :: "json \<Rightarrow> bool" where
  "is_map v \<longleftrightarrow> (case v of JObj m \<Rightarrow> True | _ \<Rightarrow> False)"

definition at_key :: "(string, json) gomap \<Rightarrow> string \<Rightarrow> json" where
  "at_key m k = (case map_of m k of None \<Rightarrow> JNull | Some v \<Rightarrow> v)"

definition stringValue :: "json \<Rightarrow> string" where
  "stringValue v = (case v of JStr s \<Rightarrow> s | _ \<Rightarrow> [])"

definition toStringSlice :: "json \<Rightarrow> string list" where
  "toStringSlice v =
     (case v of JArr items \<Rightarrow> concat (map (\<lambda>i. case i of JStr s \<Rightarrow> [s] | _ \<Rightarrow> []) items) | _ \<Rightarrow> [])"

definition toAnyStrings :: "string list \<Rightarrow> json" where
  "toAnyStrings ss = JArr (map JStr ss)"

definition pf_nullString :: "string \<Rightarrow> json" where
  "pf_nullString s = (if s = [] then JNull else JStr s)"

definition normPrefixes :: "string \<Rightarrow> path_prefix list" where
  "normPrefixes home =
     (if home = [] then []
      else [\<lparr>From = home, To = ''~''\<rparr>, \<lparr>From = ''file://'' @ home, To = ''file://~''\<rparr>])"

definition normalizePath :: "string \<Rightarrow> string \<Rightarrow> string" where
  "normalizePath p home = (case NormalizePaths (JStr p) (normPrefixes home) of JStr s \<Rightarrow> s | _ \<Rightarrow> p)"

definition canonicalize :: "json \<Rightarrow> string \<Rightarrow> json" where
  "canonicalize v home = NormalizePaths (Redact v) (normPrefixes home)"

fun sortPermissionArrays :: "(json \<Rightarrow> string) \<Rightarrow> json \<Rightarrow> json" where
  "sortPermissionArrays num (JArr vs) =
     JArr (sort_by (\<lambda>a b. JSON num a < JSON num b) (map (sortPermissionArrays num) vs))"
| "sortPermissionArrays num (JObj kvs) = JObj (map (\<lambda>p. (fst p, sortPermissionArrays num (snd p))) kvs)"
| "sortPermissionArrays num v = v"

definition canonicalizePermission :: "(json \<Rightarrow> string) \<Rightarrow> json \<Rightarrow> string \<Rightarrow> json" where
  "canonicalizePermission num v home = sortPermissionArrays num (canonicalize v home)"

definition decodeConfig :: "world \<Rightarrow> string \<Rightarrow> json option" where
  "decodeConfig w raw =
     (if raw = [] then Some (JObj [])
      else map_option (\<lambda>j. if j = JNull then JObj [] else any_of j) (w_parse w raw))"

definition decodeRaw :: "json option \<Rightarrow> json" where
  "decodeRaw raw = (case raw of None \<Rightarrow> JNull | Some j \<Rightarrow> any_of j)"

definition promptHash :: "world \<Rightarrow> json \<Rightarrow> string" where
  "promptHash w v = (case v of JNull \<Rightarrow> [] | JStr s \<Rightarrow> w_sha w s | _ \<Rightarrow> w_sha w (JSON (w_num w) v))"

definition promptHashFromRaw :: "world \<Rightarrow> json option \<Rightarrow> string" where
  "promptHashFromRaw w raw = (if raw = None then [] else promptHash w (decodeRaw raw))"

text \<open>The files of a tree, by path, each as its path, a zero byte and its bytes.\<close>

definition hashDir :: "world \<Rightarrow> string \<Rightarrow> string option" where
  "hashDir w dir =
     (case w_disk w dir of
        None \<Rightarrow> None
      | Some e \<Rightarrow>
          (case tree_files [] e of
             Inl _ \<Rightarrow> None
           | Inr files \<Rightarrow>
               Some (w_sha w (w_digest w (concat (map (\<lambda>f. fst f @ [CHR 0x00] @ snd f) (sort_key fst files)))))))"

definition hashPath :: "world \<Rightarrow> string \<Rightarrow> string option" where
  "hashPath w path =
     (case w_disk w path of
        None \<Rightarrow> None
      | Some e \<Rightarrow> if is_dir e then hashDir w path
                  else (case e of EFile b \<Rightarrow> Some (w_sha w b) | _ \<Rightarrow> None))"

section \<open>Components\<close>

definition buildPrimary :: "(string, json) gomap \<Rightarrow> options \<Rightarrow> json \<times> json" where
  "buildPrimary cfg opts =
     (let defaultAgent = (if op_agent opts \<noteq> [] then op_agent opts else stringValue (at_key cfg ''default_agent''));
          model = (if op_model opts \<noteq> [] then op_model opts else stringValue (at_key cfg ''model''));
          primary = [(''default_agent'', JStr defaultAgent), (''model'', JStr model),
                     (''small_model'', JStr (stringValue (at_key cfg ''small_model'')))]
                    @ (if op_variant opts \<noteq> [] then [(''variant'', JStr (op_variant opts))] else []);
          sandbox = (if op_sandbox opts = [] then ''default'' else op_sandbox opts);
          environment = [(''sandbox'', JStr sandbox), (''env_names'', toAnyStrings (sort (op_env_names opts))),
                         (''auto'', JBool (op_auto opts)), (''pure'', JBool (op_pure opts)),
                         (''overrides'', JObj [(''agent'', pf_nullString (op_agent opts)),
                            (''model'', pf_nullString (op_model opts)), (''variant'', pf_nullString (op_variant opts))])]
      in (JObj primary, JObj environment))"

definition by_name :: "agent_info list \<Rightarrow> (string, agent_info) gomap" where
  "by_name infos = fold (\<lambda>a m. if ai_name a \<noteq> [] then put (ai_name a) a m else m) infos []"

text \<open>What \<open>opencode debug agent\<close> adds to the declared entry.\<close>

definition put_unless_null :: "string \<Rightarrow> json \<Rightarrow> (string, json) gomap \<Rightarrow> (string, json) gomap" where
  "put_unless_null k v m = (if v = JNull then m else put k v m)"

definition put_text :: "string \<Rightarrow> string \<Rightarrow> (string, json) gomap \<Rightarrow> (string, json) gomap" where
  "put_text k s m = (if s = [] then m else put k (JStr s) m)"

definition enrich :: "agent_info \<Rightarrow> (string, json) gomap \<Rightarrow> (string, json) gomap" where
  "enrich a sub =
     (let sub = put_text ''mode'' (ai_mode a) sub;
          sub = put ''native'' (JBool (ai_native a)) sub;
          sub = put_unless_null ''tools'' (decodeRaw (ai_tools a)) sub;
          sub = put_text ''model'' (ai_model a) sub;
          sub = put_text ''variant'' (ai_variant a) sub;
          sub = (case ai_temperature a of None \<Rightarrow> sub | Some t \<Rightarrow> put ''temperature'' (JFloat t) sub);
          sub = (case ai_steps a of None \<Rightarrow> sub | Some n \<Rightarrow> put ''steps'' (JInt n) sub)
      in put_unless_null ''options'' (decodeRaw (ai_options a)) sub)"

definition agent_prompt :: "world \<Rightarrow> agent_info option \<Rightarrow> (string, json) gomap \<Rightarrow> string" where
  "agent_prompt w info entry =
     (let h = (case info of None \<Rightarrow> [] | Some a \<Rightarrow> promptHashFromRaw w (ai_prompt a))
      in if h = [] then promptHash w (at_key entry ''prompt'') else h)"

definition agent_sub :: "world \<Rightarrow> string \<Rightarrow> agent_info option \<Rightarrow> (string, json) gomap \<Rightarrow> json" where
  "agent_sub w home info entry =
     (let sub = filter (\<lambda>p. fst p \<noteq> ''permission'' \<and> fst p \<noteq> ''prompt'') entry;
          sub = (case info of None \<Rightarrow> sub | Some a \<Rightarrow> enrich a sub);
          sub = put_text ''prompt_sha256'' (agent_prompt w info entry) sub;
          sub = (if map_of sub ''options'' = None then put ''options'' (JObj []) sub else sub)
      in JObj (toAnyMap (canonicalize (JObj sub) home)))"

definition agent_permission :: "world \<Rightarrow> string \<Rightarrow> agent_info option \<Rightarrow> (string, json) gomap \<Rightarrow> json" where
  "agent_permission w home info entry =
     canonicalizePermission (w_num w)
       (case info of
          None \<Rightarrow> at_key entry ''permission''
        | Some a \<Rightarrow> if ai_permission a \<noteq> None then decodeRaw (ai_permission a) else at_key entry ''permission'') home"

definition buildAgents ::
  "world \<Rightarrow> (string, json) gomap \<Rightarrow> agent_info list \<Rightarrow> string \<Rightarrow> (string, json) gomap \<times> json" where
  "buildAgents w cfg infos home =
     (let byName = by_name infos;
          declared = toAnyMap (at_key cfg ''agent'');
          names = sort (map fst declared);
          entry = (\<lambda>name. toAnyMap (at_key declared name));
          global = canonicalizePermission (w_num w) (at_key cfg ''permission'') home
      in (map (\<lambda>name. (name, agent_sub w home (map_of byName name) (entry name))) names,
          JObj [(''global'', if global = JNull then JObj [] else global),
                (''by_agent'', JObj (map (\<lambda>name.
                   (name, agent_permission w home (map_of byName name) (entry name))) names))]))"

definition buildSkill :: "world \<Rightarrow> skill_info \<Rightarrow> string \<Rightarrow> json \<times> json" where
  "buildSkill w sk home =
     (let contentHash = w_sha w (si_content sk);
          dir = file_dir (si_location sk);
          src = (if si_location sk \<noteq> [] then normalizePath dir home else []);
          filesHash = (if si_location sk \<noteq> [] \<and> dir \<noteq> ''.'' \<and> dir \<noteq> []
                       then (case hashDir w dir of None \<Rightarrow> [] | Some h \<Rightarrow> h) else []);
          fh = (if filesHash = [] then contentHash else filesHash);
          err = (if filesHash = [] then [(''source_error'', JBool True)] else [])
      in (JObj ([(''description'', JStr (si_description sk)), (''content_sha256'', JStr contentHash),
                 (''files_sha256'', JStr fh), (''source'', JStr src)] @ err),
          JObj ([(''name'', JStr (si_name sk)), (''description'', JStr (si_description sk)), (''location'', JStr src),
                 (''content'', JStr (si_content sk)), (''content_sha256'', JStr contentHash),
                 (''files_sha256'', JStr fh)] @ err)))"

definition environmentKeyNames :: "(string, json) gomap \<Rightarrow> json" where
  "environmentKeyNames env = toAnyStrings (sort (map fst env))"

definition buildMCP :: "(string, json) gomap \<Rightarrow> json" where
  "buildMCP entry =
     JObj (put ''environment_keys'' (environmentKeyNames (toAnyMap (at_key entry ''environment'')))
       (filter (\<lambda>p. fst p \<noteq> ''environment'') entry))"

definition project_mcp :: "json \<Rightarrow> json" where
  "project_mcp entry =
     (let e = toAnyMap entry
      in if map_of e ''environment'' = None then entry
         else JObj (put ''environment'' (environmentKeyNames (toAnyMap (at_key e ''environment''))) e))"

definition configCapture :: "(string, json) gomap \<Rightarrow> json" where
  "configCapture cfg =
     (if is_map (at_key cfg ''mcp'')
      then JObj (put ''mcp'' (JObj (map (\<lambda>p. (fst p, project_mcp (snd p))) (toAnyMap (at_key cfg ''mcp'')))) cfg)
      else JObj cfg)"

definition buildPlugin :: "world \<Rightarrow> string \<Rightarrow> json \<Rightarrow> string \<Rightarrow> json" where
  "buildPlugin w spec origin home =
     JObj ((case origin of JStr s \<Rightarrow> if s \<noteq> [] then [(''origin'', JStr (normalizePath s home))] else [] | _ \<Rightarrow> [])
       @ (if has_prefix spec ''file://''
          then (case hashPath w (trim_prefix spec ''file://'') of
                  Some h \<Rightarrow> [(''local_sha256'', JStr h)]
                | None \<Rightarrow> [(''local_error'', JBool True)])
          else []))"

text \<open>One configuration key: what it adds to the components and to the rest.\<close>

definition config_key :: "string \<times> json \<Rightarrow> (string, json) gomap \<times> (string, json) gomap" where
  "config_key p =
     (let (key, val) = p; entries = toAnyMap val
      in if isConsumed key then ([], [])
         else if containsKey splitMapConfigKeys key \<and> is_map val \<and> 0 < length entries
           then (map (\<lambda>q. (key @ ''/'' @ fst q, snd q)) entries, [])
         else if containsKey splitMapConfigKeys key \<and> is_map val then ([], [])
         else if containsKey splitMapConfigKeys key \<or> containsKey singletonConfigKeys key then ([(key, val)], [])
         else ([], [(key, val)]))"

definition configComponents :: "(string, json) gomap \<Rightarrow> (string, json) gomap \<Rightarrow> (string, json) gomap" where
  "configComponents cfg components =
     (let parts = map config_key cfg;
          rest = concat (map snd parts);
          components = put_all (concat (map fst parts)) components
      in if rest \<noteq> [] then put ''config'' (JObj rest) components else components)"

definition splitComponentKey :: "string \<Rightarrow> string \<times> string" where
  "splitComponentKey key = (case cut (CHR ''/'') key of (kind, name, found) \<Rightarrow> if found then (kind, name) else (key, key))"

definition hashedComponents :: "world \<Rightarrow> (string, json) gomap \<Rightarrow> component list" where
  "hashedComponents w components =
     map (\<lambda>key. case splitComponentKey key of (kind, name) \<Rightarrow>
            \<lparr>cp_kind = kind, cp_name = name, cp_hash = Hash (w_sha w) (w_num w) (at_key components key),
             cp_json = JSON (w_num w) (at_key components key)\<rparr>) (sort (map fst components))"

section \<open>Captures\<close>

definition opt_json :: "json option \<Rightarrow> json" where
  "opt_json v = (case v of None \<Rightarrow> JNull | Some j \<Rightarrow> j)"

text \<open>The marshalled form of the adapter's record, for an agent without a raw capture.\<close>

definition agent_doc :: "agent_info \<Rightarrow> json" where
  "agent_doc a = JObj [(''name'', JStr (ai_name a)), (''description'', JStr (ai_description a)),
     (''mode'', JStr (ai_mode a)), (''native'', JBool (ai_native a)), (''model'', JStr (ai_model a)),
     (''variant'', JStr (ai_variant a)), (''steps'', case ai_steps a of None \<Rightarrow> JNull | Some n \<Rightarrow> JInt n),
     (''temperature'', case ai_temperature a of None \<Rightarrow> JNull | Some t \<Rightarrow> JFloat t),
     (''tools'', opt_json (ai_tools a)), (''options'', opt_json (ai_options a)),
     (''permission'', opt_json (ai_permission a)), (''prompt'', opt_json (ai_prompt a))]"

definition capture_agent :: "world \<Rightarrow> string \<Rightarrow> agent_info \<Rightarrow> string \<times> json" where
  "capture_agent w home a =
     (let v = any_of (case ai_raw a of None \<Rightarrow> agent_doc a | Some j \<Rightarrow> j);
          clean = canonicalize v home;
          m = toAnyMap clean;
          clean = (if is_map clean \<and> map_of m ''permission'' \<noteq> None
                   then JObj (put ''permission'' (sortPermissionArrays (w_num w) (at_key m ''permission'')) m) else clean)
      in (if ai_name a = [] then stringValue (at_key (toAnyMap clean) ''name'') else ai_name a, clean))"

fun first_names :: "string list \<Rightarrow> (string \<times> json) list \<Rightarrow> (string \<times> json) list" where
  "first_names seen [] = []"
| "first_names seen (p # ps) =
     (if fst p \<in> set seen then first_names seen ps else p # first_names (fst p # seen) ps)"

definition buildAgentsCapture :: "world \<Rightarrow> agent_info list \<Rightarrow> string \<Rightarrow> string" where
  "buildAgentsCapture w agents home =
     JSON (w_num w) (JArr (map snd (sort_key fst (first_names [] (map (capture_agent w home) agents)))))"

definition buildInstructionsCapture :: "world \<Rightarrow> (string, string) gomap \<Rightarrow> string" where
  "buildInstructionsCapture w contents = JSON (w_num w) (JObj (map (\<lambda>p. (fst p, JStr (snd p))) contents))"

definition capture_name :: "json \<Rightarrow> string" where
  "capture_name c = stringValue (at_key (toAnyMap c) ''name'')"

definition sortCaptures :: "json list \<Rightarrow> json list" where
  "sortCaptures cs = sort_by (\<lambda>a b. capture_name a < capture_name b) cs"

section \<open>The fingerprint\<close>

definition defaultInstructionPath :: "string \<Rightarrow> string \<Rightarrow> string \<Rightarrow> string" where
  "defaultInstructionPath scope home dir =
     (let name = (case cut (CHR '':'') scope of (_, rest, found) \<Rightarrow> if found then rest else scope)
      in if has_prefix scope ''global:''
         then (if home \<noteq> [] then path_clean (join ''/'' [home, ''.config'', ''opencode'', name]) else [])
         else if has_prefix scope ''project:'' \<and> dir \<noteq> [] then path_clean (join ''/'' (filter (\<lambda>x. x \<noteq> []) [dir, name]))
         else [])"

definition instruction_component :: "world \<Rightarrow> sources \<Rightarrow> string \<times> string \<Rightarrow> json" where
  "instruction_component w s p =
     (let path = getd [] (so_paths s) (fst p);
          path = (if path = [] then defaultInstructionPath (fst p) (so_home s) (so_dir s) else path)
      in JObj [(''path'', JStr (normalizePath path (so_home s))), (''sha256'', JStr (w_sha w (snd p)))])"

text \<open>Normalisation rewrites values, so the keys of \<open>plugin_origins\<close> are normalised here.\<close>

definition fix_origins :: "string \<Rightarrow> (string, json) gomap \<Rightarrow> (string, json) gomap" where
  "fix_origins home cfg =
     (if is_map (at_key cfg ''plugin_origins'')
      then put ''plugin_origins'' (JObj (put_all (map (\<lambda>p. (normalizePath (fst p) home, snd p))
             (toAnyMap (at_key cfg ''plugin_origins''))) [])) cfg
      else cfg)"

definition profile_components ::
  "world \<Rightarrow> sources \<Rightarrow> options \<Rightarrow> (string, json) gomap \<Rightarrow> (string, json) gomap \<Rightarrow> (string, json) gomap" where
  "profile_components w s opts cfg rawCfg =
     (let home = so_home s;
          (primary, environment) = buildPrimary cfg opts;
          (agents, permissions) = buildAgents w cfg (so_agents s) home;
          origins = toAnyMap (at_key rawCfg ''plugin_origins'');
          components = put_all ([(''primary'', primary), (''environment'', environment)]
            @ map (\<lambda>p. (''agent/'' @ fst p, snd p)) agents
            @ [(''permissions'', permissions)]
            @ map (\<lambda>sk. (''skill/'' @ si_name sk, fst (buildSkill w sk home))) (so_skills s)
            @ map (\<lambda>p. (''mcp/'' @ fst p, buildMCP (toAnyMap (snd p)))) (toAnyMap (at_key cfg ''mcp''))
            @ map (\<lambda>spec. (''plugin/'' @ normalizePath spec home, buildPlugin w spec (at_key origins spec) home))
                (toStringSlice (at_key rawCfg ''plugin''))
            @ map (\<lambda>p. (''instructions/'' @ fst p, instruction_component w s p)) (so_instructions s)) []
      in configComponents cfg components)"

definition Fingerprint :: "world \<Rightarrow> sources \<Rightarrow> options \<Rightarrow> profile option" where
  "Fingerprint w s opts =
     (case decodeConfig w (so_config s) of
        None \<Rightarrow> None
      | Some raw \<Rightarrow>
          (let redacted = Redact raw;
               cfg = fix_origins (so_home s) (toAnyMap (NormalizePaths redacted (normPrefixes (so_home s))));
               components = profile_components w s opts cfg (toAnyMap redacted);
               snapshot = [(''schema'', JInt schemaVersion), (''opencode_version'', JStr (so_version s)),
                           (''components'', JObj components)];
               skillCaptures = sortCaptures (map (\<lambda>sk. snd (buildSkill w sk (so_home s))) (so_skills s))
           in Some \<lparr>pf_id = [], pf_hash = Hash (w_sha w) (w_num w) (JObj snapshot), pf_opencode = so_version s,
                pf_json = JSON (w_num w) (JObj snapshot), pf_components = hashedComponents w components,
                pf_snapshot = snapshot,
                pf_captures = \<lparr>ca_config = JSON (w_num w) (configCapture cfg),
                  ca_skills = JSON (w_num w) (JArr skillCaptures),
                  ca_agents = buildAgentsCapture w (so_agents s) (so_home s),
                  ca_instructions = buildInstructionsCapture w (so_instructions s)\<rparr>\<rparr>))"

section \<open>What the profile does not depend on\<close>

text \<open>Documents whose objects are maps.\<close>

fun json_wf :: "json \<Rightarrow> bool" where
  "json_wf (JObj kvs) = (map_wf kvs \<and> list_all (\<lambda>p. json_wf (snd p)) kvs)"
| "json_wf (JArr vs) = list_all json_wf vs"
| "json_wf v = True"

lemma json_wf_puts:
  "map_wf m \<Longrightarrow> list_all (\<lambda>p. json_wf (snd p)) m \<Longrightarrow> list_all (\<lambda>p. json_wf (snd p)) ps \<Longrightarrow>
   json_wf (JObj (fold (\<lambda>p m. put (fst p) (snd p) m) ps m))"
proof (induction ps arbitrary: m)
  case (Cons p ps)
  have "set (put (fst p) (snd p) m) \<subseteq> insert p (set m)"
    by (induction m) auto
  then have "list_all (\<lambda>p. json_wf (snd p)) (put (fst p) (snd p) m)"
    using Cons.prems by (auto simp: list_all_iff)
  then show ?case using Cons by simp
qed simp

lemma json_wf_any_of [simp]: "json_wf (any_of v)"
proof (induction v rule: any_of.induct)
  case (1 kvs)
  show ?case unfolding any_of.simps by (rule json_wf_puts) (use 1 in \<open>auto simp: list_all_iff\<close>)
qed (auto simp: list_all_iff)

lemma map_wf_map_values: "(\<And>x. fst (f x) = fst x) \<Longrightarrow> map_wf (map f kvs) = map_wf kvs"
  by (simp add: map_wf_def comp_def)

lemma json_wf_Redact: "json_wf v \<Longrightarrow> json_wf (Redact v)"
  by (induction v rule: Redact.induct) (auto simp: list_all_iff map_wf_map_values)

lemma json_wf_normalize: "json_wf v \<Longrightarrow> json_wf (normalize v ps)"
  by (induction v ps rule: normalize.induct) (auto simp: list_all_iff map_wf_map_values)

text \<open>The configuration with the values of every \<open>mcp.<name>.environment\<close> erased, its keys kept.\<close>

definition mask_env :: "json \<Rightarrow> json" where
  "mask_env v = (case v of JObj kvs \<Rightarrow> JObj (map (\<lambda>p. (fst p, JNull)) kvs) | _ \<Rightarrow> JNull)"

definition mask_entry :: "json \<Rightarrow> json" where
  "mask_entry v = (case v of
      JObj kvs \<Rightarrow> JObj (map (\<lambda>p. (fst p, if fst p = ''environment'' then mask_env (snd p) else snd p)) kvs) | _ \<Rightarrow> v)"

definition mask_servers :: "json \<Rightarrow> json" where
  "mask_servers v = (case v of JObj kvs \<Rightarrow> JObj (map (\<lambda>p. (fst p, mask_entry (snd p))) kvs) | _ \<Rightarrow> v)"

definition mask_map :: "(string, json) gomap \<Rightarrow> (string, json) gomap" where
  "mask_map m = map (\<lambda>p. (fst p, if fst p = ''mcp'' then mask_servers (snd p) else snd p)) m"

definition mask_mcp :: "json \<Rightarrow> json" where
  "mask_mcp v = (case v of JObj kvs \<Rightarrow> JObj (mask_map kvs) | _ \<Rightarrow> v)"

definition mask_key :: "string \<Rightarrow> (json \<Rightarrow> json) \<Rightarrow> (string, json) gomap \<Rightarrow> (string, json) gomap" where
  "mask_key a f m = map (\<lambda>p. (fst p, if fst p = a then f (snd p) else snd p)) m"

lemma map_of_mask_key: "map_of (mask_key a f m) k = map_option (if k = a then f else id) (map_of m k)"
  by (induction m) (auto simp: mask_key_def)

lemma filter_mask_key: "filter (\<lambda>p. fst p \<noteq> a) (mask_key a f m) = filter (\<lambda>p. fst p \<noteq> a) m"
  by (induction m) (auto simp: mask_key_def)

lemma mask_key_id: "(\<And>v. (a, v) \<in> set m \<Longrightarrow> f v = v) \<Longrightarrow> mask_key a f m = m"
  unfolding mask_key_def by (rule map_idI) auto

lemma put_mask_key: "map_wf m \<Longrightarrow> k \<in> fst ` set m \<Longrightarrow> put k v (mask_key k f m) = put k v m"
proof (induction m)
  case (Cons p m)
  have "mask_key k f m = m" if "k \<notin> fst ` set m"
    by (rule mask_key_id) (use that in force)
  then show ?case using Cons by (cases p) (auto simp: map_wf_def mask_key_def)
qed simp

lemma mask_entry_obj: "mask_entry (JObj m) = JObj (mask_key ''environment'' mask_env m)"
  by (simp add: mask_entry_def mask_key_def)

lemma mask_entry_other: "\<not> is_map e \<Longrightarrow> mask_entry e = e"
  by (cases e) (simp_all add: mask_entry_def is_map_def)

lemma toAnyMap_obj [simp]: "toAnyMap (JObj m) = m" "\<not> is_map e \<Longrightarrow> toAnyMap e = []"
  by (auto simp: toAnyMap_def is_map_def split: json.splits)

lemma is_map_obj: "is_map e \<longleftrightarrow> (\<exists>m. e = JObj m)"
  by (cases e) (simp_all add: is_map_def)

lemma mask_map_key: "mask_map m = mask_key ''mcp'' mask_servers m"
  by (simp add: mask_map_def mask_key_def)

lemma normalize_mask: "mask_mcp (normalize v ps) = normalize (mask_mcp v) ps"
proof -
  have env: "mask_env (normalize v ps) = normalize (mask_env v) ps" for v
    by (cases v) (auto simp: mask_env_def)
  have entry: "mask_entry (normalize v ps) = normalize (mask_entry v) ps" for v
    by (cases v) (auto simp: mask_entry_def env)
  have servers: "mask_servers (normalize v ps) = normalize (mask_servers v) ps" for v
    by (cases v) (auto simp: mask_servers_def entry)
  show ?thesis by (cases v) (auto simp: mask_mcp_def mask_map_def servers)
qed

lemma toAnyMap_mask: "toAnyMap (mask_mcp v) = mask_map (toAnyMap v)"
  by (cases v) (auto simp: toAnyMap_def mask_mcp_def mask_map_def)

lemma map_of_mask: "map_of (mask_map m) k = map_option (if k = ''mcp'' then mask_servers else id) (map_of m k)"
  by (simp add: mask_map_key map_of_mask_key)

lemma at_key_mask: "at_key (mask_map m) k = (if k = ''mcp'' then mask_servers (at_key m k) else at_key m k)"
  by (auto simp: at_key_def map_of_mask mask_servers_def split: option.splits)

lemma is_map_mask [simp]: "is_map (mask_servers v) = is_map v"
  by (cases v) (auto simp: is_map_def mask_servers_def)

lemma mask_keys [simp]: "map fst (mask_map m) = map fst m"
  by (simp add: mask_map_def comp_def)

lemma entry_keys: "map_of (toAnyMap (mask_entry e)) k = map_option (if k = ''environment'' then mask_env else id) (map_of (toAnyMap e) k)"
  by (cases "is_map e") (auto simp: is_map_obj mask_entry_obj map_of_mask_key mask_entry_other)

lemma entry_env: "map fst (toAnyMap (at_key (toAnyMap (mask_entry e)) ''environment''))
    = map fst (toAnyMap (at_key (toAnyMap e) ''environment''))"
proof -
  have "map fst (toAnyMap (mask_env v)) = map fst (toAnyMap v)" for v
    by (cases v) (auto simp: mask_env_def toAnyMap_def)
  then show ?thesis
    by (cases "map_of (toAnyMap e) ''environment''") (simp_all add: at_key_def entry_keys)
qed

lemma entry_rest: "filter (\<lambda>p. fst p \<noteq> ''environment'') (toAnyMap (mask_entry e)) = filter (\<lambda>p. fst p \<noteq> ''environment'') (toAnyMap e)"
  by (cases "is_map e") (auto simp: is_map_obj mask_entry_obj filter_mask_key mask_entry_other)

lemma buildMCP_mask: "buildMCP (toAnyMap (mask_entry e)) = buildMCP (toAnyMap e)"
  by (simp only: buildMCP_def entry_rest environmentKeyNames_def entry_env)

lemma project_mask: "json_wf e \<Longrightarrow> project_mcp (mask_entry e) = project_mcp e"
proof (cases e)
  case (JObj m)
  assume "json_wf e"
  then have wf: "map_wf m" by (simp add: JObj)
  show ?thesis
  proof (cases "map_of m ''environment''")
    case None
    then have "mask_key ''environment'' mask_env m = m"
      by (intro mask_key_id) (auto simp: map_of_eq_None_iff image_iff)
    then show ?thesis by (simp add: JObj mask_entry_obj)
  next
    case (Some v)
    then have "''environment'' \<in> fst ` set m" by (metis map_of_eq_None_iff option.distinct(1))
    then have "put ''environment'' x (mask_key ''environment'' mask_env m) = put ''environment'' x m" for x
      by (rule put_mask_key [OF wf])
    then show ?thesis
      using Some entry_env [of e]
      by (simp add: project_mcp_def Let_def JObj mask_entry_obj environmentKeyNames_def map_of_mask_key)
  qed
qed (simp_all add: mask_entry_def)

lemma capture_mask:
  assumes "json_wf (JObj cfg)"
  shows "configCapture (mask_map cfg) = configCapture cfg"
proof (cases "is_map (at_key cfg ''mcp'')")
  case False
  have "mask_servers v = v" if "(''mcp'', v) \<in> set cfg" for v
  proof -
    have "at_key cfg ''mcp'' = v" using assms that by (simp add: at_key_def map_wf_def)
    then show ?thesis using False by (cases v) (auto simp: is_map_def mask_servers_def)
  qed
  then have "mask_map cfg = cfg" unfolding mask_map_key by (rule mask_key_id)
  then show ?thesis by simp
next
  case True
  then obtain es where es: "at_key cfg ''mcp'' = JObj es" by (auto simp: is_map_def split: json.splits)
  then have mem: "(''mcp'', JObj es) \<in> set cfg"
    by (auto simp: at_key_def split: option.splits dest: map_of_SomeD)
  then have wf: "list_all (\<lambda>p. json_wf (snd p)) es" using assms by (fastforce simp: list_all_iff)
  have key: "''mcp'' \<in> fst ` set cfg" using mem by force
  have wfc: "map_wf cfg" using assms by simp
  have "map (\<lambda>p. (fst p, project_mcp (snd p))) (toAnyMap (mask_servers (JObj es))) = map (\<lambda>p. (fst p, project_mcp (snd p))) es"
    using wf by (auto simp: toAnyMap_def mask_servers_def list_all_iff project_mask)
  moreover have "put ''mcp'' x (mask_map cfg) = put ''mcp'' x cfg" for x
    unfolding mask_map_key by (rule put_mask_key [OF wfc key])
  ultimately show ?thesis
    using True es by (simp add: configCapture_def at_key_mask)
qed

text \<open>The components read the servers only through their masked entries.\<close>

lemma components_mask:
  "profile_components w s opts (mask_map cfg) (mask_map raw) = profile_components w s opts cfg raw"
proof -
  have keys: "at_key (mask_map m) k = at_key m k" if "k \<noteq> ''mcp''" for m k
    using that by (simp add: at_key_mask)
  have prim: "buildPrimary (mask_map cfg) opts = buildPrimary cfg opts"
    by (simp add: buildPrimary_def keys)
  have ags: "buildAgents w (mask_map cfg) infos home = buildAgents w cfg infos home" for infos home
    by (simp add: buildAgents_def keys)
  have mcp: "map (\<lambda>p. (''mcp/'' @ fst p, buildMCP (toAnyMap (snd p)))) (toAnyMap (mask_servers v))
      = map (\<lambda>p. (''mcp/'' @ fst p, buildMCP (toAnyMap (snd p)))) (toAnyMap v)" for v
    by (cases v) (simp_all add: mask_servers_def buildMCP_mask)
  have "map config_key (mask_map cfg) = map config_key cfg"
    by (auto simp: mask_map_def config_key_def isConsumed_def consumedKeys_def Let_def)
  then have conf: "configComponents (mask_map cfg) C = configComponents cfg C" for C
    by (simp add: configComponents_def)
  have srv: "at_key (mask_map m) ''mcp'' = mask_servers (at_key m ''mcp'')" for m
    by (simp add: at_key_mask)
  have others: "at_key (mask_map m) ''plugin'' = at_key m ''plugin''"
    "at_key (mask_map m) ''plugin_origins'' = at_key m ''plugin_origins''" for m
    by (simp_all add: keys)
  show ?thesis
    by (simp only: profile_components_def Let_def prim ags conf srv others mcp)
qed

lemma fix_origins_mask: "fix_origins home (mask_map cfg) = mask_map (fix_origins home cfg)"
proof -
  have "put k v (mask_map m) = mask_map (put k v m)" if "k \<noteq> ''mcp''" for k v m
    using that by (induction m) (auto simp: mask_map_def)
  then show ?thesis by (simp add: fix_origins_def at_key_mask)
qed

lemma toAnyMap_wf: "json_wf v \<Longrightarrow> json_wf (JObj (toAnyMap v))"
  by (cases v) (simp_all add: toAnyMap_def)

lemma json_wf_fix_origins: "json_wf (JObj m) \<Longrightarrow> json_wf (JObj (fix_origins home m))"
proof -
  assume wf: "json_wf (JObj m)"
  have "json_wf (at_key m k)" for k
  proof (cases "map_of m k")
    case (Some v)
    then have "(k, v) \<in> set m" by (rule map_of_SomeD)
    then show ?thesis using wf Some by (fastforce simp: at_key_def list_all_iff)
  qed (simp add: at_key_def)
  then have "list_all (\<lambda>p. json_wf (snd p)) (toAnyMap (at_key m k))" for k
    using toAnyMap_wf [of "at_key m k"] by simp
  then have "json_wf (JObj (put_all (map (\<lambda>p. (normalizePath (fst p) home, snd p)) (toAnyMap (at_key m k))) []))" for k
    using json_wf_puts [of "[]" "map (\<lambda>p. (normalizePath (fst p) home, snd p)) (toAnyMap (at_key m k))"]
    by (simp add: put_all_def list_all_iff)
  from json_wf_puts [of m "[(''plugin_origins'', JObj (put_all (map (\<lambda>p. (normalizePath (fst p) home, snd p))
      (toAnyMap (at_key m ''plugin_origins''))) []))]"] this wf
  show ?thesis by (simp add: fix_origins_def)
qed

lemma decodeConfig_wf: "decodeConfig w raw = Some v \<Longrightarrow> json_wf v"
  by (auto simp: decodeConfig_def split: if_splits)



section \<open>The order of permission rules\<close>

lemma sort_key_map_value:
  "sort_key fst (map (\<lambda>p. (fst p, f (snd p))) xs) = map (\<lambda>p. (fst p, f (snd p))) (sort_key fst xs)"
proof -
  have ins: "insort_key fst (fst p, f (snd p)) (map (\<lambda>p. (fst p, f (snd p))) ys)
      = map (\<lambda>p. (fst p, f (snd p))) (insort_key fst p ys)" for p ys
    by (induction ys) auto
  show ?thesis by (induction xs) (simp_all add: ins)
qed

lemma JSON_arr: "JSON num (JArr vs) = ''['' @ join '','' (map (JSON num) vs) @ '']''"
  by (simp add: JSON_def [abs_def] comp_def)

lemma JSON_obj:
  "JSON num (JObj kvs) = ''{'' @ join '','' (map (\<lambda>p. quote (fst p) @ '':'' @ snd p)
     (sort_key fst (map (\<lambda>p. (fst p, JSON num (snd p))) kvs))) @ ''}''"
  by (simp add: JSON_def sort_key_map_value [of toCanonical] sort_key_map_value [of "encode num"]
      sort_key_map_value [of "\<lambda>v. encode num (toCanonical v)"] comp_def sort_key_id_if_sorted)

text \<open>Entries with the same keys and the same canonical texts, in the same order.\<close>

definition same_texts :: "(json \<Rightarrow> string) \<Rightarrow> (string, json) gomap \<Rightarrow> (string, json) gomap \<Rightarrow> bool" where
  "same_texts num = list_all2 (\<lambda>p q. fst p = fst q \<and> JSON num (snd p) = JSON num (snd q))"

lemma same_texts_refl [simp]: "same_texts num m m"
  by (simp add: same_texts_def list_all2_refl)

lemma same_texts_append: "same_texts num a b \<Longrightarrow> same_texts num c d \<Longrightarrow> same_texts num (a @ c) (b @ d)"
  by (simp add: same_texts_def list_all2_appendI)

lemma same_texts_map:
  "(\<And>x. x \<in> set xs \<Longrightarrow> JSON num (f x) = JSON num (g x)) \<Longrightarrow> same_texts num (map (\<lambda>x. (k x, f x)) xs) (map (\<lambda>x. (k x, g x)) xs)"
  by (induction xs) (auto simp: same_texts_def)

lemma JSON_obj_cong: "same_texts num kvs lws \<Longrightarrow> JSON num (JObj kvs) = JSON num (JObj lws)"
proof -
  assume "same_texts num kvs lws"
  then have "map (\<lambda>p. (fst p, JSON num (snd p))) kvs = map (\<lambda>p. (fst p, JSON num (snd p))) lws"
    unfolding same_texts_def by (induction rule: list_all2_induct) auto
  then show ?thesis by (simp only: JSON_obj)
qed

lemma same_texts_put:
  "same_texts num m m' \<Longrightarrow> JSON num v = JSON num v' \<Longrightarrow> same_texts num (put k v m) (put k v' m')"
  unfolding same_texts_def by (induction rule: list_all2_induct) auto

lemma same_texts_put_all:
  "same_texts num ps qs \<Longrightarrow> same_texts num m m' \<Longrightarrow> same_texts num (put_all ps m) (put_all qs m')"
proof (unfold same_texts_def put_all_def, induction ps qs arbitrary: m m' rule: list_all2_induct)
  case (Cons p ps q qs)
  then show ?case using same_texts_put [of num m m' "snd p" "snd q" "fst p"] by (simp add: same_texts_def)
qed simp

lemma same_texts_at_key: "same_texts num m m' \<Longrightarrow> JSON num (at_key m k) = JSON num (at_key m' k)"
  unfolding same_texts_def at_key_def by (induction rule: list_all2_induct) auto

lemma same_texts_keys: "same_texts num m m' \<Longrightarrow> map fst m = map fst m'"
  unfolding same_texts_def by (induction rule: list_all2_induct) auto

text \<open>Documents that differ in the order of array elements, at any depth.\<close>

inductive perm_eq :: "json \<Rightarrow> json \<Rightarrow> bool" where
  perm_leaf: "perm_eq v v"
| perm_arr: "list_all2 perm_eq vs us \<Longrightarrow> mset us = mset ws \<Longrightarrow> perm_eq (JArr vs) (JArr ws)"
| perm_obj: "list_all2 (\<lambda>p q. fst p = fst q \<and> perm_eq (snd p) (snd q)) kvs lws \<Longrightarrow> perm_eq (JObj kvs) (JObj lws)"

lemma perm_eq_map_arr:
  "list_all2 (\<lambda>a b. perm_eq (f a) (f b)) vs us \<Longrightarrow> mset us = mset ws \<Longrightarrow> perm_eq (JArr (map f vs)) (JArr (map f ws))"
  by (rule perm_arr [where us = "map f us"]) (auto simp: list_all2_map1 list_all2_map2)

lemma perm_eq_Redact: "perm_eq v w \<Longrightarrow> perm_eq (Redact v) (Redact w)"
proof (induction rule: perm_eq.induct)
  case (perm_arr vs us ws)
  then have "list_all2 (\<lambda>a b. perm_eq (Redact a) (Redact b)) vs us" by (auto elim: list_all2_mono)
  then show ?case using perm_arr(2) by (simp add: perm_eq_map_arr)
next
  case (perm_obj kvs lws)
  then show ?case
    by (auto intro!: perm_eq.perm_obj simp: list_all2_map1 list_all2_map2 perm_leaf elim!: list_all2_mono)
qed (rule perm_leaf)

lemma perm_eq_normalize: "perm_eq v w \<Longrightarrow> perm_eq (normalize v ps) (normalize w ps)"
proof (induction rule: perm_eq.induct)
  case (perm_arr vs us ws)
  then have "list_all2 (\<lambda>a b. perm_eq (normalize a ps) (normalize b ps)) vs us" by (auto elim: list_all2_mono)
  then show ?case using perm_arr(2) by (simp add: perm_eq_map_arr)
next
  case (perm_obj kvs lws)
  then show ?case
    by (auto intro!: perm_eq.perm_obj simp: list_all2_map1 list_all2_map2 elim!: list_all2_mono)
qed (rule perm_leaf)

lemma map_sort_texts: "map (JSON num) (sort_by (\<lambda>a b. JSON num a < JSON num b) xs) = sort (map (JSON num) xs)"
  unfolding sort_by_key by (rule sym, rule properties_for_sort) simp_all

lemma sortPermissionArrays_perm: "perm_eq v w \<Longrightarrow> JSON num (sortPermissionArrays num v) = JSON num (sortPermissionArrays num w)"
proof (induction rule: perm_eq.induct)
  case (perm_arr vs us ws)
  then have "map (\<lambda>v. JSON num (sortPermissionArrays num v)) vs = map (\<lambda>v. JSON num (sortPermissionArrays num v)) us"
    by (auto simp: map_eq_list_all2 elim: list_all2_mono)
  then have "mset (map (\<lambda>v. JSON num (sortPermissionArrays num v)) vs) = mset (map (\<lambda>v. JSON num (sortPermissionArrays num v)) ws)"
    using perm_arr(2) by simp
  then have "sort (map (\<lambda>v. JSON num (sortPermissionArrays num v)) vs) = sort (map (\<lambda>v. JSON num (sortPermissionArrays num v)) ws)"
    by (metis mset_sort properties_for_sort sorted_sort)
  then show ?case by (simp add: JSON_arr map_sort_texts comp_def)
next
  case (perm_obj kvs lws)
  then have "same_texts num (map (\<lambda>p. (fst p, sortPermissionArrays num (snd p))) kvs)
      (map (\<lambda>p. (fst p, sortPermissionArrays num (snd p))) lws)"
    by (auto simp: same_texts_def list_all2_map1 list_all2_map2 elim!: list_all2_mono)
  then show ?case by (simp add: JSON_obj_cong)
qed simp

lemma canonicalizePermission_perm:
  "perm_eq v w \<Longrightarrow> JSON num (canonicalizePermission num v home) = JSON num (canonicalizePermission num w home)"
  by (simp add: canonicalizePermission_def canonicalize_def NormalizePaths_def sortPermissionArrays_perm
      perm_eq_normalize perm_eq_Redact)

text \<open>Two observations of the same agents, their permission rules in another order.\<close>

definition same_rules :: "agent_info \<Rightarrow> agent_info \<Rightarrow> bool" where
  "same_rules a b \<longleftrightarrow>
     b\<lparr>ai_permission := ai_permission a, ai_raw := ai_raw a\<rparr> = a \<and>
     (ai_permission a = None \<longleftrightarrow> ai_permission b = None) \<and>
     perm_eq (decodeRaw (ai_permission a)) (decodeRaw (ai_permission b))"

lemma same_rules_fields:
  assumes "same_rules a b"
  shows "ai_name b = ai_name a" "enrich b = enrich a" "ai_prompt b = ai_prompt a"
proof -
  have a: "a = b\<lparr>ai_permission := ai_permission a, ai_raw := ai_raw a\<rparr>" using assms by (simp add: same_rules_def)
  show "ai_name b = ai_name a" "ai_prompt b = ai_prompt a" by (subst a, simp)+
  show "enrich b = enrich a" by (subst a) (simp add: enrich_def [abs_def])
qed

lemma by_name_same:
  assumes "list_all2 same_rules as bs"
  shows "rel_option same_rules (map_of (by_name as) n) (map_of (by_name bs) n)"
proof -
  have "rel_option same_rules (map_of m n) (map_of m' n) \<Longrightarrow>
      rel_option same_rules
        (map_of (fold (\<lambda>a m. if ai_name a \<noteq> [] then put (ai_name a) a m else m) as m) n)
        (map_of (fold (\<lambda>a m. if ai_name a \<noteq> [] then put (ai_name a) a m else m) bs m') n)" for m m'
    using assms
  proof (induction arbitrary: m m' rule: list_all2_induct)
    case (Cons a as b bs)
    have "rel_option same_rules (map_of (put (ai_name a) a m) n) (map_of (put (ai_name a) b m') n)"
      using Cons by (simp add: go_map)
    then show ?case using Cons same_rules_fields(1) [OF Cons(1)] by simp
  qed simp
  then show ?thesis by (simp add: by_name_def)
qed

lemma agent_sub_same: "rel_option same_rules i j \<Longrightarrow> agent_sub w home i entry = agent_sub w home j entry"
  by (cases i; cases j) (simp_all add: agent_sub_def agent_prompt_def same_rules_fields)

lemma agent_permission_same:
  "rel_option same_rules i j \<Longrightarrow>
   JSON (w_num w) (agent_permission w home i entry) = JSON (w_num w) (agent_permission w home j entry)"
  by (cases i; cases j) (auto simp: agent_permission_def same_rules_def intro: canonicalizePermission_perm)

lemma buildAgents_same:
  assumes "list_all2 same_rules as bs"
  shows "fst (buildAgents w cfg as home) = fst (buildAgents w cfg bs home)"
    and "JSON (w_num w) (snd (buildAgents w cfg as home)) = JSON (w_num w) (snd (buildAgents w cfg bs home))"
proof -
  note rel = by_name_same [OF assms]
  show "fst (buildAgents w cfg as home) = fst (buildAgents w cfg bs home)"
    using agent_sub_same [OF rel] by (simp add: buildAgents_def Let_def)
  have by_agent: "JSON (w_num w) (JObj (map (\<lambda>name. (name, agent_permission w home (map_of (by_name as) name) (e name))) ns))
      = JSON (w_num w) (JObj (map (\<lambda>name. (name, agent_permission w home (map_of (by_name bs) name) (e name))) ns))" for e ns
    by (intro JSON_obj_cong same_texts_map agent_permission_same rel)
  show "JSON (w_num w) (snd (buildAgents w cfg as home)) = JSON (w_num w) (snd (buildAgents w cfg bs home))"
    unfolding buildAgents_def Let_def snd_conv
    by (intro JSON_obj_cong) (simp add: same_texts_def by_agent)
qed

lemma components_same:
  assumes "list_all2 same_rules as bs"
  shows "same_texts (w_num w) (profile_components w (s\<lparr>so_agents := as\<rparr>) opts cfg raw)
    (profile_components w (s\<lparr>so_agents := bs\<rparr>) opts cfg raw)"
proof -
  have inst: "instruction_component w (s\<lparr>so_agents := x\<rparr>) = instruction_component w s" for x
    by (rule ext) (simp add: instruction_component_def cong: if_cong)
  have conf: "same_texts (w_num w) (configComponents cfg m) (configComponents cfg m')"
    if "same_texts (w_num w) m m'" for m m'
    using that unfolding configComponents_def Let_def
    by (auto intro!: same_texts_put same_texts_put_all)
  obtain ag p where A: "buildAgents w cfg as (so_home s) = (ag, p)" by force
  obtain q where B: "buildAgents w cfg bs (so_home s) = (ag, q)"
    using buildAgents_same(1) [OF assms, of w cfg "so_home s"] A by (cases "buildAgents w cfg bs (so_home s)") simp
  have pq: "JSON (w_num w) p = JSON (w_num w) q"
    using buildAgents_same(2) [OF assms, of w cfg "so_home s"] A B by simp
  have "same_texts (w_num w) [(''permissions'', p)] [(''permissions'', q)]" using pq by (simp add: same_texts_def)
  moreover have sel: "so_home (s\<lparr>so_agents := x\<rparr>) = so_home s" "so_agents (s\<lparr>so_agents := x\<rparr>) = x"
    "so_skills (s\<lparr>so_agents := x\<rparr>) = so_skills s" "so_instructions (s\<lparr>so_agents := x\<rparr>) = so_instructions s" for x
    by simp_all
  ultimately show ?thesis
    unfolding profile_components_def Let_def inst sel A B
    by (cases "buildPrimary cfg opts", simp only: prod.case,
       intro conf same_texts_put_all same_texts_append same_texts_refl)
qed

lemma hashedComponents_same: "same_texts (w_num w) m m' \<Longrightarrow> hashedComponents w m = hashedComponents w m'"
  using same_texts_keys [of "w_num w" m m'] same_texts_at_key [of "w_num w" m m']
  by (simp add: hashedComponents_def Hash_def)

text \<open>C38: 
  The profile does not depend on the order in which OpenCode lists permission rules: when the
  agents are observed again with their rules permuted, at any depth, the hash, the canonical document and
  every component are the same.
\<close>

theorem Fingerprint_permission_order:
  assumes "list_all2 same_rules as bs"
  shows "rel_option (\<lambda>p q. pf_hash p = pf_hash q \<and> pf_json p = pf_json q \<and> pf_components p = pf_components q)
    (Fingerprint w (s\<lparr>so_agents := as\<rparr>) opts) (Fingerprint w (s\<lparr>so_agents := bs\<rparr>) opts)"
proof -
  have J: "JSON (w_num w) (JObj [(''schema'', a), (''opencode_version'', b), (''components'', JObj m)])
      = JSON (w_num w) (JObj [(''schema'', a), (''opencode_version'', b), (''components'', JObj m')])"
    if "same_texts (w_num w) m m'" for a b m m'
    using JSON_obj_cong [OF that] by (intro JSON_obj_cong) (simp add: same_texts_def)
  show ?thesis
  proof (cases "decodeConfig w (so_config s)")
    case (Some v)
    let ?cfg = "fix_origins (so_home s) (toAnyMap (NormalizePaths (Redact v) (normPrefixes (so_home s))))"
    have "same_texts (w_num w) (profile_components w (s\<lparr>so_agents := as\<rparr>) opts ?cfg (toAnyMap (Redact v)))
        (profile_components w (s\<lparr>so_agents := bs\<rparr>) opts ?cfg (toAnyMap (Redact v)))"
      by (rule components_same [OF assms])
    note J [OF this] hashedComponents_same [OF this]
    then show ?thesis by (simp only: Fingerprint_def Let_def Hash_def) (simp add: Some)
  qed (simp add: Fingerprint_def)
qed

theorem Fingerprint_permission_order_witness:
  "\<exists>w opts as bs p q s. as \<noteq> bs \<and> Fingerprint w (s\<lparr>so_agents := as\<rparr>) opts = Some p \<and>
     Fingerprint w (s\<lparr>so_agents := bs\<rparr>) opts = Some q \<and> pf_hash p = pf_hash q"
proof -
  define a where "a = (\<lambda>p. \<lparr>ai_name = ''build'', ai_description = [], ai_mode = [], ai_native = True,
    ai_model = [], ai_variant = [], ai_steps = None, ai_temperature = None, ai_tools = None, ai_options = None,
    ai_permission = Some p, ai_prompt = None, ai_raw = None\<rparr>)"
  define w :: world where "w = \<lparr>w_sha = id, w_digest = id, w_num = (\<lambda>_. []), w_parse = (\<lambda>raw. None), w_disk = (\<lambda>_. None)\<rparr>"
  let ?as = "[a (JArr [JStr ''edit'', JStr ''bash''])]" and ?bs = "[a (JArr [JStr ''bash'', JStr ''edit''])]"
  have "perm_eq (JArr [JStr ''edit'', JStr ''bash'']) (JArr [JStr ''bash'', JStr ''edit''])"
    by (rule perm_arr [where us = "[JStr ''edit'', JStr ''bash'']"]) (auto intro: perm_leaf)
  then have "list_all2 same_rules ?as ?bs" by (simp add: same_rules_def a_def decodeRaw_def)
  from Fingerprint_permission_order [OF this, of w _ opts]
  have rel: "rel_option (\<lambda>p q. pf_hash p = pf_hash q \<and> pf_json p = pf_json q \<and> pf_components p = pf_components q)
    (Fingerprint w (s\<lparr>so_agents := ?as\<rparr>) opts) (Fingerprint w (s\<lparr>so_agents := ?bs\<rparr>) opts)" for s .
  let ?s = "\<lparr>so_version = [], so_config = [], so_skills = [], so_agents = [], so_instructions = [], so_paths = [],
    so_dir = [], so_home = []\<rparr>"
  have "Fingerprint w (?s\<lparr>so_agents := ?as\<rparr>) opts \<noteq> None"
    by (simp add: Fingerprint_def decodeConfig_def Let_def)
  then obtain p q where "Fingerprint w (?s\<lparr>so_agents := ?as\<rparr>) opts = Some p" "Fingerprint w (?s\<lparr>so_agents := ?bs\<rparr>) opts = Some q"
    "pf_hash p = pf_hash q"
    using rel [of ?s] by (auto simp only: option_rel_Some1 not_None_eq)
  moreover have "?as \<noteq> ?bs" by (simp add: a_def)
  ultimately show ?thesis by blast
qed

end
