(* ===== verification/Stats.thy ===== *)
theory Stats
  imports SliceSort
begin

text \<open>
  Package \<open>internal/stats\<close>. A \<open>float64\<close> is an exact \<open>real\<close>: rounding and overflow of the
  floating-point operations are not modelled; the infinities of \<open>ZFor\<close> are
  (\<open>fl\<close>). A \<open>(value, ok)\<close> pair whose value is zero when \<open>ok\<close> is false is an
  \<open>option\<close>. The generator of \<open>math/rand\<close> is a parameter \<open>draw\<close>: \<open>draw g n\<close> is the
  number below \<open>n\<close> it returns in generator state \<open>g\<close> and its next state.
\<close>

section \<open>Means, medians, percentiles\<close>

definition mean :: "real list \<Rightarrow> real" where
  "mean xs = (if xs = [] then 0 else fold (\<lambda>x s. s + x) xs 0 / real (length xs))"

definition Mean :: "real list \<Rightarrow> real" where
  "Mean xs = (if xs = [] then 0 else fold (\<lambda>x s. s + x) xs 0 / real (length xs))"

definition Median :: "real list \<Rightarrow> real" where
  "Median xs =
     (if xs = [] then 0
      else let srt = sort xs; n = length srt in
        if n mod 2 = 1 then srt ! (n div 2)
        else (srt ! (n div 2 - 1) + srt ! (n div 2)) / 2)"

definition MedianOK :: "real list \<Rightarrow> real option" where
  "MedianOK xs = (if xs = [] then None else Some (Median xs))"

text \<open>\<open>int(x)\<close> of a float truncates towards zero.\<close>

definition trunc_int :: "real \<Rightarrow> int" where
  "trunc_int x = (if 0 \<le> x then \<lfloor>x\<rfloor> else \<lceil>x\<rceil>)"

definition percentile :: "real list \<Rightarrow> real \<Rightarrow> real" where
  "percentile srt p =
     (if srt = [] then 0
      else let idx = trunc_int (p * real (length srt));
               idx = (if idx \<ge> int (length srt) then int (length srt) - 1 else idx);
               idx = (if idx < 0 then 0 else idx)
           in srt ! nat idx)"

lemma fold_plus_sum: "fold (\<lambda>x s. s + x) xs (a :: real) = a + sum_list xs"
  by (induction xs arbitrary: a) auto

lemma mean_sum: "mean xs = sum_list xs / real (length xs)"
  by (simp add: mean_def fold_plus_sum)

lemma Mean_eq_mean: "Mean xs = mean xs"
  by (simp add: Mean_def mean_def)

lemma sum_list_bounds:
  fixes xs :: "real list"
  assumes "\<And>x. x \<in> set xs \<Longrightarrow> l \<le> x" "\<And>x. x \<in> set xs \<Longrightarrow> x \<le> u"
  shows "real (length xs) * l \<le> sum_list xs" "sum_list xs \<le> real (length xs) * u"
proof -
  have "real (length xs) * l \<le> sum_list xs \<and> sum_list xs \<le> real (length xs) * u"
    using assms by (induction xs) (force simp: algebra_simps)+
  then show "real (length xs) * l \<le> sum_list xs" "sum_list xs \<le> real (length xs) * u" by auto
qed

lemma mean_between:
  assumes "xs \<noteq> []" "\<And>x. x \<in> set xs \<Longrightarrow> l \<le> x" "\<And>x. x \<in> set xs \<Longrightarrow> x \<le> u"
  shows "l \<le> mean xs" "mean xs \<le> u"
  using assms(1) sum_list_bounds [OF assms(2,3)]
  by (simp_all add: mean_sum pos_le_divide_eq pos_divide_le_eq mult.commute)

lemma sorted_split_count:
  fixes ys :: "real list"
  assumes "sorted ys" "i < length ys" "ys ! i \<le> m"
  shows "Suc i \<le> length (filter (\<lambda>x. x \<le> m) ys)"
proof -
  have "take (Suc i) ys = filter (\<lambda>x. x \<le> m) (take (Suc i) ys)"
  proof (rule sym, subst filter_id_conv, rule ballI)
    fix x assume "x \<in> set (take (Suc i) ys)"
    then obtain j where "j < Suc i" "x = ys ! j" using assms(2)
      by (auto simp: in_set_conv_nth)
    then have "j \<le> i" by simp
    with \<open>x = ys ! j\<close> show "x \<le> m" using assms by (meson order_trans sorted_nth_mono)
  qed
  moreover have "length (filter (\<lambda>x. x \<le> m) ys)
      = length (filter (\<lambda>x. x \<le> m) (take (Suc i) ys)) + length (filter (\<lambda>x. x \<le> m) (drop (Suc i) ys))"
    by (metis append_take_drop_id filter_append length_append)
  ultimately show ?thesis using assms(2) by (metis Suc_leI le_add1 length_take min.absorb2)
qed

lemma sorted_split_count_ge:
  fixes ys :: "real list"
  assumes "sorted ys" "i < length ys" "m \<le> ys ! i"
  shows "length ys - i \<le> length (filter (\<lambda>x. m \<le> x) ys)"
proof -
  have "drop i ys = filter (\<lambda>x. m \<le> x) (drop i ys)"
  proof (rule sym, subst filter_id_conv, rule ballI)
    fix x assume "x \<in> set (drop i ys)"
    then obtain j where "j < length ys - i" "x = ys ! (i + j)"
      by (auto simp: in_set_conv_nth)
    then have "i + j < length ys" by simp
    with \<open>x = ys ! (i + j)\<close> show "m \<le> x" using assms by (meson le_add1 order_trans sorted_nth_mono)
  qed
  moreover have "length (filter (\<lambda>x. m \<le> x) ys)
      = length (filter (\<lambda>x. m \<le> x) (take i ys)) + length (filter (\<lambda>x. m \<le> x) (drop i ys))"
    by (metis append_take_drop_id filter_append length_append)
  ultimately show ?thesis by (metis le_add2 length_drop)
qed

lemma length_filter_sort: "length (filter P (sort xs)) = length (filter P (xs :: real list))"
  by (metis mset_filter mset_sort size_mset)

text \<open>The two middle elements around the median, and the counts on both sides.\<close>

lemma Median_middle:
  assumes "xs \<noteq> []"
  defines "n \<equiv> length xs"
  shows "sort xs ! ((n - 1) div 2) \<le> Median xs" "Median xs \<le> sort xs ! (n div 2)"
proof -
  have n: "0 < n" using assms by simp
  have le: "sort xs ! ((n - 1) div 2) \<le> sort xs ! (n div 2)"
    using n n_def by (intro sorted_nth_mono) auto
  show "sort xs ! ((n - 1) div 2) \<le> Median xs" "Median xs \<le> sort xs ! (n div 2)"
  proof -
    have "n mod 2 = 1 \<and> (n - 1) div 2 = n div 2 \<or> n mod 2 = 0 \<and> (n - 1) div 2 = n div 2 - 1"
      using n by presburger
    then have "sort xs ! ((n - 1) div 2) \<le> Median xs \<and> Median xs \<le> sort xs ! (n div 2)"
      using assms le by (elim disjE) (auto simp: Median_def Let_def n_def)
    then show "sort xs ! ((n - 1) div 2) \<le> Median xs" "Median xs \<le> sort xs ! (n div 2)" by auto
  qed
qed

lemma Median_perm: "mset xs = mset ys \<Longrightarrow> Median xs = Median ys"
proof -
  assume m: "mset xs = mset ys"
  then have "sort xs = sort ys" by (metis mset_sort properties_for_sort sorted_sort)
  then show ?thesis using m by (auto simp: Median_def)
qed

lemma Median_between:
  assumes "xs \<noteq> []" "\<And>x. x \<in> set xs \<Longrightarrow> l \<le> x" "\<And>x. x \<in> set xs \<Longrightarrow> x \<le> u"
  shows "l \<le> Median xs" "Median xs \<le> u"
proof -
  let ?n = "length xs"
  have "sort xs ! ((?n - 1) div 2) \<in> set xs" "sort xs ! (?n div 2) \<in> set xs"
    using assms(1) by (metis length_greater_0_conv length_sort nth_mem set_sort div_less_dividend
        diff_less less_numeral_extra(1) order_le_less_trans div_le_dividend one_less_numeral_iff semiring_norm(76))+
  then show "l \<le> Median xs" "Median xs \<le> u"
    using Median_middle [OF assms(1)] assms(2,3) order_trans by blast+
qed

section \<open>Pass criteria\<close>

fun PassAtK :: "bool list \<Rightarrow> int" where
  "PassAtK [] = 0"
| "PassAtK (ok # rest) = (if ok then 1 else PassAtK rest)"

definition PassAllK :: "bool list \<Rightarrow> int" where
  "PassAllK outcomes = (if outcomes = [] then 0 else if list_all id outcomes then 1 else 0)"

lemma PassAtK_1_iff: "PassAtK os = 1 \<longleftrightarrow> True \<in> set os"
  by (induction os) auto

lemma PassAllK_1_iff: "PassAllK os = 1 \<longleftrightarrow> os \<noteq> [] \<and> False \<notin> set os"
  by (auto simp: PassAllK_def list_all_iff)

section \<open>The Wilson interval\<close>

definition Wilson :: "int \<Rightarrow> int \<Rightarrow> real \<Rightarrow> real \<times> real" where
  "Wilson successes n z =
     (if n \<le> 0 then (0, 1)
      else
        let p = real_of_int successes / real_of_int n;
            p = (if p < 0 then 0 else p);
            p = (if p > 1 then 1 else p);
            nf = real_of_int n;
            z2 = z * z;
            denom = 1 + z2 / nf;
            centre = (p + z2 / (2 * nf)) / denom;
            half = z / denom * sqrt (p * (1 - p) / nf + z2 / (4 * nf * nf))
        in (max 0 (centre - half), min 1 (centre + half)))"

lemma wilson_core:
  fixes p n z :: real
  assumes "0 \<le> p" "p \<le> 1" "0 < n" "0 \<le> z"
  defines "denom \<equiv> 1 + z * z / n"
  defines "centre \<equiv> (p + z * z / (2 * n)) / denom"
  defines "half \<equiv> z / denom * sqrt (p * (1 - p) / n + z * z / (4 * n * n))"
  shows "\<bar>centre - p\<bar> \<le> half"
proof -
  have d: "0 < denom" using assms by (simp add: add_pos_nonneg)
  let ?r = "p * (1 - p) / n + z * z / (4 * n * n)"
  have pq: "0 \<le> p * (1 - p) / n" using assms by simp
  have "(z * (1 / 2 - p) / n)\<^sup>2 = z * z * (1 / 4 - p * (1 - p)) / (n * n)"
    by (simp add: power2_eq_square field_simps)
  also have "\<dots> \<le> z * z / (4 * n * n)"
  proof -
    have "z * z * (1 / 4 - p * (1 - p)) \<le> z * z * (1 / 4)"
      using assms by (intro mult_left_mono) auto
    then show ?thesis using assms by (simp add: field_simps)
  qed
  also have "\<dots> \<le> ?r" using pq by simp
  finally have "\<bar>z * (1 / 2 - p) / n\<bar> \<le> sqrt ?r"
    by (metis real_sqrt_abs real_sqrt_le_mono)
  then have "z / denom * \<bar>z * (1 / 2 - p) / n\<bar> \<le> half"
    unfolding half_def using assms d by (intro mult_left_mono) auto
  moreover have "centre - p = z / denom * (z * (1 / 2 - p) / n)"
  proof -
    have "centre - p = (p + z * z / (2 * n) - p * denom) / denom"
      using d by (simp add: centre_def field_simps)
    also have "p + z * z / (2 * n) - p * denom = z * (z * (1 / 2 - p) / n)"
      using assms(3) by (simp add: denom_def field_simps)
    finally show ?thesis by simp
  qed
  moreover have "\<bar>z / denom\<bar> = z / denom" using assms d by simp
  ultimately show ?thesis by (metis abs_mult)
qed

lemma Wilson_contains:
  assumes "0 < n" "0 \<le> s" "s \<le> n" "0 \<le> z"
  shows "fst (Wilson s n z) \<le> real_of_int s / real_of_int n"
    and "real_of_int s / real_of_int n \<le> snd (Wilson s n z)"
proof -
  let ?p = "real_of_int s / real_of_int n"
  have p: "0 \<le> ?p" "?p \<le> 1" using assms by (auto simp: field_simps)
  define c where "c = (?p + z * z / (2 * real_of_int n)) / (1 + z * z / real_of_int n)"
  define h where "h = z / (1 + z * z / real_of_int n)
    * sqrt (?p * (1 - ?p) / real_of_int n + z * z / (4 * real_of_int n * real_of_int n))"
  have "\<bar>c - ?p\<bar> \<le> h" unfolding c_def h_def
    using assms p by (intro wilson_core) auto
  moreover have "Wilson s n z = (max 0 (c - h), min 1 (c + h))"
  proof -
    have np: "\<not> n \<le> 0" "\<not> ?p < 0" "\<not> ?p > 1" using assms(1) p by linarith+
    show ?thesis unfolding Wilson_def Let_def c_def h_def
      by (simp only: np if_False)
  qed
  ultimately show "fst (Wilson s n z) \<le> ?p" "?p \<le> snd (Wilson s n z)"
    using p by auto
qed

lemma Wilson_range:
  assumes "0 \<le> z"
  shows "0 \<le> fst (Wilson s n z)" "snd (Wilson s n z) \<le> 1"
  by (auto simp: Wilson_def Let_def)

section \<open>Resampling\<close>

type_synonym 'g rng = "'g \<Rightarrow> nat \<Rightarrow> nat \<times> 'g"

definition swap :: "'a list \<Rightarrow> nat \<Rightarrow> nat \<Rightarrow> 'a list" where
  "swap xs i j = xs[i := xs ! j, j := xs ! i]"

text \<open>\<open>rng.Shuffle\<close>: Fisher-Yates from the last index down.\<close>

fun shuffle_from :: "'g rng \<Rightarrow> nat \<Rightarrow> 'a list \<Rightarrow> 'g \<Rightarrow> 'a list \<times> 'g" where
  "shuffle_from draw 0 xs g = (xs, g)"
| "shuffle_from draw (Suc i) xs g =
     (let (j, g') = draw g (Suc (Suc i)) in shuffle_from draw i (swap xs (Suc i) j) g')"

definition shuffle :: "'g rng \<Rightarrow> 'a list \<Rightarrow> 'g \<Rightarrow> 'a list \<times> 'g" where
  "shuffle draw xs g = shuffle_from draw (length xs - 1) xs g"

text \<open>The resampling loop of \<open>permutationP\<close>: \<open>iters\<close> shuffles of the pooled sample.\<close>

fun perm_count :: "'g rng \<Rightarrow> (real list \<Rightarrow> real) \<Rightarrow> nat \<Rightarrow> real \<Rightarrow> real list \<Rightarrow> nat \<Rightarrow> 'g \<Rightarrow> nat \<Rightarrow> nat" where
  "perm_count draw stat la observed pooled 0 g cnt = cnt"
| "perm_count draw stat la observed pooled (Suc iters) g cnt =
     (let (scratch, g') = shuffle draw pooled g;
          groupA = take la scratch;
          groupB = drop la scratch
      in perm_count draw stat la observed pooled iters g'
           (if \<bar>stat groupA - stat groupB\<bar> \<ge> observed then cnt + 1 else cnt))"

definition permutationP :: "'g rng \<Rightarrow> real list \<Rightarrow> real list \<Rightarrow> 'g \<Rightarrow> int \<Rightarrow> (real list \<Rightarrow> real) \<Rightarrow> real" where
  "permutationP draw a b seed iters stat =
     (if a = [] \<or> b = [] \<or> iters \<le> 0 then 1
      else
        let observed = \<bar>stat a - stat b\<bar>;
            cnt = perm_count draw stat (length a) observed (a @ b) (nat iters) seed 0
        in real (cnt + 1) / real (nat iters + 1))"

definition PermutationP :: "'g rng \<Rightarrow> real list \<Rightarrow> real list \<Rightarrow> 'g \<Rightarrow> int \<Rightarrow> real" where
  "PermutationP draw a b seed iters = permutationP draw a b seed iters mean"

definition PermutationPMedian :: "'g rng \<Rightarrow> real list \<Rightarrow> real list \<Rightarrow> 'g \<Rightarrow> int \<Rightarrow> real" where
  "PermutationPMedian draw a b seed iters = permutationP draw a b seed iters Median"

definition DefaultBootstrapIters :: int where "DefaultBootstrapIters = 2000"

fun draw_total :: "'g rng \<Rightarrow> real list \<Rightarrow> nat \<Rightarrow> 'g \<Rightarrow> real \<Rightarrow> real \<times> 'g" where
  "draw_total draw samples 0 g tot = (tot, g)"
| "draw_total draw samples (Suc k) g tot =
     (let (j, g') = draw g (length samples)
      in draw_total draw samples k g' (tot + samples ! j))"

fun boot_means :: "'g rng \<Rightarrow> real list \<Rightarrow> nat \<Rightarrow> 'g \<Rightarrow> real list" where
  "boot_means draw samples 0 g = []"
| "boot_means draw samples (Suc k) g =
     (let (tot, g') = draw_total draw samples (length samples) g 0
      in (tot / real (length samples)) # boot_means draw samples k g')"

definition BootstrapCI :: "'g rng \<Rightarrow> real list \<Rightarrow> int \<Rightarrow> 'g \<Rightarrow> (real \<times> real) option" where
  "BootstrapCI draw samples iters seed =
     (if samples = [] then None
      else
        let iters = (if iters \<le> 0 then DefaultBootstrapIters else iters)
        in if length samples = 1 then Some (samples ! 0, samples ! 0)
           else let means = sort (boot_means draw samples (nat iters) seed)
                in Some (percentile means 0.025, percentile means 0.975))"

definition rng_ok :: "'g rng \<Rightarrow> bool" where
  "rng_ok draw \<longleftrightarrow> (\<forall>g n. 0 < n \<longrightarrow> fst (draw g n) < n)"

lemma rng_okD: "rng_ok draw \<Longrightarrow> 0 < n \<Longrightarrow> draw g n = (j, g') \<Longrightarrow> j < n"
  by (metis fst_conv rng_ok_def)

lemma mset_swap_eq: "i < length xs \<Longrightarrow> j < length xs \<Longrightarrow> mset (swap xs i j) = mset xs"
  unfolding swap_def by (rule mset_swap)

lemma length_swap [simp]: "length (swap xs i j) = length xs"
  by (simp add: swap_def)

lemma mset_shuffle_from:
  "rng_ok draw \<Longrightarrow> i < length xs \<Longrightarrow> mset (fst (shuffle_from draw i xs g)) = mset xs"
proof (induction draw i xs g rule: shuffle_from.induct)
  case (2 draw i xs g)
  obtain j g' where d: "draw g (Suc (Suc i)) = (j, g')" by force
  have "j < Suc (Suc i)" by (rule rng_okD [OF "2.prems"(1) _ d]) simp
  then have "j < length xs" using "2.prems"(2) by linarith
  then have "mset (swap xs (Suc i) j) = mset xs" using "2.prems"(2) by (simp add: mset_swap_eq)
  moreover have "mset (fst (shuffle_from draw i (swap xs (Suc i) j) g')) = mset (swap xs (Suc i) j)"
    using "2.prems" by (intro "2.IH" [OF refl d [symmetric]]) auto
  ultimately have "mset (fst (shuffle_from draw i (swap xs (Suc i) j) g')) = mset xs" by (rule trans [rotated])
  then show ?case by (simp only: shuffle_from.simps d Let_def prod.case)
qed simp

lemma mset_shuffle: "rng_ok draw \<Longrightarrow> mset (fst (shuffle draw xs g)) = mset xs"
  by (cases xs) (auto simp: shuffle_def mset_shuffle_from)

lemma perm_count_bounds:
  "cnt \<le> perm_count draw stat la obs pooled k g cnt"
  "perm_count draw stat la obs pooled k g cnt \<le> cnt + k"
proof -
  have "cnt \<le> perm_count draw stat la obs pooled k g cnt
      \<and> perm_count draw stat la obs pooled k g cnt \<le> cnt + k"
  proof (induction k arbitrary: g cnt)
    case (Suc k)
    obtain s g' where s: "shuffle draw pooled g = (s, g')" by force
    let ?c = "if obs \<le> \<bar>stat (take la s) - stat (drop la s)\<bar> then cnt + 1 else cnt"
    have "?c \<le> perm_count draw stat la obs pooled k g' ?c
        \<and> perm_count draw stat la obs pooled k g' ?c \<le> ?c + k" by (rule Suc.IH)
    then show ?case using s by (simp split: if_splits)
  qed simp
  then show "cnt \<le> perm_count draw stat la obs pooled k g cnt"
    "perm_count draw stat la obs pooled k g cnt \<le> cnt + k" by auto
qed

lemma permutationP_bounds:
  shows "0 < permutationP draw a b seed iters stat" "permutationP draw a b seed iters stat \<le> 1"
    and "0 < iters \<Longrightarrow> 1 / real_of_int (iters + 1) \<le> permutationP draw a b seed iters stat"
proof -
  note c = perm_count_bounds [where draw = draw and stat = stat and la = "length a"
      and obs = "\<bar>stat a - stat b\<bar>" and pooled = "a @ b" and k = "nat iters" and g = seed and cnt = 0]
  show "0 < permutationP draw a b seed iters stat" "permutationP draw a b seed iters stat \<le> 1"
    using c by (auto simp: permutationP_def Let_def)
  assume i: "0 < iters"
  then have r: "real_of_int (iters + 1) = real (nat iters + 1)" by simp
  show "1 / real_of_int (iters + 1) \<le> permutationP draw a b seed iters stat"
    unfolding r permutationP_def Let_def by (auto intro!: divide_right_mono)
qed

lemma perm_count_all:
  assumes "\<And>s. mset s = mset pooled \<Longrightarrow> obs \<le> \<bar>stat (take la s) - stat (drop la s)\<bar>" "rng_ok draw"
  shows "perm_count draw stat la obs pooled k g cnt = cnt + k"
proof (induction k arbitrary: g cnt)
  case (Suc k)
  obtain s g' where s: "shuffle draw pooled g = (s, g')" by force
  then have "mset s = mset pooled" using mset_shuffle [OF assms(2)] by (metis fst_conv)
  then have "obs \<le> \<bar>stat (take la s) - stat (drop la s)\<bar>" by (rule assms(1))
  with Suc s show ?case by simp
qed simp

text \<open>No observed difference can be significant: every resample counts.\<close>

lemma permutationP_no_difference:
  "stat a = stat b \<Longrightarrow> rng_ok draw \<Longrightarrow> permutationP draw a b seed iters stat = 1"
  by (auto simp: permutationP_def Let_def perm_count_all)

section \<open>The bootstrap interval\<close>

lemma draw_total_bounds:
  assumes "rng_ok draw" "\<And>x. x \<in> set samples \<Longrightarrow> l \<le> x \<and> x \<le> u" "samples \<noteq> []"
  shows "tot + real k * l \<le> fst (draw_total draw samples k g tot)
    \<and> fst (draw_total draw samples k g tot) \<le> tot + real k * u"
proof (induction k arbitrary: g tot)
  case (Suc k)
  obtain j g' where d: "draw g (length samples) = (j, g')" by force
  have "j < length samples" using rng_okD [OF assms(1) _ d] assms(3) by simp
  then have "l \<le> samples ! j" "samples ! j \<le> u" using assms(2) by auto
  then show ?case using Suc [of "tot + samples ! j" g'] d by (simp add: algebra_simps)
qed simp

lemma boot_means_bounds:
  assumes "rng_ok draw" "\<And>x. x \<in> set samples \<Longrightarrow> l \<le> x \<and> x \<le> u" "samples \<noteq> []"
  shows "m \<in> set (boot_means draw samples k g) \<Longrightarrow> l \<le> m \<and> m \<le> u"
proof (induction k arbitrary: g)
  case (Suc k)
  obtain t g' where d: "draw_total draw samples (length samples) g 0 = (t, g')" by force
  have n: "0 < real (length samples)" using assms(3) by simp
  have "real (length samples) * l \<le> t" "t \<le> real (length samples) * u"
    using draw_total_bounds [OF assms, where tot = 0 and k = "length samples" and g = g] d by simp_all
  then have "l \<le> t / real (length samples) \<and> t / real (length samples) \<le> u"
    using n by (simp add: field_simps)
  then show ?case using Suc d by auto
qed simp

lemma length_boot_means [simp]: "length (boot_means draw samples k g) = k"
  by (induction k arbitrary: g) (auto split: prod.split)

text \<open>A percentile of a sorted sample is one of its elements, at an index that grows with \<open>p\<close>.\<close>

definition rank :: "nat \<Rightarrow> real \<Rightarrow> nat" where
  "rank n p = min (nat \<lfloor>p * real n\<rfloor>) (n - 1)"

lemma percentile_rank: "srt \<noteq> [] \<Longrightarrow> 0 \<le> p \<Longrightarrow> percentile srt p = srt ! rank (length srt) p"
proof -
  assume "srt \<noteq> []" "0 \<le> p"
  moreover have "0 \<le> \<lfloor>p * real (length srt)\<rfloor>" using \<open>0 \<le> p\<close> by simp
  moreover have "1 \<le> length srt" using \<open>srt \<noteq> []\<close> by (cases srt) auto
  ultimately show ?thesis
    unfolding percentile_def Let_def trunc_int_def rank_def
    by (auto intro!: arg_cong [where f = "\<lambda>i. srt ! i"] simp: min_def)
qed

lemma rank_mono: "p \<le> q \<Longrightarrow> rank n p \<le> rank n q"
proof -
  assume "p \<le> q"
  then have "\<lfloor>p * real n\<rfloor> \<le> \<lfloor>q * real n\<rfloor>" by (intro floor_mono mult_right_mono) auto
  then show ?thesis unfolding rank_def by linarith
qed

lemma rank_less: "0 < n \<Longrightarrow> rank n p < n"
  by (simp add: rank_def min_def) linarith

section \<open>Properties\<close>

text \<open>The Wilson interval of a pass rate contains the observed rate and stays within 0 and 1.\<close>

theorem Wilson_interval:
  assumes "0 < n" "0 \<le> s" "s \<le> n" "0 \<le> z"
  shows "0 \<le> fst (Wilson s n z) \<and> fst (Wilson s n z) \<le> real_of_int s / real_of_int n \<and>
    real_of_int s / real_of_int n \<le> snd (Wilson s n z) \<and> snd (Wilson s n z) \<le> 1"
  using Wilson_contains [OF assms] Wilson_range [OF assms(4)] by simp

theorem Wilson_interval_witness: "fst (Wilson 3 4 2) \<le> 3 / 4 \<and> 3 / 4 \<le> snd (Wilson 3 4 2)"
  using Wilson_interval [of 4 3 2] by simp

text \<open>The median is a middle value whatever the order of the sample: at least half of the values are
  at most it, and at least half are at least it.\<close>

theorem Median_halves:
  assumes "xs \<noteq> []"
  shows "length xs \<le> 2 * length (filter (\<lambda>x. x \<le> Median xs) xs) \<and>
    length xs \<le> 2 * length (filter (\<lambda>x. Median xs \<le> x) xs)"
proof
  let ?n = "length xs"
  have n: "0 < ?n" using assms by simp
  have i: "(?n - 1) div 2 < length (sort xs)" "?n div 2 < length (sort xs)"
    using n by (simp_all, linarith+)
  have "Suc ((?n - 1) div 2) \<le> length (filter (\<lambda>x. x \<le> Median xs) (sort xs))"
    by (rule sorted_split_count [OF sorted_sort i(1) Median_middle(1) [OF assms]])
  then show "?n \<le> 2 * length (filter (\<lambda>x. x \<le> Median xs) xs)"
    unfolding length_filter_sort using n by linarith
  have "length (sort xs) - ?n div 2 \<le> length (filter (\<lambda>x. Median xs \<le> x) (sort xs))"
    by (rule sorted_split_count_ge [OF sorted_sort i(2) Median_middle(2) [OF assms]])
  then show "?n \<le> 2 * length (filter (\<lambda>x. Median xs \<le> x) xs)"
    unfolding length_filter_sort by simp
qed

theorem Median_halves_witness:
  "length [3, 1, 2 :: real] \<le> 2 * length (filter (\<lambda>x. x \<le> Median [3, 1, 2]) [3, 1, 2])"
  using Median_halves [of "[3, 1, 2]"] by blast

text \<open>The permutation p-value lies in (0, 1], is at least 1/(iters+1), and is 1 when the two samples do
  not differ in the statistic, whatever the seed.\<close>

theorem permutationP_value:
  assumes "rng_ok draw" "0 < iters"
  shows "1 / real_of_int (iters + 1) \<le> permutationP draw a b seed iters stat \<and>
    permutationP draw a b seed iters stat \<le> 1 \<and>
    (stat a = stat b \<longrightarrow> permutationP draw a b seed iters stat = 1)"
  using permutationP_bounds(3) [OF assms(2), of draw a b seed stat]
    permutationP_bounds(2) [of draw a b seed iters stat] permutationP_no_difference [OF _ assms(1)]
  by blast

theorem permutationP_value_witness:
  "1 / real_of_int 11 \<le> permutationP (\<lambda>g n. (0, g)) [1] [2] () 10 mean"
  using permutationP_value [of "\<lambda>g n. (0, g)" 10 "[1]" "[2]" "()" mean] by (simp add: rng_ok_def)

text \<open>A bootstrap interval is ordered and lies between the smallest and the largest sample, whatever
  the seed, and there is one exactly when there is a sample.\<close>

theorem BootstrapCI_within:
  assumes "rng_ok draw"
  shows "case BootstrapCI draw samples iters seed of
      None \<Rightarrow> samples = []
    | Some (lo, hi) \<Rightarrow> samples \<noteq> [] \<and> Min (set samples) \<le> lo \<and> lo \<le> hi \<and> hi \<le> Max (set samples)"
proof (cases "length samples < 2")
  case True
  then show ?thesis by (cases samples) (auto simp: BootstrapCI_def)
next
  case False
  then have ne: "samples \<noteq> []" and l1: "length samples \<noteq> 1" by auto
  define k where "k = nat (if iters \<le> 0 then DefaultBootstrapIters else iters)"
  let ?m = "sort (boot_means draw samples k seed)"
  have k: "0 < k" by (auto simp: k_def DefaultBootstrapIters_def)
  then have mne: "?m \<noteq> []" by (metis length_0_conv length_boot_means length_sort less_numeral_extra(3))
  have b: "Min (set samples) \<le> x \<and> x \<le> Max (set samples)" if "x \<in> set ?m" for x
    using boot_means_bounds [OF assms, where samples = samples and l = "Min (set samples)" and u = "Max (set samples)"]
      that ne by simp
  have r: "rank k p < length ?m" for p using rank_less [OF k] by simp
  have "BootstrapCI draw samples iters seed = Some (?m ! rank k 0.025, ?m ! rank k 0.975)"
    using ne l1 percentile_rank [OF mne, of "0.025"] percentile_rank [OF mne, of "0.975"]
    by (simp add: BootstrapCI_def Let_def k_def [symmetric])
  moreover have "?m ! rank k 0.025 \<le> ?m ! rank k 0.975"
    using r [of "0.975"] by (intro sorted_nth_mono rank_mono) auto
  ultimately show ?thesis using ne b [OF nth_mem [OF r]] by simp
qed

theorem BootstrapCI_within_witness:
  "case BootstrapCI (\<lambda>g n. (0, g)) [1, 3] 5 () of
      None \<Rightarrow> False | Some (lo, hi) \<Rightarrow> 1 \<le> lo \<and> hi \<le> 3"
  using BootstrapCI_within [of "\<lambda>g n. (0, g)" "[1, 3]" 5 "()"] by (auto simp: rng_ok_def split: option.splits)

end
