(* ===== verification/ProfileView.thy ===== *)
theory ProfileView
  imports Profile Stats
begin

text \<open>
  \<open>internal/profile\<close>, from a stored profile to what is shown of it: the component diff
  (\<open>diff.go\<close>), the decoded view with its delegation graph (\<open>view.go\<close>) and the explained
  differences (\<open>compare.go\<close>). A component's JSON text is decoded by \<open>parse\<close>; \<open>num\<close> is the text of
  a number in JSON and \<open>fmt_g\<close> its shortest decimal form. The signs of the notes are UTF-8.
\<close>

section \<open>The component diff\<close>

record change =
  chg_kind :: string
  chg_name :: string
  chg_change :: string
  chg_from :: string
  chg_to :: string

definition indexComponents :: "profile option \<Rightarrow> (string \<times> string, component) gomap" where
  "indexComponents p =
     (case p of
        None \<Rightarrow> []
      | Some p \<Rightarrow> fold (\<lambda>c m. put (cp_kind c, cp_name c) c m) (pf_components p) [])"

definition diff_key ::
  "(string \<times> string, component) gomap \<Rightarrow> (string \<times> string, component) gomap \<Rightarrow> string \<times> string \<Rightarrow> change list" where
  "diff_key before after k =
     (case (map_of before k, map_of after k) of
        (None, None) \<Rightarrow> []
      | (None, Some t) \<Rightarrow> [\<lparr>chg_kind = fst k, chg_name = snd k, chg_change = ''added'', chg_from = [], chg_to = cp_hash t\<rparr>]
      | (Some f, None) \<Rightarrow> [\<lparr>chg_kind = fst k, chg_name = snd k, chg_change = ''removed'', chg_from = cp_hash f, chg_to = []\<rparr>]
      | (Some f, Some t) \<Rightarrow>
          if cp_hash f \<noteq> cp_hash t
          then [\<lparr>chg_kind = fst k, chg_name = snd k, chg_change = ''changed'', chg_from = cp_hash f, chg_to = cp_hash t\<rparr>]
          else [])"

definition chg_key :: "change \<Rightarrow> string \<times> string" where
  "chg_key c = (chg_kind c, chg_name c)"

definition Diff :: "profile option \<Rightarrow> profile option \<Rightarrow> change list" where
  "Diff from to =
     (let before = indexComponents from; after = indexComponents to;
          keys = dedup (map fst before @ map fst after)
      in sort_by (\<lambda>a b. chg_kind a < chg_kind b \<or> chg_kind a = chg_kind b \<and> chg_name a < chg_name b)
           (concat (map (diff_key before after) keys)))"

definition componentLabel :: "string \<Rightarrow> string \<Rightarrow> string" where
  "componentLabel kind name = (if name = [] \<or> name = kind then kind else kind @ ''/'' @ name)"

definition hashPrefix :: "string \<Rightarrow> nat \<Rightarrow> string" where
  "hashPrefix h n = (if length h \<le> n then h else take n h)"

definition render_change :: "change \<Rightarrow> string" where
  "render_change c =
     ''  '' @ componentLabel (chg_kind c) (chg_name c) @ ''  '' @ chg_change c
     @ (if chg_change c = ''changed''
        then ''  '' @ hashPrefix (chg_from c) 7 @ '' -> '' @ hashPrefix (chg_to c) 7 else [])
     @ [CHR 0x0A]"

definition RenderChanges :: "change list \<Rightarrow> string" where
  "RenderChanges changes =
     (if changes = [] then ''no changes'' @ [CHR 0x0A] else concat (map render_change changes))"

section \<open>The view\<close>

record primary_sel =
  ps_default :: string
  ps_model :: string
  ps_small :: string
  ps_variant :: string

record task_rule =
  tr_pattern :: string
  tr_action :: string

record agent =
  pa_name :: string
  pa_mode :: string
  pa_model :: string
  pa_variant :: string
  pa_topp :: real
  pa_temperature :: "real option"
  pa_options :: "(string, json) gomap"
  pa_steps :: i64
  pa_native :: bool
  pa_tools :: "(string, bool) gomap"
  pa_prompt :: string
  pa_rules :: "task_rule list"
  pa_description :: string

record view =
  v_hash :: string
  v_opencode :: string
  v_primary :: primary_sel
  v_agents :: "agent list"
  v_skills :: "(string \<times> string) list"
  v_mcp :: "(string \<times> string list) list"
  v_instructions :: "(string \<times> string \<times> string) list"
  v_plugins :: "string list"
  v_config :: "(string, json) gomap"
  v_depth :: int
  v_settings :: "(string, json) gomap"
  v_commands :: "string list"
  v_providers :: "string list"
  v_modes :: "string list"

definition zero_primary :: primary_sel where
  "zero_primary = \<lparr>ps_default = [], ps_model = [], ps_small = [], ps_variant = []\<rparr>"

definition dec_primary :: "primary_sel dec" where
  "dec_primary = dec_struct (\<lambda>k.
     if k = ''default_agent'' then dec_field ps_default_update ps_default dec_string
     else if k = ''model'' then dec_field ps_model_update ps_model dec_string
     else if k = ''small_model'' then dec_field ps_small_update ps_small dec_string
     else if k = ''variant'' then dec_field ps_variant_update ps_variant dec_string
     else skip_field)"

definition decodePrimary :: "(string \<Rightarrow> json option) \<Rightarrow> string \<Rightarrow> primary_sel" where
  "decodePrimary parse data =
     (case parse data of None \<Rightarrow> zero_primary | Some j \<Rightarrow> fst (dec_primary j zero_primary))"

definition zero_agent :: "string \<Rightarrow> agent" where
  "zero_agent name = \<lparr>pa_name = name, pa_mode = [], pa_model = [], pa_variant = [], pa_topp = 0, pa_temperature = None,
     pa_options = [], pa_steps = 0, pa_native = False, pa_tools = [], pa_prompt = [], pa_rules = [], pa_description = []\<rparr>"

definition dec_agent :: "agent dec" where
  "dec_agent = dec_struct (\<lambda>k.
     if k = ''mode'' then dec_field pa_mode_update pa_mode dec_string
     else if k = ''model'' then dec_field pa_model_update pa_model dec_string
     else if k = ''variant'' then dec_field pa_variant_update pa_variant dec_string
     else if k = ''top_p'' then dec_field pa_topp_update pa_topp dec_float
     else if k = ''temperature'' then dec_field pa_temperature_update pa_temperature (dec_ptr 0 dec_float)
     else if k = ''options'' then dec_field pa_options_update pa_options (dec_map JNull dec_any)
     else if k = ''steps'' then dec_field pa_steps_update pa_steps dec_i64
     else if k = ''native'' then dec_field pa_native_update pa_native dec_bool
     else if k = ''prompt_sha256'' then dec_field pa_prompt_update pa_prompt dec_string
     else if k = ''tools'' then dec_field pa_tools_update pa_tools (dec_map False dec_bool)
     else if k = ''description'' then dec_field pa_description_update pa_description dec_string
     else skip_field)"

definition decodeAgent :: "(string \<Rightarrow> json option) \<Rightarrow> string \<Rightarrow> string \<Rightarrow> agent option" where
  "decodeAgent parse name data =
     (case parse data of None \<Rightarrow> None | Some j \<Rightarrow> unmarshal dec_agent (zero_agent name) j)"

definition skill_description :: "(string \<Rightarrow> json option) \<Rightarrow> string \<Rightarrow> string" where
  "skill_description parse data =
     (case parse data of
        None \<Rightarrow> []
      | Some j \<Rightarrow>
          (case unmarshal (dec_struct (\<lambda>k. if k = ''description'' then dec_string else skip_field)) [] j of
             None \<Rightarrow> [] | Some d \<Rightarrow> d))"

definition dec_instruction :: "(string \<times> string) dec" where
  "dec_instruction = dec_struct (\<lambda>k.
     if k = ''path'' then dec_field apfst fst dec_string
     else if k = ''sha256'' then dec_field apsnd snd dec_string
     else skip_field)"

definition instruction_fields :: "(string \<Rightarrow> json option) \<Rightarrow> string \<Rightarrow> string \<times> string" where
  "instruction_fields parse data =
     (case parse data of None \<Rightarrow> ([], []) | Some j \<Rightarrow> fst (dec_instruction j ([], [])))"

definition dec_any_map :: "(string \<Rightarrow> json option) \<Rightarrow> string \<Rightarrow> (string, json) gomap option" where
  "dec_any_map parse data =
     (case parse data of None \<Rightarrow> None | Some j \<Rightarrow> unmarshal (dec_map JNull dec_any) [] j)"

definition objectKeys :: "(string \<Rightarrow> json option) \<Rightarrow> string \<Rightarrow> string list" where
  "objectKeys parse data = (case dec_any_map parse data of None \<Rightarrow> [] | Some m \<Rightarrow> sort (map fst m))"

definition setSetting :: "(string \<Rightarrow> json option) \<Rightarrow> string \<Rightarrow> string \<Rightarrow> view \<Rightarrow> view" where
  "setSetting parse kind data v =
     (case parse data of None \<Rightarrow> v | Some j \<Rightarrow> v\<lparr>v_settings := put kind (any_of j) (v_settings v)\<rparr>)"

definition promoted_settings :: "string list" where
  "promoted_settings = [''compaction'', ''share'', ''autoupdate'', ''formatter'', ''lsp'', ''tools'']"

definition view_component :: "(string \<Rightarrow> json option) \<Rightarrow> component \<Rightarrow> view \<Rightarrow> view" where
  "view_component parse c v =
     (let kind = cp_kind c; name = cp_name c; data = cp_json c
      in if kind = ''primary'' then v\<lparr>v_primary := decodePrimary parse data\<rparr>
         else if kind = ''agent'' then
           (case decodeAgent parse name data of None \<Rightarrow> v | Some a \<Rightarrow> v\<lparr>v_agents := v_agents v @ [a]\<rparr>)
         else if kind = ''skill'' then v\<lparr>v_skills := v_skills v @ [(name, skill_description parse data)]\<rparr>
         else if kind = ''mcp'' then v\<lparr>v_mcp := v_mcp v @ [(name, objectKeys parse data)]\<rparr>
         else if kind = ''instructions'' then v\<lparr>v_instructions := v_instructions v @ [(name, instruction_fields parse data)]\<rparr>
         else if kind = ''plugin'' then v\<lparr>v_plugins := v_plugins v @ [name]\<rparr>
         else if kind = ''config'' then
           setSetting parse kind data
             (case dec_any_map parse data of None \<Rightarrow> v | Some m \<Rightarrow> v\<lparr>v_config := m\<rparr>)
         else if kind \<in> set promoted_settings then setSetting parse kind data v
         else if kind = ''command'' then v\<lparr>v_commands := v_commands v @ [name]\<rparr>
         else if kind = ''provider'' then v\<lparr>v_providers := v_providers v @ [name]\<rparr>
         else if kind = ''mode'' then v\<lparr>v_modes := v_modes v @ [name]\<rparr>
         else v)"

text \<open>The rules of \<open>permission.task\<close>, by agent: (permission, rule) pairs in order.\<close>

definition dec_rule :: "(string \<times> task_rule) dec" where
  "dec_rule = dec_struct (\<lambda>k.
     if k = ''permission'' then dec_field apfst fst dec_string
     else if k = ''pattern'' then dec_field (\<lambda>f. apsnd (tr_pattern_update f)) (\<lambda>r. tr_pattern (snd r)) dec_string
     else if k = ''action'' then dec_field (\<lambda>f. apsnd (tr_action_update f)) (\<lambda>r. tr_action (snd r)) dec_string
     else skip_field)"

definition zero_rule :: "string \<times> task_rule" where
  "zero_rule = ([], \<lparr>tr_pattern = [], tr_action = []\<rparr>)"

definition dec_by_agent :: "(string, (string \<times> task_rule) list) gomap dec" where
  "dec_by_agent = dec_struct (\<lambda>k.
     if k = ''by_agent'' then dec_map [] (dec_list zero_rule dec_rule) else skip_field)"

definition add_task_rules ::
  "(string, (string \<times> task_rule) list) gomap \<Rightarrow> (string, task_rule list) gomap \<Rightarrow> (string, task_rule list) gomap" where
  "add_task_rules byAgent out =
     fold (\<lambda>(agent, rules) out.
        fold (\<lambda>r out. if fst r = ''task'' then modify agent [] (\<lambda>rs. rs @ [snd r]) out else out) rules out) byAgent out"

fun decodeTaskRules ::
  "(string \<Rightarrow> json option) \<Rightarrow> component list \<Rightarrow> (string, task_rule list) gomap \<Rightarrow> (string, task_rule list) gomap" where
  "decodeTaskRules parse [] out = out"
| "decodeTaskRules parse (c # cs) out =
     (if cp_kind c \<noteq> ''permissions'' then decodeTaskRules parse cs out
      else (case parse (cp_json c) of
              None \<Rightarrow> out
            | Some j \<Rightarrow>
                (case unmarshal dec_by_agent [] j of
                   None \<Rightarrow> out
                 | Some byAgent \<Rightarrow> decodeTaskRules parse cs (add_task_rules byAgent out))))"

definition depth_of :: "(string, json) gomap \<Rightarrow> int" where
  "depth_of cfg = (case at_key cfg ''subagent_depth'' of JInt n \<Rightarrow> n | JFloat r \<Rightarrow> trunc_int r | _ \<Rightarrow> 0)"

definition NewView :: "(string \<Rightarrow> json option) \<Rightarrow> profile \<Rightarrow> view" where
  "NewView parse p =
     (let v = \<lparr>v_hash = pf_hash p, v_opencode = pf_opencode p, v_primary = zero_primary, v_agents = [], v_skills = [],
               v_mcp = [], v_instructions = [], v_plugins = [], v_config = [], v_depth = 0, v_settings = [],
               v_commands = [], v_providers = [], v_modes = []\<rparr>;
          v = fold (view_component parse) (pf_components p) v;
          rules = decodeTaskRules parse (pf_components p) [];
          agents = map (\<lambda>a. a\<lparr>pa_rules := getd [] rules (pa_name a)\<rparr>) (v_agents v)
      in v\<lparr>v_agents := sort_key pa_name agents, v_depth := depth_of (v_config v),
           v_skills := sort_key fst (v_skills v), v_mcp := sort_key fst (v_mcp v),
           v_instructions := sort_key fst (v_instructions v), v_plugins := sort (v_plugins v)\<rparr>)"

definition PrimaryAgent :: "view \<Rightarrow> agent option" where
  "PrimaryAgent v =
     (case (if ps_default (v_primary v) \<noteq> [] then find (\<lambda>a. pa_name a = ps_default (v_primary v)) (v_agents v) else None) of
        Some a \<Rightarrow> Some a
      | None \<Rightarrow> find (\<lambda>a. pa_mode a = ''primary'') (v_agents v))"

definition Subagents :: "view \<Rightarrow> agent list" where
  "Subagents v = filter (\<lambda>a. pa_mode a = ''subagent'') (v_agents v)"

definition allowedTargets :: "task_rule list \<Rightarrow> string list \<Rightarrow> string list" where
  "allowedTargets rules known =
     (let specific = fold (\<lambda>r m. if tr_pattern r = ''*'' then m else put (tr_pattern r) (tr_action r) m) rules [];
          catchAll = fold (\<lambda>r a. if tr_pattern r = ''*'' then tr_action r else a) rules []
      in sort (filter (\<lambda>name. (case map_of specific name of None \<Rightarrow> catchAll | Some a \<Rightarrow> a) = ''allow'') known))"

record architecture =
  ar_primaries :: "agent list"
  ar_subagents :: "agent list"
  ar_edges :: "(string \<times> string) list"

definition Architecture :: "view \<Rightarrow> architecture" where
  "Architecture v =
     (let subs = Subagents v; subNames = dedup (map pa_name subs);
          primaries = filter (\<lambda>a. pa_mode a = ''primary'') (v_agents v);
          edges = concat (map (\<lambda>a. map (Pair (pa_name a)) (allowedTargets (pa_rules a) subNames)) primaries)
      in \<lparr>ar_primaries = primaries, ar_subagents = subs, ar_edges = sort edges\<rparr>)"

definition shortModel :: "string \<Rightarrow> string" where
  "shortModel model = (case last_index (CHR ''/'') model of None \<Rightarrow> model | Some i \<Rightarrow> drop (Suc i) model)"

definition middle_dot :: string where "middle_dot = [CHR '' '', CHR 0xC2, CHR 0xB7, CHR '' '']"

definition view_Summary :: "view \<Rightarrow> string" where
  "view_Summary v =
     (case PrimaryAgent v of
        None \<Rightarrow> ''no primary agent''
      | Some a \<Rightarrow>
          (let model = shortModel (pa_model a); n = length (Subagents v)
           in join middle_dot ([pa_name a]
             @ (if model \<noteq> [] then [model @ (if pa_variant a \<noteq> [] then '' '' @ pa_variant a else [])] else [])
             @ (if n > 0 then [''+'' @ show_nat n @ '' sub''] else []))))"

definition MCPToolNames :: "profile \<Rightarrow> string list" where
  "MCPToolNames p = map cp_name (filter (\<lambda>c. cp_kind c = ''mcp'') (pf_components p))"

section \<open>Explained differences\<close>

definition arrow :: string where "arrow = [CHR 0xE2, CHR 0x86, CHR 0x92]"
definition minus :: string where "minus = [CHR 0xE2, CHR 0x88, CHR 0x92]"

definition jsonText :: "(json \<Rightarrow> string) \<Rightarrow> json \<Rightarrow> string" where
  "jsonText num v = (if v = JNull then [] else html_escape (encode num v))"

definition scalarText :: "(json \<Rightarrow> string) \<Rightarrow> (real \<Rightarrow> string) \<Rightarrow> json \<Rightarrow> string" where
  "scalarText num fmt_g v =
     (case v of JNull \<Rightarrow> ''unset'' | JStr s \<Rightarrow> s | JBool b \<Rightarrow> if b then ''true'' else ''false''
      | JInt n \<Rightarrow> fmt_g (real_of_int n) | JFloat r \<Rightarrow> fmt_g r | _ \<Rightarrow> jsonText num v)"

definition changedSettingKeys ::
  "(json \<Rightarrow> string) \<Rightarrow> (string, json) gomap \<Rightarrow> (string, json) gomap \<Rightarrow> string list" where
  "changedSettingKeys num ref sub =
     filter (\<lambda>k. jsonText num (at_key ref k) \<noteq> jsonText num (at_key sub k)) (sort (dedup (map fst ref @ map fst sub)))"

definition describeSetting :: "(json \<Rightarrow> string) \<Rightarrow> (real \<Rightarrow> string) \<Rightarrow> string \<Rightarrow> json \<Rightarrow> json \<Rightarrow> string" where
  "describeSetting num fmt_g name ref sub =
     (if is_map ref \<or> is_map sub
      then (let changed = changedSettingKeys num (toAnyMap ref) (toAnyMap sub)
            in if changed = [] then name @ '' changed'' else name @ '': '' @ join '', '' changed)
      else name @ '': '' @ scalarText num fmt_g ref @ arrow @ scalarText num fmt_g sub)"

definition is_on :: "(string, bool) gomap \<Rightarrow> string \<Rightarrow> bool" where
  "is_on m name = getd False m name"

definition toolsChange :: "(string, bool) gomap \<Rightarrow> (string, bool) gomap \<Rightarrow> string" where
  "toolsChange ref sub =
     (let added = sort (map (\<lambda>p. ''+'' @ fst p) (filter (\<lambda>p. snd p \<and> \<not> is_on ref (fst p)) sub));
          removed = sort (map (\<lambda>p. minus @ fst p) (filter (\<lambda>p. snd p \<and> \<not> is_on sub (fst p)) ref));
          parts = added @ removed
      in if parts = [] then [] else ''tools '' @ join '' '' parts)"

definition pairChange :: "string \<Rightarrow> string \<Rightarrow> string \<Rightarrow> string" where
  "pairChange label ref sub =
     (if ref = sub then []
      else if ref = [] then label @ '' '' @ sub
      else if sub = [] then label @ '' '' @ ref @ '' '' @ arrow @ '' (unset)''
      else label @ '' '' @ ref @ '' '' @ arrow @ '' '' @ sub)"

definition joinParts :: "string list \<Rightarrow> string" where
  "joinParts parts = join '', '' (filter (\<lambda>p. p \<noteq> []) parts)"

definition findAgent :: "view \<Rightarrow> string \<Rightarrow> agent option" where
  "findAgent v name = find (\<lambda>a. pa_name a = name) (v_agents v)"

definition describeComponent :: "(json \<Rightarrow> string) \<Rightarrow> (real \<Rightarrow> string) \<Rightarrow> view \<Rightarrow> string \<Rightarrow> string \<Rightarrow> string" where
  "describeComponent num fmt_g v kind name =
     (if kind = ''primary'' then trim_space (ps_model (v_primary v) @ '' '' @ ps_variant (v_primary v))
      else if kind = ''agent'' then
        (case findAgent v name of None \<Rightarrow> [] | Some a \<Rightarrow> trim_space (shortModel (pa_model a) @ '' '' @ pa_variant a))
      else if kind = ''skill'' \<or> kind = ''mcp'' \<or> kind = ''plugin'' then []
      else if kind = ''instructions'' then ''instruction file''
      else if kind = ''permissions'' then ''permission rules''
      else if kind = ''config'' then ''configuration''
      else if kind \<in> set promoted_settings then scalarText num fmt_g (at_key (v_settings v) kind)
      else [])"

definition describeChange ::
  "(json \<Rightarrow> string) \<Rightarrow> (real \<Rightarrow> string) \<Rightarrow> view \<Rightarrow> view \<Rightarrow> string \<Rightarrow> string \<Rightarrow> string" where
  "describeChange num fmt_g refView subView kind name =
     (if kind = ''primary'' then
        joinParts [pairChange ''model'' (ps_model (v_primary refView)) (ps_model (v_primary subView)),
          pairChange ''small model'' (ps_small (v_primary refView)) (ps_small (v_primary subView)),
          pairChange ''variant'' (ps_variant (v_primary refView)) (ps_variant (v_primary subView)),
          pairChange ''default agent'' (ps_default (v_primary refView)) (ps_default (v_primary subView))]
      else if kind = ''agent'' then
        (case (findAgent refView name, findAgent subView name) of
           (Some ref, Some sub) \<Rightarrow>
             joinParts [pairChange ''model'' (shortModel (pa_model ref)) (shortModel (pa_model sub)),
               pairChange ''variant'' (pa_variant ref) (pa_variant sub), pairChange ''mode'' (pa_mode ref) (pa_mode sub),
               pairChange ''steps'' (show_int (sint (pa_steps ref))) (show_int (sint (pa_steps sub))),
               toolsChange (pa_tools ref) (pa_tools sub)]
         | _ \<Rightarrow> ''agent definition'')
      else if kind = ''permissions'' then ''permission rules''
      else if kind = ''skill'' \<or> kind = ''mcp'' then kind @ '' configuration''
      else if kind = ''instructions'' then ''instruction content''
      else if kind = ''plugin'' then ''plugin''
      else if kind = ''config'' then ''configuration''
      else if kind \<in> set promoted_settings then
        describeSetting num fmt_g kind (at_key (v_settings refView) kind) (at_key (v_settings subView) kind)
      else if kind = ''command'' then ''command definition''
      else if kind = ''provider'' then ''provider options''
      else if kind = ''mode'' then ''mode definition''
      else [])"

record change_note =
  cn_sign :: string
  cn_change :: string
  cn_kind :: string
  cn_name :: string
  cn_note :: string

definition kindOrder :: "string \<Rightarrow> int" where
  "kindOrder kind = getd 0 [(''primary'', 0), (''agent'', 1), (''permissions'', 2), (''skill'', 3), (''mcp'', 4),
     (''plugin'', 5), (''instructions'', 6), (''config'', 7)] kind"

definition change_note_of ::
  "(json \<Rightarrow> string) \<Rightarrow> (real \<Rightarrow> string) \<Rightarrow> view \<Rightarrow> view \<Rightarrow> change \<Rightarrow> change_note" where
  "change_note_of num fmt_g refView subView c =
     (let (sign, note) =
        (if chg_change c = ''added'' then (''+'', describeComponent num fmt_g subView (chg_kind c) (chg_name c))
         else if chg_change c = ''removed'' then (minus, describeComponent num fmt_g refView (chg_kind c) (chg_name c))
         else (''~'', describeChange num fmt_g refView subView (chg_kind c) (chg_name c)))
      in \<lparr>cn_sign = sign, cn_change = chg_change c, cn_kind = chg_kind c, cn_name = chg_name c, cn_note = note\<rparr>)"

definition note_order :: "change_note \<Rightarrow> int \<times> string \<times> string" where
  "note_order n = (kindOrder (cn_kind n), cn_kind n, cn_name n)"

definition DiffNotes ::
  "(string \<Rightarrow> json option) \<Rightarrow> (json \<Rightarrow> string) \<Rightarrow> (real \<Rightarrow> string) \<Rightarrow> profile \<Rightarrow> profile \<Rightarrow> change_note list" where
  "DiffNotes parse num fmt_g reference subject =
     (let refView = NewView parse reference; subView = NewView parse subject
      in sort_by (\<lambda>a b. note_order a < note_order b)
           (map (change_note_of num fmt_g refView subView) (Diff (Some reference) (Some subject))))"

section \<open>The diff is exact\<close>

interpretation change_order: strict_weak "\<lambda>a b. chg_kind a < chg_kind b \<or> chg_kind a = chg_kind b \<and> chg_name a < chg_name b"
  by unfold_locales auto

text \<open>The hash a profile has for a component: of the last one listed under the key.\<close>

definition hash_at :: "profile option \<Rightarrow> string \<times> string \<Rightarrow> string option" where
  "hash_at p k = map_option cp_hash (map_of (indexComponents p) k)"

lemma diff_key_cases:
  "c \<in> set (diff_key before after k) \<longleftrightarrow>
     chg_key c = k \<and>
     (let f = map_option cp_hash (map_of before k); t = map_option cp_hash (map_of after k)
      in f \<noteq> t \<and> chg_from c = (case f of None \<Rightarrow> [] | Some h \<Rightarrow> h) \<and> chg_to c = (case t of None \<Rightarrow> [] | Some h \<Rightarrow> h) \<and>
         chg_change c = (if f = None then ''added'' else if t = None then ''removed'' else ''changed''))"
  by (cases c; cases k; cases "map_of before k"; cases "map_of after k") (auto simp: diff_key_def chg_key_def Let_def)

lemma diff_key_some:
  "map_option cp_hash (map_of b k) \<noteq> map_option cp_hash (map_of a k) \<Longrightarrow> \<exists>c. c \<in> set (diff_key b a k) \<and> chg_key c = k"
  by (cases k) (auto simp: diff_key_def chg_key_def split: option.splits)

lemma diff_key_known:
  "c \<in> set (diff_key before after k) \<Longrightarrow> chg_key c = k \<and> k \<in> fst ` set before \<union> fst ` set after"
proof (intro conjI, simp add: diff_key_cases, rule ccontr)
  assume c: "c \<in> set (diff_key before after k)" and "k \<notin> fst ` set before \<union> fst ` set after"
  then have "map_of before k = None" "map_of after k = None" by (simp_all add: map_of_eq_None_iff)
  then show False using c by (simp add: diff_key_def)
qed

lemma set_Diff:
  "c \<in> set (Diff from to) \<longleftrightarrow> c \<in> set (diff_key (indexComponents from) (indexComponents to) (chg_key c))"
proof -
  have U: "set (Diff from to) = (\<Union>k\<in>fst ` set (indexComponents from) \<union> fst ` set (indexComponents to).
      set (diff_key (indexComponents from) (indexComponents to) k))"
    by (simp add: Diff_def Let_def)
  show ?thesis
  proof
    assume "c \<in> set (Diff from to)"
    then obtain k where "c \<in> set (diff_key (indexComponents from) (indexComponents to) k)" unfolding U by blast
    with diff_key_known [OF this] show "c \<in> set (diff_key (indexComponents from) (indexComponents to) (chg_key c))" by simp
  next
    assume "c \<in> set (diff_key (indexComponents from) (indexComponents to) (chg_key c))"
    with diff_key_known [OF this] show "c \<in> set (Diff from to)" unfolding U by blast
  qed
qed

lemma keys_Diff: "distinct (map chg_key (Diff from to))"
proof -
  let ?d = "diff_key (indexComponents from) (indexComponents to)"
  have one: "map chg_key (?d k) = (if ?d k = [] then [] else [k])" for k
    by (auto simp: diff_key_def chg_key_def split: option.splits)
  have "distinct ks \<Longrightarrow> distinct (map chg_key (concat (map ?d ks)))" for ks
  proof (induction ks)
    case (Cons k ks)
    have "set (map chg_key (concat (map ?d ks))) \<subseteq> set ks" by (auto simp: diff_key_cases)
    then show ?case using Cons one [of k] by (auto split: if_splits)
  qed simp
  then show ?thesis by (simp add: Diff_def Let_def)
qed

text \<open>C39: 
  The component diff is exact: it lists each component whose hash differs between the two profiles,
  once, with both hashes, as added, removed or changed when it is present only in the second, only in the
  first or in both; a profile has no difference from itself.
\<close>

theorem Diff_exact:
  "distinct (map chg_key (Diff from to)) \<and>
   {(chg_key c, chg_change c, chg_from c, chg_to c) | c. c \<in> set (Diff from to)} =
   {(k, if hash_at from k = None then ''added'' else if hash_at to k = None then ''removed'' else ''changed'',
        case hash_at from k of None \<Rightarrow> [] | Some h \<Rightarrow> h, case hash_at to k of None \<Rightarrow> [] | Some h \<Rightarrow> h)
      | k. hash_at from k \<noteq> hash_at to k} \<and>
   Diff from from = []"
proof -
  have "{(chg_key c, chg_change c, chg_from c, chg_to c) | c. c \<in> set (Diff from to)} =
   {(k, if hash_at from k = None then ''added'' else if hash_at to k = None then ''removed'' else ''changed'',
        case hash_at from k of None \<Rightarrow> [] | Some h \<Rightarrow> h, case hash_at to k of None \<Rightarrow> [] | Some h \<Rightarrow> h)
      | k. hash_at from k \<noteq> hash_at to k}" (is "?L = ?R")
  proof
    show "?L \<subseteq> ?R" unfolding set_Diff diff_key_cases hash_at_def Let_def by blast
    show "?R \<subseteq> ?L"
    proof
      fix x assume "x \<in> ?R"
      then obtain k where k: "hash_at from k \<noteq> hash_at to k"
        "x = (k, if hash_at from k = None then ''added'' else if hash_at to k = None then ''removed'' else ''changed'',
          case hash_at from k of None \<Rightarrow> [] | Some h \<Rightarrow> h, case hash_at to k of None \<Rightarrow> [] | Some h \<Rightarrow> h)" by blast
      then obtain c where "c \<in> set (diff_key (indexComponents from) (indexComponents to) k)" "chg_key c = k"
        using diff_key_some by (metis hash_at_def)
      then show "x \<in> ?L" using k(2) unfolding set_Diff diff_key_cases hash_at_def Let_def by force
    qed
  qed
  moreover have "c \<notin> set (Diff from from)" for c
    unfolding set_Diff diff_key_cases Let_def by simp
  then have "Diff from from = []" by (metis list.set_intros(1) neq_Nil_conv)
  ultimately show ?thesis using keys_Diff by blast
qed

section \<open>Delegation\<close>

text \<open>The action a list of rules gives for a subagent: of the last rule naming it, else of the last \<open>*\<close>.\<close>

definition last_action :: "task_rule list \<Rightarrow> string \<Rightarrow> string option" where
  "last_action rules name = map_option tr_action (find (\<lambda>r. tr_pattern r = name) (rev rules))"

definition may_delegate :: "task_rule list \<Rightarrow> string \<Rightarrow> bool" where
  "may_delegate rules name \<longleftrightarrow>
     (case last_action rules name of Some a \<Rightarrow> a = ''allow'' | None \<Rightarrow> last_action rules ''*'' = Some ''allow'')"

lemma specific_rules:
  "name \<noteq> ''*'' \<Longrightarrow>
   map_of (fold (\<lambda>r m. if tr_pattern r = ''*'' then m else put (tr_pattern r) (tr_action r) m) rules []) name
   = last_action rules name"
  by (induction rules rule: rev_induct) (auto simp: last_action_def go_map)

lemma catch_all:
  "fold (\<lambda>r a. if tr_pattern r = ''*'' then tr_action r else a) rules [] = (case last_action rules ''*'' of None \<Rightarrow> [] | Some a \<Rightarrow> a)"
  by (induction rules rule: rev_induct) (auto simp: last_action_def)

lemma specific_no_star:
  "map_of (fold (\<lambda>r m. if tr_pattern r = ''*'' then m else put (tr_pattern r) (tr_action r) m) rules []) ''*'' = None"
  by (induction rules rule: rev_induct) (auto simp: go_map)

lemma set_allowedTargets: "set (allowedTargets rules known) = {name \<in> set known. may_delegate rules name}"
proof -
  have "((case map_of (fold (\<lambda>r m. if tr_pattern r = ''*'' then m else put (tr_pattern r) (tr_action r) m) rules []) name of
      None \<Rightarrow> fold (\<lambda>r a. if tr_pattern r = ''*'' then tr_action r else a) rules [] | Some a \<Rightarrow> a) = ''allow'')
    = may_delegate rules name" for name
    by (cases "name = ''*''") (auto simp: specific_no_star specific_rules catch_all may_delegate_def split: option.splits)
  then show ?thesis by (simp add: allowedTargets_def Let_def)
qed

text \<open>
  The delegation graph has an edge from one agent to another exactly when the first is a primary
  agent, the second the name of a subagent, and the last rule of the first that names the second (or else its
  last catch-all rule) allows it.
\<close>

theorem Architecture_edges:
  "set (ar_edges (Architecture v)) =
     {(pa_name a, name) | a name. a \<in> set (v_agents v) \<and> pa_mode a = ''primary'' \<and>
        name \<in> pa_name ` {b \<in> set (v_agents v). pa_mode b = ''subagent''} \<and> may_delegate (pa_rules a) name} \<and>
   sorted (ar_edges (Architecture v))"
  by (auto simp: Architecture_def Let_def set_allowedTargets Subagents_def)

text \<open>
  The explained differences are the changes of the component diff, each once, with its kind of
  change, in the reading order of the kinds.
\<close>

theorem DiffNotes_changes:
  "mset (map (\<lambda>n. (cn_kind n, cn_name n, cn_change n)) (DiffNotes parse num fmt_g reference subject))
     = mset (map (\<lambda>c. (chg_kind c, chg_name c, chg_change c)) (Diff (Some reference) (Some subject))) \<and>
   sorted (map note_order (DiffNotes parse num fmt_g reference subject)) \<and>
   (DiffNotes parse num fmt_g reference subject = [] \<longleftrightarrow> (\<forall>k. hash_at (Some reference) k = hash_at (Some subject) k))"
proof -
  have same: "(cn_kind (change_note_of num fmt_g r s c), cn_name (change_note_of num fmt_g r s c), cn_change (change_note_of num fmt_g r s c))
      = (chg_kind c, chg_name c, chg_change c)" for r s c
    by (simp add: change_note_of_def split: prod.splits)
  have "(Diff p q = []) = (\<forall>k. hash_at p k = hash_at q k)" for p q
  proof
    assume "Diff p q = []"
    then have "set (diff_key (indexComponents p) (indexComponents q) k) = {}" for k
      using set_Diff [of _ p q] diff_key_cases by (metis all_not_in_conv empty_set)
    then show "\<forall>k. hash_at p k = hash_at q k"
      using diff_key_some by (metis empty_iff hash_at_def)
  next
    assume eq: "\<forall>k. hash_at p k = hash_at q k"
    have "c \<notin> set (Diff p q)" for c
      unfolding set_Diff diff_key_cases Let_def using eq [rule_format, of "chg_key c", unfolded hash_at_def] by blast
    then show "Diff p q = []" by (metis list.set_intros(1) neq_Nil_conv)
  qed
  then have "DiffNotes parse num fmt_g reference subject = [] \<longleftrightarrow> (\<forall>k. hash_at (Some reference) k = hash_at (Some subject) k)"
    unfolding DiffNotes_def Let_def sort_by_eq_Nil map_is_Nil_conv .
  moreover have "sorted (map note_order (DiffNotes parse num fmt_g reference subject))"
    by (simp add: DiffNotes_def Let_def sort_by_key)
  moreover have "mset (map (\<lambda>n. (cn_kind n, cn_name n, cn_change n)) (DiffNotes parse num fmt_g reference subject))
     = mset (map (\<lambda>c. (chg_kind c, chg_name c, chg_change c)) (Diff (Some reference) (Some subject)))"
    by (simp add: DiffNotes_def Let_def image_mset.compositionality comp_def same)
  ultimately show ?thesis by blast
qed

end
