(* ===== verification/Store.thy ===== *)
theory Store
  imports GoStrings Fmt SliceSort "HOL-Library.Product_Lexorder"
begin

text \<open>
  \<open>internal/store\<close>: the SQLite tables and every statement the package runs on them. A table
  is the list of its rows in insertion order; a statement checks the constraints the
  migrations declare (primary keys, unique columns, foreign keys) and an operation that fails
  returns an error and leaves the state, as its rolled-back transaction does. Failures of the
  database itself (I/O, locks) are outside the model. \<open>now\<close> is the clock of \<open>rfc3339UTC\<close>.
  Text is ordered by bytes, as SQLite's default collation does; JSON columns are text.
\<close>

section \<open>Rows\<close>

record profile_row =
  pr_id :: string
  pr_hash :: string
  pr_opencode :: string
  pr_ocbench :: string
  pr_json :: string
  pr_created :: string

record component_row =
  co_kind :: string
  co_name :: string
  co_hash :: string
  co_json :: string

record change_row =
  ch_kind :: string
  ch_name :: string
  ch_change :: string
  ch_from_hash :: string
  ch_to_hash :: string
  ch_from_summary :: string
  ch_to_summary :: string
  ch_detected :: string

record suite_row =
  su_id :: string
  su_name :: string
  su_version :: string
  su_hash :: string
  su_source :: string
  su_manifest :: string
  su_created :: string

record task_row =
  ta_suite :: string
  ta_task :: string
  ta_version :: string
  ta_name :: string
  ta_tags :: string
  ta_timeout :: int
  ta_fixture :: string
  ta_spec :: string

record suite_task_row =
  st_suite :: suite_row
  st_task :: task_row

record experiment_row =
  ex_id :: string
  ex_name :: string
  ex_spec :: string
  ex_created :: string

record arm_row =
  am_id :: string
  am_experiment :: string
  am_label :: string
  am_profile :: "string option"
  am_overlay_path :: "string option"
  am_overlay_sha :: "string option"
  am_profile_hash :: string
  am_overlay_kind :: string
  am_created :: string

text \<open>A run as the program sees it, and as its columns are stored: optional text is NULL.\<close>

record run_row =
  rr_id :: string
  rr_experiment :: string
  rr_arm :: "string option"
  rr_repeat :: int
  rr_profile :: string
  rr_profile_hash :: string
  rr_suite :: string
  rr_suite_name :: string
  rr_suite_version :: string
  rr_suite_hash :: string
  rr_task :: string
  rr_task_version :: string
  rr_fixture :: string
  rr_opencode :: string
  rr_ocbench :: string
  rr_env :: string
  rr_model :: string
  rr_agent :: string
  rr_variant :: string
  rr_status :: string
  rr_dry :: bool
  rr_exit :: "int option"
  rr_session :: string
  rr_started :: string
  rr_finished :: string
  rr_duration :: "int option"
  rr_artifacts :: string
  rr_error :: string

definition zero_run :: run_row where
  "zero_run = \<lparr>rr_id = [], rr_experiment = [], rr_arm = None, rr_repeat = 0, rr_profile = [], rr_profile_hash = [],
     rr_suite = [], rr_suite_name = [], rr_suite_version = [], rr_suite_hash = [], rr_task = [], rr_task_version = [],
     rr_fixture = [], rr_opencode = [], rr_ocbench = [], rr_env = [], rr_model = [], rr_agent = [], rr_variant = [],
     rr_status = [], rr_dry = False, rr_exit = None, rr_session = [], rr_started = [], rr_finished = [],
     rr_duration = None, rr_artifacts = [], rr_error = []\<rparr>"

record run_sql =
  rq_id :: string
  rq_experiment :: "string option"
  rq_arm :: "string option"
  rq_repeat :: int
  rq_profile :: string
  rq_profile_hash :: string
  rq_suite :: "string option"
  rq_suite_name :: string
  rq_suite_version :: string
  rq_suite_hash :: string
  rq_task :: string
  rq_task_version :: string
  rq_fixture :: string
  rq_opencode :: string
  rq_ocbench :: string
  rq_env :: string
  rq_model :: "string option"
  rq_agent :: "string option"
  rq_variant :: "string option"
  rq_status :: string
  rq_dry :: int
  rq_exit :: "int option"
  rq_session :: "string option"
  rq_started :: string
  rq_finished :: "string option"
  rq_duration :: "int option"
  rq_artifacts :: string
  rq_error :: "string option"

record validation_row =
  va_seq :: int
  va_kind :: string
  va_name :: string
  va_command :: string
  va_status :: string
  va_exit :: int
  va_duration :: int
  va_path :: string
  va_excerpt :: string

record validation_sql =
  vq_run :: string
  vq_seq :: int
  vq_kind :: string
  vq_name :: string
  vq_command :: "string option"
  vq_status :: string
  vq_exit :: "int option"
  vq_duration :: "int option"
  vq_path :: "string option"
  vq_excerpt :: "string option"

record metric_row =
  mt_name :: string
  mt_num :: "real option"
  mt_text :: string
  mt_unit :: string

record metric_sql =
  mq_run :: string
  mq_name :: string
  mq_num :: "real option"
  mq_text :: "string option"
  mq_unit :: "string option"

record change_sql =
  cq_id :: nat
  cq_from :: string
  cq_to :: string
  cq_change :: change_row

record db =
  db_profiles :: "profile_row list"
  db_components :: "(string \<times> component_row) list"
  db_suites :: "suite_row list"
  db_tasks :: "task_row list"
  db_experiments :: "experiment_row list"
  db_arms :: "arm_row list"
  db_runs :: "run_sql list"
  db_metrics :: "metric_sql list"
  db_validations :: "validation_sql list"
  db_changes :: "change_sql list"

datatype db_error = Unique string | ForeignKey string

type_synonym 'a db_result = "db_error + 'a"

definition empty_db :: db where
  "empty_db = \<lparr>db_profiles = [], db_components = [], db_suites = [], db_tasks = [], db_experiments = [],
     db_arms = [], db_runs = [], db_metrics = [], db_validations = [], db_changes = []\<rparr>"

section \<open>Columns\<close>

definition nullString :: "string \<Rightarrow> string option" where
  "nullString s = (if s = [] then None else Some s)"

definition OptionalString :: "string \<Rightarrow> string option" where
  "OptionalString s = (if s = [] then None else Some s)"

definition coalesce :: "string option \<Rightarrow> string" where
  "coalesce v = (case v of None \<Rightarrow> [] | Some s \<Rightarrow> s)"

definition boolInt :: "bool \<Rightarrow> int" where
  "boolInt b = (if b then 1 else 0)"

definition rfc3339UTC :: "string \<Rightarrow> string \<Rightarrow> string" where
  "rfc3339UTC now ts = (if ts = [] then now else ts)"

definition isBusyCode :: "int \<Rightarrow> bool" where
  "isBusyCode code = (take_bit 8 code = 5 \<or> take_bit 8 code = 6)"

definition RunSucceeded :: "run_row \<Rightarrow> real \<Rightarrow> bool \<Rightarrow> bool" where
  "RunSucceeded run success successRecorded =
     (if successRecorded then success \<ge> 1 / 2 else rr_status run = ''passed'')"

definition run_params :: "string \<Rightarrow> run_row \<Rightarrow> run_sql" where
  "run_params now r =
     \<lparr>rq_id = rr_id r, rq_experiment = nullString (rr_experiment r), rq_arm = rr_arm r,
      rq_repeat = rr_repeat r, rq_profile = rr_profile r, rq_profile_hash = rr_profile_hash r,
      rq_suite = nullString (rr_suite r), rq_suite_name = rr_suite_name r,
      rq_suite_version = rr_suite_version r, rq_suite_hash = rr_suite_hash r, rq_task = rr_task r,
      rq_task_version = rr_task_version r, rq_fixture = rr_fixture r, rq_opencode = rr_opencode r,
      rq_ocbench = rr_ocbench r, rq_env = rr_env r, rq_model = nullString (rr_model r),
      rq_agent = nullString (rr_agent r), rq_variant = nullString (rr_variant r),
      rq_status = rr_status r, rq_dry = boolInt (rr_dry r), rq_exit = rr_exit r,
      rq_session = nullString (rr_session r), rq_started = rfc3339UTC now (rr_started r),
      rq_finished = nullString (rr_finished r), rq_duration = rr_duration r,
      rq_artifacts = rr_artifacts r, rq_error = nullString (rr_error r)\<rparr>"

definition scanRunRow :: "run_sql \<Rightarrow> run_row" where
  "scanRunRow q =
     \<lparr>rr_id = rq_id q, rr_experiment = coalesce (rq_experiment q), rr_arm = rq_arm q,
      rr_repeat = rq_repeat q, rr_profile = rq_profile q, rr_profile_hash = rq_profile_hash q,
      rr_suite = coalesce (rq_suite q), rr_suite_name = rq_suite_name q,
      rr_suite_version = rq_suite_version q, rr_suite_hash = rq_suite_hash q, rr_task = rq_task q,
      rr_task_version = rq_task_version q, rr_fixture = rq_fixture q, rr_opencode = rq_opencode q,
      rr_ocbench = rq_ocbench q, rr_env = rq_env q, rr_model = coalesce (rq_model q),
      rr_agent = coalesce (rq_agent q), rr_variant = coalesce (rq_variant q), rr_status = rq_status q,
      rr_dry = rq_dry q \<noteq> 0, rr_exit = rq_exit q, rr_session = coalesce (rq_session q),
      rr_started = rq_started q, rr_finished = coalesce (rq_finished q), rr_duration = rq_duration q,
      rr_artifacts = rq_artifacts q, rr_error = coalesce (rq_error q)\<rparr>"

section \<open>Experiments and arms\<close>

definition InsertExperiment :: "string \<Rightarrow> experiment_row \<Rightarrow> db \<Rightarrow> db db_result" where
  "InsertExperiment now row s =
     (if \<exists>x\<in>set (db_experiments s). ex_id x = ex_id row then Inr s
      else Inr (s\<lparr>db_experiments := db_experiments s @ [row\<lparr>ex_created := rfc3339UTC now (ex_created row)\<rparr>]\<rparr>))"

definition GetExperiment :: "string \<Rightarrow> db \<Rightarrow> experiment_row option" where
  "GetExperiment i s = find (\<lambda>x. ex_id x = i) (db_experiments s)"

definition InsertExperimentArm :: "string \<Rightarrow> arm_row \<Rightarrow> db \<Rightarrow> db db_result" where
  "InsertExperimentArm now a s =
     (if \<exists>x\<in>set (db_arms s). am_id x = am_id a \<or> (am_experiment x = am_experiment a \<and> am_label x = am_label a)
      then Inl (Unique ''experiment_arms'')
      else if \<not> (\<exists>x\<in>set (db_experiments s). ex_id x = am_experiment a) then Inl (ForeignKey ''experiment_id'')
      else if \<exists>p. am_profile a = Some p \<and> \<not> (\<exists>x\<in>set (db_profiles s). pr_id x = p) then Inl (ForeignKey ''profile_id'')
      else Inr (s\<lparr>db_arms := db_arms s @ [a\<lparr>am_created := rfc3339UTC now (am_created a)\<rparr>]\<rparr>))"

definition ListExperimentArms :: "string \<Rightarrow> db \<Rightarrow> arm_row list" where
  "ListExperimentArms e s = sort_by (\<lambda>a b. am_label a < am_label b) (filter (\<lambda>a. am_experiment a = e) (db_arms s))"

definition ListExperiments :: "int \<Rightarrow> db \<Rightarrow> experiment_row list" where
  "ListExperiments limit s =
     (let out = sort_by (\<lambda>a b. (ex_created b, ex_id b) < (ex_created a, ex_id a)) (db_experiments s)
      in if limit > 0 then take (nat limit) out else out)"

definition ExperimentArmCounts :: "db \<Rightarrow> (string, nat) gomap" where
  "ExperimentArmCounts s = accum am_experiment (\<lambda>_. 0) (\<lambda>_ n. Suc n) (db_arms s) []"

section \<open>Suites and tasks\<close>

definition InsertSuite :: "string \<Rightarrow> suite_row \<Rightarrow> db \<Rightarrow> db db_result" where
  "InsertSuite now row s =
     (if \<exists>x\<in>set (db_suites s). su_id x = su_id row \<or>
           (su_name x = su_name row \<and> su_version x = su_version row \<and> su_hash x = su_hash row) then Inr s
      else Inr (s\<lparr>db_suites := db_suites s @ [row\<lparr>su_created := rfc3339UTC now (su_created row)\<rparr>]\<rparr>))"

definition InsertTask :: "task_row \<Rightarrow> db \<Rightarrow> db db_result" where
  "InsertTask row s =
     (if \<exists>x\<in>set (db_tasks s). ta_suite x = ta_suite row \<and> ta_task x = ta_task row \<and> ta_version x = ta_version row
      then Inr s
      else if \<not> (\<exists>x\<in>set (db_suites s). su_id x = ta_suite row) then Inl (ForeignKey ''suite_id'')
      else Inr (s\<lparr>db_tasks := db_tasks s @ [row]\<rparr>))"

definition ListSuiteTasks :: "db \<Rightarrow> suite_task_row list" where
  "ListSuiteTasks s =
     sort_by (\<lambda>a b. su_name (st_suite a) < su_name (st_suite b) \<or>
         su_name (st_suite a) = su_name (st_suite b) \<and>
           (su_created (st_suite b) < su_created (st_suite a) \<or>
            su_created (st_suite a) = su_created (st_suite b) \<and> ta_task (st_task a) < ta_task (st_task b)))
       (concat (map (\<lambda>su. map (\<lambda>t. \<lparr>st_suite = su, st_task = t\<rparr>)
          (filter (\<lambda>t. ta_suite t = su_id su) (db_tasks s))) (db_suites s)))"

section \<open>Runs\<close>

definition InsertRun :: "string \<Rightarrow> run_row \<Rightarrow> db \<Rightarrow> db db_result" where
  "InsertRun now r s =
     (let q = run_params now r
      in if \<exists>x\<in>set (db_runs s). rq_id x = rq_id q then Inl (Unique ''runs'')
         else if \<exists>e. rq_experiment q = Some e \<and> \<not> (\<exists>x\<in>set (db_experiments s). ex_id x = e) then Inl (ForeignKey ''experiment_id'')
         else if \<exists>a. rq_arm q = Some a \<and> \<not> (\<exists>x\<in>set (db_arms s). am_id x = a) then Inl (ForeignKey ''arm_id'')
         else if \<not> (\<exists>x\<in>set (db_profiles s). pr_id x = rq_profile q) then Inl (ForeignKey ''profile_id'')
         else if \<exists>u. rq_suite q = Some u \<and> \<not> (\<exists>x\<in>set (db_suites s). su_id x = u) then Inl (ForeignKey ''suite_id'')
         else Inr (s\<lparr>db_runs := db_runs s @ [q]\<rparr>))"

text \<open>The same statement as executable code.\<close>

definition dangling :: "('r \<Rightarrow> string) \<Rightarrow> 'r list \<Rightarrow> string option \<Rightarrow> bool" where
  "dangling key rows v = (case v of None \<Rightarrow> False | Some k \<Rightarrow> k \<notin> set (map key rows))"

lemma dangling_iff: "dangling key rows v \<longleftrightarrow> (\<exists>k. v = Some k \<and> \<not> (\<exists>x\<in>set rows. key x = k))"
  by (auto simp: dangling_def image_iff split: option.split)

lemma InsertRun_code [code]:
  "InsertRun now r s =
     (let q = run_params now r
      in if list_ex (\<lambda>x. rq_id x = rq_id q) (db_runs s) then Inl (Unique ''runs'')
         else if dangling ex_id (db_experiments s) (rq_experiment q) then Inl (ForeignKey ''experiment_id'')
         else if dangling am_id (db_arms s) (rq_arm q) then Inl (ForeignKey ''arm_id'')
         else if \<not> list_ex (\<lambda>x. pr_id x = rq_profile q) (db_profiles s) then Inl (ForeignKey ''profile_id'')
         else if dangling su_id (db_suites s) (rq_suite q) then Inl (ForeignKey ''suite_id'')
         else Inr (s\<lparr>db_runs := db_runs s @ [q]\<rparr>))"
  unfolding InsertRun_def Let_def dangling_iff list_ex_iff by simp

definition GetRun :: "string \<Rightarrow> db \<Rightarrow> run_row option" where
  "GetRun i s = map_option scanRunRow (find (\<lambda>q. rq_id q = i) (db_runs s))"

text \<open>\<open>ORDER BY started_at, id\<close>; \<open>newer\<close> is the descending order of the same pairs.\<close>

definition run_key :: "run_sql \<Rightarrow> string \<times> string" where
  "run_key q = (rq_started q, rq_id q)"

definition newer :: "string \<times> string \<Rightarrow> string \<times> string \<Rightarrow> bool" where
  "newer a b \<longleftrightarrow> b < a"

definition newest_first :: "run_sql list \<Rightarrow> run_sql list" where
  "newest_first = sort_by (\<lambda>a b. newer (run_key a) (run_key b))"

definition RunsForExperiment :: "string \<Rightarrow> db \<Rightarrow> run_row list" where
  "RunsForExperiment e s =
     map scanRunRow (sort_by (\<lambda>a b. run_key a < run_key b) (filter (\<lambda>q. rq_experiment q = Some e) (db_runs s)))"

definition ListRuns :: "int \<Rightarrow> string \<Rightarrow> db \<Rightarrow> run_row list" where
  "ListRuns limit taskID s =
     (let out = map scanRunRow (newest_first (filter (\<lambda>q. taskID = [] \<or> rq_task q = taskID) (db_runs s)))
      in if limit \<le> 0 then out else take (nat limit) out)"

definition first_row :: "run_sql list \<Rightarrow> run_row option" where
  "first_row qs = (case qs of [] \<Rightarrow> None | q # _ \<Rightarrow> Some (scanRunRow q))"

definition LatestRun :: "db \<Rightarrow> run_row option" where
  "LatestRun s = first_row (newest_first (filter (\<lambda>q. rq_dry q = 0) (db_runs s)))"

definition PreviousCompatibleRun :: "run_row \<Rightarrow> db \<Rightarrow> run_row option" where
  "PreviousCompatibleRun anchor s =
     first_row (newest_first (filter (\<lambda>q. rq_dry q = 0 \<and>
        rq_suite_name q = rr_suite_name anchor \<and> rq_suite_version q = rr_suite_version anchor \<and>
        rq_suite_hash q = rr_suite_hash anchor \<and> rq_task q = rr_task anchor \<and>
        rq_task_version q = rr_task_version anchor \<and> rq_fixture q = rr_fixture anchor \<and>
        run_key q < (rr_started anchor, rr_id anchor)) (db_runs s)))"

definition CountRuns :: "db \<Rightarrow> nat" where
  "CountRuns s = length (db_runs s)"

section \<open>Metrics and validations\<close>

fun upsert :: "('r \<Rightarrow> bool) \<Rightarrow> ('r \<Rightarrow> 'r) \<Rightarrow> 'r \<Rightarrow> 'r list \<Rightarrow> 'r list" where
  "upsert hit upd new [] = [new]"
| "upsert hit upd new (r # rs) = (if hit r then upd r # rs else r # upsert hit upd new rs)"

definition upsert_metric :: "string \<Rightarrow> string \<times> real \<Rightarrow> metric_sql list \<Rightarrow> metric_sql list" where
  "upsert_metric run m =
     upsert (\<lambda>q. mq_run q = run \<and> mq_name q = fst m) (\<lambda>q. q\<lparr>mq_num := Some (snd m)\<rparr>)
       \<lparr>mq_run = run, mq_name = fst m, mq_num = Some (snd m), mq_text = None, mq_unit = None\<rparr>"

definition InsertRunMetrics :: "string \<Rightarrow> (string, real) gomap \<Rightarrow> db \<Rightarrow> db db_result" where
  "InsertRunMetrics run metrics s =
     (if metrics = [] then Inr s
      else if \<not> (\<exists>q\<in>set (db_runs s). rq_id q = run) then Inl (ForeignKey ''run_id'')
      else Inr (s\<lparr>db_metrics := fold (upsert_metric run) metrics (db_metrics s)\<rparr>))"

definition GetRunMetrics :: "string \<Rightarrow> db \<Rightarrow> metric_row list" where
  "GetRunMetrics run s =
     map (\<lambda>q. \<lparr>mt_name = mq_name q, mt_num = mq_num q, mt_text = coalesce (mq_text q), mt_unit = coalesce (mq_unit q)\<rparr>)
       (sort_by (\<lambda>a b. mq_name a < mq_name b) (filter (\<lambda>q. mq_run q = run) (db_metrics s)))"

definition validation_params :: "string \<Rightarrow> validation_row \<Rightarrow> validation_sql" where
  "validation_params run v =
     \<lparr>vq_run = run, vq_seq = va_seq v, vq_kind = va_kind v, vq_name = va_name v,
      vq_command = nullString (va_command v), vq_status = va_status v, vq_exit = Some (va_exit v),
      vq_duration = Some (va_duration v), vq_path = nullString (va_path v), vq_excerpt = nullString (va_excerpt v)\<rparr>"

definition scan_validation :: "validation_sql \<Rightarrow> validation_row" where
  "scan_validation q =
     \<lparr>va_seq = vq_seq q, va_kind = vq_kind q, va_name = vq_name q, va_command = coalesce (vq_command q),
      va_status = vq_status q, va_exit = (case vq_exit q of None \<Rightarrow> 0 | Some n \<Rightarrow> n),
      va_duration = (case vq_duration q of None \<Rightarrow> 0 | Some n \<Rightarrow> n), va_path = coalesce (vq_path q),
      va_excerpt = coalesce (vq_excerpt q)\<rparr>"

definition upsert_validation :: "string \<Rightarrow> validation_row \<Rightarrow> validation_sql list \<Rightarrow> validation_sql list" where
  "upsert_validation run v =
     upsert (\<lambda>q. vq_run q = run \<and> vq_seq q = va_seq v) (\<lambda>q. validation_params run v) (validation_params run v)"

definition InsertRunValidations :: "string \<Rightarrow> validation_row list \<Rightarrow> db \<Rightarrow> db db_result" where
  "InsertRunValidations run vals s =
     (if vals = [] then Inr s
      else if \<not> (\<exists>q\<in>set (db_runs s). rq_id q = run) then Inl (ForeignKey ''run_id'')
      else Inr (s\<lparr>db_validations := fold (upsert_validation run) vals (db_validations s)\<rparr>))"

definition ListRunValidations :: "string \<Rightarrow> db \<Rightarrow> validation_row list" where
  "ListRunValidations run s =
     map scan_validation (sort_by (\<lambda>a b. vq_seq a < vq_seq b) (filter (\<lambda>q. vq_run q = run) (db_validations s)))"

section \<open>Profiles\<close>

definition insert_component :: "string \<Rightarrow> component_row \<Rightarrow> (string \<times> component_row) list \<Rightarrow> (string \<times> component_row) list" where
  "insert_component p c cs =
     (if \<exists>x\<in>set cs. fst x = p \<and> co_kind (snd x) = co_kind c \<and> co_name (snd x) = co_name c then cs else cs @ [(p, c)])"

definition InsertProfile :: "string \<Rightarrow> profile_row \<Rightarrow> component_row list \<Rightarrow> db \<Rightarrow> db db_result" where
  "InsertProfile now p comps s =
     (let s = (if \<exists>x\<in>set (db_profiles s). pr_id x = pr_id p \<or> pr_hash x = pr_hash p then s
               else s\<lparr>db_profiles := db_profiles s @ [p\<lparr>pr_created := rfc3339UTC now (pr_created p)\<rparr>]\<rparr>)
      in if \<exists>x\<in>set (db_profiles s). pr_id x = pr_id p
         then Inr (s\<lparr>db_components := fold (insert_component (pr_id p)) comps (db_components s)\<rparr>)
         else Inr s)"

definition componentsFor :: "string \<Rightarrow> db \<Rightarrow> component_row list" where
  "componentsFor p s =
     sort_by (\<lambda>a b. (co_kind a, co_name a) < (co_kind b, co_name b))
       (map snd (filter (\<lambda>x. fst x = p) (db_components s)))"

definition with_components :: "db \<Rightarrow> profile_row option \<Rightarrow> (profile_row \<times> component_row list) option" where
  "with_components s = map_option (\<lambda>p. (p, componentsFor (pr_id p) s))"

definition GetProfileByHash :: "string \<Rightarrow> db \<Rightarrow> (profile_row \<times> component_row list) option" where
  "GetProfileByHash h s = with_components s (find (\<lambda>p. pr_hash p = h) (db_profiles s))"

definition GetProfileByID :: "string \<Rightarrow> db \<Rightarrow> (profile_row \<times> component_row list) option" where
  "GetProfileByID i s = with_components s (find (\<lambda>p. pr_id p = i) (db_profiles s))"

definition ListProfiles :: "db \<Rightarrow> profile_row list" where
  "ListProfiles s = sort_by (\<lambda>a b. (pr_created b, pr_id b) < (pr_created a, pr_id a)) (db_profiles s)"

definition hd_option :: "'a list \<Rightarrow> 'a option" where
  "hd_option xs = (case xs of [] \<Rightarrow> None | x # _ \<Rightarrow> Some x)"

definition LatestProfile :: "db \<Rightarrow> (profile_row \<times> component_row list) option" where
  "LatestProfile s = with_components s (hd_option (ListProfiles s))"

definition PreviousProfile :: "string \<Rightarrow> db \<Rightarrow> (profile_row \<times> component_row list) option" where
  "PreviousProfile excludeHash s =
     with_components s (hd_option (sort_by (\<lambda>a b. (pr_created b, pr_id b) < (pr_created a, pr_id a))
       (filter (\<lambda>p. pr_hash p \<noteq> excludeHash) (db_profiles s))))"

definition InsertProfileChanges :: "string \<Rightarrow> string \<Rightarrow> string \<Rightarrow> change_row list \<Rightarrow> db \<Rightarrow> db db_result" where
  "InsertProfileChanges now fromID toID changes s =
     (if changes = [] then Inr s
      else if \<not> (\<exists>p\<in>set (db_profiles s). pr_id p = fromID) then Inl (ForeignKey ''from_profile_id'')
      else if \<not> (\<exists>p\<in>set (db_profiles s). pr_id p = toID) then Inl (ForeignKey ''to_profile_id'')
      else Inr (s\<lparr>db_changes := fold (\<lambda>c cs. cs @ [\<lparr>cq_id = Suc (length cs), cq_from = fromID, cq_to = toID,
             cq_change = c\<lparr>ch_detected := rfc3339UTC now (ch_detected c)\<rparr>\<rparr>]) changes (db_changes s)\<rparr>))"

definition ListProfileChanges :: "string \<Rightarrow> db \<Rightarrow> change_row list" where
  "ListProfileChanges toID s =
     map cq_change (sort_by (\<lambda>a b. (ch_kind (cq_change a), ch_name (cq_change a), cq_id a)
                                   < (ch_kind (cq_change b), ch_name (cq_change b), cq_id b))
       (filter (\<lambda>q. cq_to q = toID) (db_changes s)))"

section \<open>Migrations\<close>

definition Atoi :: "string \<Rightarrow> int option" where
  "Atoi s =
     (let (neg, ds) = (case s of c # r \<Rightarrow> if c = CHR ''-'' then (True, r) else if c = CHR ''+'' then (False, r) else (False, s)
                       | [] \<Rightarrow> (False, []));
          n = int (read_nat ds); v = (if neg then - n else n)
      in if ds = [] \<or> \<not> list_all (\<lambda>c. 48 \<le> byte c \<and> byte c \<le> 57) ds then None
         else if - (2 ^ 63) \<le> v \<and> v < 2 ^ 63 then Some v else None)"

record migration =
  mg_version :: int
  mg_name :: string
  mg_sql :: string

datatype migrate_error = BadName string | BadVersion string | ExecFailed string

text \<open>\<open>entries\<close> are the embedded files in order of name: name, whether a directory, content.\<close>

fun parse_migrations :: "(string \<times> bool \<times> string) list \<Rightarrow> migrate_error + migration list" where
  "parse_migrations [] = Inr []"
| "parse_migrations ((name, dir, body) # es) =
     (if dir \<or> \<not> has_suffix name ''.sql'' then parse_migrations es
      else (let (prefix, _, ok) = cut (CHR ''_'') name
            in if \<not> ok then Inl (BadName name)
               else (case Atoi prefix of
                       None \<Rightarrow> Inl (BadVersion name)
                     | Some v \<Rightarrow> rbind (parse_migrations es)
                         (\<lambda>ms. Inr (\<lparr>mg_version = v, mg_name = name, mg_sql = body\<rparr> # ms)))))"

definition loadMigrations :: "(string \<times> bool \<times> string) list \<Rightarrow> migrate_error + migration list" where
  "loadMigrations entries =
     rbind (parse_migrations entries) (\<lambda>ms. Inr (sort_by (\<lambda>a b. mg_version a < mg_version b) ms))"

text \<open>A database being migrated: the versions recorded and the rest, on which \<open>exec\<close> runs SQL.\<close>

definition SchemaVersion :: "int list \<times> 'd \<Rightarrow> int" where
  "SchemaVersion d = (case fst d of [] \<Rightarrow> 0 | v # vs \<Rightarrow> fold max vs v)"

fun run_migrations ::
  "(string \<Rightarrow> 'd \<Rightarrow> 'd option) \<Rightarrow> migration list \<Rightarrow> int \<Rightarrow> int list \<times> 'd \<Rightarrow>
   (migrate_error option \<times> int) \<times> (int list \<times> 'd)" where
  "run_migrations exec [] current d = ((None, current), d)"
| "run_migrations exec (m # ms) current d =
     (if mg_version m \<le> current then run_migrations exec ms current d
      else (case exec (mg_sql m) (snd d) of
              None \<Rightarrow> ((Some (ExecFailed (mg_name m)), current), d)
            | Some x \<Rightarrow> run_migrations exec ms (mg_version m) (fst d @ [mg_version m], x)))"

definition Migrate ::
  "(string \<Rightarrow> 'd \<Rightarrow> 'd option) \<Rightarrow> (string \<times> bool \<times> string) list \<Rightarrow> int list \<times> 'd \<Rightarrow>
   (migrate_error option \<times> int) \<times> (int list \<times> 'd)" where
  "Migrate exec entries d =
     (case loadMigrations entries of
        Inl e \<Rightarrow> ((Some e, 0), d)
      | Inr ms \<Rightarrow> run_migrations exec ms (SchemaVersion d) d)"

section \<open>Stored rows\<close>

lemma coalesce_nullString [simp]: "coalesce (nullString s) = s"
  by (simp add: coalesce_def nullString_def)

lemma boolInt_neq_0 [simp]: "boolInt b \<noteq> 0 \<longleftrightarrow> b" "boolInt b = 0 \<longleftrightarrow> \<not> b"
  by (simp_all add: boolInt_def)

lemma scan_params: "scanRunRow (run_params now r) = r\<lparr>rr_started := rfc3339UTC now (rr_started r)\<rparr>"
  by (simp add: scanRunRow_def run_params_def)

lemma params_id [simp]: "rq_id (run_params now r) = rr_id r"
  by (simp add: run_params_def)

lemma scan_validation_params: "scan_validation (validation_params run v) = v"
  by (simp add: scan_validation_def validation_params_def)

text \<open>The order of runs: pairs of start time and id, newest first.\<close>

interpretation run_order: strict_total newer
  by unfold_locales (auto simp: newer_def)

lemma newest_first_keys: "map run_key (newest_first qs) = sort_by newer (map run_key qs)"
proof -
  have "map run_key (ins_by (\<lambda>a b. newer (run_key a) (run_key b)) q qs) = ins_by newer (run_key q) (map run_key qs)" for q qs
    by (induction qs) auto
  then show ?thesis unfolding newest_first_def by (induction qs) auto
qed

lemma newest_first_set [simp]: "set (newest_first qs) = set qs"
  by (simp add: newest_first_def)

lemma newest_first_hd:
  assumes "newest_first qs = q # rest" "x \<in> set qs"
  shows "run_key x \<le> run_key q"
proof -
  have "run_key q = hd (sort_by newer (map run_key qs))"
    using assms(1) by (metis list.sel(1) list.simps(9) newest_first_keys)
  moreover have "\<not> newer (run_key x) (hd (sort_by newer (map run_key qs)))"
    using assms(2) by (intro run_order.sort_by_hd_min) simp
  ultimately show ?thesis by (simp add: newer_def)
qed

lemma first_row_newest:
  "first_row (newest_first qs) = Some r \<longleftrightarrow>
   (\<exists>rest q. newest_first qs = q # rest \<and> r = scanRunRow q)"
  by (auto simp: first_row_def split: list.splits)

text \<open>The newest of the rows: what every \<open>ORDER BY started_at DESC, id DESC LIMIT 1\<close> returns.\<close>

definition newest_of :: "run_sql list \<Rightarrow> run_row \<Rightarrow> bool" where
  "newest_of qs r \<longleftrightarrow> (\<exists>q\<in>set qs. r = scanRunRow q \<and> (\<forall>x\<in>set qs. run_key x \<le> run_key q))"

lemma first_row_newest_of: "first_row (newest_first qs) = Some r \<Longrightarrow> newest_of qs r"
  unfolding first_row_newest
proof (elim exE conjE)
  fix rest q
  assume n: "newest_first qs = q # rest" and r: "r = scanRunRow q"
  have "q \<in> set (newest_first qs)" by (simp add: n)
  then show "newest_of qs r" using newest_first_hd [OF n] r by (auto simp: newest_of_def)
qed

lemma first_row_None: "first_row (newest_first qs) = None \<longleftrightarrow> qs = []"
proof -
  have "first_row xs = None \<longleftrightarrow> xs = []" for xs by (cases xs) (auto simp: first_row_def)
  then show ?thesis by (simp add: newest_first_def)
qed

section \<open>Stores as clients see them\<close>

text \<open>Inserting one row after another, stopping at the first error.\<close>

fun insert_all :: "('r \<Rightarrow> 's \<Rightarrow> 'e + 's) \<Rightarrow> 'r list \<Rightarrow> 's \<Rightarrow> 'e + 's" where
  "insert_all ins [] s = Inr s"
| "insert_all ins (r # rs) s = rbind (ins r s) (insert_all ins rs)"

locale row_store =
  fixes ins :: "'r \<Rightarrow> 's \<Rightarrow> 'e + 's"
    and lookup :: "'k \<Rightarrow> 's \<Rightarrow> 'v option"
    and key :: "'r \<Rightarrow> 'k"
    and stored :: "'r \<Rightarrow> 'v"
  assumes keeps: "ins r s = Inr s' \<Longrightarrow> lookup k s = Some v \<Longrightarrow> lookup k s' = Some v"
    and frame: "ins r s = Inr s' \<Longrightarrow> k \<noteq> key r \<Longrightarrow> lookup k s' = lookup k s"
    and stores: "ins r s = Inr s' \<Longrightarrow> lookup (key r) s = None \<Longrightarrow> lookup (key r) s' = Some (stored r)"
begin

lemma insert_all_keeps: "insert_all ins rs s = Inr s' \<Longrightarrow> lookup k s = Some v \<Longrightarrow> lookup k s' = Some v"
  by (induction rs arbitrary: s) (auto simp: go_res intro: keeps)

lemma insert_all_frame: "insert_all ins rs s = Inr s' \<Longrightarrow> k \<notin> key ` set rs \<Longrightarrow> lookup k s' = lookup k s"
  by (induction rs arbitrary: s) (auto simp: go_res frame)

lemma insert_all_first:
  "insert_all ins rs s = Inr s' \<Longrightarrow> lookup k s = None \<Longrightarrow>
   lookup k s' = map_option stored (find (\<lambda>r. key r = k) rs)"
proof (induction rs arbitrary: s)
  case (Cons r rs)
  then obtain t where t: "ins r s = Inr t" "insert_all ins rs t = Inr s'" by (auto simp: go_res)
  show ?case
  proof (cases "key r = k")
    case True
    then have "lookup k t = Some (stored r)" using stores [OF t(1)] Cons.prems(2) by simp
    then show ?thesis using insert_all_keeps [OF t(2)] True by simp
  next
    case False
    then have "lookup k t = None" using frame [OF t(1), of k] Cons.prems(2) by simp
    then show ?thesis using Cons.IH [OF t(2)] False by simp
  qed
qed simp

end

text \<open>A store that refuses a second row under a key, and one where the first row wins.\<close>

locale fresh_store = row_store +
  assumes refuses: "lookup (key r) s = Some v \<Longrightarrow> ins r s \<noteq> Inr s'"
begin

lemma insert_all_distinct: "insert_all ins rs s = Inr s' \<Longrightarrow> distinct (map key rs)"
proof (induction rs arbitrary: s)
  case (Cons r rs)
  then obtain t where t: "ins r s = Inr t" "insert_all ins rs t = Inr s'" by (auto simp: go_res)
  have "lookup (key r) s = None" using refuses t(1) by (cases "lookup (key r) s") auto
  then have st: "lookup (key r) t = Some (stored r)" by (rule stores [OF t(1)])
  have no: "key r \<notin> key ` set rs'" if "insert_all ins rs' u = Inr s''" "lookup (key r) u = Some v" for rs' u s'' v
    using that
  proof (induction rs' arbitrary: u v)
    case (Cons x xs)
    then obtain w where w: "ins x u = Inr w" "insert_all ins xs w = Inr s''" by (auto simp: go_res)
    have "key x \<noteq> key r" using refuses [of x u v w] w(1) Cons.prems(2) by metis
    moreover have "lookup (key r) w = Some v" using keeps [OF w(1)] Cons.prems(2) by simp
    ultimately show ?case using Cons.IH [OF w(2)] by auto
  qed simp
  show ?case using Cons.IH [OF t(2)] no [OF t(2) st] by simp
qed simp

end

locale first_wins_store = row_store +
  assumes idem: "lookup (key r) s = Some v \<Longrightarrow> ins r s = Inr s"
begin

lemma insert_twice: "ins r s = Inr s' \<Longrightarrow> ins r s' = Inr s'"
proof (cases "lookup (key r) s")
  case None
  assume "ins r s = Inr s'"
  then show ?thesis using stores [OF _ None] idem by blast
next
  case (Some v)
  assume "ins r s = Inr s'"
  then show ?thesis using keeps [OF _ Some] idem by blast
qed

end

lemma find_append: "find P (xs @ ys) = (case find P xs of None \<Rightarrow> find P ys | Some x \<Rightarrow> Some x)"
  by (induction xs) auto

lemma GetRun_None: "GetRun i s = None \<longleftrightarrow> (\<forall>x\<in>set (db_runs s). rq_id x \<noteq> i)"
  by (auto simp: GetRun_def find_None_iff)

lemma InsertRun_Inr:
  assumes "InsertRun now r s = Inr s'"
  shows "s' = s\<lparr>db_runs := db_runs s @ [run_params now r]\<rparr>" "GetRun (rr_id r) s = None"
  using assms unfolding InsertRun_def Let_def GetRun_None by (simp_all split: if_split_asm)

lemma InsertRun_dup: "GetRun (rr_id r) s \<noteq> None \<Longrightarrow> InsertRun now r s = Inl (Unique ''runs'')"
  unfolding GetRun_None by (simp add: InsertRun_def Let_def)

lemma GetRun_append:
  "GetRun k (s\<lparr>db_runs := db_runs s @ [run_params now r]\<rparr>) =
   (case GetRun k s of Some v \<Rightarrow> Some v
    | None \<Rightarrow> if rr_id r = k then Some (r\<lparr>rr_started := rfc3339UTC now (rr_started r)\<rparr>) else None)"
  by (simp add: GetRun_def find_append scan_params split: option.split)

interpretation run_store: fresh_store "InsertRun now" GetRun rr_id "\<lambda>r. r\<lparr>rr_started := rfc3339UTC now (rr_started r)\<rparr>"
  for now
proof
  fix r s s' k v
  assume i: "InsertRun now r s = Inr s'"
  note s' = InsertRun_Inr [OF i]
  show "GetRun k s = Some v \<Longrightarrow> GetRun k s' = Some v" by (simp add: s'(1) GetRun_append)
  show "k \<noteq> rr_id r \<Longrightarrow> GetRun k s' = GetRun k s" by (simp add: s'(1) GetRun_append split: option.split)
  show "GetRun (rr_id r) s' = Some (r\<lparr>rr_started := rfc3339UTC now (rr_started r)\<rparr>)"
    by (simp add: s'(1) GetRun_append s'(2))
qed (simp add: InsertRun_dup)

lemma GetExperiment_append:
  "GetExperiment k (s\<lparr>db_experiments := db_experiments s @ [x]\<rparr>) =
   (case GetExperiment k s of Some v \<Rightarrow> Some v | None \<Rightarrow> if ex_id x = k then Some x else None)"
  by (simp add: GetExperiment_def find_append split: option.split)

lemma GetExperiment_None: "GetExperiment i s = None \<longleftrightarrow> (\<forall>x\<in>set (db_experiments s). ex_id x \<noteq> i)"
  by (auto simp: GetExperiment_def find_None_iff)

lemma InsertExperiment_cases:
  "InsertExperiment now r s =
     (if GetExperiment (ex_id r) s \<noteq> None then Inr s
      else Inr (s\<lparr>db_experiments := db_experiments s @ [r\<lparr>ex_created := rfc3339UTC now (ex_created r)\<rparr>]\<rparr>))"
  unfolding InsertExperiment_def GetExperiment_None by simp

interpretation experiment_store: first_wins_store "InsertExperiment now" GetExperiment ex_id
    "\<lambda>r. r\<lparr>ex_created := rfc3339UTC now (ex_created r)\<rparr>"
  for now
  by unfold_locales
    (auto simp: InsertExperiment_cases GetExperiment_append split: if_split_asm option.split)

section \<open>Referential integrity\<close>

definition db_keys :: "db \<Rightarrow> bool" where
  "db_keys s \<longleftrightarrow>
     distinct (map pr_id (db_profiles s)) \<and> distinct (map pr_hash (db_profiles s)) \<and>
     distinct (map su_id (db_suites s)) \<and> distinct (map ex_id (db_experiments s)) \<and>
     distinct (map am_id (db_arms s)) \<and> distinct (map (\<lambda>a. (am_experiment a, am_label a)) (db_arms s)) \<and>
     distinct (map rq_id (db_runs s)) \<and>
     distinct (map (\<lambda>t. (ta_suite t, ta_task t, ta_version t)) (db_tasks s)) \<and>
     distinct (map (\<lambda>q. (mq_run q, mq_name q)) (db_metrics s)) \<and>
     distinct (map (\<lambda>q. (vq_run q, vq_seq q)) (db_validations s)) \<and>
     distinct (map (\<lambda>x. (fst x, co_kind (snd x), co_name (snd x))) (db_components s))"

definition refers :: "'a option set \<Rightarrow> 'a set \<Rightarrow> bool" where
  "refers A B \<longleftrightarrow> A \<subseteq> insert None (Some ` B)"

lemma refers_insert: "refers (insert a A) B \<longleftrightarrow> (case a of None \<Rightarrow> True | Some x \<Rightarrow> x \<in> B) \<and> refers A B"
  by (auto simp: refers_def split: option.split)

lemma refers_subset: "refers A B \<Longrightarrow> B \<subseteq> C \<Longrightarrow> refers A C"
  by (auto simp: refers_def)

lemma refers_mono: "refers A B \<Longrightarrow> refers A (insert b B)"
  by (auto simp: refers_def)

definition db_refs :: "db \<Rightarrow> bool" where
  "db_refs s \<longleftrightarrow>
     ta_suite ` set (db_tasks s) \<subseteq> su_id ` set (db_suites s) \<and>
     fst ` set (db_components s) \<subseteq> pr_id ` set (db_profiles s) \<and>
     am_experiment ` set (db_arms s) \<subseteq> ex_id ` set (db_experiments s) \<and>
     refers (am_profile ` set (db_arms s)) (pr_id ` set (db_profiles s)) \<and>
     rq_profile ` set (db_runs s) \<subseteq> pr_id ` set (db_profiles s) \<and>
     refers (rq_experiment ` set (db_runs s)) (ex_id ` set (db_experiments s)) \<and>
     refers (rq_arm ` set (db_runs s)) (am_id ` set (db_arms s)) \<and>
     refers (rq_suite ` set (db_runs s)) (su_id ` set (db_suites s)) \<and>
     mq_run ` set (db_metrics s) \<subseteq> rq_id ` set (db_runs s) \<and>
     vq_run ` set (db_validations s) \<subseteq> rq_id ` set (db_runs s) \<and>
     cq_from ` set (db_changes s) \<union> cq_to ` set (db_changes s) \<subseteq> pr_id ` set (db_profiles s)"

text \<open>The writes of the package, one step each.\<close>

inductive db_step :: "db \<Rightarrow> db \<Rightarrow> bool" where
  write_experiment: "InsertExperiment now x s = Inr s' \<Longrightarrow> db_step s s'"
| write_arm: "InsertExperimentArm now a s = Inr s' \<Longrightarrow> db_step s s'"
| write_suite: "InsertSuite now u s = Inr s' \<Longrightarrow> db_step s s'"
| write_task: "InsertTask t s = Inr s' \<Longrightarrow> db_step s s'"
| write_run: "InsertRun now r s = Inr s' \<Longrightarrow> db_step s s'"
| write_metrics: "InsertRunMetrics i ms s = Inr s' \<Longrightarrow> db_step s s'"
| write_validations: "InsertRunValidations i vs s = Inr s' \<Longrightarrow> db_step s s'"
| write_profile: "InsertProfile now p cs s = Inr s' \<Longrightarrow> db_step s s'"
| write_changes: "InsertProfileChanges now f t cs s = Inr s' \<Longrightarrow> db_step s s'"

inductive_cases db_stepE: "db_step s s'"

lemma upsert_keys:
  assumes "\<And>r. hit r \<longleftrightarrow> k r = k new" "\<And>r. hit r \<Longrightarrow> k (upd r) = k new"
  shows "map k (upsert hit upd new rs) = (if k new \<in> k ` set rs then map k rs else map k rs @ [k new])"
  using assms by (induction rs) auto

definition add_key :: "'a \<Rightarrow> 'a list \<Rightarrow> 'a list" where
  "add_key x ks = (if x \<in> set ks then ks else ks @ [x])"

lemma add_key_simps [simp]:
  "set (add_key x ks) = insert x (set ks)" "distinct (add_key x ks) \<longleftrightarrow> distinct ks"
  by (auto simp: add_key_def)

lemma upsert_metric_keys:
  "map (\<lambda>q. (mq_run q, mq_name q)) (upsert_metric run m qs)
   = add_key (run, fst m) (map (\<lambda>q. (mq_run q, mq_name q)) qs)"
  unfolding upsert_metric_def by (subst upsert_keys) (auto simp: add_key_def)

lemma upsert_validation_keys:
  "map (\<lambda>q. (vq_run q, vq_seq q)) (upsert_validation run v qs)
   = add_key (run, va_seq v) (map (\<lambda>q. (vq_run q, vq_seq q)) qs)"
  unfolding upsert_validation_def by (subst upsert_keys) (auto simp: add_key_def validation_params_def)

lemma insert_component_keys:
  "map (\<lambda>x. (fst x, co_kind (snd x), co_name (snd x))) (insert_component p c cs)
   = add_key (p, co_kind c, co_name c) (map (\<lambda>x. (fst x, co_kind (snd x), co_name (snd x))) cs)"
proof -
  have "(\<exists>x\<in>set cs. fst x = p \<and> co_kind (snd x) = co_kind c \<and> co_name (snd x) = co_name c)
    \<longleftrightarrow> (p, co_kind c, co_name c) \<in> set (map (\<lambda>x. (fst x, co_kind (snd x), co_name (snd x))) cs)"
    by force
  then show ?thesis unfolding insert_component_def add_key_def by simp
qed

lemma fold_keys:
  assumes "\<And>x qs. map k (f x qs) = add_key (g x) (map k qs)" "distinct (map k qs)"
  shows "distinct (map k (fold f xs qs))" "set (map k (fold f xs qs)) = set (map k qs) \<union> g ` set xs"
proof -
  have m: "map k (fold f xs qs) = fold (\<lambda>x. add_key (g x)) xs (map k qs)" for qs
    by (induction xs arbitrary: qs) (simp_all only: fold_simps o_apply assms(1) id_apply fold.simps)
  have "set (fold (\<lambda>x. add_key (g x)) xs ks) = set ks \<union> g ` set xs" for ks
    by (induction xs arbitrary: ks) auto
  then show "set (map k (fold f xs qs)) = set (map k qs) \<union> g ` set xs" by (simp only: m)
  have "distinct ks \<Longrightarrow> distinct (fold (\<lambda>x. add_key (g x)) xs ks)" for ks
    by (induction xs arbitrary: ks) auto
  then show "distinct (map k (fold f xs qs))" using assms(2) by (simp only: m)
qed

lemma run_sub:
  "mq_run ` set ms \<subseteq> R \<longleftrightarrow> fst ` (\<lambda>q. (mq_run q, mq_name q)) ` set ms \<subseteq> R"
  "vq_run ` set vs \<subseteq> R \<longleftrightarrow> fst ` (\<lambda>q. (vq_run q, vq_seq q)) ` set vs \<subseteq> R"
  "fst ` set cs \<subseteq> R \<longleftrightarrow> fst ` (\<lambda>x. (fst x, co_kind (snd x), co_name (snd x))) ` set cs \<subseteq> R"
  by (auto simp: image_image)

lemma fold_image:
  assumes "\<And>c qs. h ` set (g c qs) = insert a (h ` set qs)"
  shows "h ` set (fold g cs qs) \<subseteq> insert a (h ` set qs)"
proof (induction cs arbitrary: qs)
  case (Cons c cs)
  from Cons [of "g c qs"] show ?case by (simp add: assms)
qed auto

lemma not_in_map: "x \<notin> f ` set xs \<longleftrightarrow> (\<forall>y\<in>set xs. f y \<noteq> x)"
  by auto

lemmas db_ok_defs = db_keys_def db_refs_def refers_insert not_in_map

lemma db_step_ok:
  assumes "db_step s s'" "db_keys s" "db_refs s"
  shows "db_keys s' \<and> db_refs s'"
  using assms
proof (induction rule: db_step.induct)
  case (write_experiment now x s s')
  show ?case
  proof (cases "s' = s")
    case False
    then have "s' = s\<lparr>db_experiments := db_experiments s @ [x\<lparr>ex_created := rfc3339UTC now (ex_created x)\<rparr>]\<rparr>"
      "\<forall>y\<in>set (db_experiments s). ex_id y \<noteq> ex_id x"
      using write_experiment by (auto simp: InsertExperiment_def split: if_split_asm)
    then show ?thesis using write_experiment(2,3)
      by (simp add: db_ok_defs subset_insertI2 refers_mono)
  qed (use write_experiment in simp)
next
  case (write_arm now a s s')
  then have "s' = s\<lparr>db_arms := db_arms s @ [a\<lparr>am_created := rfc3339UTC now (am_created a)\<rparr>]\<rparr>"
    "\<forall>y\<in>set (db_arms s). am_id y \<noteq> am_id a"
    "\<forall>y\<in>set (db_arms s). (am_experiment y, am_label y) \<noteq> (am_experiment a, am_label a)"
    "am_experiment a \<in> ex_id ` set (db_experiments s)"
    "case am_profile a of None \<Rightarrow> True | Some p \<Rightarrow> p \<in> pr_id ` set (db_profiles s)"
    by (auto simp: InsertExperimentArm_def intro: rev_image_eqI split: if_split_asm option.split)
  then show ?case using write_arm(2,3) by (simp add: db_ok_defs subset_insertI2 refers_mono)
next
  case (write_suite now u s s')
  show ?case
  proof (cases "s' = s")
    case False
    then have "s' = s\<lparr>db_suites := db_suites s @ [u\<lparr>su_created := rfc3339UTC now (su_created u)\<rparr>]\<rparr>"
      "\<forall>y\<in>set (db_suites s). su_id y \<noteq> su_id u"
      using write_suite by (auto simp: InsertSuite_def split: if_split_asm)
    then show ?thesis using write_suite(2,3) by (simp add: db_ok_defs subset_insertI2 refers_mono)
  qed (use write_suite in simp)
next
  case (write_task t s s')
  show ?case
  proof (cases "s' = s")
    case False
    then have "s' = s\<lparr>db_tasks := db_tasks s @ [t]\<rparr>" "ta_suite t \<in> su_id ` set (db_suites s)"
      "\<forall>y\<in>set (db_tasks s). (ta_suite y, ta_task y, ta_version y) \<noteq> (ta_suite t, ta_task t, ta_version t)"
      using write_task by (auto simp: InsertTask_def intro: rev_image_eqI split: if_split_asm)
    then show ?thesis using write_task(2,3) by (simp add: db_ok_defs)
  qed (use write_task in simp)
next
  case (write_run now r s s')
  let ?q = "run_params now r"
  from write_run have "s' = s\<lparr>db_runs := db_runs s @ [?q]\<rparr>" "\<forall>y\<in>set (db_runs s). rq_id y \<noteq> rq_id ?q"
    "rq_profile ?q \<in> pr_id ` set (db_profiles s)"
    "case rq_experiment ?q of None \<Rightarrow> True | Some p \<Rightarrow> p \<in> ex_id ` set (db_experiments s)"
    "case rq_arm ?q of None \<Rightarrow> True | Some p \<Rightarrow> p \<in> am_id ` set (db_arms s)"
    "case rq_suite ?q of None \<Rightarrow> True | Some p \<Rightarrow> p \<in> su_id ` set (db_suites s)"
    by (auto simp: InsertRun_def Let_def simp del: params_id intro: rev_image_eqI split: if_split_asm option.split)
  then show ?case using write_run(2,3) by (simp add: db_ok_defs subset_insertI2 del: params_id)
next
  case (write_metrics i ms s s')
  show ?case
  proof (cases "s' = s")
    case False
    let ?k = "\<lambda>q. (mq_run q, mq_name q)" and ?new = "fold (upsert_metric i) ms (db_metrics s)"
    have s': "s' = s\<lparr>db_metrics := ?new\<rparr>" "i \<in> rq_id ` set (db_runs s)"
      using write_metrics(1) False by (auto simp: InsertRunMetrics_def split: if_split_asm)
    have d: "distinct (map ?k (db_metrics s))" using write_metrics(2) by (simp add: db_keys_def)
    note k = fold_keys [of ?k "upsert_metric i" "\<lambda>m. (i, fst m)" "db_metrics s" ms, OF upsert_metric_keys d]
    have "mq_run ` set ?new = fst ` set (map ?k ?new)" by (simp add: image_image)
    also have "\<dots> \<subseteq> rq_id ` set (db_runs s)"
      unfolding k(2) using write_metrics(3) s'(2) by (auto simp: db_refs_def)
    finally show ?thesis using write_metrics(2,3) k(1) by (simp add: s' db_ok_defs)
  qed (use write_metrics in simp)
next
  case (write_validations i vs s s')
  show ?case
  proof (cases "s' = s")
    case False
    let ?k = "\<lambda>q. (vq_run q, vq_seq q)" and ?new = "fold (upsert_validation i) vs (db_validations s)"
    have s': "s' = s\<lparr>db_validations := ?new\<rparr>" "i \<in> rq_id ` set (db_runs s)"
      using write_validations(1) False by (auto simp: InsertRunValidations_def split: if_split_asm)
    have d: "distinct (map ?k (db_validations s))" using write_validations(2) by (simp add: db_keys_def)
    note k = fold_keys [of ?k "upsert_validation i" "\<lambda>v. (i, va_seq v)" "db_validations s" vs, OF upsert_validation_keys d]
    have "vq_run ` set ?new = fst ` set (map ?k ?new)" by (simp add: image_image)
    also have "\<dots> \<subseteq> rq_id ` set (db_runs s)"
      unfolding k(2) using write_validations(3) s'(2) by (auto simp: db_refs_def)
    finally show ?thesis using write_validations(2,3) k(1) by (simp add: s' db_ok_defs)
  qed (use write_validations in simp)
next
  case (write_profile now p cs s s')
  let ?k = "\<lambda>x. (fst x, co_kind (snd x), co_name (snd x))"
    and ?new = "fold (insert_component (pr_id p)) cs (db_components s)"
    and ?ps = "if \<exists>x\<in>set (db_profiles s). pr_id x = pr_id p \<or> pr_hash x = pr_hash p then db_profiles s
      else db_profiles s @ [p\<lparr>pr_created := rfc3339UTC now (pr_created p)\<rparr>]"
  have ex: "(\<exists>x\<in>set xs. pr_id x = pr_id p) \<longleftrightarrow> pr_id p \<in> pr_id ` set xs" for xs by (auto intro: rev_image_eqI)
  have same: "s\<lparr>db_profiles := db_profiles s\<rparr> = s" by simp
  have "Inr s' = (let t = s\<lparr>db_profiles := ?ps\<rparr>
      in if \<exists>x\<in>set (db_profiles t). pr_id x = pr_id p
         then Inr (t\<lparr>db_components := fold (insert_component (pr_id p)) cs (db_components t)\<rparr>) else (Inr t :: db db_result))"
    using write_profile(1) unfolding InsertProfile_def Let_def by (simp only: if_distrib [of "\<lambda>q. s\<lparr>db_profiles := q\<rparr>"] same)
  then have s': "s' = s\<lparr>db_profiles := ?ps\<rparr> \<or>
      s' = s\<lparr>db_profiles := ?ps, db_components := ?new\<rparr> \<and> pr_id p \<in> pr_id ` set ?ps"
    unfolding Let_def ex by (simp split del: if_split) (simp split: if_split_asm)
  have ps: "distinct (map pr_id ?ps)" "distinct (map pr_hash ?ps)" "pr_id ` set (db_profiles s) \<subseteq> pr_id ` set ?ps"
    using write_profile(2) by (simp_all add: db_keys_def) auto
  have d: "distinct (map ?k (db_components s))" using write_profile(2) by (simp add: db_keys_def)
  note k = fold_keys [of ?k "insert_component (pr_id p)" "\<lambda>c. (pr_id p, co_kind c, co_name c)" "db_components s" cs,
      OF insert_component_keys d]
  have "fst ` set ?new = fst ` set (map ?k ?new)" by (simp add: image_image)
  also have "\<dots> \<subseteq> insert (pr_id p) (fst ` set (db_components s))" unfolding k(2) by (force simp: image_image)
  finally have new: "fst ` set ?new \<subseteq> insert (pr_id p) (fst ` set (db_components s))" .
  have refs: "A \<subseteq> pr_id ` set ?ps" if "A \<subseteq> pr_id ` set (db_profiles s)" for A using that ps(3) by (rule subset_trans)
  have orefs: "refers A (pr_id ` set ?ps)" if "refers A (pr_id ` set (db_profiles s))" for A
    using that ps(3) by (rule refers_subset)
  obtain ps' where e: "?ps = ps'" by blast
  note s' = s' [unfolded e] and ps = ps [unfolded e] and refs = refs [unfolded e] and orefs = orefs [unfolded e]
  from s' show ?case
  proof
    assume "s' = s\<lparr>db_profiles := ps'\<rparr>"
    then show ?thesis using write_profile(2,3) ps refs orefs by (simp add: db_keys_def db_refs_def)
  next
    assume a: "s' = s\<lparr>db_profiles := ps', db_components := ?new\<rparr> \<and> pr_id p \<in> pr_id ` set ps'"
    have "fst ` set ?new \<subseteq> pr_id ` set ps'"
    proof (rule subset_trans [OF new])
      have "fst ` set (db_components s) \<subseteq> pr_id ` set ps'" using write_profile(3) by (intro refs) (simp add: db_refs_def)
      then show "insert (pr_id p) (fst ` set (db_components s)) \<subseteq> pr_id ` set ps'" using a by blast
    qed
    then show ?thesis using a write_profile(2,3) ps refs orefs k(1) by (simp add: db_keys_def db_refs_def)
  qed
next
  case (write_changes now f t cs s s')
  let ?g = "\<lambda>c cs. cs @ [\<lparr>cq_id = Suc (length cs), cq_from = f, cq_to = t,
             cq_change = c\<lparr>ch_detected := rfc3339UTC now (ch_detected c)\<rparr>\<rparr>]"
  have sub: "cq_from ` set (fold ?g cs qs) \<subseteq> insert f (cq_from ` set qs)"
    "cq_to ` set (fold ?g cs qs) \<subseteq> insert t (cq_to ` set qs)" for qs
    by (rule fold_image, simp)+
  show ?case
  proof (cases "s' = s")
    case False
    then have "s' = s\<lparr>db_changes := fold ?g cs (db_changes s)\<rparr>" "{f, t} \<subseteq> pr_id ` set (db_profiles s)"
      using write_changes(1) by (auto simp: InsertProfileChanges_def intro: rev_image_eqI split: if_split_asm)
    moreover have old: "cq_from ` set (db_changes s) \<subseteq> pr_id ` set (db_profiles s)"
      "cq_to ` set (db_changes s) \<subseteq> pr_id ` set (db_profiles s)"
      using write_changes(3) by (simp_all add: db_refs_def)
    have "cq_from ` set (fold ?g cs (db_changes s)) \<subseteq> pr_id ` set (db_profiles s)"
      by (rule subset_trans [OF sub(1)]) (use calculation(2) old in simp)
    moreover have "cq_to ` set (fold ?g cs (db_changes s)) \<subseteq> pr_id ` set (db_profiles s)"
      by (rule subset_trans [OF sub(2)]) (use calculation(2) old in simp)
    ultimately show ?thesis using write_changes(2,3) by (simp add: db_keys_def db_refs_def)
  qed (use write_changes in simp)
qed

lemma db_reachable_ok: "db_step\<^sup>*\<^sup>* empty_db s \<Longrightarrow> db_keys s \<and> db_refs s"
proof (induction rule: rtranclp_induct)
  case base
  show ?case by (simp add: empty_db_def db_keys_def db_refs_def refers_def)
next
  case (step y z)
  then show ?case using db_step_ok by blast
qed

section \<open>Metrics\<close>

definition metric :: "string \<Rightarrow> string \<Rightarrow> metric_sql list \<Rightarrow> real option" where
  "metric run n qs = (case find (\<lambda>q. mq_run q = run \<and> mq_name q = n) qs of None \<Rightarrow> None | Some q \<Rightarrow> mq_num q)"

lemma metric_upsert:
  "metric run n (upsert_metric run' m qs) = (if run' = run \<and> fst m = n then Some (snd m) else metric run n qs)"
  unfolding upsert_metric_def metric_def by (induction qs) auto

lemma metric_fold:
  "map_wf ms \<Longrightarrow> metric run n (fold (upsert_metric run') ms qs) =
     (if run' = run then (case map_of ms n of Some v \<Rightarrow> Some v | None \<Rightarrow> metric run n qs) else metric run n qs)"
proof (induction ms arbitrary: qs)
  case (Cons m ms)
  have "map_of ms (fst m) = None" using Cons.prems by (auto simp: map_wf_def map_of_eq_None_iff)
  then show ?case using Cons by (cases m) (auto simp: map_wf_def metric_upsert split: option.split)
qed simp

section \<open>Migrations\<close>

lemma fold_max_snoc: "fold max (xs @ [y]) x = max y (fold max xs (x :: int))"
  by simp

lemma SchemaVersion_snoc: "SchemaVersion (vs @ [v], x) = (if vs = [] then v else max v (SchemaVersion (vs, x)))"
  by (cases vs) (auto simp: SchemaVersion_def)

lemma SchemaVersion_fst: "SchemaVersion (vs, x) = SchemaVersion (vs, y)"
  by (simp add: SchemaVersion_def)

lemma run_migrations_done:
  "run_migrations exec ms cur d = ((None, v), d') \<Longrightarrow> cur = SchemaVersion d \<Longrightarrow> 0 \<le> cur \<Longrightarrow>
   cur \<le> v \<and> v = SchemaVersion d' \<and> (sorted (map mg_version ms) \<longrightarrow> (\<forall>m\<in>set ms. mg_version m \<le> v))"
proof (induction ms arbitrary: cur d)
  case (Cons m ms)
  show ?case
  proof (cases "mg_version m \<le> cur")
    case True
    then have "run_migrations exec ms cur d = ((None, v), d')" using Cons.prems(1) by simp
    from Cons.IH [OF this Cons.prems(2,3)] True show ?thesis by auto
  next
    case False
    then obtain x where x: "exec (mg_sql m) (snd d) = Some x"
      and r: "run_migrations exec ms (mg_version m) (fst d @ [mg_version m], x) = ((None, v), d')"
      using Cons.prems(1) by (auto split: option.splits)
    have "SchemaVersion (fst d @ [mg_version m], x) = mg_version m"
      using False Cons.prems(2) SchemaVersion_fst [of "fst d" x "snd d"] by (auto simp: SchemaVersion_snoc)
    from Cons.IH [OF r this [symmetric]] False Cons.prems(3) show ?thesis by auto
  qed
qed simp

lemma run_migrations_nothing:
  "\<forall>m\<in>set ms. mg_version m \<le> cur \<Longrightarrow> run_migrations exec ms cur d = ((None, cur), d)"
  by (induction ms) auto

lemma loadMigrations_sorted: "loadMigrations es = Inr ms \<Longrightarrow> sorted (map mg_version ms)"
  by (auto simp: loadMigrations_def go_res sort_by_key)

section \<open>Properties\<close>

text \<open>C26: whatever the package writes, in any order and with any arguments, every reachable database has
  unique keys and no dangling reference.\<close>

theorem store_integrity:
  assumes "db_step\<^sup>*\<^sup>* empty_db s"
  shows "db_keys s \<and> db_refs s"
  using assms by (rule db_reachable_ok)

theorem store_integrity_witness:
  "db_keys (empty_db\<lparr>db_experiments := [\<lparr>ex_id = ''e'', ex_name = [], ex_spec = [], ex_created = ''t''\<rparr>]\<rparr>) \<and>
   db_refs (empty_db\<lparr>db_experiments := [\<lparr>ex_id = ''e'', ex_name = [], ex_spec = [], ex_created = ''t''\<rparr>]\<rparr>)"
proof (rule store_integrity)
  have "db_step empty_db (empty_db\<lparr>db_experiments := [\<lparr>ex_id = ''e'', ex_name = [], ex_spec = [], ex_created = ''t''\<rparr>]\<rparr>)"
    by (rule write_experiment [where now = "''t''" and x = "\<lparr>ex_id = ''e'', ex_name = [], ex_spec = [], ex_created = []\<rparr>"])
      (simp add: InsertExperiment_def empty_db_def rfc3339UTC_def)
  then show "db_step\<^sup>*\<^sup>* empty_db (empty_db\<lparr>db_experiments := [\<lparr>ex_id = ''e'', ex_name = [], ex_spec = [], ex_created = ''t''\<rparr>]\<rparr>)"
    by blast
qed

text \<open>After a list of runs is inserted, each of them reads back as it was given (with the start time
  defaulted), no id was used twice, and every other run reads as before.\<close>

theorem InsertRun_readback:
  assumes "insert_all (InsertRun now) rs s = Inr s'" "r \<in> set rs"
  shows "GetRun (rr_id r) s' = Some (r\<lparr>rr_started := rfc3339UTC now (rr_started r)\<rparr>) \<and>
    distinct (map rr_id rs) \<and> (\<forall>k. k \<notin> rr_id ` set rs \<longrightarrow> GetRun k s' = GetRun k s)"
proof (intro conjI allI impI)
  show d: "distinct (map rr_id rs)" by (rule run_store.insert_all_distinct [OF assms(1)])
  show "GetRun k s' = GetRun k s" if "k \<notin> rr_id ` set rs" for k
    by (rule run_store.insert_all_frame [OF assms(1) that])
  have none: "GetRun (rr_id r) s = None"
  proof (cases "GetRun (rr_id r) s")
    case (Some v)
    have "insert_all (InsertRun now) xs t \<noteq> Inr s'" if "r \<in> set xs" "GetRun (rr_id r) t = Some v" for xs t
      using that
    proof (induction xs arbitrary: t)
      case (Cons x xs)
      show ?case
      proof (cases "x = r")
        case True
        then show ?thesis using InsertRun_dup [of x t now] Cons.prems(2) by simp
      next
        case False
        show ?thesis
        proof
          assume "insert_all (InsertRun now) (x # xs) t = Inr s'"
          then obtain u where "InsertRun now x t = Inr u" "insert_all (InsertRun now) xs u = Inr s'" by (auto simp: go_res)
          then show False using Cons.IH [of u] Cons.prems False run_store.keeps by auto
        qed
      qed
    qed simp
    then show ?thesis using assms Some by blast
  qed simp
  have "find (\<lambda>x. rr_id x = rr_id r) xs = Some r" if "distinct (map rr_id xs)" "r \<in> set xs" for xs
    using that by (induction xs) force+
  then show "GetRun (rr_id r) s' = Some (r\<lparr>rr_started := rfc3339UTC now (rr_started r)\<rparr>)"
    using run_store.insert_all_first [OF assms(1) none] d assms(2) by simp
qed

definition sample_db :: db where
  "sample_db = empty_db\<lparr>db_profiles := [\<lparr>pr_id = ''p'', pr_hash = ''h'', pr_opencode = [], pr_ocbench = [],
     pr_json = [], pr_created = ''0''\<rparr>]\<rparr>"

theorem InsertRun_readback_witness:
  "\<exists>s. insert_all (InsertRun ''now'') [zero_run\<lparr>rr_id := ''a'', rr_profile := ''p''\<rparr>] sample_db = Inr s \<and>
     GetRun ''a'' s = Some (zero_run\<lparr>rr_id := ''a'', rr_profile := ''p'', rr_started := ''now''\<rparr>)"
proof -
  let ?r = "zero_run\<lparr>rr_id := ''a'', rr_profile := ''p''\<rparr>"
  obtain s where s: "insert_all (InsertRun ''now'') [?r] sample_db = Inr s"
    by (simp add: InsertRun_def sample_db_def empty_db_def run_params_def zero_run_def nullString_def Let_def)
  from InsertRun_readback [OF s, of ?r] s show ?thesis by (simp add: rfc3339UTC_def zero_run_def)
qed

text \<open>The latest run is the newest one that is not a dry run, by start time and then id, and there is
  none exactly when every run is dry.\<close>

theorem LatestRun_newest:
  "(case LatestRun s of
      Some r \<Rightarrow> newest_of (filter (\<lambda>q. rq_dry q = 0) (db_runs s)) r
    | None \<Rightarrow> filter (\<lambda>q. rq_dry q = 0) (db_runs s) = [])"
  using first_row_newest_of [of "filter (\<lambda>q. rq_dry q = 0) (db_runs s)"]
    first_row_None [of "filter (\<lambda>q. rq_dry q = 0) (db_runs s)"]
  unfolding LatestRun_def by (simp split: option.split)

definition compatible_before :: "run_row \<Rightarrow> run_sql \<Rightarrow> bool" where
  "compatible_before a q \<longleftrightarrow>
     \<not> rr_dry (scanRunRow q) \<and> rr_suite_name (scanRunRow q) = rr_suite_name a \<and>
     rr_suite_version (scanRunRow q) = rr_suite_version a \<and> rr_suite_hash (scanRunRow q) = rr_suite_hash a \<and>
     rr_task (scanRunRow q) = rr_task a \<and> rr_task_version (scanRunRow q) = rr_task_version a \<and>
     rr_fixture (scanRunRow q) = rr_fixture a \<and>
     (rr_started (scanRunRow q), rr_id (scanRunRow q)) < (rr_started a, rr_id a)"

text \<open>The run a comparison falls back to has the anchor's suite (content included), task and fixture,
  is not a dry run, started strictly before it (or at the same second with a smaller id), and none
  of the other such runs is newer.\<close>

theorem PreviousCompatibleRun_newest:
  assumes "PreviousCompatibleRun a s = Some r"
  shows "\<exists>q\<in>set (db_runs s). r = scanRunRow q \<and> compatible_before a q \<and>
    (\<forall>x\<in>set (db_runs s). compatible_before a x \<longrightarrow> run_key x \<le> run_key q)"
proof -
  have eq: "compatible_before a q \<longleftrightarrow> rq_dry q = 0 \<and> rq_suite_name q = rr_suite_name a \<and>
      rq_suite_version q = rr_suite_version a \<and> rq_suite_hash q = rr_suite_hash a \<and> rq_task q = rr_task a \<and>
      rq_task_version q = rr_task_version a \<and> rq_fixture q = rr_fixture a \<and>
      run_key q < (rr_started a, rr_id a)" for q
    by (simp add: compatible_before_def scanRunRow_def run_key_def)
  have "newest_of (filter (compatible_before a) (db_runs s)) r"
    using assms unfolding PreviousCompatibleRun_def eq [symmetric] by (rule first_row_newest_of)
  then show ?thesis by (auto simp: newest_of_def)
qed

theorem PreviousCompatibleRun_newest_witness:
  "\<exists>q\<in>set (map (run_params []) [zero_run\<lparr>rr_id := ''a'', rr_started := ''1''\<rparr>, zero_run\<lparr>rr_id := ''b'', rr_started := ''2''\<rparr>]).
     rq_id q = ''a'' \<and> compatible_before (zero_run\<lparr>rr_id := ''b'', rr_started := ''2''\<rparr>) q"
proof -
  let ?a = "zero_run\<lparr>rr_id := ''a'', rr_started := ''1''\<rparr>" and ?b = "zero_run\<lparr>rr_id := ''b'', rr_started := ''2''\<rparr>"
  let ?s = "empty_db\<lparr>db_runs := map (run_params []) [?a, ?b]\<rparr>"
  have "PreviousCompatibleRun ?b ?s = Some ?a"
    by (simp add: PreviousCompatibleRun_def run_params_def zero_run_def rfc3339UTC_def run_key_def newest_first_def
        first_row_def scanRunRow_def empty_db_def)
  from PreviousCompatibleRun_newest [OF this] show ?thesis
    by (auto simp: run_params_def scanRunRow_def zero_run_def rfc3339UTC_def)
qed

text \<open>Inserting metrics sets exactly the named metrics of that run, and leaves its others and those of
  every other run.\<close>

theorem InsertRunMetrics_values:
  assumes "map_wf ms" "InsertRunMetrics run ms s = Inr s'"
  shows "metric run' n (db_metrics s') =
    (if run' = run \<and> n \<in> fst ` set ms then map_of ms n else metric run' n (db_metrics s))"
proof -
  have "db_metrics s' = fold (upsert_metric run) ms (db_metrics s)"
    using assms(2) by (auto simp: InsertRunMetrics_def split: if_split_asm)
  moreover have "n \<in> fst ` set ms \<longleftrightarrow> map_of ms n \<noteq> None" by (simp add: map_of_eq_None_iff)
  ultimately show ?thesis using metric_fold [OF assms(1), of run' n run "db_metrics s"]
    by (auto split: option.split)
qed

theorem InsertRunMetrics_values_witness:
  "\<exists>s. InsertRunMetrics ''a'' [(''score'', 1)] (empty_db\<lparr>db_runs := [run_params [] (zero_run\<lparr>rr_id := ''a''\<rparr>)]\<rparr>) = Inr s \<and>
     metric ''a'' ''score'' (db_metrics s) = Some 1"
proof -
  let ?s = "empty_db\<lparr>db_runs := [run_params [] (zero_run\<lparr>rr_id := ''a''\<rparr>)]\<rparr>"
  obtain s where s: "InsertRunMetrics ''a'' [(''score'', 1)] ?s = Inr s" by (simp add: InsertRunMetrics_def)
  from InsertRunMetrics_values [OF _ s, of "''a''" "''score''"] s show ?thesis by (simp add: map_wf_def)
qed

text \<open>A migration that succeeds leaves the schema at the version it returns, at least that of every
  embedded migration, and migrating again runs nothing.\<close>

theorem Migrate_idempotent:
  assumes "Migrate exec es d = ((None, v), d')" "0 \<le> SchemaVersion d"
  shows "v = SchemaVersion d' \<and> SchemaVersion d \<le> v \<and> Migrate exec es d' = ((None, v), d')"
proof -
  obtain ms where ms: "loadMigrations es = Inr ms" "run_migrations exec ms (SchemaVersion d) d = ((None, v), d')"
    using assms(1) by (auto simp: Migrate_def split: sum.splits)
  note fin = run_migrations_done [OF ms(2) refl assms(2)]
  then have "\<forall>m\<in>set ms. mg_version m \<le> v" using loadMigrations_sorted [OF ms(1)] by blast
  then show ?thesis using fin ms(1) run_migrations_nothing [of ms v exec d'] by (simp add: Migrate_def)
qed

theorem Migrate_idempotent_witness:
  "Migrate (\<lambda>sql d. Some d) [(''1_a.sql'', False, ''x'')] ([1], ()) = ((None, 1), ([1], ()))"
proof -
  have "Migrate (\<lambda>sql d. Some d) [(''1_a.sql'', False, ''x'')] ([], ()) = ((None, 1), ([1], ()))"
    by (simp add: Migrate_def loadMigrations_def has_suffix_def Atoi_def read_nat_def undigit_def byte_def SchemaVersion_def)
  from Migrate_idempotent [OF this] show ?thesis by (simp add: SchemaVersion_def)
qed

end
