(* ===== verification/ProfileStore.thy ===== *)
theory ProfileStore
  imports Profile Store
begin

text \<open>
  \<open>internal/profile/persist.go\<close>: writing a profile and its components to the database and its
  captures to files, and rebuilding it from its rows. \<open>uuid\<close> is the identifier \<open>id.NewUUID\<close>
  returns, \<open>now\<close> the clock and \<open>writes\<close> the outcome of writing the files.
\<close>

definition component_row_of :: "component \<Rightarrow> component_row" where
  "component_row_of c = \<lparr>co_kind = cp_kind c, co_name = cp_name c, co_hash = cp_hash c, co_json = cp_json c\<rparr>"

definition row_component :: "component_row \<Rightarrow> component" where
  "row_component r = \<lparr>cp_kind = co_kind r, cp_name = co_name r, cp_hash = co_hash r, cp_json = co_json r\<rparr>"

definition no_captures :: captures where
  "no_captures = \<lparr>ca_config = [], ca_skills = [], ca_agents = [], ca_instructions = []\<rparr>"

definition FromRows :: "(string \<Rightarrow> json option) \<Rightarrow> profile_row \<Rightarrow> component_row list \<Rightarrow> profile option" where
  "FromRows parse row comps =
     (case parse (pr_json row) of
        None \<Rightarrow> None
      | Some j \<Rightarrow>
          (case unmarshal (dec_map JNull dec_any) [] j of
             None \<Rightarrow> None
           | Some snapshot \<Rightarrow>
               Some \<lparr>pf_id = pr_id row, pf_hash = pr_hash row, pf_opencode = pr_opencode row, pf_json = pr_json row,
                 pf_components = map row_component comps, pf_snapshot = snapshot, pf_captures = no_captures\<rparr>))"

datatype load_error = NoProfile | Undecodable

definition from_stored ::
  "(string \<Rightarrow> json option) \<Rightarrow> (profile_row \<times> component_row list) option \<Rightarrow> load_error + profile" where
  "from_stored parse r =
     (case r of
        None \<Rightarrow> Inl NoProfile
      | Some (row, comps) \<Rightarrow> (case FromRows parse row comps of None \<Rightarrow> Inl Undecodable | Some p \<Rightarrow> Inr p))"

definition profile_Load :: "(string \<Rightarrow> json option) \<Rightarrow> string \<Rightarrow> db \<Rightarrow> load_error + profile" where
  "profile_Load parse hash s = from_stored parse (GetProfileByHash hash s)"

definition profile_latest :: "(string \<Rightarrow> json option) \<Rightarrow> db \<Rightarrow> load_error + profile" where
  "profile_latest parse s = from_stored parse (LatestProfile s)"

definition capture_files :: "profile \<Rightarrow> (string \<times> string) list" where
  "capture_files p =
     filter (\<lambda>f. snd f \<noteq> [])
       [(''resolved-config.json'', ca_config (pf_captures p)), (''skills.json'', ca_skills (pf_captures p)),
        (''agents.json'', ca_agents (pf_captures p)), (''instructions.json'', ca_instructions (pf_captures p)),
        (''snapshot.json'', pf_json p)]"

datatype persist_error = NoUUID | Database db_error | NoPath | WriteFailed

text \<open>Writing stops at the first failure; the files before it stay written.\<close>

fun write_files :: "(string \<Rightarrow> bool) \<Rightarrow> string \<Rightarrow> (string \<times> string) list \<Rightarrow> (string, string) gomap \<Rightarrow> (string, string) gomap \<times> bool" where
  "write_files writes dir [] disk = (disk, True)"
| "write_files writes dir (f # fs) disk =
     (if writes (path_join dir (fst f)) then write_files writes dir fs (put (path_join dir (fst f)) (snd f) disk)
      else (disk, False))"

definition writeCaptures ::
  "(string \<Rightarrow> bool) \<Rightarrow> string \<Rightarrow> profile \<Rightarrow> (string, string) gomap \<Rightarrow> (string, string) gomap \<times> persist_error option" where
  "writeCaptures writes profiles p disk =
     (if profiles = [] then (disk, Some NoPath)
      else if capture_files p = [] then (disk, None)
      else if \<not> writes (path_join profiles (pf_hash p)) then (disk, Some WriteFailed)
      else (case write_files writes (path_join profiles (pf_hash p)) (capture_files p) disk of
              (disk, ok) \<Rightarrow> (disk, if ok then None else Some WriteFailed)))"

record persisted =
  pe_created :: bool
  pe_profile :: profile
  pe_db :: db
  pe_disk :: "(string, string) gomap"

definition Persist ::
  "string option \<Rightarrow> string \<Rightarrow> string \<Rightarrow> (string \<Rightarrow> bool) \<Rightarrow> string \<Rightarrow> profile \<Rightarrow> db \<Rightarrow> (string, string) gomap \<Rightarrow>
   persisted \<times> persist_error option" where
  "Persist uuid now ocb writes profiles p s disk =
     (let files = (\<lambda>created p s. case writeCaptures writes profiles p disk of
             (disk', err) \<Rightarrow> (\<lparr>pe_created = created, pe_profile = p, pe_db = s, pe_disk = disk'\<rparr>, err))
      in case GetProfileByHash (pf_hash p) s of
           Some (row, _) \<Rightarrow> files False (if pf_id p = [] then p\<lparr>pf_id := pr_id row\<rparr> else p) s
         | None \<Rightarrow>
             (case (if pf_id p = [] then uuid else Some (pf_id p)) of
                None \<Rightarrow> (\<lparr>pe_created = False, pe_profile = p, pe_db = s, pe_disk = disk\<rparr>, Some NoUUID)
              | Some i \<Rightarrow>
                  (let p = p\<lparr>pf_id := i\<rparr>;
                       row = \<lparr>pr_id = i, pr_hash = pf_hash p, pr_opencode = pf_opencode p, pr_ocbench = ocb,
                              pr_json = pf_json p, pr_created = now\<rparr>
                   in case InsertProfile now row (map component_row_of (pf_components p)) s of
                        Inl err \<Rightarrow> (\<lparr>pe_created = False, pe_profile = p, pe_db = s, pe_disk = disk\<rparr>, Some (Database err))
                      | Inr s' \<Rightarrow> files True p s')))"

section \<open>Storing and loading\<close>

definition cp_key :: "component \<Rightarrow> string \<times> string" where
  "cp_key c = (cp_kind c, cp_name c)"

lemma row_component_of [simp]: "row_component (component_row_of c) = c"
  by (simp add: row_component_def component_row_of_def)

lemma insert_components_fresh:
  assumes "distinct (map cp_key cs)" "\<And>x. x \<in> set tbl \<Longrightarrow> fst x = i \<Longrightarrow> (co_kind (snd x), co_name (snd x)) \<notin> cp_key ` set cs"
  shows "fold (insert_component i) (map component_row_of cs) tbl = tbl @ map (\<lambda>c. (i, component_row_of c)) cs"
  using assms
proof (induction cs arbitrary: tbl)
  case (Cons c cs)
  have "insert_component i (component_row_of c) tbl = tbl @ [(i, component_row_of c)]"
  proof -
    have "\<not> (\<exists>x\<in>set tbl. fst x = i \<and> co_kind (snd x) = cp_kind c \<and> co_name (snd x) = cp_name c)"
      using Cons.prems(2) by (fastforce simp: cp_key_def)
    then show ?thesis by (simp add: insert_component_def component_row_of_def)
  qed
  moreover have "fold (insert_component i) (map component_row_of cs) (tbl @ [(i, component_row_of c)])
      = (tbl @ [(i, component_row_of c)]) @ map (\<lambda>c. (i, component_row_of c)) cs"
  proof (rule Cons.IH)
    show "distinct (map cp_key cs)" using Cons.prems(1) by simp
    fix x assume x: "x \<in> set (tbl @ [(i, component_row_of c)])" "fst x = i"
    show "(co_kind (snd x), co_name (snd x)) \<notin> cp_key ` set cs"
    proof (cases "x \<in> set tbl")
      case True
      then show ?thesis using Cons.prems(2) x(2) by simp
    next
      case False
      then have "(co_kind (snd x), co_name (snd x)) = cp_key c" using x by (simp add: component_row_of_def cp_key_def)
      then show ?thesis using Cons.prems(1) by simp
    qed
  qed
  ultimately show ?case by simp
qed simp

text \<open>A profile id is fresh when no row of the database mentions it.\<close>

definition fresh_profile_id :: "string \<Rightarrow> db \<Rightarrow> bool" where
  "fresh_profile_id i s \<longleftrightarrow> i \<notin> pr_id ` set (db_profiles s) \<and> i \<notin> fst ` set (db_components s)"

lemma InsertProfile_fresh:
  assumes "fresh_profile_id (pr_id row) s" "pr_hash row \<notin> pr_hash ` set (db_profiles s)" "distinct (map cp_key cs)"
    and "rfc3339UTC now (pr_created row) = pr_created row"
  shows "InsertProfile now row (map component_row_of cs) s
    = Inr (s\<lparr>db_profiles := db_profiles s @ [row],
             db_components := db_components s @ map (\<lambda>c. (pr_id row, component_row_of c)) cs\<rparr>)"
proof -
  have "pr_created_update (\<lambda>_. pr_created row) row = row" by simp
  moreover have "\<not> (\<exists>x\<in>set (db_profiles s). pr_id x = pr_id row \<or> pr_hash x = pr_hash row)"
    using assms(1,2) unfolding fresh_profile_id_def by (metis image_eqI)
  moreover have "fold (insert_component (pr_id row)) (map component_row_of cs) (db_components s)
      = db_components s @ map (\<lambda>c. (pr_id row, component_row_of c)) cs"
  proof (rule insert_components_fresh [OF assms(3)])
    fix x assume "x \<in> set (db_components s)" "fst x = pr_id row"
    then have "pr_id row \<in> fst ` set (db_components s)" by (metis image_eqI)
    then show "(co_kind (snd x), co_name (snd x)) \<notin> cp_key ` set cs" using assms(1) by (simp add: fresh_profile_id_def)
  qed
  ultimately show ?thesis using assms(4) by (simp add: InsertProfile_def)
qed

lemma find_none_notin: "find (\<lambda>p. f p = x) ps = None \<longleftrightarrow> x \<notin> f ` set ps"
  by (auto simp: find_None_iff)

lemma find_append_new: "x \<notin> f ` set ps \<Longrightarrow> f r = x \<Longrightarrow> find (\<lambda>p. f p = x) (ps @ [r]) = Some r"
  by (induction ps) auto

lemma any_entries_ok: "snd (dec_entries JNull dec_any kvs m True)"
  by (induction kvs arbitrary: m) (auto simp: dec_any_def)

text \<open>C40: 
  A new profile is stored once and loads back: identity, hash, version, canonical document and
  components (in the order of their keys); persisting it again changes neither the database nor its
  identity and says that it was there.
\<close>

theorem Persist_Load:
  assumes "Persist (Some i) now ocb writes profiles p s disk = (r, None)"
    and "pf_id p = []" "i \<noteq> []" "now \<noteq> []" "pf_hash p \<notin> pr_hash ` set (db_profiles s)" "fresh_profile_id i s"
    and "distinct (map cp_key (pf_components p))" "parse (pf_json p) = Some (JObj snap)"
  shows "pe_created r \<and>
    (\<exists>q. profile_Load parse (pf_hash p) (pe_db r) = Inr q \<and> pf_id q = i \<and> pf_id (pe_profile r) = i \<and>
       pf_hash q = pf_hash p \<and> pf_opencode q = pf_opencode p \<and> pf_json q = pf_json p \<and>
       pf_components q = sort_key cp_key (pf_components p)) \<and>
    pe_created (fst (Persist u now ocb writes profiles p (pe_db r) disk)) = False \<and>
    pe_db (fst (Persist u now ocb writes profiles p (pe_db r) disk)) = pe_db r \<and>
    pf_id (pe_profile (fst (Persist u now ocb writes profiles p (pe_db r) disk))) = i"
proof -
  let ?row = "\<lparr>pr_id = i, pr_hash = pf_hash p, pr_opencode = pf_opencode p, pr_ocbench = ocb,
               pr_json = pf_json p, pr_created = now\<rparr>"
  let ?s = "s\<lparr>db_profiles := db_profiles s @ [?row],
             db_components := db_components s @ map (\<lambda>c. (i, component_row_of c)) (pf_components p)\<rparr>"
  have none: "GetProfileByHash (pf_hash p) s = None"
    using assms(5) by (simp add: GetProfileByHash_def with_components_def find_none_notin)
  have ins: "InsertProfile now ?row (map component_row_of (pf_components p)) s = Inr ?s"
    using InsertProfile_fresh [of ?row s "pf_components p" now] assms by (simp add: rfc3339UTC_def)
  have r: "pe_created r" "pe_db r = ?s" "pe_profile r = p\<lparr>pf_id := i\<rparr>"
    using assms(1) assms(2) by (auto simp: Persist_def none ins split: prod.splits)
  have f: "find (\<lambda>x. pr_hash x = pf_hash p) (db_profiles s @ [?row]) = Some ?row"
    by (rule find_append_new [OF assms(5)]) simp
  have comps: "componentsFor i ?s = sort_key (\<lambda>c. (co_kind c, co_name c)) (map component_row_of (pf_components p))"
  proof -
    have "filter (\<lambda>x. fst x = i) (db_components s) = []" using assms(6) by (auto simp: fresh_profile_id_def filter_empty_conv)
    then show ?thesis
      unfolding componentsFor_def sort_by_key [of "\<lambda>c. (co_kind c, co_name c)"] by (simp add: comp_def)
  qed
  have got: "GetProfileByHash (pf_hash p) ?s = Some (?row, componentsFor i ?s)"
    by (simp add: GetProfileByHash_def with_components_def f)
  have "map row_component (sort_key (\<lambda>c. (co_kind c, co_name c)) (map component_row_of cs)) = sort_key cp_key cs" for cs
  proof -
    have "map row_component (insort_key (\<lambda>c. (co_kind c, co_name c)) (component_row_of c) ys)
        = insort_key cp_key c (map row_component ys)" for c ys
      by (induction ys) (auto simp: component_row_of_def row_component_def cp_key_def)
    then show ?thesis by (induction cs) simp_all
  qed
  then have load: "profile_Load parse (pf_hash p) ?s = Inr \<lparr>pf_id = i, pf_hash = pf_hash p, pf_opencode = pf_opencode p,
      pf_json = pf_json p, pf_components = sort_key cp_key (pf_components p),
      pf_snapshot = fst (dec_entries JNull dec_any snap [] True), pf_captures = no_captures\<rparr>"
    using any_entries_ok [of snap "[]"] by (cases "dec_entries JNull dec_any snap [] True")
      (simp add: profile_Load_def from_stored_def got FromRows_def assms(8) unmarshal_def dec_map_def comps)
  have again: "pe_created (fst (Persist u now ocb writes profiles p ?s disk)) = False \<and>
    pe_db (fst (Persist u now ocb writes profiles p ?s disk)) = ?s \<and>
    pf_id (pe_profile (fst (Persist u now ocb writes profiles p ?s disk))) = i"
    using assms(2) by (simp add: Persist_def got split: prod.splits)
  show ?thesis unfolding r(2) using r load again by simp
qed

definition sample_profile :: profile where
  "sample_profile = \<lparr>pf_id = [], pf_hash = ''h'', pf_opencode = ''1'', pf_json = ''{}'',
     pf_components = [\<lparr>cp_kind = ''mcp'', cp_name = ''git'', cp_hash = ''c'', cp_json = ''{}''\<rparr>],
     pf_snapshot = [], pf_captures = no_captures\<rparr>"

theorem Persist_Load_witness:
  "\<exists>r q. profile_Load (\<lambda>_. Some (JObj [])) ''h'' (pe_db r) = Inr q \<and> pf_id q = ''id'' \<and>
     Persist (Some ''id'') ''now'' [] (\<lambda>_. True) ''d'' sample_profile empty_db [] = (r, None)"
proof -
  obtain r err where r: "Persist (Some ''id'') ''now'' [] (\<lambda>_. True) ''d'' sample_profile empty_db [] = (r, err)" by force
  have "snd (Persist (Some ''id'') ''now'' [] (\<lambda>_. True) ''d'' sample_profile empty_db []) = None" by code_simp
  with r have r: "Persist (Some ''id'') ''now'' [] (\<lambda>_. True) ''d'' sample_profile empty_db [] = (r, None)" by simp
  have "pf_id sample_profile = []" "pf_hash sample_profile \<notin> pr_hash ` set (db_profiles empty_db)"
    "fresh_profile_id ''id'' empty_db" "distinct (map cp_key (pf_components sample_profile))"
    by (simp_all add: sample_profile_def empty_db_def fresh_profile_id_def)
  from Persist_Load [OF r this(1) _ _ this(2-4), of "\<lambda>_. Some (JObj [])" "[]"] r
  show ?thesis by (auto simp: sample_profile_def)
qed

end
