(* ===== verification/History.thy ===== *)
theory History
  imports ProfileView ProfileStore Stats
begin

text \<open>
  \<open>internal/history\<close>, the parts that read runs and compare two of them: \<open>history.go\<close>, \<open>compare.go\<close>, \<open>cache.go\<close>
  and \<open>usage.go\<close>. Everything is a function of the database; \<open>parse\<close> is the JSON tokenizer.
\<close>

section \<open>Metrics of a run\<close>

definition metricValues :: "metric_row list \<Rightarrow> (string, real) gomap" where
  "metricValues metrics = fold (\<lambda>m out. case mt_num m of None \<Rightarrow> out | Some v \<Rightarrow> put (mt_name m) v out) metrics []"

definition metric_or_zero :: "(string, real) gomap \<Rightarrow> string \<Rightarrow> real" where
  "metric_or_zero metrics name = (case map_of metrics name of None \<Rightarrow> 0 | Some v \<Rightarrow> v)"

definition CacheHitRate :: "(string, real) gomap \<Rightarrow> real option" where
  "CacheHitRate metrics =
     (let cached = metric_or_zero metrics ''tokens_cache_read''; fresh = metric_or_zero metrics ''tokens_input''
      in if cached + fresh \<le> 0 then None else Some (cached / (cached + fresh)))"

record agent_usage =
  au_name :: string
  au_messages :: int
  au_tools :: int
  au_tokens :: real
  au_cost :: real

definition agentMetricPrefix :: string where "agentMetricPrefix = ''agent.''"

definition no_usage :: "string \<Rightarrow> agent_usage" where
  "no_usage n = \<lparr>au_name = n, au_messages = 0, au_tools = 0, au_tokens = 0, au_cost = 0\<rparr>"

text \<open>The agent and the metric of a metric name, if it is an agent's.\<close>

definition agent_metric :: "string \<Rightarrow> (string \<times> string) option" where
  "agent_metric name =
     (if \<not> has_prefix name agentMetricPrefix then None
      else let rest = trim_prefix name agentMetricPrefix
           in case last_index (CHR ''.'') rest of
                None \<Rightarrow> None
              | Some dot \<Rightarrow> if dot = 0 then None else Some (take dot rest, drop (Suc dot) rest))"

definition use_metric :: "string \<Rightarrow> real \<Rightarrow> agent_usage \<Rightarrow> agent_usage" where
  "use_metric what v u =
     (if what = ''messages'' then u\<lparr>au_messages := trunc_int v\<rparr>
      else if what = ''tool_calls'' then u\<lparr>au_tools := trunc_int v\<rparr>
      else if what = ''tokens_total'' then u\<lparr>au_tokens := v\<rparr>
      else if what = ''cost'' then u\<lparr>au_cost := v\<rparr> else u)"

definition add_usage :: "string \<times> real \<Rightarrow> (string, agent_usage) gomap \<Rightarrow> (string, agent_usage) gomap" where
  "add_usage m byName =
     (case agent_metric (fst m) of
        None \<Rightarrow> byName
      | Some (agent, what) \<Rightarrow> modify agent (no_usage agent) (use_metric what (snd m)) byName)"

definition AgentUsages :: "(string, real) gomap \<Rightarrow> agent_usage list" where
  "AgentUsages metrics =
     sort_by (\<lambda>a b. if au_tokens a \<noteq> au_tokens b then au_tokens b < au_tokens a else au_name a < au_name b)
       (map snd (fold add_usage metrics []))"

section \<open>Runs\<close>

definition SelectorLatest :: string where "SelectorLatest = ''latest''"
definition SelectorPrevious :: string where "SelectorPrevious = ''previous''"

datatype history_error = InvalidSelector string | NoRows | BadProfileRow

record run_detail =
  rd_run :: run_row
  rd_metrics :: "(string, real) gomap"
  rd_validations :: "validation_row list"
  rd_profile :: "profile option"

definition found :: "'a option \<Rightarrow> history_error + 'a" where
  "found x = (case x of None \<Rightarrow> Inl NoRows | Some y \<Rightarrow> Inr y)"

definition loadDetail :: "(string \<Rightarrow> json option) \<Rightarrow> db \<Rightarrow> run_row \<Rightarrow> history_error + run_detail" where
  "loadDetail parse s run =
     (let detail = \<lparr>rd_run = run, rd_metrics = metricValues (GetRunMetrics (rr_id run) s),
                    rd_validations = ListRunValidations (rr_id run) s, rd_profile = None\<rparr>
      in if rr_profile run = [] then Inr detail
         else rbind (found (GetProfileByID (rr_profile run) s)) (\<lambda>(row, comps).
              case FromRows parse row comps of
                None \<Rightarrow> Inl BadProfileRow
              | Some p \<Rightarrow> Inr (detail\<lparr>rd_profile := Some p\<rparr>)))"

definition history_List :: "(string \<Rightarrow> json option) \<Rightarrow> string \<Rightarrow> int \<Rightarrow> db \<Rightarrow> history_error + run_detail list" where
  "history_List parse task limit s = res_map (loadDetail parse s) (ListRuns limit task s)"

definition history_Get :: "(string \<Rightarrow> json option) \<Rightarrow> string \<Rightarrow> db \<Rightarrow> history_error + run_detail" where
  "history_Get parse i s = rbind (found (GetRun i s)) (loadDetail parse s)"

section \<open>Comparing two runs\<close>

record metric_delta =
  dl_name :: string
  dl_before :: real
  dl_after :: real
  dl_delta :: real
  dl_percent :: "real option"

record comparison =
  cm_before :: run_detail
  cm_after :: run_detail
  cm_metrics :: "metric_delta list"
  cm_changes :: "change list"
  cm_warning :: string

definition resolveOne :: "db \<Rightarrow> string \<Rightarrow> history_error + run_row" where
  "resolveOne s selector = found (if selector = SelectorLatest then LatestRun s else GetRun selector s)"

definition previous_pair :: "db \<Rightarrow> string \<Rightarrow> history_error + run_row \<times> run_row" where
  "previous_pair s selector =
     rbind (resolveOne s selector) (\<lambda>anchor.
     rbind (found (PreviousCompatibleRun anchor s)) (\<lambda>prev. Inr (prev, anchor)))"

definition resolvePair :: "db \<Rightarrow> string \<Rightarrow> string \<Rightarrow> history_error + run_row \<times> run_row" where
  "resolvePair s left right =
     (if left = SelectorPrevious then previous_pair s right
      else if right = SelectorPrevious then previous_pair s left
      else rbind (resolveOne s left) (\<lambda>l. rbind (resolveOne s right) (\<lambda>r. Inr (l, r))))"

definition compatible :: "run_row \<Rightarrow> run_row \<Rightarrow> bool" where
  "compatible a b \<longleftrightarrow> \<not> rr_dry a \<and> \<not> rr_dry b \<and>
     rr_suite_name a = rr_suite_name b \<and> rr_suite_version a = rr_suite_version b \<and> rr_suite_hash a = rr_suite_hash b \<and>
     rr_task a = rr_task b \<and> rr_task_version a = rr_task_version b \<and> rr_fixture a = rr_fixture b"

definition metric_delta_of :: "(string, real) gomap \<Rightarrow> (string, real) gomap \<Rightarrow> string \<Rightarrow> metric_delta" where
  "metric_delta_of before after name =
     (let b = metric_or_zero before name; a = metric_or_zero after name
      in \<lparr>dl_name = name, dl_before = b, dl_after = a, dl_delta = a - b,
          dl_percent = (if b \<noteq> 0 then Some ((a - b) / b * 100) else None)\<rparr>)"

definition metricDeltas :: "(string, real) gomap \<Rightarrow> (string, real) gomap \<Rightarrow> metric_delta list" where
  "metricDeltas before after = map (metric_delta_of before after) (sort (remdups (map fst before @ map fst after)))"

definition controlledRunWarning :: "nat \<Rightarrow> string" where
  "controlledRunWarning changes =
     (if changes \<le> 1 then []
      else show_int (int changes) @ '' profile components changed between the compared runs; run a controlled comparison that changes one component at a time.'')"

definition Compare :: "(string \<Rightarrow> json option) \<Rightarrow> db \<Rightarrow> string \<Rightarrow> string \<Rightarrow> history_error + comparison" where
  "Compare parse s left right =
     (if left = SelectorPrevious \<and> right = SelectorPrevious then Inl (InvalidSelector (''both selectors cannot be '' @ [CHR 0x22] @ SelectorPrevious @ [CHR 0x22]))
      else rbind (resolvePair s left right) (\<lambda>(leftRun, rightRun).
        if rr_dry leftRun \<or> rr_dry rightRun then Inl (InvalidSelector ''dry runs cannot be compared'')
        else if left \<noteq> SelectorPrevious \<and> right \<noteq> SelectorPrevious \<and> \<not> compatible leftRun rightRun
        then Inl (InvalidSelector ''runs are not compatible; suite, task and fixture must match'')
        else rbind (loadDetail parse s leftRun) (\<lambda>before.
             rbind (loadDetail parse s rightRun) (\<lambda>after.
             let changes = Diff (rd_profile before) (rd_profile after)
             in Inr \<lparr>cm_before = before, cm_after = after, cm_metrics = metricDeltas (rd_metrics before) (rd_metrics after),
                     cm_changes = changes, cm_warning = controlledRunWarning (length changes)\<rparr>))))"

section \<open>What a comparison compares\<close>

lemma loadDetail_run: "loadDetail parse s r = Inr d \<Longrightarrow> rd_run d = r \<and> rd_metrics d = metricValues (GetRunMetrics (rr_id r) s)"
  by (auto simp: loadDetail_def Let_def found_def rbind_Inr_iff split: if_splits option.splits)

lemma first_row_in:
  assumes "first_row (newest_first qs) = Some r"
  shows "\<exists>q\<in>set qs. r = scanRunRow q"
proof (cases "newest_first qs")
  case (Cons q qs')
  then have "q \<in> set (newest_first qs)" by simp
  then show ?thesis using assms Cons by (auto simp: newest_first_def first_row_def)
qed (use assms in \<open>simp add: first_row_def\<close>)

lemma stored_previous:
  assumes "PreviousCompatibleRun a s = Some r" "\<not> rr_dry a"
  shows "compatible r a" "r \<in> scanRunRow ` set (db_runs s)" "(rr_started r, rr_id r) < (rr_started a, rr_id a)"
proof -
  from assms(1) obtain q where q: "q \<in> set (db_runs s)" "r = scanRunRow q" "rq_dry q = 0" "rq_suite_name q = rr_suite_name a"
      "rq_suite_version q = rr_suite_version a" "rq_suite_hash q = rr_suite_hash a" "rq_task q = rr_task a"
      "rq_task_version q = rr_task_version a" "rq_fixture q = rr_fixture a" "run_key q < (rr_started a, rr_id a)"
    unfolding PreviousCompatibleRun_def using first_row_in by fastforce
  then show "compatible r a" "r \<in> scanRunRow ` set (db_runs s)" "(rr_started r, rr_id r) < (rr_started a, rr_id a)"
    using assms(2) by (auto simp: compatible_def scanRunRow_def run_key_def)
qed

lemma stored_one: "resolveOne s selector = Inr r \<Longrightarrow> r \<in> scanRunRow ` set (db_runs s)"
  unfolding resolveOne_def found_def LatestRun_def GetRun_def
  by (auto split: if_splits option.splits dest: first_row_in simp: find_Some_iff)

text \<open>C6: 
  A comparison is between two stored runs that are not dry runs and have the same suite (its content
  included), task and fixture; \<open>previous\<close> is always the earlier side. The deltas are one per metric of
  either run, in order, after minus before, a missing metric counting as zero.
\<close>

theorem Compare_controlled:
  assumes "Compare parse s left right = Inr c"
  defines "b \<equiv> rd_run (cm_before c)" and "a \<equiv> rd_run (cm_after c)"
  shows "compatible b a \<and> {b, a} \<subseteq> scanRunRow ` set (db_runs s) \<and>
    (left = SelectorPrevious \<or> right = SelectorPrevious \<longrightarrow> (rr_started b, rr_id b) < (rr_started a, rr_id a)) \<and>
    sorted (map dl_name (cm_metrics c)) \<and> distinct (map dl_name (cm_metrics c)) \<and>
    set (map dl_name (cm_metrics c)) = fst ` set (rd_metrics (cm_before c)) \<union> fst ` set (rd_metrics (cm_after c)) \<and>
    (\<forall>x\<in>set (cm_metrics c). dl_delta x = metric_or_zero (rd_metrics (cm_after c)) (dl_name x) - metric_or_zero (rd_metrics (cm_before c)) (dl_name x))"
proof -
  obtain l r where lr: "resolvePair s left right = Inr (l, r)" "\<not> rr_dry l" "\<not> rr_dry r"
      "left = SelectorPrevious \<or> right = SelectorPrevious \<or> compatible l r"
      "loadDetail parse s l = Inr (cm_before c)" "loadDetail parse s r = Inr (cm_after c)"
      "cm_metrics c = metricDeltas (rd_metrics (cm_before c)) (rd_metrics (cm_after c))"
    using assms(1) unfolding Compare_def by (auto simp: Let_def rbind_Inr_iff split: if_splits)
  have ba: "b = l" "a = r" using loadDetail_run [OF lr(5)] loadDetail_run [OF lr(6)] by (simp_all add: b_def a_def)
  have "compatible l r \<and> {l, r} \<subseteq> scanRunRow ` set (db_runs s) \<and>
      (left = SelectorPrevious \<or> right = SelectorPrevious \<longrightarrow> (rr_started l, rr_id l) < (rr_started r, rr_id r))"
  proof (cases "left = SelectorPrevious \<or> right = SelectorPrevious")
    case True
    then obtain sel where "previous_pair s sel = Inr (l, r)" using lr(1) by (auto simp: resolvePair_def split: if_splits)
    then have p: "resolveOne s sel = Inr r" "PreviousCompatibleRun r s = Some l"
      by (auto simp: previous_pair_def found_def rbind_Inr_iff split: option.splits)
    show ?thesis using stored_previous [OF p(2) lr(3)] stored_one [OF p(1)] by simp
  next
    case False
    then have "resolveOne s left = Inr l" "resolveOne s right = Inr r" using lr(1) by (auto simp: resolvePair_def rbind_Inr_iff)
    then show ?thesis using False lr(4) stored_one by blast
  qed
  moreover have "sorted (map dl_name (cm_metrics c)) \<and> distinct (map dl_name (cm_metrics c)) \<and>
    set (map dl_name (cm_metrics c)) = fst ` set (rd_metrics (cm_before c)) \<union> fst ` set (rd_metrics (cm_after c)) \<and>
    (\<forall>x\<in>set (cm_metrics c). dl_delta x = metric_or_zero (rd_metrics (cm_after c)) (dl_name x) - metric_or_zero (rd_metrics (cm_before c)) (dl_name x))"
    unfolding lr(7) metricDeltas_def by (simp add: metric_delta_of_def Let_def comp_def)
  ultimately show ?thesis unfolding ba by blast
qed

definition compared_db :: db where
  "compared_db = empty_db\<lparr>db_runs := map (run_params [])
     [zero_run\<lparr>rr_id := ''a'', rr_started := ''1''\<rparr>, zero_run\<lparr>rr_id := ''b'', rr_started := ''2''\<rparr>]\<rparr>"

theorem Compare_controlled_witness:
  "\<exists>c. Compare (\<lambda>_. None) compared_db ''latest'' ''previous'' = Inr c \<and> rr_id (rd_run (cm_before c)) = ''a'' \<and>
     compatible (rd_run (cm_before c)) (rd_run (cm_after c))"
proof -
  have "case Compare (\<lambda>_. None) compared_db ''latest'' ''previous'' of Inl _ \<Rightarrow> False | Inr c \<Rightarrow> rr_id (rd_run (cm_before c)) = ''a''"
    by code_simp
  then obtain c where c: "Compare (\<lambda>_. None) compared_db ''latest'' ''previous'' = Inr c" "rr_id (rd_run (cm_before c)) = ''a''"
    by (auto split: sum.splits)
  with Compare_controlled [OF c(1)] show ?thesis by blast
qed

text \<open>Which side is called \<open>previous\<close> does not matter.\<close>

theorem Compare_previous_either_side:
  "Compare parse s SelectorPrevious x = Compare parse s x SelectorPrevious"
  by (cases "x = SelectorPrevious") (simp_all add: Compare_def resolvePair_def cong: if_cong)

end
