(* ===== verification/PowerAnalysis.thy ===== *)
theory PowerAnalysis
  imports Stats
begin

text \<open>
  File \<open>internal/stats/power.go\<close>: the standard deviation, the normal quantile and the sizing
  formulas built on it. The infinities \<open>ZFor\<close> returns at the extremes are values of \<open>fl\<close>.
\<close>

datatype fl = NaN | NegInf | Fin real | PosInf

fun fl_neg :: "fl \<Rightarrow> fl" where
  "fl_neg NaN = NaN"
| "fl_neg NegInf = PosInf"
| "fl_neg (Fin x) = Fin (- x)"
| "fl_neg PosInf = NegInf"

fun fl_add :: "fl \<Rightarrow> fl \<Rightarrow> fl" where
  "fl_add (Fin x) (Fin y) = Fin (x + y)"
| "fl_add (Fin x) y = y"
| "fl_add x (Fin y) = x"
| "fl_add PosInf PosInf = PosInf"
| "fl_add NegInf NegInf = NegInf"
| "fl_add x y = NaN"

text \<open>The product with a finite factor.\<close>

fun fl_scale :: "fl \<Rightarrow> real \<Rightarrow> fl" where
  "fl_scale (Fin x) r = Fin (x * r)"
| "fl_scale NaN r = NaN"
| "fl_scale PosInf r = (if r > 0 then PosInf else if r < 0 then NegInf else NaN)"
| "fl_scale NegInf r = (if r > 0 then NegInf else if r < 0 then PosInf else NaN)"

definition DefaultAlpha :: real where "DefaultAlpha = 0.05"

definition DefaultPower :: real where "DefaultPower = 0.80"

definition StdDev :: "real list \<Rightarrow> real option" where
  "StdDev xs =
     (if length xs < 2 then None
      else let m = Mean xs;
               s = fold (\<lambda>x sum. let d = x - m in sum + d * d) xs 0
           in Some (sqrt (s / real (length xs - 1))))"

definition zfor_tail :: "real \<Rightarrow> real" where
  "zfor_tail q =
     (let c0 = -0.007784894002430293; c1 = -0.3223964580411365; c2 = -2.400758277161838;
          c3 = -2.549732539343734; c4 = 4.374664141464968; c5 = 2.938163982698783;
          d0 = 0.007784695709041462; d1 = 0.3224671290700398;
          d2 = 2.445134137142996; d3 = 3.754408661907416
      in (((((c0*q+c1)*q+c2)*q+c3)*q+c4)*q + c5) / ((((d0*q+d1)*q+d2)*q+d3)*q + 1))"

definition zfor_central :: "real \<Rightarrow> real" where
  "zfor_central q =
     (let a0 = -39.69683028665376; a1 = 220.9460984245205; a2 = -275.9285104469687;
          a3 = 138.3577518672690; a4 = -30.66479806614716; a5 = 2.506628277459239;
          b0 = -54.47609879822406; b1 = 161.5858368580409; b2 = -155.6989798598866;
          b3 = 66.80131188771972; b4 = -13.28068155288572;
          r = q * q
      in (((((a0*r+a1)*r+a2)*r+a3)*r+a4)*r + a5) * q / (((((b0*r+b1)*r+b2)*r+b3)*r+b4)*r + 1))"

definition ZFor :: "real \<Rightarrow> fl" where
  "ZFor p =
     (if p \<le> 0 then NegInf
      else if p \<ge> 1 then PosInf
      else
        let pLow = 0.02425; pHigh = 1 - pLow
        in if p < pLow then Fin (zfor_tail (sqrt (- 2 * ln p)))
           else if p > pHigh then Fin (- zfor_tail (sqrt (- 2 * ln (1 - p))))
           else Fin (zfor_central (p - 0.5)))"

definition normalizePower :: "real \<Rightarrow> real \<Rightarrow> real \<times> real" where
  "normalizePower pw alpha =
     ((if pw \<le> 0 \<or> pw \<ge> 1 then DefaultPower else pw),
      (if alpha \<le> 0 \<or> alpha \<ge> 1 then DefaultAlpha else alpha))"

definition MDE :: "real list \<Rightarrow> int \<Rightarrow> real \<Rightarrow> real \<Rightarrow> fl option" where
  "MDE samples nPerArm pw alpha =
     (case StdDev samples of
        None \<Rightarrow> None
      | Some sd \<Rightarrow>
          if nPerArm < 1 then None
          else let (pw, alpha) = normalizePower pw alpha;
                   z = fl_add (ZFor (1 - alpha / 2)) (ZFor pw)
               in Some (fl_scale (fl_scale z sd) (sqrt (2 / real_of_int nPerArm))))"

text \<open>
  \<open>int(math.Ceil(x))\<close>. A conversion of a non-finite float is implementation dependent in
  Go; the value below (the smallest \<open>int\<close>) is what amd64 gives, and
  \<open>zsum_finite\<close> shows that the case does not arise.
\<close>

fun ceil_int :: "fl \<Rightarrow> int" where
  "ceil_int (Fin x) = \<lceil>x\<rceil>"
| "ceil_int x = - (2 ^ 63)"

fun fl_sq :: "fl \<Rightarrow> fl" where
  "fl_sq (Fin x) = Fin (x ^ 2)"
| "fl_sq NaN = NaN"
| "fl_sq x = PosInf"

definition RepeatsForSD :: "real \<Rightarrow> real \<Rightarrow> real \<Rightarrow> real \<Rightarrow> int option" where
  "RepeatsForSD sd effect pw alpha =
     (if effect \<le> 0 \<or> sd \<le> 0 then None
      else let (pw, alpha) = normalizePower pw alpha;
               z = fl_add (ZFor (1 - alpha / 2)) (ZFor pw);
               n = ceil_int (fl_scale (fl_sq (fl_scale z (sd / effect))) 2)
           in Some (if n < 1 then 1 else n))"

definition MDEForRelSD :: "real \<Rightarrow> int \<Rightarrow> real \<Rightarrow> real \<Rightarrow> fl" where
  "MDEForRelSD relSD nPerArm pw alpha =
     (if relSD \<le> 0 \<or> nPerArm < 1 then Fin 0
      else let (pw, alpha) = normalizePower pw alpha
           in fl_scale (fl_scale (fl_add (ZFor (1 - alpha / 2)) (ZFor pw)) relSD)
                (sqrt (2 / real_of_int nPerArm)))"

section \<open>The quantile\<close>

lemma fl_neg_neg [simp]: "fl_neg (fl_neg x) = x"
  by (cases x) auto

lemma zfor_central_odd: "zfor_central (- q) = - zfor_central q"
  by (simp add: zfor_central_def Let_def)

lemma ZFor_symmetric: "ZFor (1 - p) = fl_neg (ZFor p)"
proof -
  have "zfor_central (1 - p - 0.5) = - zfor_central (p - 0.5)"
    using zfor_central_odd [of "p - 0.5"] by simp
  then show ?thesis by (auto simp: ZFor_def Let_def)
qed

lemma ZFor_finite: "0 < p \<Longrightarrow> p < 1 \<Longrightarrow> \<exists>z. ZFor p = Fin z"
  by (auto simp: ZFor_def Let_def)

lemma normalizePower_range:
  "normalizePower pw alpha = (pw', al') \<Longrightarrow> 0 < pw' \<and> pw' < 1 \<and> 0 < al' \<and> al' < 1"
  by (auto simp: normalizePower_def DefaultPower_def DefaultAlpha_def split: if_splits)

lemma normalizePower_idem:
  "normalizePower pw alpha = (pw', al') \<Longrightarrow> normalizePower pw' al' = (pw', al')"
  by (auto simp: normalizePower_def DefaultPower_def DefaultAlpha_def split: if_splits)

text \<open>The multiplier of the sizing formulas is finite, whatever the arguments.\<close>

lemma zsum_finite:
  "\<exists>z. (let (pw, alpha) = normalizePower pw alpha in fl_add (ZFor (1 - alpha / 2)) (ZFor pw)) = Fin z"
proof -
  obtain pw' al' where n: "normalizePower pw alpha = (pw', al')" by force
  note r = normalizePower_range [OF n]
  obtain x where x: "ZFor (1 - al' / 2) = Fin x" using r ZFor_finite [of "1 - al' / 2"] by auto
  obtain y where y: "ZFor pw' = Fin y" using r ZFor_finite [of pw'] by auto
  show ?thesis using n x y by simp
qed

section \<open>The spread\<close>

lemma fold_sq_sum:
  "fold (\<lambda>x s. let d = x - m in s + d * d) xs a = a + (\<Sum>x\<leftarrow>xs. (x - m)\<^sup>2)" for a m :: real
  by (induction xs arbitrary: a) (auto simp: Let_def power2_eq_square)

lemma StdDev_eq:
  "2 \<le> length xs \<Longrightarrow>
   StdDev xs = Some (sqrt ((\<Sum>x\<leftarrow>xs. (x - mean xs)\<^sup>2) / real (length xs - 1)))"
  by (simp add: StdDev_def Mean_eq_mean fold_sq_sum)

lemma sum_list_sq_nonneg: "0 \<le> (\<Sum>x\<leftarrow>xs. (x - m)\<^sup>2)" for m :: real
  by (rule sum_list_nonneg) auto

lemma StdDev_nonneg: "StdDev xs = Some sd \<Longrightarrow> 0 \<le> sd"
  by (cases "length xs < 2")
     (auto simp: StdDev_eq sum_list_sq_nonneg StdDev_def not_less Mean_eq_mean fold_sq_sum)

lemma StdDev_zero_iff:
  assumes "2 \<le> length xs"
  shows "StdDev xs = Some 0 \<longleftrightarrow> (\<forall>x\<in>set xs. x = mean xs)"
proof -
  have "StdDev xs = Some 0 \<longleftrightarrow> (\<Sum>x\<leftarrow>xs. (x - mean xs)\<^sup>2) = 0"
    using assms by (simp add: StdDev_eq)
  also have "\<dots> \<longleftrightarrow> (\<forall>x\<in>set xs. x = mean xs)"
    by (subst sum_list_nonneg_eq_0_iff) auto
  finally show ?thesis .
qed

section \<open>Sizing and detection agree\<close>

text \<open>
  The repeats \<open>RepeatsForSD\<close> asks for are enough for the detectable effect of
  \<open>MDEForRelSD\<close> to be at most the requested one, and no smaller positive number is, up to
  the sign of the multiplier.
\<close>

lemma sizing_core:
  fixes z sd e :: real and n :: int
  assumes "0 < e" "0 < sd" "1 \<le> n"
  shows "\<bar>z\<bar> * sd * sqrt (2 / real_of_int n) \<le> e \<longleftrightarrow> 2 * (z * (sd / e))\<^sup>2 \<le> real_of_int n"
proof -
  have n: "0 < real_of_int n" using assms by simp
  have "\<bar>z\<bar> * sd * sqrt (2 / real_of_int n) \<le> e
        \<longleftrightarrow> (\<bar>z\<bar> * sd * sqrt (2 / real_of_int n))\<^sup>2 \<le> e\<^sup>2"
    using assms by (intro iffI power_mono) (auto intro: power2_le_imp_le)
  also have "(\<bar>z\<bar> * sd * sqrt (2 / real_of_int n))\<^sup>2 = z\<^sup>2 * sd\<^sup>2 * (2 / real_of_int n)"
    using n by (simp add: power_mult_distrib)
  also have "z\<^sup>2 * sd\<^sup>2 * (2 / real_of_int n) \<le> e\<^sup>2 \<longleftrightarrow> 2 * (z * (sd / e))\<^sup>2 \<le> real_of_int n"
    using assms n by (simp add: power_mult_distrib power_divide field_simps)
  finally show ?thesis .
qed

lemma RepeatsForSD_eq:
  assumes "0 < e" "0 < sd" "normalizePower pw alpha = (pw', al')"
    and "fl_add (ZFor (1 - al' / 2)) (ZFor pw') = Fin z"
  shows "RepeatsForSD sd e pw alpha
    = Some (if \<lceil>2 * (z * (sd / e))\<^sup>2\<rceil> < 1 then 1 else \<lceil>2 * (z * (sd / e))\<^sup>2\<rceil>)"
proof -
  have "\<not> (e \<le> 0 \<or> sd \<le> 0)" using assms by auto
  then show ?thesis
    by (simp only: RepeatsForSD_def assms if_False Let_def prod.case fl_scale.simps fl_sq.simps
        ceil_int.simps mult.commute [of _ 2])
qed

lemma RepeatsForSD_detects:
  assumes "RepeatsForSD sd effect pw alpha = Some n"
  shows "1 \<le> n" "\<exists>m. MDEForRelSD sd n pw alpha = Fin m \<and> m \<le> effect"
proof -
  from assms have pos: "0 < effect" "0 < sd" by (auto simp: RepeatsForSD_def split: if_splits)
  obtain pw' al' where nn: "normalizePower pw alpha = (pw', al')" by force
  obtain z where z: "fl_add (ZFor (1 - al' / 2)) (ZFor pw') = Fin z"
    using zsum_finite [of pw alpha] nn by auto
  let ?k = "\<lceil>2 * (z * (sd / effect))\<^sup>2\<rceil>"
  have n: "n = (if ?k < 1 then 1 else ?k)"
    using assms RepeatsForSD_eq [OF pos nn z] by simp
  then show n1: "1 \<le> n" by simp
  have "2 * (z * (sd / effect))\<^sup>2 \<le> real_of_int n"
    using n by (smt (verit) le_of_int_ceiling of_int_le_iff)
  then have "\<bar>z\<bar> * sd * sqrt (2 / real_of_int n) \<le> effect"
    using sizing_core [OF pos n1] by blast
  moreover have "z * sd * sqrt (2 / real_of_int n) \<le> \<bar>z\<bar> * sd * sqrt (2 / real_of_int n)"
    using pos n1 by (intro mult_right_mono) auto
  ultimately have "z * sd * sqrt (2 / real_of_int n) \<le> effect" by linarith
  then show "\<exists>m. MDEForRelSD sd n pw alpha = Fin m \<and> m \<le> effect"
    using pos n1 nn z by (simp add: MDEForRelSD_def)
qed

lemma RepeatsForSD_least:
  assumes "RepeatsForSD sd effect pw alpha = Some n" "1 \<le> k" "k < n"
  shows "\<exists>m. MDEForRelSD sd k pw alpha = Fin m \<and> effect < \<bar>m\<bar>"
proof -
  from assms have pos: "0 < effect" "0 < sd" by (auto simp: RepeatsForSD_def split: if_splits)
  obtain pw' al' where nn: "normalizePower pw alpha = (pw', al')" by force
  obtain z where z: "fl_add (ZFor (1 - al' / 2)) (ZFor pw') = Fin z"
    using zsum_finite [of pw alpha] nn by auto
  let ?k = "\<lceil>2 * (z * (sd / effect))\<^sup>2\<rceil>"
  have "n = (if ?k < 1 then 1 else ?k)"
    using assms RepeatsForSD_eq [OF pos nn z] by simp
  then have "k < ?k" using assms(2,3) by (simp split: if_splits)
  then have "\<not> 2 * (z * (sd / effect))\<^sup>2 \<le> real_of_int k" by linarith
  then have "effect < \<bar>z\<bar> * sd * sqrt (2 / real_of_int k)"
    using sizing_core [OF pos assms(2)] by (meson not_le)
  also have "\<dots> = \<bar>z * sd * sqrt (2 / real_of_int k)\<bar>"
    using pos assms(2) by (simp add: abs_mult)
  finally show ?thesis using pos assms(2) nn z by (simp add: MDEForRelSD_def)
qed

section \<open>Properties\<close>



text \<open>The quantile of a tail and of its complement are opposite, at the infinite ends too.\<close>

theorem ZFor_symmetry: "ZFor (1 - p) = fl_neg (ZFor p)"
  by (rule ZFor_symmetric)

end
