(* ===== verification/Calibration.thy ===== *)
theory Calibration
  imports History PowerAnalysis
begin

text \<open>
  \<open>internal/history/calibration.go\<close> and \<open>variance.go\<close>: how well each task separates configurations, and the
  noise of its repeated runs. Both read every run of the store and group it with \<open>accum\<close>; a set of profile
  hashes is a list without duplicates.
\<close>

section \<open>The runs that are read\<close>

definition history_scoreOf :: "(string, real) gomap \<Rightarrow> real" where
  "history_scoreOf values = (case map_of values ''score'' of Some score \<Rightarrow> score | None \<Rightarrow> metric_or_zero values ''success'')"

definition run_values :: "db \<Rightarrow> run_row \<Rightarrow> (string, real) gomap" where
  "run_values s r = metricValues (GetRunMetrics (rr_id r) s)"

definition task_key :: "run_row \<Rightarrow> string \<times> string" where
  "task_key r = (rr_suite_name r, rr_task r)"

definition in_suite :: "string \<Rightarrow> run_row \<Rightarrow> bool" where
  "in_suite suite r \<longleftrightarrow> \<not> rr_dry r \<and> (suite = [] \<or> rr_suite_name r = suite)"

definition key_before :: "string \<times> string \<Rightarrow> string \<times> string \<Rightarrow> bool" where
  "key_before a b = (if fst a \<noteq> fst b then fst a < fst b else snd a < snd b)"

section \<open>Process signatures\<close>

type_synonym signature = "(string, int) gomap"

definition processMetrics :: "string list" where
  "processMetrics = [''tool_calls_total'', ''subagent_calls'', ''retries'', ''compactions'']"

definition processSignature :: "(string, real) gomap \<Rightarrow> signature option" where
  "processSignature values =
     (let sg = fold (\<lambda>name sg. case map_of values name of None \<Rightarrow> sg | Some v \<Rightarrow> put name (trunc_int v) sg) processMetrics []
      in if sg = [] then None else Some sg)"

definition isRestriction :: "signature \<Rightarrow> signature \<Rightarrow> bool" where
  "isRestriction sg other = list_all (\<lambda>(name, v). map_of other name = Some v) sg"

definition signature_part :: "signature \<Rightarrow> string \<Rightarrow> string list" where
  "signature_part sg name = (case map_of sg name of None \<Rightarrow> [] | Some v \<Rightarrow> [name @ ''='' @ show_int v])"

definition signatureKey :: "signature \<Rightarrow> string" where
  "signatureKey sg = join '','' (concat (map (signature_part sg) processMetrics))"

definition distinctSignatures :: "signature list \<Rightarrow> nat" where
  "distinctSignatures sigs =
     (let uniq = put_all (map (\<lambda>sg. (signatureKey sg, sg)) sigs) [];
          order = dedup (map signatureKey sigs);
          redundant = (\<lambda>key. list_ex (\<lambda>other. other \<noteq> key \<and> isRestriction (getd [] uniq key) (getd [] uniq other) \<and>
             \<not> isRestriction (getd [] uniq other) (getd [] uniq key)) order)
      in length (filter (\<lambda>key. \<not> redundant key) order))"

section \<open>Calibration\<close>

datatype cal_verdict = VerdictSaturated | VerdictAlwaysFails | VerdictInformative | VerdictUnknown

definition saturatedPassRate :: real where "saturatedPassRate = 0.9"
definition alwaysFailsPassRate :: real where "alwaysFailsPassRate = 0.2"

definition classify :: "real \<Rightarrow> nat \<Rightarrow> cal_verdict" where
  "classify passRate runs =
     (if runs < 2 then VerdictUnknown
      else if saturatedPassRate \<le> passRate then VerdictSaturated
      else if passRate \<le> alwaysFailsPassRate then VerdictAlwaysFails
      else VerdictInformative)"

record task_acc =
  ka_runs :: nat
  ka_passes :: real
  ka_score :: real
  ka_profiles :: "string list"
  ka_signatures :: "signature list"
  ka_process :: bool

definition new_task_acc :: task_acc where
  "new_task_acc = \<lparr>ka_runs = 0, ka_passes = 0, ka_score = 0, ka_profiles = [], ka_signatures = [], ka_process = False\<rparr>"

definition calibrate_run :: "db \<Rightarrow> run_row \<Rightarrow> task_acc \<Rightarrow> task_acc" where
  "calibrate_run s r a =
     (let values = run_values s r;
          a = a\<lparr>ka_runs := Suc (ka_runs a), ka_passes := ka_passes a + metric_or_zero values ''success'',
                ka_score := ka_score a + history_scoreOf values, ka_profiles := List.insert (rr_profile_hash r) (ka_profiles a)\<rparr>
      in case processSignature values of
           None \<Rightarrow> a
         | Some sg \<Rightarrow> a\<lparr>ka_process := True, ka_signatures := ka_signatures a @ [sg]\<rparr>)"

record task_calibration =
  tc_suite :: string
  tc_task :: string
  tc_runs :: nat
  tc_profiles :: nat
  tc_pass_rate :: real
  tc_score :: real
  tc_verdict :: cal_verdict
  tc_signatures :: nat
  tc_variance :: bool
  tc_known :: bool

definition calibration_of :: "string \<times> string \<Rightarrow> task_acc \<Rightarrow> task_calibration" where
  "calibration_of key a =
     (let passRate = ka_passes a / real (ka_runs a); n = distinctSignatures (ka_signatures a)
      in \<lparr>tc_suite = fst key, tc_task = snd key, tc_runs = ka_runs a, tc_profiles = length (ka_profiles a),
          tc_pass_rate = passRate, tc_score = ka_score a / real (ka_runs a), tc_verdict = classify passRate (ka_runs a),
          tc_signatures = n, tc_variance = (1 < n), tc_known = ka_process a\<rparr>)"

record calibration_report =
  cr_tasks :: "task_calibration list"
  cr_informative :: nat
  cr_saturated :: nat
  cr_always_fails :: nat
  cr_unknown :: nat
  cr_no_variance :: nat

definition report_task :: "task_calibration \<Rightarrow> calibration_report \<Rightarrow> calibration_report" where
  "report_task t rep =
     (let rep = (if tc_known t \<and> 2 \<le> tc_profiles t \<and> tc_signatures t = 1
                 then rep\<lparr>cr_no_variance := Suc (cr_no_variance rep)\<rparr> else rep);
          rep = (case tc_verdict t of
                   VerdictInformative \<Rightarrow> rep\<lparr>cr_informative := Suc (cr_informative rep)\<rparr>
                 | VerdictSaturated \<Rightarrow> rep\<lparr>cr_saturated := Suc (cr_saturated rep)\<rparr>
                 | VerdictAlwaysFails \<Rightarrow> rep\<lparr>cr_always_fails := Suc (cr_always_fails rep)\<rparr>
                 | VerdictUnknown \<Rightarrow> rep\<lparr>cr_unknown := Suc (cr_unknown rep)\<rparr>)
      in rep\<lparr>cr_tasks := cr_tasks rep @ [t]\<rparr>)"

definition Calibration :: "string \<Rightarrow> db \<Rightarrow> calibration_report" where
  "Calibration suite s =
     (let runs = filter (in_suite suite) (ListRuns 0 [] s);
          tasks = accum task_key (\<lambda>_. new_task_acc) (calibrate_run s) runs [];
          order = sort_by key_before (map fst tasks)
      in fold (\<lambda>key. report_task (calibration_of key (getd new_task_acc tasks key))) order
           \<lparr>cr_tasks = [], cr_informative = 0, cr_saturated = 0, cr_always_fails = 0, cr_unknown = 0, cr_no_variance = 0\<rparr>)"

section \<open>Grouped runs\<close>

lemma accum_items:
  "accum key init f xs [] = map (\<lambda>k. (k, fold f (filter (\<lambda>x. key x = k) xs) (init k))) (dedup (map key xs))"
  (is "?m = map ?g ?ks")
proof (rule nth_equalityI)
  have keys: "map fst ?m = ?ks" by (rule keys_accum_order)
  then show len: "length ?m = length (map ?g ?ks)" by (metis length_map)
  show "?m ! i = map ?g ?ks ! i" if i: "i < length ?m" for i
  proof -
    have "fst (?m ! i) = ?ks ! i" "snd (?m ! i) = map (\<lambda>k. fold f (filter (\<lambda>x. key x = k) xs) (init k)) ?ks ! i"
      using arg_cong [OF keys, of "\<lambda>l. l ! i"] arg_cong [OF accum_values [of key init f xs], of "\<lambda>l. l ! i"] i by simp_all
    then show ?thesis using i len by (simp add: prod_eq_iff)
  qed
qed

lemma count_Suc: "fold (\<lambda>_. Suc) xs n = n + length xs"
  by (induction xs arbitrary: n) auto

lemma getd_count: "getd 0 (accum key (\<lambda>_. 0) (\<lambda>_. Suc) xs []) k = length (filter (\<lambda>x. key x = k) xs)"
  using getd_accum [of "\<lambda>_. 0" k key "\<lambda>_. Suc" xs "[]"] by (simp add: count_Suc)


lemma sum_filter_keys:
  "distinct ks \<Longrightarrow> (\<Sum>k\<leftarrow>ks. \<Sum>r\<leftarrow>filter (\<lambda>r. f r = k) rs. g r) = (\<Sum>r\<leftarrow>filter (\<lambda>r. f r \<in> set ks) rs. g r)"
  for g :: "'r \<Rightarrow> 'm :: comm_monoid_add"
proof (induction ks)
  case (Cons k ks)
  have "(\<Sum>r\<leftarrow>filter (\<lambda>r. f r = k \<or> f r \<in> set ks) rs. g r) = (\<Sum>r\<leftarrow>filter (\<lambda>r. f r = k) rs. g r) + (\<Sum>r\<leftarrow>filter (\<lambda>r. f r \<in> set ks) rs. g r)"
    using Cons.prems by (induction rs) (auto simp: ac_simps)
  then show ?case using Cons by simp
qed simp

lemma sum_list_ones: "(\<Sum>r\<leftarrow>rs. 1) = length rs"
  by (induction rs) auto

lemma length_filter_keys:
  "distinct ks \<Longrightarrow> (\<Sum>k\<leftarrow>ks. length (filter (\<lambda>r. f r = k) rs)) = length (filter (\<lambda>r. f r \<in> set ks) rs)"
  using sum_filter_keys [where g = "\<lambda>_. 1 :: nat" and f = f and ks = ks and rs = rs] unfolding sum_list_ones .

section \<open>Signatures as partial functions\<close>

lemma key_before_less: "key_before = (\<lambda>a b. a < b)"
  by (intro ext) (auto simp: key_before_def less_prod_def')

lemma sort_keys: "sort_by key_before ks = sort ks"
  unfolding key_before_less using sort_by_key [of "\<lambda>x. x" ks] by (simp add: sort_by_key)

lemma signature_put_all:
  "distinct names \<Longrightarrow>
     map_of (fold (\<lambda>name sg. case map_of values name of None \<Rightarrow> sg | Some v \<Rightarrow> put name (f v) sg) names sg) n
     = (if n \<in> set names \<and> map_of values n \<noteq> None then map_option f (map_of values n) else map_of sg n)"
  by (induction names arbitrary: sg) (auto simp: go_map split: option.splits)

lemma signature_wf:
  "map_wf sg \<Longrightarrow> map_wf (fold (\<lambda>name sg. case map_of values name of None \<Rightarrow> sg | Some v \<Rightarrow> put name (f v) sg) names sg)"
  by (induction names arbitrary: sg) (auto split: option.splits)

definition recorded_signature :: "(string, real) gomap \<Rightarrow> string \<Rightarrow> int option" where
  "recorded_signature values name = (if name \<in> set processMetrics then map_option trunc_int (map_of values name) else None)"

lemma processSignature_map:
  "processSignature values = Some sg \<Longrightarrow> map_of sg = recorded_signature values \<and> map_wf sg \<and> sg \<noteq> []"
proof -
  assume a: "processSignature values = Some sg"
  then have sg: "sg = fold (\<lambda>name sg. case map_of values name of None \<Rightarrow> sg | Some v \<Rightarrow> put name (trunc_int v) sg) processMetrics []"
      "sg \<noteq> []"
    by (auto simp: processSignature_def Let_def split: if_splits)
  have d: "distinct processMetrics" by (simp add: processMetrics_def)
  have "map_of sg n = recorded_signature values n" for n
    unfolding sg(1) signature_put_all [OF d] by (simp add: recorded_signature_def)
  then show ?thesis using sg signature_wf [of "[]"] by auto
qed

lemma processSignature_None: "processSignature values = None \<longleftrightarrow> recorded_signature values = Map.empty"
proof -
  let ?sg = "fold (\<lambda>name sg. case map_of values name of None \<Rightarrow> sg | Some v \<Rightarrow> put name (trunc_int v) sg) processMetrics []"
  have d: "distinct processMetrics" by (simp add: processMetrics_def)
  have "map_of ?sg n = recorded_signature values n" for n
    unfolding signature_put_all [OF d] by (simp add: recorded_signature_def)
  then have m: "map_of ?sg = recorded_signature values" by (rule ext)
  have "processSignature values = None \<longleftrightarrow> ?sg = []" by (simp add: processSignature_def Let_def)
  then show ?thesis unfolding m [symmetric] by simp
qed

lemma isRestriction_le: "map_wf sg \<Longrightarrow> isRestriction sg other \<longleftrightarrow> map_of sg \<subseteq>\<^sub>m map_of other"
  unfolding isRestriction_def map_le_def list_all_iff map_wf_def
  by (auto simp: dom_map_of_conv_image_fst)

definition is_signature :: "signature \<Rightarrow> bool" where
  "is_signature sg \<longleftrightarrow> map_wf sg \<and> fst ` set sg \<subseteq> set processMetrics"

lemma processSignature_ok: "processSignature values = Some sg \<Longrightarrow> is_signature sg"
proof -
  assume "processSignature values = Some sg"
  note p = processSignature_map [OF this]
  have "fst ` set sg = dom (recorded_signature values)" using p by (simp add: dom_map_of_conv_image_fst [symmetric])
  then show ?thesis using p by (auto simp: is_signature_def recorded_signature_def split: if_splits)
qed

lemma signature_part_iff: "x \<in> set (signature_part sg name) \<longleftrightarrow> (\<exists>v. map_of sg name = Some v \<and> x = name @ ''='' @ show_int v)"
  by (cases "map_of sg name") (auto simp: signature_part_def)

lemma show_nat_char: "c \<in> set (show_nat n) \<Longrightarrow> c \<noteq> CHR '','' \<and> c \<noteq> CHR ''-''"
  using show_nat_digits [of c n] by (auto simp: byte_def)

lemma show_int_inj: "show_int a = show_int b \<Longrightarrow> a = b"
proof -
  assume eq: "show_int a = show_int b"
  have no: "show_nat n \<noteq> CHR ''-'' # xs" for n xs using show_nat_char [of "CHR ''-''" n] by (metis list.set_intros(1))
  show ?thesis
  proof (cases "a < 0 \<longleftrightarrow> b < 0")
    case True
    then show ?thesis using eq by (cases "a < 0") (auto simp: show_int_def)
  next
    case False
    then show ?thesis using eq no no [symmetric] by (auto simp: show_int_def split: if_splits)
  qed
qed

lemma show_int_no_comma: "CHR '','' \<notin> set (show_int n)"
  using show_nat_char by (auto simp: show_int_def)

lemma metric_char: "name \<in> set processMetrics \<Longrightarrow> CHR ''='' \<notin> set name \<and> CHR '','' \<notin> set name"
  by (auto simp: processMetrics_def)

lemma eq_sign_split:
  assumes "CHR ''='' \<notin> set a" "CHR ''='' \<notin> set b" "a @ ''='' @ x = b @ ''='' @ y"
  shows "a = b \<and> x = y"
proof -
  have "split_on (CHR ''='') (a @ CHR ''='' # x) = split_on (CHR ''='') (b @ CHR ''='' # y)" using assms(3) by simp
  then have "a = b" using assms(1,2) by (simp add: split_on_append)
  then show ?thesis using assms(3) by simp
qed

lemma signatureKey_inj:
  assumes "is_signature a" "is_signature b" "signatureKey a = signatureKey b"
  shows "map_of a = map_of b"
proof -
  let ?parts = "\<lambda>sg. concat (map (signature_part sg) processMetrics)"
  have part: "CHR '','' \<notin> set w \<and> w \<noteq> []" if "w \<in> set (?parts sg)" for w sg
    using that metric_char show_int_no_comma by (auto simp: signature_part_iff)
  have parts: "?parts a = ?parts b"
  proof (cases "?parts a = [] \<or> ?parts b = []")
    case True
    have "join '','' ws = [] \<Longrightarrow> \<forall>w\<in>set ws. w \<noteq> [] \<Longrightarrow> ws = []" for ws by (cases "('','', ws)" rule: join.cases) auto
    then show ?thesis using True assms(3) part unfolding signatureKey_def by (metis join.simps(1))
  next
    case False
    then show ?thesis using assms(3) part unfolding signatureKey_def by (intro join_inj [where c = "CHR '',''"]) auto
  qed
  have "map_of sg n = Some v \<longleftrightarrow> n \<in> set processMetrics \<and> n @ ''='' @ show_int v \<in> set (?parts sg)" if "is_signature sg" for sg n v
  proof
    assume "map_of sg n = Some v"
    moreover from this have "n \<in> fst ` set sg" by (metis fst_conv image_eqI map_of_SomeD)
    ultimately show "n \<in> set processMetrics \<and> n @ ''='' @ show_int v \<in> set (?parts sg)"
      using that by (fastforce simp: is_signature_def signature_part_iff)
  next
    assume r: "n \<in> set processMetrics \<and> n @ ''='' @ show_int v \<in> set (?parts sg)"
    then obtain m w where m: "m \<in> set processMetrics" "map_of sg m = Some w" "n @ ''='' @ show_int v = m @ ''='' @ show_int w"
      by (auto simp: signature_part_iff)
    then have "n = m \<and> show_int v = show_int w" using r metric_char by (intro eq_sign_split) auto
    then show "map_of sg n = Some v" using m(2) show_int_inj by blast
  qed
  from this [OF assms(1)] this [OF assms(2)] have "map_of a n = Some v \<longleftrightarrow> map_of b n = Some v" for n v unfolding parts by blast
  then show ?thesis by (intro ext) (metis not_Some_eq)
qed

text \<open>The number of ways of working is the number of the maximal signatures.\<close>

definition maximal_in :: "('k \<rightharpoonup> 'v) set \<Rightarrow> ('k \<rightharpoonup> 'v) set" where
  "maximal_in M = {m \<in> M. \<forall>m'\<in>M. m \<subseteq>\<^sub>m m' \<longrightarrow> m' \<subseteq>\<^sub>m m}"

lemma list_ex_dedup: "list_ex P (dedup (map f xs)) \<longleftrightarrow> (\<exists>x\<in>set xs. P (f x))"
  by (simp add: list_ex_iff)

lemma distinctSignatures_maximal:
  assumes "\<forall>sg\<in>set sigs. is_signature sg"
  shows "distinctSignatures sigs = card (maximal_in (map_of ` set sigs))"
proof -
  let ?uniq = "put_all (map (\<lambda>sg. (signatureKey sg, sg)) sigs) []" and ?order = "dedup (map signatureKey sigs)"
  let ?at = "\<lambda>key. getd [] ?uniq key"
  have at: "is_signature (?at (signatureKey sg)) \<and> map_of (?at (signatureKey sg)) = map_of sg" if sg: "sg \<in> set sigs" for sg
  proof -
    have "\<exists>sg'\<in>set sigs. signatureKey sg' = signatureKey sg \<and> map_of ?uniq (signatureKey sg) = Some sg'"
      using sg
    proof (induction sigs rule: rev_induct)
      case (snoc x xs)
      have "put_all (map (\<lambda>sg. (signatureKey sg, sg)) (xs @ [x])) [] = put (signatureKey x) x (put_all (map (\<lambda>sg. (signatureKey sg, sg)) xs) [])"
        by (simp add: put_all_def)
      then show ?case using snoc by (cases "signatureKey x = signatureKey sg") (auto simp: go_map)
    qed simp
    then obtain sg' where "sg' \<in> set sigs" "signatureKey sg' = signatureKey sg" "?at (signatureKey sg) = sg'" by (auto simp: getd_def)
    then show ?thesis using assms sg signatureKey_inj by blast
  qed
  let ?good = "\<lambda>key. \<not> list_ex (\<lambda>other. other \<noteq> key \<and> isRestriction (?at key) (?at other) \<and> \<not> isRestriction (?at other) (?at key)) ?order"
  have good: "?good (signatureKey sg) \<longleftrightarrow> map_of sg \<in> maximal_in (map_of ` set sigs)" if sg: "sg \<in> set sigs" for sg
  proof -
    have le: "isRestriction (?at (signatureKey x)) (?at (signatureKey y)) \<longleftrightarrow> map_of x \<subseteq>\<^sub>m map_of y" if "x \<in> set sigs" "y \<in> set sigs" for x y
      using at [OF that(1)] at [OF that(2)] by (simp add: isRestriction_le is_signature_def)
    have key: "map_of x = map_of y" if "x \<in> set sigs" "y \<in> set sigs" "signatureKey x = signatureKey y" for x y
      using at [OF that(1)] at [OF that(2)] that(3) by simp
    have other: "signatureKey y \<noteq> signatureKey sg \<and> isRestriction (?at (signatureKey sg)) (?at (signatureKey y)) \<and>
        \<not> isRestriction (?at (signatureKey y)) (?at (signatureKey sg)) \<longleftrightarrow> map_of sg \<subseteq>\<^sub>m map_of y \<and> \<not> map_of y \<subseteq>\<^sub>m map_of sg"
      if y: "y \<in> set sigs" for y
      unfolding le [OF sg y] le [OF y sg] using key [OF y sg] by (metis map_le_refl)
    have "?good (signatureKey sg) \<longleftrightarrow> \<not> (\<exists>y\<in>set sigs. map_of sg \<subseteq>\<^sub>m map_of y \<and> \<not> map_of y \<subseteq>\<^sub>m map_of sg)"
      by (simp only: list_ex_dedup other cong: bex_cong)
    then show ?thesis using sg unfolding maximal_in_def by blast
  qed
  have "distinctSignatures sigs = card (set (filter ?good ?order))"
    unfolding distinctSignatures_def Let_def by (metis (no_types, lifting) distinct_card distinct_dedup distinct_filter)
  also have "set (filter ?good ?order) = signatureKey ` {sg \<in> set sigs. map_of sg \<in> maximal_in (map_of ` set sigs)}"
    using good by auto
  also have "card \<dots> = card (map_of ` {sg \<in> set sigs. map_of sg \<in> maximal_in (map_of ` set sigs)})"
  proof (rule bij_betw_same_card)
    define keyed where "keyed = (\<lambda>key. map_of (?at key))"
    have "inj_on keyed (signatureKey ` {sg \<in> set sigs. map_of sg \<in> maximal_in (map_of ` set sigs)})"
    proof (rule inj_onI, elim imageE, simp only: keyed_def)
      fix x y assume "x \<in> {sg \<in> set sigs. map_of sg \<in> maximal_in (map_of ` set sigs)}" "y \<in> {sg \<in> set sigs. map_of sg \<in> maximal_in (map_of ` set sigs)}"
        "map_of (?at (signatureKey x)) = map_of (?at (signatureKey y))"
      then have "map_of x = map_of y" using at by simp
      then show "signatureKey x = signatureKey y" unfolding signatureKey_def signature_part_def by simp
    qed
    moreover have "keyed ` signatureKey ` A = map_of ` A" if "A \<subseteq> set sigs" for A
      unfolding image_image keyed_def using that at by (intro image_cong) auto
    ultimately show "bij_betw keyed (signatureKey ` {sg \<in> set sigs. map_of sg \<in> maximal_in (map_of ` set sigs)})
        (map_of ` {sg \<in> set sigs. map_of sg \<in> maximal_in (map_of ` set sigs)})"
      unfolding bij_betw_def by auto
  qed
  also have "map_of ` {sg \<in> set sigs. map_of sg \<in> maximal_in (map_of ` set sigs)} = maximal_in (map_of ` set sigs)"
    by (auto simp: maximal_in_def)
  finally show ?thesis .
qed

lemma above_maximal:
  assumes "finite M" "m \<in> M"
  shows "\<exists>m'\<in>maximal_in M. m \<subseteq>\<^sub>m m'"
proof -
  let ?up = "\<lambda>x. {y \<in> M. x \<subseteq>\<^sub>m y}"
  have "\<exists>m'\<in>M. m \<subseteq>\<^sub>m m' \<and> (\<forall>y\<in>M. m' \<subseteq>\<^sub>m y \<longrightarrow> y = m')"
    using assms(2)
  proof (induction "card (?up m)" arbitrary: m rule: less_induct)
    case less
    show ?case
    proof (cases "\<forall>y\<in>M. m \<subseteq>\<^sub>m y \<longrightarrow> y = m")
      case False
      then obtain y where y: "y \<in> M" "m \<subseteq>\<^sub>m y" "y \<noteq> m" by blast
      then have "?up y \<subset> ?up m" using less.prems by (auto intro: map_le_trans dest: map_le_antisym)
      then have "card (?up y) < card (?up m)" using assms(1) by (intro psubset_card_mono) auto
      from less.hyps [OF this y(1)] y(2) show ?thesis by (meson map_le_trans)
    qed (use less.prems in \<open>intro bexI [of _ m], auto\<close>)
  qed
  then show ?thesis by (auto simp: maximal_in_def)
qed

lemma several_maximal:
  assumes "finite M"
  shows "1 < card (maximal_in M) \<longleftrightarrow> M \<noteq> {} \<and> \<not> (\<exists>m\<in>M. \<forall>m'\<in>M. m' \<subseteq>\<^sub>m m)"
proof (cases "M = {}")
  case False
  then have ne: "maximal_in M \<noteq> {}" using above_maximal [OF assms] by blast
  have fin: "finite (maximal_in M)" using assms by (auto simp: maximal_in_def)
  have "card (maximal_in M) = 1 \<longleftrightarrow> (\<exists>m\<in>M. \<forall>m'\<in>M. m' \<subseteq>\<^sub>m m)"
  proof
    assume "card (maximal_in M) = 1"
    then obtain m where m: "maximal_in M = {m}" by (meson card_1_singletonE)
    then show "\<exists>m\<in>M. \<forall>m'\<in>M. m' \<subseteq>\<^sub>m m" 
    proof (intro bexI [of _ m] ballI)
      show "m \<in> M" using m unfolding maximal_in_def by blast
      show "m' \<subseteq>\<^sub>m m" if "m' \<in> M" for m' using above_maximal [OF assms that] m by simp
    qed
  next
    assume "\<exists>m\<in>M. \<forall>m'\<in>M. m' \<subseteq>\<^sub>m m"
    then obtain m where m: "m \<in> M" "\<And>m'. m' \<in> M \<Longrightarrow> m' \<subseteq>\<^sub>m m" by blast
    have "x = m" if "x \<in> maximal_in M" for x using that m map_le_antisym [of x m] unfolding maximal_in_def by blast
    moreover have "m \<in> maximal_in M" using m unfolding maximal_in_def by blast
    ultimately have "maximal_in M = {m}" by blast
    then show "card (maximal_in M) = 1" by simp
  qed
  moreover have "card (maximal_in M) \<noteq> 0" using ne fin by simp
  then have "1 < card (maximal_in M) \<longleftrightarrow> card (maximal_in M) \<noteq> 1" by linarith
  ultimately show ?thesis using False by blast
qed (simp add: maximal_in_def)

section \<open>The report\<close>

definition counted_runs :: "string \<Rightarrow> db \<Rightarrow> run_row list" where
  "counted_runs suite s = filter (in_suite suite) (ListRuns 0 [] s)"

definition task_runs :: "string \<Rightarrow> db \<Rightarrow> string \<times> string \<Rightarrow> run_row list" where
  "task_runs suite s key = filter (\<lambda>r. task_key r = key) (counted_runs suite s)"

lemma calibrated:
  "fold (calibrate_run s) rs a =
     a\<lparr>ka_runs := ka_runs a + length rs, ka_passes := ka_passes a + (\<Sum>r\<leftarrow>rs. metric_or_zero (run_values s r) ''success''),
       ka_score := ka_score a + (\<Sum>r\<leftarrow>rs. history_scoreOf (run_values s r)), ka_profiles := fold List.insert (map rr_profile_hash rs) (ka_profiles a),
       ka_signatures := ka_signatures a @ List.map_filter (\<lambda>r. processSignature (run_values s r)) rs,
       ka_process := (ka_process a \<or> List.map_filter (\<lambda>r. processSignature (run_values s r)) rs \<noteq> [])\<rparr>"
proof (induction rs arbitrary: a)
  case (Cons r rs)
  then show ?case
    by (cases "processSignature (run_values s r)") (simp_all add: calibrate_run_def Let_def map_filter_simps algebra_simps)
qed (simp add: map_filter_simps)

lemma fold_insert_set: "set (fold List.insert xs ys) = set xs \<union> set ys" "distinct ys \<Longrightarrow> distinct (fold List.insert xs ys)"
  by (induction xs arbitrary: ys) auto

lemma length_fold_insert: "length (fold List.insert xs []) = card (set xs)"
  using distinct_card [OF fold_insert_set(2) [of "[]" xs]] by (simp add: fold_insert_set)

definition task_calibration_of :: "string \<Rightarrow> db \<Rightarrow> string \<times> string \<Rightarrow> task_calibration" where
  "task_calibration_of suite s key = calibration_of key (fold (calibrate_run s) (task_runs suite s key) new_task_acc)"

lemma report_tasks:
  "cr_tasks (fold (\<lambda>key. report_task (f key)) ks rep) = cr_tasks rep @ map f ks"
  by (induction ks arbitrary: rep) (auto simp: report_task_def Let_def split: cal_verdict.split)

definition verdict_total :: "calibration_report \<Rightarrow> nat" where
  "verdict_total rep = cr_informative rep + cr_saturated rep + cr_always_fails rep + cr_unknown rep"

lemma report_total: "verdict_total (fold (\<lambda>key. report_task (f key)) ks rep) = verdict_total rep + length ks"
  by (induction ks arbitrary: rep) (auto simp: report_task_def verdict_total_def Let_def split: cal_verdict.split)

lemma Calibration_eq:
  "cr_tasks (Calibration suite s) = map (task_calibration_of suite s) (sorted_list_of_set (task_key ` set (counted_runs suite s)))"
  "verdict_total (Calibration suite s) = length (cr_tasks (Calibration suite s))"
proof -
  let ?tasks = "accum task_key (\<lambda>_. new_task_acc) (calibrate_run s) (counted_runs suite s) []"
  have ks: "sort_by key_before (map fst ?tasks) = sorted_list_of_set (task_key ` set (counted_runs suite s))"
    unfolding sort_keys keys_accum_order by (simp add: sort_dedup)
  have at: "calibration_of k (getd new_task_acc ?tasks k) = task_calibration_of suite s k" for k
    using getd_accum [of "\<lambda>_. new_task_acc" k task_key "calibrate_run s" "counted_runs suite s" "[]"]
    by (simp add: task_calibration_of_def task_runs_def)
  show "cr_tasks (Calibration suite s) = map (task_calibration_of suite s) (sorted_list_of_set (task_key ` set (counted_runs suite s)))"
    unfolding Calibration_def Let_def counted_runs_def [symmetric] report_tasks ks at by simp
  show "verdict_total (Calibration suite s) = length (cr_tasks (Calibration suite s))"
    unfolding Calibration_def Let_def counted_runs_def [symmetric] report_tasks report_total by (simp add: verdict_total_def)
qed

text \<open>What a run shows of how it worked: the process metrics it recorded.\<close>

definition behaviour :: "db \<Rightarrow> run_row \<Rightarrow> (string \<rightharpoonup> int)" where
  "behaviour s r = recorded_signature (run_values s r)"

lemma behaviours:
  "map_of ` set (List.map_filter (\<lambda>r. processSignature (run_values s r)) rs) = {behaviour s r | r. r \<in> set rs \<and> behaviour s r \<noteq> Map.empty}"
  unfolding behaviour_def
proof (induction rs)
  case (Cons r rs)
  show ?case
  proof (cases "processSignature (run_values s r)")
    case None
    then show ?thesis using Cons processSignature_None [of "run_values s r"] by (auto simp: map_filter_simps)
  next
    case (Some sg)
    then have "recorded_signature (run_values s r) \<noteq> Map.empty" "map_of sg = recorded_signature (run_values s r)"
      using processSignature_None processSignature_map by (metis option.distinct(1), blast)
    then show ?thesis using Cons Some by (auto simp: map_filter_simps)
  qed
qed (simp add: map_filter_simps)


lemma image_kept: "{f r | r. r \<in> A \<and> f r \<noteq> z} = {m \<in> f ` A. m \<noteq> z}"
  by blast

lemma Collect_kept: "a \<noteq> z \<Longrightarrow> b \<noteq> z \<Longrightarrow> {m \<in> {a, b}. m \<noteq> z} = {a, b}"
  by blast

definition partial_db :: db where
  "partial_db = empty_db\<lparr>db_runs := map (run_params [])
       [zero_run\<lparr>rr_id := ''a'', rr_task := ''t'', rr_started := ''1''\<rparr>, zero_run\<lparr>rr_id := ''b'', rr_task := ''t'', rr_started := ''2''\<rparr>],
     db_metrics := [\<lparr>mq_run = ''a'', mq_name = ''tool_calls_total'', mq_num = Some 3, mq_text = None, mq_unit = None\<rparr>,
       \<lparr>mq_run = ''b'', mq_name = ''retries'', mq_num = Some 0, mq_text = None, mq_unit = None\<rparr>]\<rparr>"


end
