(* ===== verification/Environ.thy ===== *)
theory Environ
  imports SliceSort Fmt
begin

text \<open>
  \<open>internal/runner/environment.go\<close> and \<open>gitEnv\<close> of \<open>gitsource.go\<close>: the environment a child process
  gets. An environment is the list of its \<open>KEY=VALUE\<close> entries, as \<open>os.Environ\<close> returns it.
\<close>

record env_policy =
  ep_inherit :: bool
  ep_pass :: "string list"

definition RunnerEnvironment :: "string \<Rightarrow> string \<Rightarrow> nat \<Rightarrow> string" where
  "RunnerEnvironment goos goarch cpus =
     goos @ ''/'' @ goarch @ [CHR '' '', CHR 0xC2, CHR 0xB7, CHR '' ''] @ show_nat cpus @ '' CPU''"

definition envAllowlist :: "string list" where
  "envAllowlist = [''HOME'', ''PATH'', ''USER'', ''LOGNAME'', ''SHELL'', ''TMPDIR'', ''TEMP'', ''TMP'',
     ''LANG'', ''TERM'', ''TZ'']"

definition envOverrides :: "string list" where
  "envOverrides = [''GIT_TERMINAL_PROMPT=0'', ''GIT_PAGER=cat'', ''PAGER=cat'', ''NO_COLOR=1'', ''OCBENCH=1'',
     ''PYTHONDONTWRITEBYTECODE=1'']"

definition envName :: "string \<Rightarrow> string" where
  "envName entry = fst (cut (CHR ''='') entry)"

definition allowed_name :: "env_policy \<Rightarrow> string \<Rightarrow> bool" where
  "allowed_name policy name \<longleftrightarrow>
     ep_inherit policy \<or> name \<in> set (envAllowlist @ ep_pass policy) \<or> has_prefix name ''LC_''"

definition merge_entry :: "env_policy \<Rightarrow> string \<Rightarrow> (string, string) gomap \<Rightarrow> (string, string) gomap" where
  "merge_entry policy entry merged =
     (if entry = [] then merged
      else if \<not> allowed_name policy (envName entry) then merged
      else put (envName entry) entry merged)"

definition BuildEnv :: "string list \<Rightarrow> env_policy \<Rightarrow> string list" where
  "BuildEnv base policy =
     (let merged = fold (merge_entry policy) base [];
          merged = fold (\<lambda>entry m. put (envName entry) entry m) envOverrides merged
      in sort (map snd merged))"

fun dedupe_after :: "string \<Rightarrow> string list \<Rightarrow> string list" where
  "dedupe_after prev [] = []"
| "dedupe_after prev (p # ps) = (if p = prev then dedupe_after prev ps else p # dedupe_after p ps)"

definition dedupeSorted :: "string list \<Rightarrow> string list" where
  "dedupeSorted xs = (case xs of [] \<Rightarrow> [] | p # ps \<Rightarrow> p # dedupe_after p ps)"

definition EnvNames :: "string list \<Rightarrow> string list" where
  "EnvNames env = dedupeSorted (sort (map envName (filter (\<lambda>e. e \<noteq> []) env)))"

definition ApplyExtraEnv :: "string list \<Rightarrow> string list \<Rightarrow> string list" where
  "ApplyExtraEnv env extra =
     (if extra = [] then env
      else let overlaid = fold (\<lambda>entry m. if entry = [] then m else put (envName entry) entry m) extra [];
               out = filter (\<lambda>entry. entry \<noteq> [] \<and> map_of overlaid (envName entry) = None) env @ map snd overlaid
           in dedupeSorted (sort out))"

definition gitEnv :: "string list \<Rightarrow> string list \<Rightarrow> string list" where
  "gitEnv base extra = filter (\<lambda>kv. \<not> has_prefix kv ''GIT_'') base @ [''GIT_TERMINAL_PROMPT=0''] @ extra"

section \<open>Sorted lists without repetition\<close>

lemma dedupe_after_adj: "prev # dedupe_after prev ps = remdups_adj (prev # ps)"
  by (induction prev ps rule: dedupe_after.induct) auto

lemma dedupeSorted_adj: "dedupeSorted xs = remdups_adj xs"
  by (cases xs) (simp_all add: dedupeSorted_def dedupe_after_adj)

lemma distinct_remdups_adj_sorted: "sorted xs \<Longrightarrow> distinct (remdups_adj xs)" for xs :: "'a::linorder list"
  by (induction xs rule: remdups_adj.induct) auto

lemma dedupe_sort [simp]:
  "set (dedupeSorted (sort xs)) = set xs" "sorted (dedupeSorted (sort xs))" "distinct (dedupeSorted (sort xs))"
  by (simp_all add: dedupeSorted_adj sorted_remdups_adj distinct_remdups_adj_sorted)

lemma dedupe_sort_set: "dedupeSorted (sort xs) = sorted_list_of_set (set xs)"
  by (rule sorted_distinct_set_unique) simp_all

section \<open>The sandbox\<close>

text \<open>The last entry of a list for a name.\<close>

definition last_entry :: "string list \<Rightarrow> string \<Rightarrow> string option" where
  "last_entry es name = find (\<lambda>e. e \<noteq> [] \<and> envName e = name) (rev es)"

lemma last_entry_Nil [simp]: "last_entry [] n = None"
  by (simp add: last_entry_def)

lemma last_entry_snoc:
  "last_entry (es @ [e]) n = (if e \<noteq> [] \<and> envName e = n then Some e else last_entry es n)"
  by (simp add: last_entry_def)

lemma last_entry_Some: "last_entry es n = Some e \<Longrightarrow> e \<in> set es \<and> e \<noteq> [] \<and> envName e = n"
  by (auto simp: last_entry_def find_Some_iff) (metis nth_mem length_rev set_rev)

lemma last_entry_exists: "e \<in> set es \<Longrightarrow> e \<noteq> [] \<Longrightarrow> last_entry es (envName e) \<noteq> None"
  by (auto simp: last_entry_def find_None_iff)

lemma merged_lookup:
  "map_of (fold (merge_entry policy) base []) n = (if allowed_name policy n then last_entry base n else None)"
proof (induction base rule: rev_induct)
  case (snoc e base)
  then show ?case by (auto simp: merge_entry_def map_of_put last_entry_snoc)
qed simp

lemma merged_wf: "map_wf (fold (merge_entry policy) base [])"
  by (induction base rule: rev_induct) (simp_all add: merge_entry_def)

lemma overlaid_lookup:
  "map_of (fold (\<lambda>entry m. if entry = [] then m else put (envName entry) entry m) extra []) n = last_entry extra n"
  by (induction extra rule: rev_induct) (simp_all add: map_of_put last_entry_snoc)

lemma overlaid_wf: "map_wf (fold (\<lambda>entry m. if entry = [] then m else put (envName entry) entry m) extra [])"
  by (induction extra rule: rev_induct) simp_all

text \<open>A map whose entries name their keys: its values are what the lookups return.\<close>

lemma map_snd_lookup: "map_wf m \<Longrightarrow> set (map snd m) = {e. \<exists>n. map_of m n = Some e}"
  by (force simp: map_wf_def)

lemma override_names: "map envName envOverrides =
    [''GIT_TERMINAL_PROMPT'', ''GIT_PAGER'', ''PAGER'', ''NO_COLOR'', ''OCBENCH'', ''PYTHONDONTWRITEBYTECODE'']"
  by code_simp

lemma override_names_distinct: "distinct (map envName envOverrides)"
  unfolding override_names by simp

lemma put_entries_lookup:
  "[] \<notin> set es \<Longrightarrow> map_of (fold (\<lambda>entry m. put (envName entry) entry m) es m) n
     = (case last_entry es n of Some e \<Rightarrow> Some e | None \<Rightarrow> map_of m n)"
  by (induction es rule: rev_induct) (auto simp: map_of_put last_entry_snoc)

lemma put_entries_wf: "map_wf m \<Longrightarrow> map_wf (fold (\<lambda>entry m. put (envName entry) entry m) es m)"
  by (induction es arbitrary: m) simp_all

definition built_lookup :: "string list \<Rightarrow> env_policy \<Rightarrow> string \<Rightarrow> string option" where
  "built_lookup base policy n =
     (case last_entry envOverrides n of
        Some e \<Rightarrow> Some e
      | None \<Rightarrow> if allowed_name policy n then last_entry base n else None)"

lemma override_nonempty: "[] \<notin> set envOverrides"
  by (simp add: envOverrides_def)

lemma built_lookup_name: "built_lookup base policy n = Some e \<Longrightarrow> envName e = n \<and> e \<noteq> []"
  by (auto simp: built_lookup_def dest: last_entry_Some split: option.splits if_splits)

lemma distinct_sort_names:
  assumes "map_wf m" "\<And>n e. map_of m n = Some e \<Longrightarrow> envName e = n"
  shows "distinct (map envName (sort (map snd m)))"
proof -
  have "map envName (map snd m) = map fst m"
    using assms by (auto simp: map_wf_def)
  then have "mset (map envName (sort (map snd m))) = mset (map fst m)" by (metis mset_map mset_sort)
  then show ?thesis using assms(1) by (metis distinct_count_atmost_1 mset_eq_setD map_wf_def mset_eq_imp_distinct_iff)
qed

lemma BuildEnv_lookup:
  "set (BuildEnv base policy) = {e. \<exists>n. built_lookup base policy n = Some e}"
  "distinct (map envName (BuildEnv base policy))" "sorted (BuildEnv base policy)"
proof -
  let ?m = "fold (\<lambda>entry m. put (envName entry) entry m) envOverrides (fold (merge_entry policy) base [])"
  have wf: "map_wf ?m" by (intro put_entries_wf merged_wf)
  have look: "map_of ?m n = built_lookup base policy n" for n
    by (simp add: put_entries_lookup override_nonempty merged_lookup built_lookup_def split: option.splits)
  show "set (BuildEnv base policy) = {e. \<exists>n. built_lookup base policy n = Some e}"
    using map_snd_lookup [OF wf] by (simp add: BuildEnv_def Let_def look)
  show "distinct (map envName (BuildEnv base policy))"
    using distinct_sort_names [OF wf] built_lookup_name by (simp add: BuildEnv_def Let_def look)
  show "sorted (BuildEnv base policy)" by (simp add: BuildEnv_def Let_def)
qed


lemma override_entry: "last_entry envOverrides n = Some e \<longleftrightarrow> e \<in> set envOverrides \<and> envName e = n"
proof
  assume e: "e \<in> set envOverrides \<and> envName e = n"
  then obtain x where x: "last_entry envOverrides n = Some x"
    using last_entry_exists [of e envOverrides] override_nonempty by (metis option.exhaust)
  then have "x \<in> set envOverrides" "envName x = envName e" using last_entry_Some [OF x] e by auto
  moreover have "inj_on envName (set envOverrides)"
    using override_names_distinct by (simp add: distinct_map)
  ultimately show "last_entry envOverrides n = Some e" using x e by (metis inj_onD)
qed (simp add: last_entry_Some)

lemma built_iff:
  "built_lookup base policy (envName e) = Some e \<longleftrightarrow>
     e \<in> set envOverrides \<or>
     last_entry base (envName e) = Some e \<and> allowed_name policy (envName e) \<and> envName e \<notin> envName ` set envOverrides"
proof (cases "last_entry envOverrides (envName e)")
  case None
  then have "envName e \<notin> envName ` set envOverrides" by (metis imageE option.distinct(1) override_entry)
  then show ?thesis using None by (auto simp: built_lookup_def)
next
  case (Some x)
  then have x: "x \<in> set envOverrides" "envName x = envName e" by (auto simp: override_entry)
  have "e \<in> set envOverrides \<longleftrightarrow> x = e" using Some override_entry [of "envName e" e] x by auto
  moreover have "envName e \<in> envName ` set envOverrides" using x by (metis image_eqI)
  ultimately show ?thesis using Some by (simp add: built_lookup_def)
qed

text \<open>C24: 
  The environment of the agent and of the validators: the last extra entry of a name, else
  one of the fixed overrides, else the last inherited entry of an allowed name; nothing else is passed on,
  each name is there once and the entries are sorted.
\<close>

theorem child_environment:
  "(e \<in> set (ApplyExtraEnv (BuildEnv base policy) extra) \<longleftrightarrow>
      last_entry extra (envName e) = Some e \<or>
      last_entry extra (envName e) = None \<and>
        (e \<in> set envOverrides \<or>
         last_entry base (envName e) = Some e \<and> allowed_name policy (envName e) \<and>
           envName e \<notin> envName ` set envOverrides)) \<and>
   sorted (ApplyExtraEnv (BuildEnv base policy) extra) \<and>
   distinct (map envName (ApplyExtraEnv (BuildEnv base policy) extra))"
proof (cases "extra = []")
  case True
  then show ?thesis
    using BuildEnv_lookup [of base policy] built_lookup_name [of base policy] built_iff [of base policy e]
    by (auto simp: ApplyExtraEnv_def)
next
  case False
  let ?o = "fold (\<lambda>entry m. if entry = [] then m else put (envName entry) entry m) extra []"
  let ?out = "filter (\<lambda>x. x \<noteq> [] \<and> map_of ?o (envName x) = None) (BuildEnv base policy) @ map snd ?o"
  have app: "ApplyExtraEnv (BuildEnv base policy) extra = dedupeSorted (sort ?out)"
    using False by (simp add: ApplyExtraEnv_def Let_def)
  have o: "set (map snd ?o) = {x. last_entry extra (envName x) = Some x}"
    using map_snd_lookup [OF overlaid_wf [of extra]] by (auto simp: overlaid_lookup dest: last_entry_Some)
  have set: "set ?out = {x. last_entry extra (envName x) = Some x \<or>
      last_entry extra (envName x) = None \<and> built_lookup base policy (envName x) = Some x}"
    unfolding set_append o using BuildEnv_lookup(1) [of base policy] built_lookup_name [of base policy]
    by (auto simp: overlaid_lookup)
  have "x = y" if "x \<in> set ?out" "y \<in> set ?out" "envName x = envName y" for x y
    using that unfolding set by (cases "last_entry extra (envName y)") simp_all
  then have "inj_on envName (set ?out)" by (rule inj_onI)
  then have "distinct (map envName (dedupeSorted (sort ?out)))"
    by (simp add: distinct_map del: set_append)
  moreover have "e \<in> set (dedupeSorted (sort ?out)) \<longleftrightarrow> last_entry extra (envName e) = Some e \<or>
      last_entry extra (envName e) = None \<and> built_lookup base policy (envName e) = Some e"
    using set by (simp del: set_append)
  moreover have "sorted (dedupeSorted (sort ?out))" by simp
  ultimately show ?thesis unfolding app built_iff by (intro conjI) simp_all
qed

theorem child_environment_witness:
  "''OPENCODE_CONFIG=/o'' \<in> set (ApplyExtraEnv (BuildEnv [''SECRET=1'', ''HOME=/a'', ''HOME=/b''] \<lparr>ep_inherit = False, ep_pass = []\<rparr>)
      [''OPENCODE_CONFIG=/o'']) \<and>
   ''SECRET=1'' \<notin> set (ApplyExtraEnv (BuildEnv [''SECRET=1'', ''HOME=/a'', ''HOME=/b''] \<lparr>ep_inherit = False, ep_pass = []\<rparr>)
      [''OPENCODE_CONFIG=/o''])"
  unfolding child_environment [THEN conjunct1] by code_simp

end
