(* ===== verification/GitOutput.thy ===== *)
theory GitOutput
  imports Environ
begin

text \<open>
  What the runner reads from git (\<open>internal/runner/worktree.go\<close>, \<open>artifacts.go\<close>, \<open>gitsource.go\<close>): the
  NUL-terminated records of \<open>git status --porcelain -z\<close> and \<open>git diff --name-status -z\<close>, the changed
  paths, the counts of created and deleted files, and the checks of object ids and sources.
  Git itself is the parameter \<open>git\<close>: directory and arguments to standard output, \<open>None\<close> on failure.
\<close>

type_synonym git = "string \<Rightarrow> string list \<Rightarrow> string option"

definition nul :: char where "nul = CHR 0x00"

definition status_args :: "string list" where
  "status_args = [''status'', ''--porcelain'', ''-z'', ''--untracked-files=all'']"

definition name_status_args :: "string \<Rightarrow> string list" where
  "name_status_args sha = [''diff'', ''--name-status'', ''-z'', sha, ''--'']"

definition diff_args :: "string \<Rightarrow> string list" where
  "diff_args sha = [''diff'', sha, ''--'']"

definition splitNul :: "string \<Rightarrow> string list" where
  "splitNul data = (let fields = split_on nul data in if last fields = [] then butlast fields else fields)"

definition renamed :: "string \<Rightarrow> bool" where
  "renamed code \<longleftrightarrow> CHR ''R'' \<in> set code \<or> CHR ''C'' \<in> set code"

fun status_paths :: "string list \<Rightarrow> string list" where
  "status_paths [] = []"
| "status_paths (f # fs) =
     (if length f < 4 then status_paths fs
      else drop 3 f #
        (if renamed (take 2 f)
         then (case fs of
                 [] \<Rightarrow> []
               | g # gs \<Rightarrow> if g \<noteq> [] then g # status_paths gs else status_paths (g # gs))
         else status_paths fs))"

definition parseStatusZ :: "string \<Rightarrow> string list" where
  "parseStatusZ data = status_paths (split_on nul data)"

fun name_status_paths :: "string list \<Rightarrow> string list" where
  "name_status_paths [] = []"
| "name_status_paths (status # fs) =
     (if status = [] then name_status_paths fs
      else (case fs of
              [] \<Rightarrow> []
            | p # fs' \<Rightarrow>
                p # (if hd status = CHR ''R'' \<or> hd status = CHR ''C''
                     then (case fs' of
                             [] \<Rightarrow> []
                           | q # fs'' \<Rightarrow> if q \<noteq> [] then q # name_status_paths fs'' else name_status_paths fs'')
                     else name_status_paths fs')))"

definition parseNameStatusZ :: "string \<Rightarrow> string list" where
  "parseNameStatusZ data = name_status_paths (split_on nul data)"

datatype git_error = EmptyWorktree | EmptySHA | GitFailed "string list"

definition run_git :: "git \<Rightarrow> string \<Rightarrow> string list \<Rightarrow> git_error + string" where
  "run_git git dir args = (case git dir args of None \<Rightarrow> Inl (GitFailed args) | Some out \<Rightarrow> Inr out)"

definition ChangedFiles :: "git \<Rightarrow> string \<Rightarrow> string \<Rightarrow> git_error + string list" where
  "ChangedFiles git worktree sha =
     (if worktree = [] then Inl EmptyWorktree
      else if sha = [] then Inl EmptySHA
      else rbind (run_git git worktree status_args) (\<lambda>status.
           rbind (run_git git worktree (name_status_args sha)) (\<lambda>diff.
           Inr (dedupeSorted (sort (parseStatusZ status @ parseNameStatusZ diff))))))"

definition DiffAgainstBaseline :: "git \<Rightarrow> string \<Rightarrow> string \<Rightarrow> git_error + string" where
  "DiffAgainstBaseline git worktree sha =
     (if worktree = [] then Inl EmptyWorktree
      else if sha = [] then Inl EmptySHA
      else run_git git worktree (diff_args sha))"

section \<open>Created and deleted files\<close>

definition status_kind :: "string \<Rightarrow> string \<Rightarrow> (string, char) gomap \<Rightarrow> (string, char) gomap" where
  "status_kind code p kinds =
     (if code = ''??'' then put p (CHR ''A'') kinds
      else if CHR ''A'' \<in> set code then put p (CHR ''A'') kinds
      else if CHR ''D'' \<in> set code then put p (CHR ''D'') kinds
      else kinds)"

fun status_kinds :: "string list \<Rightarrow> (string, char) gomap \<Rightarrow> (string, char) gomap" where
  "status_kinds [] kinds = kinds"
| "status_kinds (f # fs) kinds =
     (if length f < 4 then status_kinds fs kinds
      else (let kinds = status_kind (take 2 f) (drop 3 f) kinds
            in if renamed (take 2 f)
               then (case fs of
                       [] \<Rightarrow> kinds
                     | g # gs \<Rightarrow> if g \<noteq> [] then status_kinds gs kinds else status_kinds (g # gs) kinds)
               else status_kinds fs kinds))"

definition diff_kind :: "char \<Rightarrow> string \<Rightarrow> (string, char) gomap \<Rightarrow> (string, char) gomap" where
  "diff_kind st p kinds =
     (if st = CHR ''A'' then (if map_of kinds p \<noteq> Some (CHR ''D'') then put p (CHR ''A'') kinds else kinds)
      else if st = CHR ''D'' then put p (CHR ''D'') kinds
      else kinds)"

fun diff_kinds :: "string list \<Rightarrow> (string, char) gomap \<Rightarrow> (string, char) gomap" where
  "diff_kinds [] kinds = kinds"
| "diff_kinds (st # fs) kinds =
     (if st = [] then diff_kinds fs kinds
      else (case fs of
              [] \<Rightarrow> kinds
            | p # fs' \<Rightarrow>
                (if hd st = CHR ''R'' \<or> hd st = CHR ''C''
                 then (case fs' of [] \<Rightarrow> kinds | q # fs'' \<Rightarrow> diff_kinds fs'' kinds)
                 else diff_kinds fs' (diff_kind (hd st) p kinds))))"

definition changeCounts :: "git \<Rightarrow> string \<Rightarrow> string \<Rightarrow> git_error + nat \<times> nat" where
  "changeCounts git worktree sha =
     rbind (run_git git worktree status_args) (\<lambda>status.
     rbind (run_git git worktree (name_status_args sha)) (\<lambda>diff.
       let kinds = diff_kinds (split_on nul diff) (status_kinds (split_on nul status) [])
       in Inr (length (filter (\<lambda>p. snd p = CHR ''A'') kinds), length (filter (\<lambda>p. snd p = CHR ''D'') kinds))))"

section \<open>Object ids, sources and safe names\<close>

definition hex_upper :: "char \<Rightarrow> bool" where
  "hex_upper c \<longleftrightarrow> (CHR ''0'' \<le> c \<and> c \<le> CHR ''9'') \<or> (CHR ''a'' \<le> c \<and> c \<le> CHR ''f'') \<or> (CHR ''A'' \<le> c \<and> c \<le> CHR ''F'')"

definition isHexSHA :: "string \<Rightarrow> bool" where
  "isHexSHA s \<longleftrightarrow> (length s = 40 \<or> length s = 64) \<and> (\<forall>c\<in>set s. hex_upper c)"

definition isLowerHex64 :: "string \<Rightarrow> bool" where
  "isLowerHex64 s \<longleftrightarrow>
     length s = 64 \<and> (\<forall>c\<in>set s. (CHR ''0'' \<le> c \<and> c \<le> CHR ''9'') \<or> (CHR ''a'' \<le> c \<and> c \<le> CHR ''f''))"

definition looksLikeURL :: "string \<Rightarrow> bool" where
  "looksLikeURL source \<longleftrightarrow>
     contains_str source ''://'' \<or>
     (case cut (CHR ''@'') source of (before, rest, found) \<Rightarrow> found \<and> before \<noteq> [] \<and> CHR '':'' \<in> set rest)"

definition safeUntrackedRel :: "string \<Rightarrow> bool" where
  "safeUntrackedRel rel \<longleftrightarrow>
     rel \<noteq> [] \<and> rel \<noteq> ''..'' \<and> \<not> has_prefix rel ''/'' \<and> \<not> has_prefix rel ''../'' \<and> \<not> contains_str rel ''/../''"

section \<open>Reading back what git writes\<close>

text \<open>
  The records of the two formats, as git documents them: a status record is two status
  letters, a space and the path, and a rename or copy is followed by its other path; a name-status
  record is a status (a letter, with a score for renames and copies) and one or two paths.
\<close>

datatype status_record = Entry char char string | Moved char char string string
datatype diff_record = Single char string | Pair char string string string

fun render_status :: "status_record \<Rightarrow> string" where
  "render_status (Entry x y p) = [x, y, CHR '' ''] @ p @ [nul]"
| "render_status (Moved x y p q) = [x, y, CHR '' ''] @ p @ [nul] @ q @ [nul]"

fun render_diff :: "diff_record \<Rightarrow> string" where
  "render_diff (Single x p) = [x, nul] @ p @ [nul]"
| "render_diff (Pair x score p q) = x # score @ [nul] @ p @ [nul] @ q @ [nul]"

definition path_ok :: "string \<Rightarrow> bool" where
  "path_ok p \<longleftrightarrow> p \<noteq> [] \<and> nul \<notin> set p"

fun status_ok :: "status_record \<Rightarrow> bool" where
  "status_ok (Entry x y p) \<longleftrightarrow> path_ok p \<and> nul \<notin> {x, y} \<and> \<not> renamed [x, y]"
| "status_ok (Moved x y p q) \<longleftrightarrow> path_ok p \<and> path_ok q \<and> nul \<notin> {x, y} \<and> renamed [x, y]"

fun diff_ok :: "diff_record \<Rightarrow> bool" where
  "diff_ok (Single x p) \<longleftrightarrow> path_ok p \<and> x \<notin> {nul, CHR ''R'', CHR ''C''}"
| "diff_ok (Pair x score p q) \<longleftrightarrow> path_ok p \<and> path_ok q \<and> nul \<notin> set score \<and> x \<in> {CHR ''R'', CHR ''C''}"

fun status_of :: "status_record \<Rightarrow> string list" where
  "status_of (Entry x y p) = [p]"
| "status_of (Moved x y p q) = [p, q]"

fun diff_of :: "diff_record \<Rightarrow> string list" where
  "diff_of (Single x p) = [p]"
| "diff_of (Pair x score p q) = [p, q]"

lemma nul_letters [simp]: "nul \<noteq> CHR '' ''" "CHR '' '' \<noteq> nul" "nul \<noteq> CHR ''R''" "nul \<noteq> CHR ''C''" "CHR ''R'' \<noteq> nul" "CHR ''C'' \<noteq> nul"
  by (simp_all add: nul_def)

fun status_fields :: "status_record \<Rightarrow> string list" where
  "status_fields (Entry x y p) = [[x, y, CHR '' ''] @ p]"
| "status_fields (Moved x y p q) = [[x, y, CHR '' ''] @ p, q]"

fun diff_fields :: "diff_record \<Rightarrow> string list" where
  "diff_fields (Single x p) = [[x], p]"
| "diff_fields (Pair x score p q) = [x # score, p, q]"

lemma split_status: "status_ok r \<Longrightarrow> split_on nul (render_status r @ rest) = status_fields r @ split_on nul rest"
proof (cases r)
  case (Entry x y p)
  moreover assume "status_ok r"
  ultimately show ?thesis using split_on_append [of nul "[x, y, CHR '' ''] @ p" rest] by (simp add: path_ok_def)
next
  case (Moved x y p q)
  moreover assume "status_ok r"
  ultimately show ?thesis
    using split_on_append [of nul "[x, y, CHR '' ''] @ p" "q @ nul # rest"] split_on_append [of nul q rest]
    by (simp add: path_ok_def)
qed

lemma split_diff: "diff_ok r \<Longrightarrow> split_on nul (render_diff r @ rest) = diff_fields r @ split_on nul rest"
proof (cases r)
  case (Single x p)
  moreover assume "diff_ok r"
  ultimately show ?thesis using split_on_append [of nul p rest] by (simp add: path_ok_def)
next
  case (Pair x score p q)
  moreover assume "diff_ok r"
  ultimately show ?thesis
    using split_on_append [of nul "x # score" "p @ nul # q @ nul # rest"]
      split_on_append [of nul p "q @ nul # rest"] split_on_append [of nul q rest]
    by (auto simp: path_ok_def)
qed

lemma status_paths_record: "status_ok r \<Longrightarrow> status_paths (status_fields r @ rest) = status_of r @ status_paths rest"
  by (cases r) (auto simp: path_ok_def Suc_le_eq)

lemma diff_paths_record: "diff_ok r \<Longrightarrow> name_status_paths (diff_fields r @ rest) = diff_of r @ name_status_paths rest"
  by (cases r) (auto simp: path_ok_def)

lemma parse_status:
  "(\<And>r. r \<in> set st \<Longrightarrow> status_ok r) \<Longrightarrow> parseStatusZ (concat (map render_status st)) = concat (map status_of st)"
  unfolding parseStatusZ_def by (induction st) (simp_all add: split_status status_paths_record)

lemma parse_diff:
  "(\<And>r. r \<in> set df \<Longrightarrow> diff_ok r) \<Longrightarrow> parseNameStatusZ (concat (map render_diff df)) = concat (map diff_of df)"
  unfolding parseNameStatusZ_def by (induction df) (simp_all add: split_diff diff_paths_record)

text \<open>What git reports of a worktree, as a pair of record lists.\<close>

definition git_reports :: "git \<Rightarrow> string \<Rightarrow> string \<Rightarrow> status_record list \<Rightarrow> diff_record list \<Rightarrow> bool" where
  "git_reports git worktree sha st df \<longleftrightarrow>
     git worktree status_args = Some (concat (map render_status st)) \<and>
     git worktree (name_status_args sha) = Some (concat (map render_diff df)) \<and>
     list_all status_ok st \<and> list_all diff_ok df"

text \<open>
  The changed files are exactly the paths git reports, of the worktree and against the baseline
  commit, both paths of a rename or copy included, each once and in order.
\<close>

theorem ChangedFiles_exact:
  assumes "git_reports git worktree sha st df" "worktree \<noteq> []" "sha \<noteq> []"
  shows "ChangedFiles git worktree sha
    = Inr (sorted_list_of_set ((\<Union>r\<in>set st. set (status_of r)) \<union> (\<Union>r\<in>set df. set (diff_of r))))"
proof -
  have "parseStatusZ (concat (map render_status st)) = concat (map status_of st)"
    "parseNameStatusZ (concat (map render_diff df)) = concat (map diff_of df)"
    using assms(1) by (auto simp: git_reports_def list_all_iff intro!: parse_status parse_diff)
  then show ?thesis
    using assms by (simp add: ChangedFiles_def run_git_def git_reports_def dedupe_sort_set)
qed

section \<open>The counts\<close>

fun status_code :: "status_record \<Rightarrow> string" where
  "status_code (Entry x y p) = [x, y]"
| "status_code (Moved x y p q) = [x, y]"

fun status_path :: "status_record \<Rightarrow> string" where
  "status_path (Entry x y p) = p"
| "status_path (Moved x y p q) = p"

text \<open>What a status code says of its first path.\<close>

definition status_mark :: "status_record \<Rightarrow> char option" where
  "status_mark r =
     (let code = status_code r
      in if code = ''??'' \<or> CHR ''A'' \<in> set code then Some (CHR ''A'')
         else if CHR ''D'' \<in> set code then Some (CHR ''D'') else None)"

fun diff_mark :: "char \<Rightarrow> diff_record \<Rightarrow> string set" where
  "diff_mark k (Single x p) = (if x = k then {p} else {})"
| "diff_mark k (Pair x score p q) = {}"

lemma status_kind_mark:
  "status_kind (status_code r) (status_path r) kinds = (case status_mark r of None \<Rightarrow> kinds | Some k \<Rightarrow> put (status_path r) k kinds)"
  by (auto simp: status_kind_def status_mark_def Let_def)

lemma status_kinds_record:
  "status_ok r \<Longrightarrow> status_kinds (status_fields r @ rest) kinds = status_kinds rest (status_kind (status_code r) (status_path r) kinds)"
  by (cases r) (auto simp: path_ok_def Let_def)

lemma status_kinds_fold:
  "(\<And>r. r \<in> set st \<Longrightarrow> status_ok r) \<Longrightarrow> status_kinds (split_on nul (concat (map render_status st))) kinds
     = fold (\<lambda>r m. case status_mark r of None \<Rightarrow> m | Some k \<Rightarrow> put (status_path r) k m) st kinds"
  by (induction st arbitrary: kinds) (simp_all add: split_status status_kinds_record status_kind_mark)

lemma diff_kinds_record:
  "diff_ok r \<Longrightarrow> diff_kinds (diff_fields r @ rest) kinds
     = diff_kinds rest (case r of Single x p \<Rightarrow> diff_kind x p kinds | Pair x score p q \<Rightarrow> kinds)"
  by (cases r) (auto simp: path_ok_def)

lemma diff_kinds_fold:
  "(\<And>r. r \<in> set df \<Longrightarrow> diff_ok r) \<Longrightarrow> diff_kinds (split_on nul (concat (map render_diff df))) kinds
     = fold (\<lambda>r m. case r of Single x p \<Rightarrow> diff_kind x p m | Pair x score p q \<Rightarrow> m) df kinds"
  by (induction df arbitrary: kinds) (simp_all add: split_diff diff_kinds_record)

lemma status_lookup:
  assumes "distinct (map status_path st)"
  shows "map_of (fold (\<lambda>r m. case status_mark r of None \<Rightarrow> m | Some k \<Rightarrow> put (status_path r) k m) st []) p = Some k
    \<longleftrightarrow> (\<exists>r\<in>set st. status_path r = p \<and> status_mark r = Some k)"
  using assms
proof (induction st rule: rev_induct)
  case (snoc r st)
  then show ?case
    by (cases "status_mark r"; cases "status_path r = p") (auto simp: map_of_put image_iff)
qed simp

lemma status_fold_wf: "map_wf m \<Longrightarrow> map_wf (fold (\<lambda>r m. case status_mark r of None \<Rightarrow> m | Some k \<Rightarrow> put (status_path r) k m) st m)"
  by (induction st arbitrary: m) (auto split: option.splits)

lemma diff_kind_wf: "map_wf m \<Longrightarrow> map_wf (diff_kind x p m)"
  by (simp add: diff_kind_def)

lemma diff_fold_wf: "map_wf m \<Longrightarrow> map_wf (fold (\<lambda>r m. case r of Single x p \<Rightarrow> diff_kind x p m | Pair x score p q \<Rightarrow> m) df m)"
  by (induction df arbitrary: m) (auto split: diff_record.splits intro: diff_kind_wf)

fun single_path :: "diff_record \<Rightarrow> string list" where
  "single_path (Single x p) = [p]"
| "single_path (Pair x score p q) = []"

lemma diff_lookup:
  assumes "distinct (concat (map single_path df))" "\<And>k. map_of m p = Some k \<Longrightarrow> k = CHR ''A'' \<or> k = CHR ''D''"
  shows "map_of (fold (\<lambda>r m. case r of Single x p \<Rightarrow> diff_kind x p m | Pair x score p q \<Rightarrow> m) df m) p
    = (if \<exists>r\<in>set df. p \<in> diff_mark (CHR ''D'') r then Some (CHR ''D'')
       else if map_of m p = Some (CHR ''D'') then Some (CHR ''D'')
       else if \<exists>r\<in>set df. p \<in> diff_mark (CHR ''A'') r then Some (CHR ''A'') else map_of m p)"
  using assms(1)
proof (induction df rule: rev_induct)
  case (snoc r df)
  then show ?case
    by (cases r) (auto simp: diff_kind_def map_of_put split: if_splits)
qed simp

lemma count_values: "map_wf m \<Longrightarrow> length (filter (\<lambda>p. snd p = k) m) = card {p. map_of m p = Some k}"
proof -
  assume wf: "map_wf m"
  then have "distinct (map fst (filter (\<lambda>p. snd p = k) m))" by (simp add: map_wf_def distinct_map_filter)
  then have "card (fst ` set (filter (\<lambda>p. snd p = k) m)) = length (filter (\<lambda>p. snd p = k) m)"
    by (metis distinct_card length_map set_map)
  moreover have "fst ` set (filter (\<lambda>p. snd p = k) m) = {p. map_of m p = Some k}"
    using wf by (force simp: map_wf_def)
  ultimately show ?thesis by simp
qed


text \<open>The paths a report names as created, and those it names as deleted.\<close>

definition reported :: "char \<Rightarrow> status_record list \<Rightarrow> diff_record list \<Rightarrow> string set" where
  "reported k st df = {p. \<exists>r\<in>set st. status_path r = p \<and> status_mark r = Some k} \<union> (\<Union>r\<in>set df. diff_mark k r)"

lemma reported_finite: "finite (reported k st df)"
proof -
  have "finite (diff_mark k r)" for r by (cases r) auto
  moreover have "{p. \<exists>r\<in>set st. status_path r = p \<and> status_mark r = Some k} \<subseteq> status_path ` set st" by auto
  ultimately show ?thesis unfolding reported_def by (meson finite_UN_I finite_Un finite_imageI finite_set finite_subset)
qed

text \<open>
  A path counts as deleted when either report says so and else as created when either says
  so, once however often it is reported.
\<close>

theorem changeCounts_exact:
  assumes "git_reports git worktree sha st df"
    and "distinct (map status_path st)" "distinct (concat (map single_path df))"
  shows "changeCounts git worktree sha
    = Inr (card (reported (CHR ''A'') st df - reported (CHR ''D'') st df), card (reported (CHR ''D'') st df))"
proof -
  let ?s = "fold (\<lambda>r m. case status_mark r of None \<Rightarrow> m | Some k \<Rightarrow> put (status_path r) k m) st []"
  let ?k = "fold (\<lambda>r m. case r of Single x p \<Rightarrow> diff_kind x p m | Pair x score p q \<Rightarrow> m) df ?s"
  have wf: "map_wf ?k" by (intro diff_fold_wf status_fold_wf) simp
  have s: "map_of ?s p = Some k \<longleftrightarrow> (\<exists>r\<in>set st. status_path r = p \<and> status_mark r = Some k)" for p k
    by (rule status_lookup [OF assms(2)])
  have AD: "k = CHR ''A'' \<or> k = CHR ''D''" if "map_of ?s p = Some k" for p k
    using that unfolding s by (auto simp: status_mark_def Let_def split: if_splits)
  have k: "map_of ?k p = (if p \<in> reported (CHR ''D'') st df then Some (CHR ''D'')
      else if p \<in> reported (CHR ''A'') st df then Some (CHR ''A'') else None)" for p
  proof -
    have in_reported: "p \<in> reported k st df \<longleftrightarrow> map_of ?s p = Some k \<or> (\<exists>r\<in>set df. p \<in> diff_mark k r)" for k
      by (auto simp: reported_def s)
    have "map_of ?k p = (if \<exists>r\<in>set df. p \<in> diff_mark (CHR ''D'') r then Some (CHR ''D'')
       else if map_of ?s p = Some (CHR ''D'') then Some (CHR ''D'')
       else if \<exists>r\<in>set df. p \<in> diff_mark (CHR ''A'') r then Some (CHR ''A'') else map_of ?s p)"
      by (rule diff_lookup [OF assms(3) AD])
    moreover have "map_of ?s p = None \<or> map_of ?s p = Some (CHR ''A'') \<or> map_of ?s p = Some (CHR ''D'')"
      using AD [of p] by (cases "map_of ?s p") auto
    ultimately show ?thesis unfolding in_reported by (elim disjE) simp_all
  qed
  have "kinds = ?k" if "kinds = diff_kinds (split_on nul (concat (map render_diff df))) (status_kinds (split_on nul (concat (map render_status st))) [])" for kinds
    using assms(1) that by (simp add: git_reports_def list_all_iff status_kinds_fold diff_kinds_fold)
  then have "changeCounts git worktree sha
      = Inr (length (filter (\<lambda>p. snd p = CHR ''A'') ?k), length (filter (\<lambda>p. snd p = CHR ''D'') ?k))"
    using assms(1) by (simp add: changeCounts_def run_git_def git_reports_def Let_def)
  moreover have "{p. map_of ?k p = Some (CHR ''A'')} = reported (CHR ''A'') st df - reported (CHR ''D'') st df"
    "{p. map_of ?k p = Some (CHR ''D'')} = reported (CHR ''D'') st df"
    by (auto simp: k)
  ultimately show ?thesis by (simp only: count_values [OF wf])
qed

text \<open>A worktree with an untracked file, a rename and a committed deletion.\<close>

definition sample_status :: "status_record list" where
  "sample_status = [Entry (CHR ''?'') (CHR ''?'') ''new.go'', Moved (CHR ''R'') (CHR '' '') ''b.go'' ''a.go'']"

definition sample_diff :: "diff_record list" where
  "sample_diff = [Single (CHR ''D'') ''old.go'', Pair (CHR ''R'') ''100'' ''a.go'' ''b.go'']"

definition sample_git :: git where
  "sample_git dir args = Some (concat (if args = status_args then map render_status sample_status else map render_diff sample_diff))"

lemma sample_reports: "git_reports sample_git ''w'' ''c'' sample_status sample_diff"
  unfolding git_reports_def by code_simp

theorem ChangedFiles_exact_witness: "ChangedFiles sample_git ''w'' ''c'' = Inr [''a.go'', ''b.go'', ''new.go'', ''old.go'']"
proof -
  have "ChangedFiles sample_git ''w'' ''c''
      = Inr (sorted_list_of_set ((\<Union>r\<in>set sample_status. set (status_of r)) \<union> (\<Union>r\<in>set sample_diff. set (diff_of r))))"
    by (rule ChangedFiles_exact [OF sample_reports]) simp_all
  also have "(\<Union>r\<in>set sample_status. set (status_of r)) \<union> (\<Union>r\<in>set sample_diff. set (diff_of r)) = set [''a.go'', ''b.go'', ''new.go'', ''old.go'']"
    by (auto simp: sample_status_def sample_diff_def)
  also have "sorted_list_of_set \<dots> = [''a.go'', ''b.go'', ''new.go'', ''old.go'']"
    unfolding sorted_list_of_set_sort_remdups by code_simp
  finally show ?thesis .
qed

theorem changeCounts_exact_witness: "changeCounts sample_git ''w'' ''c'' = Inr (1, 1)"
proof -
  have "changeCounts sample_git ''w'' ''c'' = Inr (card (reported (CHR ''A'') sample_status sample_diff
      - reported (CHR ''D'') sample_status sample_diff), card (reported (CHR ''D'') sample_status sample_diff))"
    by (rule changeCounts_exact [OF sample_reports]) (simp_all add: sample_status_def sample_diff_def)
  moreover have "reported (CHR ''A'') sample_status sample_diff = {''new.go''}" "reported (CHR ''D'') sample_status sample_diff = {''old.go''}"
    by (auto simp: reported_def sample_status_def sample_diff_def status_mark_def)
  ultimately show ?thesis by simp
qed

end
