(* ===== verification/Watch.thy ===== *)
theory Watch
  imports Prelude
begin

text \<open>
  The two callbacks that guard a running session (\<open>runner.go\<close>, in \<open>Run\<close>): the watchdog of the task's
  deadline and the watcher of the request's context run beside the main goroutine, which drains the
  events, marks the drain as done, stops the watchers and reads their flags. Every atomic operation
  on the three flags \<open>timedOut\<close>, \<open>cancelled\<close> and \<open>drainDone\<close> is one action; a schedule is a list of
  actions, and an action that is not enabled is skipped.
\<close>

section \<open>The threads\<close>

text \<open>A callback is armed, has seen the drain not done, has set its flag, or has returned.\<close>

datatype callback = Armed | Passed | Marked | Killed | Returned

datatype main_pc = Draining | DrainDone | WatchStopped | TimerStopped | CancelRead | TimeoutRead

record watch =
  wt_exited :: bool
  wt_main :: main_pc
  wt_deadline :: callback
  wt_cancel :: callback
  wt_timedOut :: bool
  wt_cancelled :: bool
  wt_kills :: nat
  wt_sawCancelled :: bool
  wt_sawTimeout :: bool

definition watch_init :: watch where
  "watch_init = \<lparr>wt_exited = False, wt_main = Draining, wt_deadline = Armed, wt_cancel = Armed, wt_timedOut = False,
     wt_cancelled = False, wt_kills = 0, wt_sawCancelled = False, wt_sawTimeout = False\<rparr>"

datatype action = ProcessExits | MainStep | DeadlineStep | CancelStep

definition drainDone :: "watch \<Rightarrow> bool" where
  "drainDone w \<longleftrightarrow> wt_main w \<noteq> Draining"

definition cancel_stopped :: "watch \<Rightarrow> bool" where
  "cancel_stopped w \<longleftrightarrow> wt_main w \<noteq> Draining \<and> wt_main w \<noteq> DrainDone"

definition timer_stopped :: "watch \<Rightarrow> bool" where
  "timer_stopped w \<longleftrightarrow> wt_main w = TimerStopped \<or> wt_main w = CancelRead \<or> wt_main w = TimeoutRead"

definition main_step :: "watch \<Rightarrow> watch" where
  "main_step w =
     (case wt_main w of
        Draining \<Rightarrow> if wt_exited w then w\<lparr>wt_main := DrainDone\<rparr> else w
      | DrainDone \<Rightarrow> w\<lparr>wt_main := WatchStopped\<rparr>
      | WatchStopped \<Rightarrow> w\<lparr>wt_main := TimerStopped\<rparr>
      | TimerStopped \<Rightarrow> w\<lparr>wt_main := CancelRead, wt_sawCancelled := wt_cancelled w\<rparr>
      | CancelRead \<Rightarrow> w\<lparr>wt_main := TimeoutRead, wt_sawTimeout := wt_timedOut w\<rparr>
      | TimeoutRead \<Rightarrow> w)"

definition deadline_step :: "watch \<Rightarrow> watch" where
  "deadline_step w =
     (case wt_deadline w of
        Armed \<Rightarrow> if timer_stopped w then w else w\<lparr>wt_deadline := if drainDone w then Returned else Passed\<rparr>
      | Passed \<Rightarrow> w\<lparr>wt_deadline := Marked, wt_timedOut := True\<rparr>
      | Marked \<Rightarrow> w\<lparr>wt_deadline := Killed, wt_kills := Suc (wt_kills w)\<rparr>
      | _ \<Rightarrow> w)"

definition cancel_step :: "watch \<Rightarrow> watch" where
  "cancel_step w =
     (case wt_cancel w of
        Armed \<Rightarrow> if cancel_stopped w then w else w\<lparr>wt_cancel := if drainDone w then Returned else Passed\<rparr>
      | Passed \<Rightarrow> w\<lparr>wt_cancel := Marked, wt_cancelled := True\<rparr>
      | Marked \<Rightarrow> w\<lparr>wt_cancel := Killed, wt_kills := Suc (wt_kills w)\<rparr>
      | _ \<Rightarrow> w)"

fun watch_do :: "action \<Rightarrow> watch \<Rightarrow> watch" where
  "watch_do ProcessExits w = w\<lparr>wt_exited := True\<rparr>"
| "watch_do MainStep w = main_step w"
| "watch_do DeadlineStep w = deadline_step w"
| "watch_do CancelStep w = cancel_step w"

definition watch_acts :: "action list \<Rightarrow> watch" where
  "watch_acts acts = fold watch_do acts watch_init"

text \<open>A schedule ends with what is left of the main goroutine: it waits for the process.\<close>

definition watch_run :: "action list \<Rightarrow> watch" where
  "watch_run acts = watch_acts (acts @ ProcessExits # replicate 5 MainStep)"

lemma watch_frames [simp]:
  "wt_deadline (main_step w) = wt_deadline w" "wt_deadline (cancel_step w) = wt_deadline w"
  "wt_cancel (main_step w) = wt_cancel w" "wt_cancel (deadline_step w) = wt_cancel w"
  "wt_main (deadline_step w) = wt_main w" "wt_main (cancel_step w) = wt_main w"
  "wt_timedOut (main_step w) = wt_timedOut w" "wt_timedOut (cancel_step w) = wt_timedOut w"
  "wt_cancelled (main_step w) = wt_cancelled w" "wt_cancelled (deadline_step w) = wt_cancelled w"
  "wt_exited (main_step w) = wt_exited w" "wt_exited (deadline_step w) = wt_exited w" "wt_exited (cancel_step w) = wt_exited w"
  by (simp_all add: main_step_def deadline_step_def cancel_step_def split: callback.splits main_pc.splits)

section \<open>The transition relation\<close>

text \<open>One atomic operation of one of the threads, as rules.\<close>

inductive watch_step :: "watch \<Rightarrow> watch \<Rightarrow> bool" where
  exits: "\<not> wt_exited w \<Longrightarrow> watch_step w (w\<lparr>wt_exited := True\<rparr>)"
| drained: "wt_main w = Draining \<Longrightarrow> wt_exited w \<Longrightarrow> watch_step w (w\<lparr>wt_main := DrainDone\<rparr>)"
| stop_watch: "wt_main w = DrainDone \<Longrightarrow> watch_step w (w\<lparr>wt_main := WatchStopped\<rparr>)"
| stop_timer: "wt_main w = WatchStopped \<Longrightarrow> watch_step w (w\<lparr>wt_main := TimerStopped\<rparr>)"
| read_cancelled: "wt_main w = TimerStopped \<Longrightarrow>
    watch_step w (w\<lparr>wt_main := CancelRead, wt_sawCancelled := wt_cancelled w\<rparr>)"
| read_timeout: "wt_main w = CancelRead \<Longrightarrow>
    watch_step w (w\<lparr>wt_main := TimeoutRead, wt_sawTimeout := wt_timedOut w\<rparr>)"
| deadline_pass: "wt_deadline w = Armed \<Longrightarrow> wt_main w = Draining \<Longrightarrow> watch_step w (w\<lparr>wt_deadline := Passed\<rparr>)"
| deadline_late: "wt_deadline w = Armed \<Longrightarrow> wt_main w = DrainDone \<or> wt_main w = WatchStopped \<Longrightarrow>
    watch_step w (w\<lparr>wt_deadline := Returned\<rparr>)"
| deadline_mark: "wt_deadline w = Passed \<Longrightarrow> watch_step w (w\<lparr>wt_deadline := Marked, wt_timedOut := True\<rparr>)"
| deadline_kill: "wt_deadline w = Marked \<Longrightarrow> watch_step w (w\<lparr>wt_deadline := Killed, wt_kills := Suc (wt_kills w)\<rparr>)"
| cancel_pass: "wt_cancel w = Armed \<Longrightarrow> wt_main w = Draining \<Longrightarrow> watch_step w (w\<lparr>wt_cancel := Passed\<rparr>)"
| cancel_late: "wt_cancel w = Armed \<Longrightarrow> wt_main w = DrainDone \<Longrightarrow> watch_step w (w\<lparr>wt_cancel := Returned\<rparr>)"
| cancel_mark: "wt_cancel w = Passed \<Longrightarrow> watch_step w (w\<lparr>wt_cancel := Marked, wt_cancelled := True\<rparr>)"
| cancel_kill: "wt_cancel w = Marked \<Longrightarrow> watch_step w (w\<lparr>wt_cancel := Killed, wt_kills := Suc (wt_kills w)\<rparr>)"

lemmas watch_defs = main_step_def deadline_step_def cancel_step_def drainDone_def cancel_stopped_def timer_stopped_def

lemma watch_do_step: "watch_do a w \<noteq> w \<Longrightarrow> watch_step w (watch_do a w)"
proof (cases a)
  case ProcessExits
  assume "watch_do a w \<noteq> w"
  with ProcessExits have "\<not> wt_exited w" by auto
  then show ?thesis using exits ProcessExits by simp
next
  case MainStep
  assume "watch_do a w \<noteq> w"
  with MainStep show ?thesis
    by (cases "wt_main w") (auto simp: main_step_def split: if_splits intro: watch_step.intros)
next
  case DeadlineStep
  assume "watch_do a w \<noteq> w"
  with DeadlineStep show ?thesis
    by (cases "wt_deadline w"; cases "wt_main w") (auto simp: watch_defs intro: watch_step.intros)
next
  case CancelStep
  assume "watch_do a w \<noteq> w"
  with CancelStep show ?thesis
    by (cases "wt_cancel w"; cases "wt_main w") (auto simp: watch_defs intro: watch_step.intros)
qed

lemma watch_step_do: "watch_step w w' \<Longrightarrow> \<exists>a. w' = watch_do a w"
proof (induction rule: watch_step.induct)
  case (exits w)
  show ?case by (rule exI [of _ ProcessExits]) simp
qed ((rule exI [of _ MainStep], auto simp: watch_defs; fail) | (rule exI [of _ DeadlineStep], auto simp: watch_defs; fail)
   | (rule exI [of _ CancelStep], auto simp: watch_defs; fail))+

definition watch_reachable :: "watch \<Rightarrow> bool" where
  "watch_reachable w \<longleftrightarrow> watch_step\<^sup>*\<^sup>* watch_init w"

lemma watch_acts_snoc: "watch_acts (acts @ [a]) = watch_do a (watch_acts acts)"
  by (simp add: watch_acts_def)

lemma watch_acts_reachable: "watch_reachable (watch_acts acts)"
proof (induction acts rule: rev_induct)
  case Nil
  show ?case by (simp add: watch_reachable_def watch_acts_def)
next
  case (snoc a acts)
  then show ?case
    by (cases "watch_do a (watch_acts acts) = watch_acts acts")
      (auto simp: watch_acts_snoc watch_reachable_def dest: watch_do_step intro: rtranclp.rtrancl_into_rtrancl)
qed

lemma watch_reachable_acts: "watch_reachable w \<Longrightarrow> \<exists>acts. w = watch_acts acts"
  unfolding watch_reachable_def
proof (induction rule: rtranclp_induct)
  case base
  show ?case by (rule exI [of _ "[]"]) (simp add: watch_acts_def)
next
  case (step w w')
  then obtain acts a where "w = watch_acts acts" "w' = watch_do a w" using watch_step_do by blast
  then have "w' = watch_acts (acts @ [a])" by (simp add: watch_acts_snoc)
  then show ?case by blast
qed

section \<open>What the flags say\<close>

definition watch_inv :: "watch \<Rightarrow> bool" where
  "watch_inv w \<longleftrightarrow>
     (wt_timedOut w \<longleftrightarrow> wt_deadline w = Marked \<or> wt_deadline w = Killed) \<and>
     (wt_cancelled w \<longleftrightarrow> wt_cancel w = Marked \<or> wt_cancel w = Killed) \<and>
     wt_kills w = of_bool (wt_deadline w = Killed) + of_bool (wt_cancel w = Killed) \<and>
     (wt_sawTimeout w \<longrightarrow> wt_timedOut w) \<and> (wt_sawCancelled w \<longrightarrow> wt_cancelled w) \<and>
     (drainDone w \<longrightarrow> wt_exited w)"

lemma watch_inv_step: "watch_step w w' \<Longrightarrow> watch_inv w \<Longrightarrow> watch_inv w'"
  by (induction rule: watch_step.induct; clarsimp simp: watch_inv_def drainDone_def)

lemma watch_inv_reachable: "watch_reachable w \<Longrightarrow> watch_inv w"
  unfolding watch_reachable_def
proof (induction rule: rtranclp_induct)
  case base
  show ?case by (simp add: watch_inv_def watch_init_def drainDone_def)
next
  case (step w w')
  then show ?case using watch_inv_step by blast
qed

text \<open>A callback that has passed its check did so while the main goroutine was draining.\<close>

lemma deadline_passed_early:
  assumes "wt_deadline (watch_acts acts) \<noteq> Armed" "wt_deadline (watch_acts acts) \<noteq> Returned"
  shows "\<exists>before after. acts = before @ DeadlineStep # after \<and> \<not> drainDone (watch_acts before)"
  using assms
proof (induction acts rule: rev_induct)
  case Nil
  then show ?case by (simp add: watch_acts_def watch_init_def)
next
  case (snoc a acts)
  let ?w = "watch_acts acts"
  show ?case
  proof (cases "wt_deadline ?w = Armed \<or> wt_deadline ?w = Returned")
    case True
    then have "a = DeadlineStep" using snoc.prems by (cases a) (auto simp: watch_acts_snoc)
    moreover have "\<not> drainDone ?w"
      using True snoc.prems calculation by (auto simp: watch_acts_snoc deadline_step_def split: if_splits)
    ultimately have "a = DeadlineStep \<and> \<not> drainDone ?w" by simp
    then show ?thesis by blast
  next
    case False
    with snoc.IH obtain before after where "acts = before @ DeadlineStep # after" "\<not> drainDone (watch_acts before)" by blast
    then show ?thesis by (intro exI [of _ before] exI [of _ "after @ [a]"]) simp
  qed
qed

text \<open>The deadline's callback by the number of its steps, as long as the drain goes on.\<close>

lemma drainDone_mono: "drainDone w \<Longrightarrow> drainDone (watch_do a w)"
  by (cases a; cases "wt_main w") (simp_all add: drainDone_def main_step_def)

lemma deadline_progress:
  "\<not> drainDone (watch_acts acts) \<Longrightarrow>
     wt_deadline (watch_acts acts) =
       (case count_list acts DeadlineStep of 0 \<Rightarrow> Armed | Suc 0 \<Rightarrow> Passed | Suc (Suc 0) \<Rightarrow> Marked | _ \<Rightarrow> Killed)"
proof (induction acts rule: rev_induct)
  case Nil
  show ?case by (simp add: watch_acts_def watch_init_def)
next
  case (snoc a acts)
  then have d: "\<not> drainDone (watch_acts acts)" by (metis drainDone_mono watch_acts_snoc)
  note IH = snoc.IH [OF d]
  show ?case
  proof (cases "a = DeadlineStep")
    case True
    then show ?thesis
      using d IH by (auto simp: watch_acts_snoc deadline_step_def timer_stopped_def drainDone_def split: nat.splits)
  next
    case False
    then have "wt_deadline (watch_acts (acts @ [a])) = wt_deadline (watch_acts acts)"
      by (cases a) (simp_all add: watch_acts_snoc)
    then show ?thesis using False IH by simp
  qed
qed

definition timeout_kept :: "watch \<Rightarrow> bool" where
  "timeout_kept w \<longleftrightarrow> wt_timedOut w \<and> (wt_main w = TimeoutRead \<longrightarrow> wt_sawTimeout w)"

lemma timeout_kept_do: "timeout_kept w \<Longrightarrow> timeout_kept (watch_do a w)"
  by (cases a) (auto simp: timeout_kept_def watch_defs split: callback.splits main_pc.splits)

lemma timeout_kept_fold: "timeout_kept w \<Longrightarrow> timeout_kept (fold watch_do acts w)"
  by (induction acts arbitrary: w) (simp_all add: timeout_kept_do)

lemma watch_run_fold: "watch_run acts = (main_step ^^ 5) (watch_do ProcessExits (watch_acts acts))"
  by (simp add: watch_run_def watch_acts_def eval_nat_numeral)

lemma watch_run_ends: "wt_main (watch_run acts) = TimeoutRead"
  unfolding watch_run_fold
  by (cases "wt_main (watch_acts acts)") (simp_all add: eval_nat_numeral main_step_def)

lemma main_steps_deadline: "wt_deadline ((main_step ^^ n) w) = wt_deadline w"
  by (induction n) simp_all



end
