(* ===== verification/HostOS.thy ===== *)
theory HostOS
  imports Suite Store GitOutput Watch
begin

text \<open>
  The machine the runner works on. A run is a sequence of effects on files, git, the agent's
  process and the clock, none of which is the program's code: the record \<open>os\<close> holds them as functions
  on a state \<open>'s\<close> of the machine, so that the model performs them in the order of the code and every
  one of them may fail. \<open>io\<close> threads that state and the database through a computation that may
  return early with an error.
\<close>

datatype file_kind = Missing | StatFailed | Regular | Directory | Special

datatype lock_try = LockCreated | LockExists | LockFailed

text \<open>The agent's process: what it is asked, and what it did: the lines of its events, the steps
  of the threads that watch it (\<open>Watch\<close>), and how it ended.\<close>

record agent_request =
  aq_dir :: string
  aq_prompt :: string
  aq_agent :: string
  aq_model :: string
  aq_variant :: string
  aq_auto :: bool
  aq_pure :: bool
  aq_env :: "string list"
  aq_timeout :: int

datatype wait_error = WaitDeadline | WaitCanceled | WaitFailed string

record agent_session =
  as_lines :: "string list"
  as_steps :: "action list"
  as_exit :: int
  as_wait :: "wait_error option"
  as_id :: string
  as_stderr :: string

record 's os =
  os_stat :: "string \<Rightarrow> 's \<Rightarrow> file_kind"
  os_lstat :: "string \<Rightarrow> 's \<Rightarrow> file_kind"
  os_read :: "string \<Rightarrow> 's \<Rightarrow> string option"
  os_abs :: "string \<Rightarrow> 's \<Rightarrow> string option"
  os_create :: "string \<Rightarrow> 's \<Rightarrow> 's \<times> bool"
  os_write :: "string \<Rightarrow> string \<Rightarrow> 's \<Rightarrow> 's \<times> bool"
  os_append :: "string \<Rightarrow> string \<Rightarrow> 's \<Rightarrow> 's \<times> bool"
  os_mkdir :: "string \<Rightarrow> 's \<Rightarrow> 's \<times> bool"
  os_lock :: "string \<Rightarrow> 's \<Rightarrow> 's \<times> lock_try"
  os_remove :: "string \<Rightarrow> 's \<Rightarrow> 's"
  os_remove_all :: "string \<Rightarrow> 's \<Rightarrow> 's \<times> bool"
  os_git :: "string list \<Rightarrow> string \<Rightarrow> string list \<Rightarrow> 's \<Rightarrow> 's \<times> string option"
  os_now :: "'s \<Rightarrow> string"
  os_elapsed :: "'s \<Rightarrow> int"
  os_ended :: "'s \<Rightarrow> bool"
  os_sleep :: "nat \<Rightarrow> 's \<Rightarrow> 's"
  os_uuid :: "'s \<Rightarrow> 's \<times> string option"
  os_start :: "agent_request \<Rightarrow> 's \<Rightarrow> 's \<times> (string + agent_session)"
  os_export :: "string \<Rightarrow> 's \<Rightarrow> string + string"
  os_host :: "'s \<Rightarrow> host"
  os_validated :: "int \<Rightarrow> validator_spec \<Rightarrow> 's \<Rightarrow> 's"
  os_found :: "string \<Rightarrow> bool"
  os_alnum :: "nat \<Rightarrow> bool"
  os_environ :: "string list"
  os_platform :: string
  os_version :: string
  os_json :: "string \<Rightarrow> json option"
  os_num :: "json \<Rightarrow> string"

text \<open>
  \<open>os_git env dir args\<close> runs git in \<open>dir\<close> with the extra environment \<open>env\<close>; \<open>os_ended\<close> says whether the
  request's context has ended; \<open>os_validated\<close> is what the command of a validator leaves behind;
  \<open>os_alnum\<close> says which runes above ASCII are letters or digits; \<open>os_json\<close> is the JSON tokenizer and \<open>os_num\<close> the printing of numbers.
\<close>

type_synonym ('s, 'e, 'a) io = "'s \<times> db \<Rightarrow> ('s \<times> db) \<times> ('e + 'a)"

definition io_return :: "'a \<Rightarrow> ('s, 'e, 'a) io" where
  "io_return x s = (s, Inr x)"

definition io_fail :: "'e \<Rightarrow> ('s, 'e, 'a) io" where
  "io_fail e s = (s, Inl e)"

definition io_bind :: "('s, 'e, 'a) io \<Rightarrow> ('a \<Rightarrow> ('s, 'e, 'b) io) \<Rightarrow> ('s, 'e, 'b) io" where
  "io_bind m f s = (case m s of (s', Inl e) \<Rightarrow> (s', Inl e) | (s', Inr x) \<Rightarrow> f x s')"

definition io_then :: "('s, 'e, unit) io \<Rightarrow> ('s, 'e, 'b) io \<Rightarrow> ('s, 'e, 'b) io" where
  "io_then m k = io_bind m (\<lambda>_. k)"

text \<open>An effect whose failure is the error \<open>e\<close>, one whose outcome is looked at, and a look at the state.\<close>

definition io_try :: "('s \<Rightarrow> 's \<times> bool) \<Rightarrow> 'e \<Rightarrow> ('s, 'e, unit) io" where
  "io_try f e s = (case f (fst s) of (m, ok) \<Rightarrow> ((m, snd s), if ok then Inr () else Inl e))"

definition io_get :: "('s \<Rightarrow> 's \<times> 'a) \<Rightarrow> ('s, 'e, 'a) io" where
  "io_get f s = (case f (fst s) of (m, x) \<Rightarrow> ((m, snd s), Inr x))"

definition io_look :: "('s \<Rightarrow> 'a) \<Rightarrow> ('s, 'e, 'a) io" where
  "io_look f s = (s, Inr (f (fst s)))"

definition io_lift :: "'e + 'a \<Rightarrow> ('s, 'e, 'a) io" where
  "io_lift r s = (s, r)"

definition io_db :: "(db_error \<Rightarrow> 'e) \<Rightarrow> (db \<Rightarrow> db db_result) \<Rightarrow> ('s, 'e, unit) io" where
  "io_db err f s = (case f (snd s) of Inl e \<Rightarrow> (s, Inl (err e)) | Inr d \<Rightarrow> ((fst s, d), Inr ()))"

definition io_err :: "('e \<Rightarrow> 'f) \<Rightarrow> ('s, 'e, 'a) io \<Rightarrow> ('s, 'f, 'a) io" where
  "io_err f m s = (case m s of (s', Inl e) \<Rightarrow> (s', Inl (f e)) | (s', Inr x) \<Rightarrow> (s', Inr x))"

text \<open>A deferred call: it runs whether the computation returned or failed, and its outcome is ignored.\<close>

definition io_defer :: "('s, 'e, 'b) io \<Rightarrow> ('s, 'e, 'a) io \<Rightarrow> ('s, 'e, 'a) io" where
  "io_defer cleanup m s = (case m s of (s', r) \<Rightarrow> (fst (cleanup s'), r))"

fun io_all :: "('x \<Rightarrow> ('s, 'e, unit) io) \<Rightarrow> 'x list \<Rightarrow> ('s, 'e, unit) io" where
  "io_all f [] = io_return ()"
| "io_all f (x # xs) = io_then (f x) (io_all f xs)"

text \<open>\<open>filepath.Join\<close> skips empty elements.\<close>

definition filepath_join :: "string list \<Rightarrow> string" where
  "filepath_join xs = (let ys = filter (\<lambda>x. x \<noteq> []) xs in if ys = [] then [] else path_clean (join ''/'' ys))"

text \<open>A read-only git command as the function the parsers of \<open>GitOutput\<close> take.\<close>

definition git_at :: "'s os \<Rightarrow> 's \<Rightarrow> git" where
  "git_at os s dir args = snd (os_git os (gitEnv (os_environ os) []) dir args s)"

section \<open>Reasoning\<close>

named_theorems io_simps "equations of the computation combinators"

lemma io_bind_Inr:
  "io_bind m f s = (t, Inr y) \<longleftrightarrow> (\<exists>s' x. m s = (s', Inr x) \<and> f x s' = (t, Inr y))"
  by (auto simp: io_bind_def split: prod.splits sum.splits)

lemma io_then_Inr:
  "io_then m k s = (t, Inr y) \<longleftrightarrow> (\<exists>s'. m s = (s', Inr ()) \<and> k s' = (t, Inr y))"
  by (auto simp: io_then_def io_bind_Inr)

lemma io_return_Inr [io_simps]: "io_return x s = (t, Inr y) \<longleftrightarrow> t = s \<and> y = x"
  by (auto simp: io_return_def)

lemma io_fail_Inr [io_simps]: "io_fail e s = (t, Inr y) \<longleftrightarrow> False"
  by (simp add: io_fail_def)

lemma io_look_Inr [io_simps]: "io_look f s = (t, Inr y) \<longleftrightarrow> t = s \<and> y = f (fst s)"
  by (auto simp: io_look_def)

lemma io_lift_Inr [io_simps]: "io_lift r s = (t, Inr y) \<longleftrightarrow> t = s \<and> r = Inr y"
  by (auto simp: io_lift_def)

lemma io_try_Inr [io_simps]: "io_try f e s = (t, Inr ()) \<longleftrightarrow> f (fst s) = (fst t, True) \<and> snd t = snd s"
  by (cases t) (auto simp: io_try_def split: prod.splits if_splits)

lemma io_get_Inr [io_simps]: "io_get f s = (t, Inr y) \<longleftrightarrow> f (fst s) = (fst t, y) \<and> snd t = snd s"
  by (cases t) (auto simp: io_get_def split: prod.splits)

lemma io_db_Inr [io_simps]: "io_db err f s = (t, Inr ()) \<longleftrightarrow> fst t = fst s \<and> f (snd s) = Inr (snd t)"
  by (cases t) (auto simp: io_db_def split: sum.splits)

lemma io_defer_Inr: "io_defer c m s = (t, r) \<longleftrightarrow> (\<exists>s'. m s = (s', r) \<and> t = fst (c s'))"
  by (auto simp: io_defer_def split: prod.splits)

lemma io_err_Inr [io_simps]: "io_err f m s = (t, Inr y) \<longleftrightarrow> m s = (t, Inr y)"
  by (auto simp: io_err_def split: prod.splits sum.splits)

text \<open>What every effect of a computation keeps, the computation keeps.\<close>

definition keeps :: "('s \<times> db \<Rightarrow> bool) \<Rightarrow> ('s, 'e, 'a) io \<Rightarrow> bool" where
  "keeps P m \<longleftrightarrow> (\<forall>s. P s \<longrightarrow> P (fst (m s)))"

named_theorems keeps_intro "computations that keep a predicate"

lemma keepsI: "(\<And>s. P s \<Longrightarrow> P (fst (m s))) \<Longrightarrow> keeps P m"
  by (simp add: keeps_def)

lemma keepsD: "keeps P m \<Longrightarrow> P s \<Longrightarrow> P (fst (m s))"
  unfolding keeps_def by blast

lemma keeps_pure [keeps_intro]:
  "keeps P (io_return x)" "keeps P (io_fail e)" "keeps P (io_look f)" "keeps P (io_lift r)"
  by (simp_all add: keeps_def io_return_def io_fail_def io_look_def io_lift_def)

lemma keeps_bind [keeps_intro]: "keeps P m \<Longrightarrow> (\<And>x. keeps P (f x)) \<Longrightarrow> keeps P (io_bind m f)"
  by (fastforce simp: keeps_def io_bind_def split: prod.splits sum.splits)

lemma keeps_then [keeps_intro]: "keeps P m \<Longrightarrow> keeps P k \<Longrightarrow> keeps P (io_then m k)"
  by (simp add: io_then_def keeps_bind)

lemma keeps_all [keeps_intro]: "(\<And>x. x \<in> set xs \<Longrightarrow> keeps P (f x)) \<Longrightarrow> keeps P (io_all f xs)"
  by (induction xs) (auto intro: keeps_intro)

lemma keeps_if [keeps_intro]: "(b \<Longrightarrow> keeps P m) \<Longrightarrow> (\<not> b \<Longrightarrow> keeps P k) \<Longrightarrow> keeps P (if b then m else k)"
  by simp

lemma keeps_err [keeps_intro]: "keeps P m \<Longrightarrow> keeps P (io_err f m)"
  by (fastforce simp: keeps_def io_err_def split: prod.splits sum.splits)

lemma keeps_defer [keeps_intro]: "keeps P c \<Longrightarrow> keeps P m \<Longrightarrow> keeps P (io_defer c m)"
  by (fastforce simp: keeps_def io_defer_def split: prod.splits)


section \<open>A machine that does nothing\<close>

text \<open>The starting point of the concrete machines of the examples.\<close>

definition idle_host :: host where
  "idle_host = \<lparr>h_uni = (\<lambda>_. True), h_compile = (\<lambda>_. Inl ''none''), h_fs = (\<lambda>_. None), h_proc = (\<lambda>_ _ _ _. NotStarted ''none'' 0)\<rparr>"

definition idle_os :: "'s os" where
  "idle_os = \<lparr>os_stat = (\<lambda>_ _. Missing), os_lstat = (\<lambda>_ _. Missing), os_read = (\<lambda>_ _. None), os_abs = (\<lambda>p _. Some p),
     os_create = (\<lambda>_ s. (s, True)), os_write = (\<lambda>_ _ s. (s, True)), os_append = (\<lambda>_ _ s. (s, True)),
     os_mkdir = (\<lambda>_ s. (s, True)), os_lock = (\<lambda>_ s. (s, LockCreated)), os_remove = (\<lambda>_ s. s),
     os_remove_all = (\<lambda>_ s. (s, True)), os_git = (\<lambda>_ _ _ s. (s, None)), os_now = (\<lambda>_. ''2026-01-01T00:00:00Z''),
     os_elapsed = (\<lambda>_. 0), os_ended = (\<lambda>_. False), os_sleep = (\<lambda>_ s. s), os_uuid = (\<lambda>s. (s, None)),
     os_start = (\<lambda>_ s. (s, Inl ''none'')), os_export = (\<lambda>_ _. Inl ''none''), os_host = (\<lambda>_. idle_host),
     os_validated = (\<lambda>_ _ s. s), os_found = (\<lambda>_. True), os_alnum = (\<lambda>_. False), os_environ = [], os_platform = [], os_version = [],
     os_json = (\<lambda>_. None), os_num = (\<lambda>_. [])\<rparr>"

end
