(* ===== verification/GitSource.thy ===== *)
theory GitSource
  imports HostOS
begin

text \<open>
  \<open>internal/runner/gitsource.go\<close> and the worktree operations of \<open>worktree.go\<close>: the deterministic
  baseline commit of a fixture, external repositories, the lock of the cache and disposable worktrees,
  over the machine of \<open>HostOS\<close>. The clock of the lock advances by the sleeps of its loop.
\<close>

record baseline =
  bl_repo :: string
  bl_sha :: string

datatype source_error = NoCache | BadFixtureHash string | MkdirFailed string | LockFailedError | LockTimedOut | LockCancelled
  | ClearFailed string | GitStep "string list" | FixtureWrite string | NotACommit string | EmptySource
  | NotSource string | UnknownRef string string | NoRepoDir | NoSHA | EmptyDest | WorktreeStat string | AbsFailed string

definition fixtureCommitMessage :: string where "fixtureCommitMessage = ''ocbench fixture baseline''"
definition lockPollInitial :: nat where "lockPollInitial = 5"
definition lockPollMax :: nat where "lockPollMax = 100"
definition lockWaitMax :: nat where "lockWaitMax = 30000"

definition commitIdentity :: "string list" where
  "commitIdentity = [''GIT_AUTHOR_NAME=ocbench'', ''GIT_AUTHOR_EMAIL=ocbench@localhost'',
     ''GIT_COMMITTER_NAME=ocbench'', ''GIT_COMMITTER_EMAIL=ocbench@localhost'',
     ''GIT_AUTHOR_DATE=2000-01-01T00:00:00Z'', ''GIT_COMMITTER_DATE=2000-01-01T00:00:00Z'']"

definition baselineGitConfig :: "string \<Rightarrow> string list" where
  "baselineGitConfig repoDir = [''-c'', ''commit.gpgsign=false'', ''-c'', ''core.autocrlf=false'',
     ''-c'', ''core.hooksPath='' @ filepath_join [repoDir, ''.git'', ''no-hooks'']]"

definition runGit :: "'s os \<Rightarrow> string list \<Rightarrow> string \<Rightarrow> string list \<Rightarrow> ('s, source_error, string) io" where
  "runGit os extra dir args =
     io_bind (io_get (os_git os (gitEnv (os_environ os) extra) dir args)) (\<lambda>r.
       case r of None \<Rightarrow> io_fail (GitStep args) | Some out \<Rightarrow> io_return out)"

definition exists :: "'s os \<Rightarrow> string \<Rightarrow> 's \<Rightarrow> bool" where
  "exists os p s \<longleftrightarrow> os_stat os p s \<noteq> Missing \<and> os_stat os p s \<noteq> StatFailed"

definition baselineSHA :: "'s os \<Rightarrow> string \<Rightarrow> ('s, source_error, string option) io" where
  "baselineSHA os repoDir =
     io_bind (io_look (exists os (filepath_join [repoDir, ''.git'']))) (\<lambda>found.
       if \<not> found then io_return None
       else io_bind (io_get (os_git os (gitEnv (os_environ os) []) repoDir
              [''rev-parse'', ''--verify'', ''--quiet'', ''HEAD^{commit}''])) (\<lambda>r.
            case r of None \<Rightarrow> io_return None
            | Some out \<Rightarrow> io_return (if isHexSHA (trim_space out) then Some (trim_space out) else None)))"

section \<open>Fixtures\<close>

text \<open>The visits of \<open>fs.WalkDir\<close>, and the paths \<open>fs.ValidPath\<close> accepts.\<close>

fun walk_entries :: "string list \<Rightarrow> entry \<Rightarrow> (string list \<times> entry) list" where
  "walk_entries p (EDir kids) = (p, EDir kids) # concat (map (\<lambda>q. walk_entries (p @ [fst q]) (snd q)) kids)"
| "walk_entries p e = [(p, e)]"

definition valid_path :: "string list \<Rightarrow> bool" where
  "valid_path p \<longleftrightarrow> list_all (\<lambda>n. n \<noteq> [] \<and> n \<noteq> ''.'' \<and> n \<noteq> ''..'' \<and> CHR ''/'' \<notin> set n) p \<and> utf8_valid (rel_path p)"

definition write_entry :: "'s os \<Rightarrow> string \<Rightarrow> string list \<times> entry \<Rightarrow> ('s, source_error, unit) io" where
  "write_entry os dest item =
     (let p = rel_path (fst item); target = filepath_join [dest, p]
      in case snd item of
           EUnreadable \<Rightarrow> io_fail (FixtureWrite p)
         | e \<Rightarrow>
             if \<not> valid_path (fst item) then io_fail (FixtureWrite p)
             else (case e of
                     EDir _ \<Rightarrow> io_try (os_mkdir os target) (FixtureWrite p)
                   | EFile b \<Rightarrow>
                       io_then (io_try (os_mkdir os (file_dir target)) (FixtureWrite p))
                         (io_try (os_write os target b) (FixtureWrite p))
                   | _ \<Rightarrow> io_return ()))"

definition writeFixture :: "'s os \<Rightarrow> entry \<Rightarrow> string \<Rightarrow> ('s, source_error, unit) io" where
  "writeFixture os fixture dest = io_all (write_entry os dest) (walk_entries [] fixture)"

text \<open>The wait before attempt \<open>k + 1\<close>: doubled each time up to the maximum.\<close>

fun lock_backoff :: "nat \<Rightarrow> nat" where
  "lock_backoff 0 = lockPollInitial"
| "lock_backoff (Suc k) = (if lock_backoff k < lockPollMax then min (lock_backoff k * 2) lockPollMax else lock_backoff k)"

lemma lock_backoff_bounds: "lockPollInitial \<le> lock_backoff k \<and> lock_backoff k \<le> lockPollMax"
  by (induction k) (auto simp: lockPollInitial_def lockPollMax_def)

function lock_loop :: "'s os \<Rightarrow> string \<Rightarrow> nat \<Rightarrow> nat \<Rightarrow> 's \<Rightarrow> 's \<times> source_error option" where
  "lock_loop os path k waited s =
     (case os_lock os path s of
        (s, LockCreated) \<Rightarrow> (s, None)
      | (s, LockFailed) \<Rightarrow> (s, Some LockFailedError)
      | (s, LockExists) \<Rightarrow>
          if waited > lockWaitMax then (s, Some LockTimedOut)
          else if os_ended os s then (s, Some LockCancelled)
          else lock_loop os path (Suc k) (waited + lock_backoff k) (os_sleep os (lock_backoff k) s))"
  by pat_completeness auto
termination
proof (relation "measure (\<lambda>(os, path, k, waited, s). Suc lockWaitMax - waited)", goal_cases)
  case (2 os path k waited)
  then show ?case using lock_backoff_bounds [of k] by (auto simp: lockPollInitial_def intro!: diff_less_mono2)
qed simp

declare lock_loop.simps [simp del]

definition acquireLock :: "'s os \<Rightarrow> string \<Rightarrow> ('s, source_error, unit) io" where
  "acquireLock os path =
     io_then (io_try (os_mkdir os (file_dir path)) (MkdirFailed path))
       (io_bind (io_get (lock_loop os path 0 0)) (\<lambda>r.
          case r of None \<Rightarrow> io_return () | Some e \<Rightarrow> io_fail e))"

definition releaseLock :: "'s os \<Rightarrow> string \<Rightarrow> ('s, source_error, unit) io" where
  "releaseLock os path = io_get (\<lambda>s. (os_remove os path s, ()))"

definition commit_fixture :: "'s os \<Rightarrow> entry \<Rightarrow> string \<Rightarrow> ('s, source_error, baseline) io" where
  "commit_fixture os fixture repoDir =
     (let config = baselineGitConfig repoDir
      in io_then (io_try (os_remove_all os repoDir) (ClearFailed repoDir))
        (io_then (io_try (os_mkdir os repoDir) (MkdirFailed repoDir))
        (io_bind (runGit os [] repoDir (config @ [''init'', ''-q'', ''-b'', ''main'', ''--object-format=sha1''])) (\<lambda>_.
         io_then (writeFixture os fixture repoDir)
        (io_bind (runGit os [] repoDir (config @ [''add'', ''-A'', ''--''])) (\<lambda>_.
         io_bind (runGit os commitIdentity repoDir (config @ [''commit'', ''-q'', ''-m'', fixtureCommitMessage])) (\<lambda>_.
         io_bind (runGit os [] repoDir [''rev-parse'', ''HEAD'']) (\<lambda>out.
         let sha = trim_space out
         in if isHexSHA sha then io_return \<lparr>bl_repo = repoDir, bl_sha = sha\<rparr> else io_fail (NotACommit sha)))))))))"

definition MaterializeFixture :: "'s os \<Rightarrow> string \<Rightarrow> entry \<Rightarrow> string \<Rightarrow> ('s, source_error, baseline) io" where
  "MaterializeFixture os cacheDir fixture fixtureHash =
     (if cacheDir = [] then io_fail NoCache
      else if \<not> isLowerHex64 fixtureHash then io_fail (BadFixtureHash fixtureHash)
      else let repoDir = filepath_join [cacheDir, ''fixtures'', fixtureHash]
           in io_bind (baselineSHA os repoDir) (\<lambda>r.
                case r of
                  Some sha \<Rightarrow> io_return \<lparr>bl_repo = repoDir, bl_sha = sha\<rparr>
                | None \<Rightarrow>
                    io_then (io_try (os_mkdir os (file_dir repoDir)) (MkdirFailed repoDir))
                   (io_then (acquireLock os (repoDir @ ''.lock''))
                   (io_defer (releaseLock os (repoDir @ ''.lock''))
                     (io_bind (baselineSHA os repoDir) (\<lambda>r.
                        case r of
                          Some sha \<Rightarrow> io_return \<lparr>bl_repo = repoDir, bl_sha = sha\<rparr>
                        | None \<Rightarrow> commit_fixture os fixture repoDir))))))"

section \<open>External repositories\<close>

definition resolveSourceRepo ::
  "'s os \<Rightarrow> (string \<Rightarrow> string) \<Rightarrow> string \<Rightarrow> string \<Rightarrow> ('s, source_error, string) io" where
  "resolveSourceRepo os sha256 cacheDir source =
     io_bind (io_look (os_stat os source)) (\<lambda>k.
       if k = Directory
       then io_bind (io_look (os_abs os source)) (\<lambda>a. case a of None \<Rightarrow> io_fail (AbsFailed source) | Some p \<Rightarrow> io_return p)
       else if \<not> looksLikeURL source then io_fail (NotSource source)
       else if cacheDir = [] then io_fail NoCache
       else let dest = filepath_join [cacheDir, ''repos'', sha256 source]
            in io_bind (io_look (exists os (filepath_join [dest, ''.git'']))) (\<lambda>found.
                 if found
                 then io_bind (runGit os [] dest [''fetch'', ''--quiet'', ''--tags'', ''--force'', ''origin'']) (\<lambda>_. io_return dest)
                 else io_then (io_try (os_mkdir os (file_dir dest)) (MkdirFailed dest))
                        (io_bind (runGit os [] [] [''clone'', ''--quiet'', ''--no-checkout'', source, dest]) (\<lambda>_. io_return dest))))"

definition MaterializeRepo ::
  "'s os \<Rightarrow> (string \<Rightarrow> string) \<Rightarrow> string \<Rightarrow> string \<Rightarrow> string \<Rightarrow> ('s, source_error, baseline) io" where
  "MaterializeRepo os sha256 cacheDir source ref =
     (if source = [] then io_fail EmptySource
      else let ref = (if ref = [] then ''HEAD'' else ref)
           in io_bind (resolveSourceRepo os sha256 cacheDir source) (\<lambda>repoDir.
              io_bind (io_get (os_git os (gitEnv (os_environ os) []) repoDir
                  [''rev-parse'', ''--verify'', ''--quiet'', ref @ ''^{commit}''])) (\<lambda>r.
                case r of
                  None \<Rightarrow> io_fail (UnknownRef source ref)
                | Some out \<Rightarrow>
                    let sha = trim_space out
                    in if isHexSHA sha then io_return \<lparr>bl_repo = repoDir, bl_sha = sha\<rparr> else io_fail (NotACommit ref))))"

section \<open>Worktrees\<close>

definition validateBaseline :: "baseline \<Rightarrow> source_error + unit" where
  "validateBaseline b = (if bl_repo b = [] then Inl NoRepoDir else if bl_sha b = [] then Inl NoSHA else Inr ())"

definition CreateWorktree :: "'s os \<Rightarrow> baseline \<Rightarrow> string \<Rightarrow> ('s, source_error, unit) io" where
  "CreateWorktree os b dest =
     io_then (io_lift (validateBaseline b))
       (if dest = [] then io_fail EmptyDest
        else io_then (io_try (os_mkdir os (file_dir dest)) (MkdirFailed dest))
          (io_bind (runGit os [] (bl_repo b) [''worktree'', ''add'', ''--detach'', dest, bl_sha b]) (\<lambda>_. io_return ())))"

definition RemoveWorktree :: "'s os \<Rightarrow> baseline \<Rightarrow> string \<Rightarrow> ('s, source_error, unit) io" where
  "RemoveWorktree os b dest =
     io_then (io_lift (validateBaseline b))
       (if dest = [] then io_fail EmptyDest
        else io_then
          (io_bind (io_look (os_stat os dest)) (\<lambda>k.
             if k = Missing then io_return ()
             else if k = StatFailed then io_fail (WorktreeStat dest)
             else io_bind (runGit os [] (bl_repo b) [''worktree'', ''remove'', ''--force'', dest]) (\<lambda>_. io_return ())))
          (io_bind (runGit os [] (bl_repo b) [''worktree'', ''prune'']) (\<lambda>_. io_return ())))"


section \<open>The lock\<close>

lemma lock_loop_clock:
  fixes clock :: "'s \<Rightarrow> nat"
  assumes "\<And>n s. clock (os_sleep os n s) = clock s + n" "\<And>p s. clock (fst (os_lock os p s)) = clock s"
  shows "clock (fst (lock_loop os path k waited s)) + waited \<le> clock s + max waited (lockWaitMax + lockPollMax)"
  using assms
proof (induction os path k waited s rule: lock_loop.induct)
  case (1 os path k waited s)
  obtain s1 t where t: "os_lock os path s = (s1, t)" by force
  have c: "clock s1 = clock s" using "1.prems"(2) [of path s] t by simp
  show ?case
  proof (cases "t = LockExists \<and> \<not> lockWaitMax < waited \<and> \<not> os_ended os s1")
    case True
    then have "clock (fst (lock_loop os path (Suc k) (waited + lock_backoff k) (os_sleep os (lock_backoff k) s1))) + (waited + lock_backoff k)
        \<le> clock (os_sleep os (lock_backoff k) s1) + max (waited + lock_backoff k) (lockWaitMax + lockPollMax)"
      using "1.IH" [OF t [symmetric]] "1.prems" by simp
    moreover have "max (waited + lock_backoff k) (lockWaitMax + lockPollMax) = lockWaitMax + lockPollMax"
      using True lock_backoff_bounds [of k] by (simp add: max_def)
    ultimately show ?thesis using True t c "1.prems"(1) by (subst lock_loop.simps) simp
  next
    case False
    then show ?thesis using t c by (subst lock_loop.simps) (auto split: lock_try.splits)
  qed
qed

text \<open>C23: 
  Waiting for the lock of a fixture ends: the sleeps of one call add up to at most 30.1 seconds,
  whatever the other processes do.
\<close>

theorem acquireLock_bounded:
  fixes clock :: "'s \<Rightarrow> nat"
  assumes "\<And>n s. clock (os_sleep os n s) = clock s + n" "\<And>p s. clock (fst (os_lock os p s)) = clock s"
    "\<And>p s. clock (fst (os_mkdir os p s)) = clock s"
  shows "clock (fst (fst (acquireLock os path (s, d)))) \<le> clock s + 30100"
proof -
  have "clock (fst (lock_loop os path 0 0 m)) \<le> clock m + 30100" for m
    using lock_loop_clock [of clock os path 0 0 m] assms(1,2) by (simp add: lockWaitMax_def lockPollMax_def)
  moreover obtain m ok where mk: "os_mkdir os (file_dir path) s = (m, ok)" by force
  moreover have "clock m = clock s" using assms(3) [of "file_dir path" s] mk by simp
  moreover obtain m' r where loop: "lock_loop os path 0 0 m = (m', r)" by force
  ultimately have "clock m' \<le> clock s + 30100" by (metis fst_conv)
  then show ?thesis
    using mk loop \<open>clock m = clock s\<close>
    by (cases r) (auto simp: acquireLock_def io_then_def io_bind_def io_try_def io_get_def io_return_def io_fail_def)
qed

section \<open>What is removed\<close>

lemma keeps_step:
  "(\<And>m. P m \<Longrightarrow> P (fst (f m))) \<Longrightarrow> keeps (\<lambda>s. P (fst s)) (io_try f e)"
  "(\<And>m. P m \<Longrightarrow> P (fst (g m))) \<Longrightarrow> keeps (\<lambda>s. P (fst s)) (io_get g)"
  by (auto simp: keeps_def io_try_def io_get_def split: prod.splits) (metis fst_conv)+

lemma lock_loop_keeps:
  assumes "\<And>p m. P m \<Longrightarrow> P (fst (os_lock os p m))" "\<And>n m. P m \<Longrightarrow> P (os_sleep os n m)" "P s"
  shows "P (fst (lock_loop os path k waited s))"
  using assms
proof (induction os path k waited s rule: lock_loop.induct)
  case (1 os path k waited s)
  obtain s1 t where t: "os_lock os path s = (s1, t)" by force
  then have "P s1" using "1.prems"(1) [OF "1.prems"(3), of path] by simp
  then show ?case using "1.IH" [OF t [symmetric]] "1.prems"(1,2) t by (subst lock_loop.simps) (auto split: lock_try.splits)
qed

text \<open>Everything but a removal of a directory keeps \<open>P\<close>.\<close>

definition effects_keep :: "'s os \<Rightarrow> ('s \<Rightarrow> bool) \<Rightarrow> bool" where
  "effects_keep os P \<longleftrightarrow> (\<forall>m. P m \<longrightarrow>
     (\<forall>p. P (fst (os_mkdir os p m)) \<and> P (os_remove os p m) \<and> P (fst (os_lock os p m)) \<and> (\<forall>b. P (fst (os_write os p b m)))) \<and>
     (\<forall>n. P (os_sleep os n m)) \<and> (\<forall>env dir args. P (fst (os_git os env dir args m))))"

lemma effects_keepD:
  assumes "effects_keep os P" "P m"
  shows "P (fst (os_mkdir os p m))" "P (os_remove os p m)" "P (fst (os_lock os p m))" "P (fst (os_write os p b m))"
    "P (os_sleep os n m)" "P (fst (os_git os env dir args m))"
  using assms by (simp_all add: effects_keep_def)

lemma keeps_option:
  "keeps P m \<Longrightarrow> (\<And>y. keeps P (f y)) \<Longrightarrow> keeps P (case x of None \<Rightarrow> m | Some y \<Rightarrow> f y)"
  by (cases x) simp_all

lemma fixture_keeps:
  assumes "effects_keep os P"
  shows "keeps (\<lambda>s. P (fst s)) (runGit os extra dir args)" "keeps (\<lambda>s. P (fst s)) (baselineSHA os repo)"
    "keeps (\<lambda>s. P (fst s)) (writeFixture os fixture dest)" "keeps (\<lambda>s. P (fst s)) (acquireLock os path)"
    "keeps (\<lambda>s. P (fst s)) (releaseLock os path)"
    and "\<And>e :: source_error. keeps (\<lambda>s. P (fst s)) (io_try (os_mkdir os p) e)"
proof -
  note k = effects_keepD [OF assms]
  have git: "keeps (\<lambda>s. P (fst s)) (io_get (os_git os env dir args))" for env dir args
    by (rule keeps_step(2)) (rule k)
  show mk: "keeps (\<lambda>s. P (fst s)) (io_try (os_mkdir os p) e)" for p and e :: source_error
    by (rule keeps_step(1)) (rule k)
  have wr: "keeps (\<lambda>s. P (fst s)) (io_try (os_write os p b) e)" for p b and e :: source_error
    by (rule keeps_step(1)) (rule k)
  have loop: "keeps (\<lambda>s. P (fst s)) (io_get (lock_loop os path 0 0))" for path
    by (rule keeps_step(2)) (rule lock_loop_keeps; simp add: k)
  show "keeps (\<lambda>s. P (fst s)) (runGit os extra dir args)"
    unfolding runGit_def by (intro keeps_intro keeps_option git)
  show "keeps (\<lambda>s. P (fst s)) (baselineSHA os repo)"
    unfolding baselineSHA_def by (intro keeps_intro keeps_option git)
  have "keeps (\<lambda>s. P (fst s)) (write_entry os dest item)" for item
    unfolding write_entry_def Let_def by (cases "snd item"; simp only: entry.case; intro keeps_intro mk wr)
  then show "keeps (\<lambda>s. P (fst s)) (writeFixture os fixture dest)" unfolding writeFixture_def by (intro keeps_all)
  show "keeps (\<lambda>s. P (fst s)) (acquireLock os path)"
    unfolding acquireLock_def by (intro keeps_intro keeps_option mk loop)
  show "keeps (\<lambda>s. P (fst s)) (releaseLock os path)"
    unfolding releaseLock_def by (rule keeps_step(2)) (simp add: k)
qed

lemma clean_elems_append:
  "clean_elems r (es @ fs) out = clean_elems r fs (rev (clean_elems r es out))"
  by (induction r es out rule: clean_elems.induct) (auto split: list.splits)

text \<open>The elements of a path after cleaning, and that it is absolute.\<close>

definition path_elems :: "string \<Rightarrow> bool \<times> string list" where
  "path_elems p = (has_prefix p ''/'', clean_elems (has_prefix p ''/'') (split_on (CHR ''/'') p) [])"

definition elems_path :: "bool \<times> string list \<Rightarrow> string" where
  "elems_path x = (if fst x then CHR ''/'' # join ''/'' (snd x) else if snd x = [] then ''.'' else join ''/'' (snd x))"

text \<open>The directory a fixture is cached in: two elements below the cache.\<close>

definition fixture_dir :: "string \<Rightarrow> string \<Rightarrow> string" where
  "fixture_dir cacheDir h = elems_path (fst (path_elems cacheDir), snd (path_elems cacheDir) @ [''fixtures'', h])"

lemma split_on_middle: "split_on c (a @ c # b) = split_on c a @ split_on c b"
  by (induction a) (auto split: list.splits)

lemma join_two_nonempty: "join [c] (es @ [a, b]) \<noteq> []"
  by (induction es rule: induct_list012) auto

lemma fixture_path:
  assumes "cacheDir \<noteq> []" "isLowerHex64 h"
  shows "filepath_join [cacheDir, ''fixtures'', h] = fixture_dir cacheDir h"
proof -
  have h: "h \<noteq> []" "plain h" "CHR ''/'' \<notin> set h"
    using assms(2) by (auto simp: isLowerHex64_def plain_def less_eq_char_def)
  have "split_on (CHR ''/'') (cacheDir @ ''/fixtures/'' @ h) = split_on (CHR ''/'') cacheDir @ [''fixtures'', h]"
    using split_on_middle [of "CHR ''/''" cacheDir "''fixtures/'' @ h"] split_on_append [of "CHR ''/''" "''fixtures''" h]
      split_on_word [OF h(3)] by simp
  moreover have "hd (cacheDir @ x) = CHR ''/'' \<longleftrightarrow> has_prefix cacheDir ''/''" for x
    using assms(1) by (cases cacheDir) auto
  moreover have "clean_elems r (es @ [''fixtures'', h]) [] = clean_elems r es [] @ [''fixtures'', h]" for r es
    using h(2) by (simp add: clean_elems_append clean_elems_plain plain_def del: clean_elems.simps)
  ultimately show ?thesis
    using assms(1) h(1) join_two_nonempty by (simp add: filepath_join_def path_clean_def fixture_dir_def elems_path_def path_elems_def Let_def)
qed


lemma commit_fixture_keeps:
  assumes "effects_keep os P" "\<And>m. P m \<Longrightarrow> P (fst (os_remove_all os repoDir m))"
  shows "keeps (\<lambda>s. P (fst s)) (commit_fixture os fixture repoDir)"
  unfolding commit_fixture_def Let_def
  by (intro keeps_intro fixture_keeps [OF assms(1)] keeps_step(1) assms(2))

text \<open>C20: 
  The only directory a materialisation removes is the cache entry of its own fixture, two elements
  below the cache directory whatever that directory's path is: if every other effect keeps
  something and removing that entry keeps it, so does the whole call. When it succeeds the
  repository is that entry and the revision is an object id.
\<close>

theorem MaterializeFixture_confined:
  assumes "effects_keep os P" "\<And>m. P m \<Longrightarrow> P (fst (os_remove_all os (fixture_dir cacheDir h) m))" "P m"
  shows "P (fst (fst (MaterializeFixture os cacheDir fixture h (m, d)))) \<and>
    (case snd (MaterializeFixture os cacheDir fixture h (m, d)) of
       Inl _ \<Rightarrow> True
     | Inr b \<Rightarrow> bl_repo b = fixture_dir cacheDir h \<and> isHexSHA (bl_sha b))"
proof (cases "cacheDir = [] \<or> \<not> isLowerHex64 h")
  case True
  then show ?thesis using assms(3) by (auto simp: MaterializeFixture_def io_fail_def)
next
  case False
  let ?dir = "fixture_dir cacheDir h"
  have dir: "filepath_join [cacheDir, ''fixtures'', h] = ?dir" using fixture_path False by simp
  note k = fixture_keeps [OF assms(1)]
  have "keeps (\<lambda>s. P (fst s)) (MaterializeFixture os cacheDir fixture h)"
    unfolding MaterializeFixture_def dir Let_def
    by (intro keeps_intro keeps_option k commit_fixture_keeps assms(1,2))
  then have "P (fst (fst (MaterializeFixture os cacheDir fixture h (m, d))))" using keepsD [of _ _ "(m, d)"] assms(3) by fastforce
  moreover have sha: "isHexSHA x" if "baselineSHA os r s = (t, Inr (Some x))" for r s t x
    using that by (auto simp: baselineSHA_def io_bind_Inr io_simps split: if_splits option.splits)
  have commit: "bl_repo b = r \<and> isHexSHA (bl_sha b)" if "commit_fixture os fixture r s = (t, Inr b)" for r s t b
    using that by (auto simp: commit_fixture_def Let_def io_then_Inr io_bind_Inr io_simps split: if_splits)
  have "bl_repo b = ?dir \<and> isHexSHA (bl_sha b)" if "MaterializeFixture os cacheDir fixture h (m, d) = (t, Inr b)" for t b
    using that False unfolding MaterializeFixture_def dir Let_def
    by (auto simp: io_then_Inr io_bind_Inr io_defer_Inr io_simps dest!: sha commit split: option.splits)
  ultimately show ?thesis by (cases "MaterializeFixture os cacheDir fixture h (m, d)") (auto split: sum.splits)
qed

section \<open>Examples\<close>

theorem acquireLock_bounded_witness:
  "fst (fst (acquireLock (idle_os\<lparr>os_lock := \<lambda>_ s. (s, LockExists), os_sleep := \<lambda>n s. s + n\<rparr>) ''/c/x.lock'' (0, empty_db))) \<le> 30100"
  using acquireLock_bounded [of "\<lambda>n. n" "idle_os\<lparr>os_lock := \<lambda>_ s. (s, LockExists), os_sleep := \<lambda>n s. s + n\<rparr>" "''/c/x.lock''" 0 empty_db]
  by (simp add: idle_os_def)

theorem MaterializeFixture_confined_witness:
  "set (fst (fst (MaterializeFixture (idle_os\<lparr>os_remove_all := \<lambda>p s. (p # s, True)\<rparr>) ''/c'' (EDir []) (replicate 64 (CHR ''a'')) ([], empty_db))))
     \<subseteq> {fixture_dir ''/c'' (replicate 64 (CHR ''a''))}"
proof -
  let ?os = "idle_os\<lparr>os_remove_all := \<lambda>p s. (p # s, True)\<rparr>" and ?h = "replicate 64 (CHR ''a'')"
  have "effects_keep ?os (\<lambda>l. set l \<subseteq> {fixture_dir ''/c'' ?h})" by (simp add: effects_keep_def idle_os_def)
  from MaterializeFixture_confined [OF this, of "''/c''" ?h "[]" "EDir []" empty_db] show ?thesis by simp
qed

end
