(* ===== verification/Session.thy ===== *)
theory Session
  imports Events SliceSort
begin

text \<open>
  \<open>internal/session/session.go\<close>: session exports, their token accounting, the per-agent
  roll-up and the discovery of delegated child sessions. Token counters are 64-bit words read
  as signed integers, so sums wrap as they do in the code. Costs are reals.
\<close>

section \<open>Tokens\<close>

datatype usage = Usage (uInput: i64) (uOutput: i64) (uReasoning: i64) (uCacheRead: i64) (uCacheWrite: i64) (uTotal: i64)

text \<open>\<open>addTokens\<close> makes the usages a commutative monoid, so they can be summed over lists.\<close>

fun addTokens :: "usage \<Rightarrow> usage \<Rightarrow> usage" where
  "addTokens (Usage i o' r cr cw t) (Usage i2 o2 r2 cr2 cw2 t2)
   = Usage (i + i2) (o' + o2) (r + r2) (cr + cr2) (cw + cw2) (t + t2)"

instantiation usage :: comm_monoid_add
begin

definition zero_usage :: usage where "zero_usage = Usage 0 0 0 0 0 0"
definition plus_usage :: "usage \<Rightarrow> usage \<Rightarrow> usage" where "plus_usage = addTokens"

instance
proof
  fix a b c :: usage
  show "a + b + c = a + (b + c)" by (cases a; cases b; cases c) (simp add: plus_usage_def add.assoc)
  show "a + b = b + a" by (cases a; cases b) (simp add: plus_usage_def add.commute)
  show "0 + a = a" by (cases a) (simp add: plus_usage_def zero_usage_def)
qed

end

lemma usage_add_sels [simp]:
  "uInput (a + b) = uInput a + uInput b" "uOutput (a + b) = uOutput a + uOutput b"
  "uReasoning (a + b) = uReasoning a + uReasoning b" "uCacheRead (a + b) = uCacheRead a + uCacheRead b"
  "uCacheWrite (a + b) = uCacheWrite a + uCacheWrite b" "uTotal (a + b) = uTotal a + uTotal b"
  by (cases a; cases b; simp add: plus_usage_def)+

lemma usage_zero_sels [simp]:
  "uInput 0 = 0" "uOutput 0 = 0" "uReasoning 0 = 0" "uCacheRead 0 = 0" "uCacheWrite 0 = 0" "uTotal 0 = 0"
  by (simp_all add: zero_usage_def)

record rawTokens =
  rt_input :: i64
  rt_output :: i64
  rt_reasoning :: i64
  rt_total :: "i64 option"
  rt_cache_read :: i64
  rt_cache_write :: i64

definition clampNonNegative :: "i64 \<Rightarrow> i64" where
  "clampNonNegative v = (if v <s 0 then 0 else v)"

definition toTokens :: "rawTokens \<Rightarrow> usage" where
  "toTokens r =
     (let i = clampNonNegative (rt_input r); out = clampNonNegative (rt_output r);
          re = clampNonNegative (rt_reasoning r); cr = clampNonNegative (rt_cache_read r);
          cw = clampNonNegative (rt_cache_write r)
      in Usage i out re cr cw
           (case rt_total r of Some t \<Rightarrow> clampNonNegative t | None \<Rightarrow> i + out + re + cr))"

section \<open>Exports\<close>

record tool_call =
  tc_name :: string
  tc_title :: string
  tc_status :: string
  tc_duration :: i64

record message =
  ms_agent :: string
  ms_cost :: real
  ms_tokens :: usage
  ms_tools :: "tool_call list"
  ms_rawparts :: "json list"

record session =
  se_id :: string
  se_agent :: string
  se_cost :: real
  se_tokens :: usage
  se_messages :: "message list"

record exportInfo =
  xi_id :: string
  xi_agent :: string
  xi_cost :: real
  xi_tokens :: rawTokens

record exportPart =
  xp_type :: string
  xp_tool :: string
  xp_title :: string
  xp_status :: string
  xp_start :: i64
  xp_end :: i64

record exportMessage =
  xm_info :: exportInfo
  xm_parts :: "json list"

record exportFile =
  xf_info :: exportInfo
  xf_messages :: "exportMessage list"

definition zero_raw :: rawTokens where
  "zero_raw = \<lparr>rt_input = 0, rt_output = 0, rt_reasoning = 0, rt_total = None, rt_cache_read = 0, rt_cache_write = 0\<rparr>"

definition zero_info :: exportInfo where
  "zero_info = \<lparr>xi_id = [], xi_agent = [], xi_cost = 0, xi_tokens = zero_raw\<rparr>"

definition zero_xpart :: exportPart where
  "zero_xpart = \<lparr>xp_type = [], xp_tool = [], xp_title = [], xp_status = [], xp_start = 0, xp_end = 0\<rparr>"

definition zero_xmessage :: exportMessage where
  "zero_xmessage = \<lparr>xm_info = zero_info, xm_parts = []\<rparr>"

definition dec_rawTokens :: "rawTokens dec" where
  "dec_rawTokens = dec_struct (\<lambda>k.
     if k = ''input'' then dec_field rt_input_update rt_input dec_i64
     else if k = ''output'' then dec_field rt_output_update rt_output dec_i64
     else if k = ''reasoning'' then dec_field rt_reasoning_update rt_reasoning dec_i64
     else if k = ''total'' then dec_field rt_total_update rt_total (dec_ptr 0 dec_i64)
     else if k = ''cache'' then dec_struct (\<lambda>k.
       if k = ''read'' then dec_field rt_cache_read_update rt_cache_read dec_i64
       else if k = ''write'' then dec_field rt_cache_write_update rt_cache_write dec_i64
       else skip_field)
     else skip_field)"

definition dec_info :: "exportInfo dec" where
  "dec_info = dec_struct (\<lambda>k.
     if k = ''id'' then dec_field xi_id_update xi_id dec_string
     else if k = ''agent'' then dec_field xi_agent_update xi_agent dec_string
     else if k = ''cost'' then dec_field xi_cost_update xi_cost dec_float
     else if k = ''tokens'' then dec_field xi_tokens_update xi_tokens dec_rawTokens
     else skip_field)"

definition dec_xpart :: "exportPart dec" where
  "dec_xpart = dec_struct (\<lambda>k.
     if k = ''type'' then dec_field xp_type_update xp_type dec_string
     else if k = ''tool'' then dec_field xp_tool_update xp_tool dec_string
     else if k = ''state'' then dec_struct (\<lambda>k.
       if k = ''title'' then dec_field xp_title_update xp_title dec_string
       else if k = ''status'' then dec_field xp_status_update xp_status dec_string
       else if k = ''time'' then dec_struct (\<lambda>k.
         if k = ''start'' then dec_field xp_start_update xp_start dec_i64
         else if k = ''end'' then dec_field xp_end_update xp_end dec_i64
         else skip_field)
       else skip_field)
     else skip_field)"

definition dec_raw_elem :: "json dec" where
  "dec_raw_elem j v = (j, True)"

definition dec_xmessage :: "exportMessage dec" where
  "dec_xmessage = dec_struct (\<lambda>k.
     if k = ''info'' then dec_field xm_info_update xm_info dec_info
     else if k = ''parts'' then dec_field xm_parts_update xm_parts (dec_list JNull dec_raw_elem)
     else skip_field)"

definition dec_xfile :: "exportFile dec" where
  "dec_xfile = dec_struct (\<lambda>k.
     if k = ''info'' then dec_field xf_info_update xf_info dec_info
     else if k = ''messages'' then dec_field xf_messages_update xf_messages (dec_list zero_xmessage dec_xmessage)
     else skip_field)"

fun export_tools :: "json list \<Rightarrow> tool_call list" where
  "export_tools [] = []"
| "export_tools (raw # parts) =
     (case unmarshal dec_xpart zero_xpart raw of
        None \<Rightarrow> export_tools parts
      | Some p \<Rightarrow>
          if xp_type p \<noteq> ''tool'' then export_tools parts
          else (let dur = xp_end p - xp_start p; dur = (if dur <s 0 then 0 else dur)
                in \<lparr>tc_name = xp_tool p, tc_title = xp_title p, tc_status = xp_status p, tc_duration = dur\<rparr>
                   # export_tools parts))"

definition export_message :: "exportMessage \<Rightarrow> message" where
  "export_message m =
     \<lparr>ms_agent = xi_agent (xm_info m), ms_cost = xi_cost (xm_info m), ms_tokens = toTokens (xi_tokens (xm_info m)),
      ms_tools = export_tools (xm_parts m), ms_rawparts = xm_parts m\<rparr>"

definition ParseExport :: "(string \<Rightarrow> json option) \<Rightarrow> string \<Rightarrow> session option" where
  "ParseExport parse data =
     (case parse data of
        None \<Rightarrow> None
      | Some j \<Rightarrow>
          (case unmarshal dec_xfile \<lparr>xf_info = zero_info, xf_messages = []\<rparr> j of
             None \<Rightarrow> None
           | Some xf \<Rightarrow>
               Some \<lparr>se_id = xi_id (xf_info xf), se_agent = xi_agent (xf_info xf), se_cost = xi_cost (xf_info xf),
                     se_tokens = toTokens (xi_tokens (xf_info xf)),
                     se_messages = map export_message (xf_messages xf)\<rparr>))"

section \<open>Roll-up\<close>

record agent_rollup =
  ar_agent :: string
  ar_messages :: nat
  ar_toolcalls :: nat
  ar_failed :: nat
  ar_cost :: real
  ar_tokens :: usage

definition new_rollup :: "string \<Rightarrow> agent_rollup" where
  "new_rollup a = \<lparr>ar_agent = a, ar_messages = 0, ar_toolcalls = 0, ar_failed = 0, ar_cost = 0, ar_tokens = Usage 0 0 0 0 0 0\<rparr>"

definition roll_tool :: "tool_call \<Rightarrow> agent_rollup \<Rightarrow> agent_rollup" where
  "roll_tool tc r =
     (let r = r\<lparr>ar_toolcalls := ar_toolcalls r + 1\<rparr>
      in if tc_status tc = ''error'' then r\<lparr>ar_failed := ar_failed r + 1\<rparr> else r)"

definition roll_message :: "message \<Rightarrow> agent_rollup \<Rightarrow> agent_rollup" where
  "roll_message m r =
     fold roll_tool (ms_tools m)
       (r\<lparr>ar_messages := ar_messages r + 1, ar_cost := ar_cost r + ms_cost m,
         ar_tokens := addTokens (ar_tokens r) (ms_tokens m)\<rparr>)"

definition roll_session :: "session option \<Rightarrow> (string, agent_rollup) gomap \<Rightarrow> (string, agent_rollup) gomap" where
  "roll_session s byAgent =
     (case s of None \<Rightarrow> byAgent
      | Some s \<Rightarrow> accum ms_agent new_rollup roll_message (se_messages s) byAgent)"

definition Rollup :: "session option list \<Rightarrow> agent_rollup list" where
  "Rollup sessions = sort_by (\<lambda>a b. ar_agent a < ar_agent b) (map snd (fold roll_session sessions []))"

section \<open>Delegated sessions\<close>

record child_ref =
  cr_session :: string
  cr_parent :: string
  cr_description :: string

definition zero_ref :: child_ref where
  "zero_ref = \<lparr>cr_session = [], cr_parent = [], cr_description = []\<rparr>"

definition dec_taskState :: "child_ref dec" where
  "dec_taskState = dec_struct (\<lambda>k.
     if k = ''title'' then dec_field cr_description_update cr_description dec_string
     else if k = ''metadata'' then dec_struct (\<lambda>k.
       if k = ''sessionid'' then dec_field cr_session_update cr_session dec_string
       else if k = ''parentsessionid'' then dec_field cr_parent_update cr_parent dec_string
       else skip_field)
     else skip_field)"

fun discover :: "string list \<Rightarrow> event list \<Rightarrow> child_ref list" where
  "discover seen [] = []"
| "discover seen (e # es) =
     (case PartDecoded e of
        None \<Rightarrow> discover seen es
      | Some p \<Rightarrow>
          if pt_tool p \<noteq> ''task'' then discover seen es
          else (case pt_state p of
                  None \<Rightarrow> discover seen es
                | Some j \<Rightarrow>
                    (case unmarshal dec_taskState zero_ref j of
                       None \<Rightarrow> discover seen es
                     | Some st \<Rightarrow>
                         if cr_session st = [] \<or> cr_session st \<in> set seen then discover seen es
                         else st # discover (cr_session st # seen) es)))"

definition DiscoverChildren :: "event list \<Rightarrow> child_ref list" where
  "DiscoverChildren events = discover [] events"

section \<open>Lemmas\<close>

lemma clamp_nonneg: "0 \<le> sint (clampNonNegative v)"
  by (simp add: clampNonNegative_def word_sless_alt)

lemma clamp_id: "0 \<le> sint v \<Longrightarrow> clampNonNegative v = v"
  by (simp add: clampNonNegative_def word_sless_alt)

definition usage_nonneg :: "usage \<Rightarrow> bool" where
  "usage_nonneg u \<longleftrightarrow> 0 \<le> sint (uInput u) \<and> 0 \<le> sint (uOutput u) \<and> 0 \<le> sint (uReasoning u) \<and>
     0 \<le> sint (uCacheRead u) \<and> 0 \<le> sint (uCacheWrite u)"

lemma toTokens_nonneg: "usage_nonneg (toTokens r)"
  by (simp add: usage_nonneg_def toTokens_def Let_def clamp_nonneg)

lemma roll_tool_fold:
  "fold roll_tool ts r = r\<lparr>ar_toolcalls := ar_toolcalls r + length ts,
     ar_failed := ar_failed r + length (filter (\<lambda>tc. tc_status tc = ''error'') ts)\<rparr>"
  by (induction ts arbitrary: r) (auto simp: roll_tool_def Let_def)

definition agent_row :: "string \<Rightarrow> message list \<Rightarrow> agent_rollup" where
  "agent_row a ms =
     \<lparr>ar_agent = a, ar_messages = length ms, ar_toolcalls = length (concat (map ms_tools ms)),
      ar_failed = length (filter (\<lambda>tc. tc_status tc = ''error'') (concat (map ms_tools ms))),
      ar_cost = sum_list (map ms_cost ms), ar_tokens = sum_list (map ms_tokens ms)\<rparr>"

lemma roll_message_fold:
  "fold roll_message ms r =
     r\<lparr>ar_messages := ar_messages r + length ms,
       ar_toolcalls := ar_toolcalls r + length (concat (map ms_tools ms)),
       ar_failed := ar_failed r + length (filter (\<lambda>tc. tc_status tc = ''error'') (concat (map ms_tools ms))),
       ar_cost := ar_cost r + sum_list (map ms_cost ms),
       ar_tokens := ar_tokens r + sum_list (map ms_tokens ms)\<rparr>"
  by (induction ms arbitrary: r)
    (simp_all add: roll_message_def roll_tool_fold plus_usage_def [symmetric] add.assoc)

lemma roll_message_new: "fold roll_message ms (new_rollup a) = agent_row a ms"
  by (simp add: roll_message_fold new_rollup_def agent_row_def zero_usage_def [symmetric])

definition all_messages :: "session option list \<Rightarrow> message list" where
  "all_messages ss = concat (map (\<lambda>s. case s of None \<Rightarrow> [] | Some s \<Rightarrow> se_messages s) ss)"

lemma roll_sessions:
  "fold roll_session ss m = accum ms_agent new_rollup roll_message (all_messages ss) m"
  by (induction ss arbitrary: m)
    (auto simp: roll_session_def all_messages_def accum_append split: option.splits)

lemma Rollup_rows:
  "Rollup ss = map (\<lambda>a. agent_row a (filter (\<lambda>m. ms_agent m = a) (all_messages ss)))
     (sorted_list_of_set (ms_agent ` set (all_messages ss)))"
  unfolding Rollup_def roll_sessions sort_by_key
  by (subst group_sorted) (simp_all add: roll_message_new agent_row_def)

lemma sum_list_groups:
  fixes f :: "'a \<Rightarrow> 'b :: comm_monoid_add"
  shows "(\<Sum>k\<in>key ` set xs. sum_list (map f (filter (\<lambda>x. key x = k) xs))) = sum_list (map f xs)"
proof -
  have "(\<Sum>k\<in>K. sum_list (map f (filter (\<lambda>x. key x = k) xs))) = sum_list (map f xs)"
    if "finite K" "key ` set xs \<subseteq> K" for K
    using that(2)
  proof (induction xs)
    case (Cons x xs)
    have "(\<Sum>k\<in>K. sum_list (map f (filter (\<lambda>y. key y = k) (x # xs))))
        = (\<Sum>k\<in>K. (if k = key x then f x else 0) + sum_list (map f (filter (\<lambda>y. key y = k) xs)))"
      by (intro sum.cong) auto
    also have "\<dots> = f x + sum_list (map f xs)"
      using Cons that(1) by (simp add: sum.distrib)
    finally show ?case by simp
  qed simp
  then show ?thesis by blast
qed

text \<open>The child a \<open>task\<close> event names, if it can be decoded and is not empty.\<close>

definition child_of :: "event \<Rightarrow> child_ref option" where
  "child_of e =
     (case PartDecoded e of
        None \<Rightarrow> None
      | Some p \<Rightarrow>
          (case pt_state p of
             None \<Rightarrow> None
           | Some j \<Rightarrow>
               (case unmarshal dec_taskState zero_ref j of
                  None \<Rightarrow> None
                | Some st \<Rightarrow> if pt_tool p = ''task'' \<and> cr_session st \<noteq> [] then Some st else None)))"

lemma discover_children:
  "discover seen (e # es) =
     (case child_of e of
        Some r \<Rightarrow> if cr_session r \<in> set seen then discover seen es else r # discover (cr_session r # seen) es
      | None \<Rightarrow> discover seen es)"
  by (auto simp: child_of_def split: option.splits)

lemma discover_ids:
  "map cr_session (discover seen es)
   = filter (\<lambda>i. i \<notin> set seen) (dedup (map cr_session (List.map_filter child_of es)))"
proof (induction es arbitrary: seen)
  case Nil
  show ?case by (simp add: dedup_def map_filter_simps)
next
  case (Cons e es)
  show ?case
  proof (cases "child_of e")
    case None
    then show ?thesis using Cons by (simp add: discover_children map_filter_simps del: discover.simps)
  next
    case (Some r)
    then show ?thesis using Cons
      by (auto simp: discover_children map_filter_simps dedup_Cons simp del: discover.simps intro!: filter_cong)
  qed
qed

lemma discover_first:
  "r \<in> set (discover seen es) \<Longrightarrow> find (\<lambda>x. cr_session x = cr_session r) (List.map_filter child_of es) = Some r"
proof (induction es arbitrary: seen)
  case (Cons e es)
  show ?case
  proof (cases "child_of e")
    case None
    then show ?thesis using Cons by (simp add: discover_children map_filter_simps del: discover.simps)
  next
    case (Some x)
    note [simp del] = discover.simps
    have "r = x \<or> cr_session x \<noteq> cr_session r \<and> r \<in> set (discover (cr_session x # seen) es)
        \<or> cr_session x \<in> set seen \<and> r \<in> set (discover seen es)"
    proof -
      have "cr_session r \<notin> set s" if "r \<in> set (discover s es)" for s
      proof -
        have "cr_session r \<in> set (map cr_session (discover s es))" using that by simp
        then show ?thesis unfolding discover_ids by simp
      qed
      then show ?thesis using Cons.prems Some by (force simp: discover_children split: if_splits)
    qed
    moreover have "cr_session x \<noteq> cr_session r" if "cr_session x \<in> set seen" "r \<in> set (discover seen es)"
    proof -
      have "cr_session r \<in> set (map cr_session (discover seen es))" using that by simp
      then show ?thesis using that unfolding discover_ids by auto
    qed
    ultimately show ?thesis using Cons.IH Some by (auto simp: map_filter_simps)
  qed
qed simp

section \<open>Properties\<close>

text \<open>C31: the roll-up has one row per agent, in order of name, and each row counts exactly the
  messages of that agent over all the sessions: how many, their tool calls, the failed ones,
  their cost and their tokens.\<close>

theorem Rollup_groups:
  "Rollup ss = map (\<lambda>a. agent_row a (filter (\<lambda>m. ms_agent m = a) (all_messages ss)))
     (sorted_list_of_set (ms_agent ` set (all_messages ss)))"
  by (rule Rollup_rows)

text \<open>No usage is lost or counted twice by the roll-up: the tokens and the message counts of its
  rows add up to those of all the messages.\<close>

theorem Rollup_conserves:
  "sum_list (map ar_tokens (Rollup ss)) = sum_list (map ms_tokens (all_messages ss)) \<and>
   sum_list (map ar_messages (Rollup ss)) = length (all_messages ss)"
proof
  let ?ms = "all_messages ss"
  have "sum_list (map ar_tokens (Rollup ss))
      = (\<Sum>a\<in>ms_agent ` set ?ms. sum_list (map ms_tokens (filter (\<lambda>m. ms_agent m = a) ?ms)))"
    unfolding Rollup_rows by (simp add: o_def agent_row_def sum_list_distinct_conv_sum_set)
  then show "sum_list (map ar_tokens (Rollup ss)) = sum_list (map ms_tokens ?ms)"
    by (simp only: sum_list_groups)
  have "sum_list (map ar_messages (Rollup ss))
      = (\<Sum>a\<in>ms_agent ` set ?ms. sum_list (map (\<lambda>_. 1) (filter (\<lambda>m. ms_agent m = a) ?ms)))"
    unfolding Rollup_rows by (simp add: o_def agent_row_def sum_list_distinct_conv_sum_set sum_list_triv)
  then show "sum_list (map ar_messages (Rollup ss)) = length ?ms"
    by (simp only: sum_list_groups) (simp add: sum_list_triv)
qed

text \<open>The children discovered are those named by the decodable \<open>task\<close> calls, once each, in the
  order of first mention, each as its first mention describes it.\<close>

theorem DiscoverChildren_first_mentions:
  "map cr_session (DiscoverChildren es) = dedup (map cr_session (List.map_filter child_of es)) \<and>
   list_all (\<lambda>r. find (\<lambda>x. cr_session x = cr_session r) (List.map_filter child_of es) = Some r)
     (DiscoverChildren es)"
  using discover_ids [of "[]" es] discover_first [of _ "[]" es]
  by (simp add: DiscoverChildren_def list_all_iff)

text \<open>A token count that an export omits is computed without wrapping from the clamped parts when
  they are small enough, and then every count read is non-negative.\<close>

theorem toTokens_total:
  assumes "rt_total r = None"
    and "sint (clampNonNegative (rt_input r)) + sint (clampNonNegative (rt_output r))
       + sint (clampNonNegative (rt_reasoning r)) + sint (clampNonNegative (rt_cache_read r)) < 2 ^ 63"
  shows "sint (uTotal (toTokens r)) = sint (uInput (toTokens r)) + sint (uOutput (toTokens r))
       + sint (uReasoning (toTokens r)) + sint (uCacheRead (toTokens r)) \<and> usage_nonneg (toTokens r)"
proof
  let ?i = "clampNonNegative (rt_input r)" and ?o = "clampNonNegative (rt_output r)"
  let ?r = "clampNonNegative (rt_reasoning r)" and ?c = "clampNonNegative (rt_cache_read r)"
  note nn = clamp_nonneg [of "rt_input r"] clamp_nonneg [of "rt_output r"]
    clamp_nonneg [of "rt_reasoning r"] clamp_nonneg [of "rt_cache_read r"]
  have 1: "sint (?i + ?o) = sint ?i + sint ?o" using nn assms(2) by (intro sint_add_in_range) linarith+
  have 2: "sint (?i + ?o + ?r) = sint ?i + sint ?o + sint ?r"
    unfolding 1 [symmetric] using nn assms(2) 1 by (intro sint_add_in_range) linarith+
  have 3: "sint (?i + ?o + ?r + ?c) = sint ?i + sint ?o + sint ?r + sint ?c"
    unfolding 2 [symmetric] using nn assms(2) 2 by (intro sint_add_in_range) linarith+
  show "sint (uTotal (toTokens r)) = sint (uInput (toTokens r)) + sint (uOutput (toTokens r))
       + sint (uReasoning (toTokens r)) + sint (uCacheRead (toTokens r))"
    using 3 assms(1) by (simp add: toTokens_def Let_def)
qed (rule toTokens_nonneg)

theorem toTokens_total_witness:
  "sint (uTotal (toTokens (zero_raw\<lparr>rt_input := 5, rt_output := -1\<rparr>))) = 5"
  using toTokens_total [of "zero_raw\<lparr>rt_input := 5, rt_output := -1\<rparr>"]
  by (simp add: zero_raw_def toTokens_def clampNonNegative_def word_sless_alt Let_def)

end
