(* ===== verification/RunMetrics.thy ===== *)
theory RunMetrics
  imports Session Validators
begin

text \<open>
  The metrics the runner adds to those of the event stream (\<open>internal/runner/artifacts.go\<close> and
  \<open>validatorsFailed\<close> of \<open>runner.go\<close>): the score, the change and validator counts and the roll-up of the
  captured sessions. A captured session tree is the record \<open>session_capture\<close>; floats are reals.
\<close>

record session_capture =
  sc_primary :: "session option"
  sc_children :: "session option list"
  sc_failures :: nat

definition blocking :: "string \<Rightarrow> bool" where
  "blocking status \<longleftrightarrow> status = ''failed'' \<or> status = ''error'' \<or> status = ''timeout''"

definition validatorsFailed :: "validation_result list \<Rightarrow> bool" where
  "validatorsFailed results \<longleftrightarrow> list_ex (\<lambda>r. blocking (vr_status r)) results"

definition score_step :: "validation_result \<Rightarrow> real \<times> real \<Rightarrow> real \<times> real" where
  "score_step v acc =
     (case acc of (passed, tot) \<Rightarrow>
        if vr_status v = ''skipped'' then (passed, tot)
        else (let w = (if vr_weight v \<le> 0 then 1 else vr_weight v)
              in (if vr_status v = ''passed'' then passed + w else passed, tot + w)))"

definition scoreOf :: "validation_result list \<Rightarrow> real option" where
  "scoreOf vs =
     (case fold score_step vs (0, 0) of (passed, tot) \<Rightarrow> if tot = 0 then None else Some (passed / tot))"

definition agent_metric_name :: "(nat \<Rightarrow> bool) \<Rightarrow> string \<Rightarrow> string" where
  "agent_metric_name uni agent = (let name = SanitizeName uni agent in if name = [] then ''unknown'' else name)"

definition add_rollup :: "agent_rollup \<Rightarrow> agent_rollup \<Rightarrow> agent_rollup" where
  "add_rollup prev r =
     prev\<lparr>ar_messages := ar_messages prev + ar_messages r, ar_cost := ar_cost prev + ar_cost r,
       ar_tokens := addTokens (ar_tokens prev) (ar_tokens r),
       ar_toolcalls := ar_toolcalls prev + ar_toolcalls r, ar_failed := ar_failed prev + ar_failed r\<rparr>"

definition merge_rollup ::
  "(nat \<Rightarrow> bool) \<Rightarrow> agent_rollup \<Rightarrow> (string, agent_rollup) gomap \<times> nat \<Rightarrow> (string, agent_rollup) gomap \<times> nat" where
  "merge_rollup uni r acc =
     (let name = agent_metric_name uni (ar_agent r)
      in case map_of (fst acc) name of
           Some prev \<Rightarrow> (put name (add_rollup prev r) (fst acc), snd acc + 1)
         | None \<Rightarrow> (put name r (fst acc), snd acc))"

definition rollup_metrics :: "string \<Rightarrow> agent_rollup \<Rightarrow> (string, real) gomap" where
  "rollup_metrics name r =
     map (\<lambda>p. (''agent.'' @ name @ ''.'' @ fst p, snd p))
       [(''messages'', real (ar_messages r)), (''cost'', ar_cost r),
        (''tokens_input'', real_of_i64 (uInput (ar_tokens r))),
        (''tokens_output'', real_of_i64 (uOutput (ar_tokens r))),
        (''tokens_reasoning'', real_of_i64 (uReasoning (ar_tokens r))),
        (''tokens_cache_read'', real_of_i64 (uCacheRead (ar_tokens r))),
        (''tokens_cache_write'', real_of_i64 (uCacheWrite (ar_tokens r))),
        (''tokens_total'', real_of_i64 (uTotal (ar_tokens r))),
        (''tool_calls'', real (ar_toolcalls r)), (''tool_calls_failed'', real (ar_failed r))]"

definition somes :: "'a option list \<Rightarrow> 'a list" where
  "somes xs = List.map_filter id xs"

definition sessionMetrics :: "(nat \<Rightarrow> bool) \<Rightarrow> session_capture \<Rightarrow> real \<Rightarrow> (string, real) gomap" where
  "sessionMetrics uni c eventTokensTotal =
     (let out = [(''subagent_sessions'', real (length (sc_children c))),
                 (''subagent_export_failures'', real (sc_failures c))];
          sessions = (if sc_primary c \<noteq> None then [sc_primary c] else []) @ sc_children c;
          (merged, collisions) = fold (merge_rollup uni) (Rollup sessions) ([], 0);
          out = put_all (concat (map (\<lambda>p. rollup_metrics (fst p) (snd p)) merged)) out;
          out = (if collisions > 0 then put ''agent_name_collisions'' (real collisions) out else out);
          out = (if sc_children c \<noteq> []
                 then put ''subagent_cost'' (sum_list (map se_cost (somes (sc_children c))))
                   (put ''subagent_tokens_total'' (real_of_i64 (sum_list (map (\<lambda>s. uTotal (se_tokens s)) (somes (sc_children c))))) out)
                 else out)
      in case sc_primary c of
           None \<Rightarrow> out
         | Some p \<Rightarrow> put ''session_crosscheck_tokens_delta'' \<bar>eventTokensTotal - real_of_i64 (uTotal (se_tokens p))\<bar> out)"

definition derivedMetrics ::
  "(nat \<Rightarrow> bool) \<Rightarrow> string \<Rightarrow> nat \<Rightarrow> int \<Rightarrow> (string, real) gomap \<Rightarrow> session_capture \<Rightarrow> string list \<Rightarrow> string \<Rightarrow>
   validation_result list \<Rightarrow> nat \<Rightarrow> nat \<Rightarrow> (string, real) gomap" where
  "derivedMetrics uni status unexpected durationMS metrics cap changed diff validations created deleted =
     (let (added, removed) = diffLineCounts diff;
          failures = length (filter (\<lambda>v. blocking (vr_status v)) validations);
          success = (if status = ''passed'' then 1 else 0);
          firstShot = (if failures = 0 \<and> status = ''passed'' then 1 else 0);
          out = [(''files_changed'', real (length changed)), (''files_created'', real created),
                 (''files_deleted'', real deleted), (''diff_lines_added'', real added),
                 (''diff_lines_removed'', real removed), (''files_unexpected'', real unexpected),
                 (''duration_ms'', real_of_int durationMS), (''validator_failures'', real failures),
                 (''success'', success), (''first_shot_success'', firstShot)];
          out = (case scoreOf validations of None \<Rightarrow> out | Some score \<Rightarrow> put ''score'' score out)
      in put_all (sessionMetrics uni cap (getd 0 metrics ''tokens_total'')) out)"

section \<open>The score\<close>

definition weight_of :: "validation_result \<Rightarrow> real" where
  "weight_of v = (if vr_weight v \<le> 0 then 1 else vr_weight v)"

definition scored :: "validation_result list \<Rightarrow> validation_result list" where
  "scored vs = filter (\<lambda>v. vr_status v \<noteq> ''skipped'') vs"

lemma score_fold:
  "fold score_step vs (p, t) = (p + sum_list (map weight_of (filter (\<lambda>v. vr_status v = ''passed'') (scored vs))),
     t + sum_list (map weight_of (scored vs)))"
  by (induction vs arbitrary: p t) (auto simp: score_step_def scored_def weight_of_def Let_def)

lemma weight_pos: "0 < weight_of v"
  by (simp add: weight_of_def)

lemma weight_sum_pos: "vs \<noteq> [] \<Longrightarrow> 0 < sum_list (map weight_of vs)"
proof (induction vs)
  case (Cons v vs)
  then show ?case using weight_pos [of v] by (cases vs) (auto intro: add_pos_pos)
qed simp

lemma weight_sum_nonneg: "0 \<le> sum_list (map weight_of vs)"
  by (cases "vs = []") (simp_all add: weight_sum_pos less_imp_le)

lemma weight_sum_split:
  "sum_list (map weight_of vs) = sum_list (map weight_of (filter P vs)) + sum_list (map weight_of (filter (\<lambda>v. \<not> P v) vs))"
  by (induction vs) auto

lemma scoreOf_eq:
  "scoreOf vs = (if scored vs = [] then None
     else Some (sum_list (map weight_of (filter (\<lambda>v. vr_status v = ''passed'') (scored vs))) / sum_list (map weight_of (scored vs))))"
proof (cases "scored vs = []")
  case False
  then have "sum_list (map weight_of (scored vs)) \<noteq> 0" using weight_sum_pos [of "scored vs"] by simp
  then show ?thesis using False by (simp add: scoreOf_def score_fold)
qed (simp add: scoreOf_def score_fold)

text \<open>
  The score is a fraction of the validators that ran, weighted, a weight that is not positive counting
  as one: there is a score exactly when some validator ran; it is 1 exactly when all of
  those passed and 0 exactly when none did.
\<close>

theorem scoreOf_fraction:
  "case scoreOf vs of
     None \<Rightarrow> list_all (\<lambda>v. vr_status v = ''skipped'') vs
   | Some x \<Rightarrow> scored vs \<noteq> [] \<and> 0 \<le> x \<and> x \<le> 1 \<and>
       (x = 1 \<longleftrightarrow> list_all (\<lambda>v. vr_status v = ''passed'') (scored vs)) \<and>
       (x = 0 \<longleftrightarrow> list_all (\<lambda>v. vr_status v \<noteq> ''passed'') (scored vs))"
proof (cases "scored vs = []")
  case True
  then show ?thesis by (auto simp: scoreOf_eq scored_def filter_empty_conv list_all_iff)
next
  case False
  let ?p = "\<lambda>v. vr_status v = ''passed''"
  define a where "a = sum_list (map weight_of (filter ?p (scored vs)))"
  define b where "b = sum_list (map weight_of (filter (\<lambda>v. \<not> ?p v) (scored vs)))"
  have s: "sum_list (map weight_of (scored vs)) = a + b" unfolding a_def b_def by (rule weight_sum_split)
  have pos: "0 < a + b" using weight_sum_pos [OF False] s by simp
  have nn: "0 \<le> a" "0 \<le> b" unfolding a_def b_def by (rule weight_sum_nonneg)+
  have zero: "sum_list (map weight_of xs) = 0 \<longleftrightarrow> xs = []" for xs using weight_sum_pos [of xs] by (cases "xs = []") auto
  have b0: "b = 0 \<longleftrightarrow> list_all ?p (scored vs)" unfolding b_def zero by (auto simp: filter_empty_conv list_all_iff)
  have a0: "a = 0 \<longleftrightarrow> list_all (\<lambda>v. \<not> ?p v) (scored vs)" unfolding a_def zero by (auto simp: filter_empty_conv list_all_iff)
  have "scoreOf vs = Some (a / (a + b))" using False s by (simp add: scoreOf_eq a_def)
  moreover have "a / (a + b) = 1 \<longleftrightarrow> b = 0" "a / (a + b) = 0 \<longleftrightarrow> a = 0" "0 \<le> a / (a + b)" "a / (a + b) \<le> 1"
    using pos nn by (auto simp: divide_simps)
  ultimately show ?thesis using False a0 b0 by simp
qed


section \<open>The roll-up metrics\<close>

text \<open>A row that adds up some rows.\<close>

definition adds_up :: "agent_rollup \<Rightarrow> agent_rollup list \<Rightarrow> bool" where
  "adds_up r rs \<longleftrightarrow> ar_messages r = sum_list (map ar_messages rs) \<and> ar_cost r = sum_list (map ar_cost rs) \<and>
     ar_tokens r = sum_list (map ar_tokens rs) \<and> ar_toolcalls r = sum_list (map ar_toolcalls rs) \<and>
     ar_failed r = sum_list (map ar_failed rs)"

lemma merge_fold:
  fixes uni
  defines "key \<equiv> \<lambda>r. agent_metric_name uni (ar_agent r)"
  assumes "fold (merge_rollup uni) rs ([], 0) = (m, c)"
  shows "map_wf m \<and> dom (map_of m) = key ` set rs \<and>
     (\<forall>n r. map_of m n = Some r \<longrightarrow> adds_up r (filter (\<lambda>r. key r = n) rs)) \<and>
     c + card (key ` set rs) = length rs"
  using assms(2)
proof (induction rs arbitrary: m c rule: rev_induct)
  case (snoc r rs)
  obtain m' c' where f: "fold (merge_rollup uni) rs ([], 0) = (m', c')" by force
  have IH: "map_wf m'" "dom (map_of m') = key ` set rs" "c' + card (key ` set rs) = length rs"
    "\<And>n r. map_of m' n = Some r \<Longrightarrow> adds_up r (filter (\<lambda>r. key r = n) rs)" using snoc.IH [OF f] by auto
  have step: "merge_rollup uni r (m', c') = (m, c)" using snoc.prems f by simp
  show ?case
  proof (cases "map_of m' (key r)")
    case None
    then have eq: "m = put (key r) r m'" "c = c'" using step by (auto simp: merge_rollup_def key_def Let_def)
    have new: "key r \<notin> key ` set rs" using None IH(2) by auto
    then have "filter (\<lambda>x. key x = key r) rs = []" unfolding filter_empty_conv by (metis image_eqI)
    then have "adds_up x (filter (\<lambda>r. key r = n) (rs @ [r]))" if "map_of m n = Some x" for n x
      using that IH(4) [of n x] by (auto simp: eq map_of_put adds_up_def split: if_splits)
    then show ?thesis using IH new by (simp add: eq map_of_put fun_upd_def [symmetric] del: fun_upd_apply)
  next
    case (Some prev)
    then have eq: "m = put (key r) (add_rollup prev r) m'" "c = c' + 1" using step by (auto simp: merge_rollup_def key_def Let_def)
    have old: "key r \<in> key ` set rs" using Some IH(2) by auto
    have "adds_up x (filter (\<lambda>r. key r = n) (rs @ [r]))" if "map_of m n = Some x" for n x
      using that IH(4) [of n x] IH(4) [OF Some]
      by (auto simp: eq map_of_put adds_up_def add_rollup_def plus_usage_def [symmetric] split: if_splits)
    then show ?thesis using IH old by (simp add: eq map_of_put insert_absorb del: fun_upd_apply)
  qed
qed simp

lemma rollup_group_sum:
  fixes F :: "agent_rollup \<Rightarrow> 'a :: comm_monoid_add"
  assumes "\<And>a ms. F (agent_row a ms) = sum_list (map f ms)"
  shows "sum_list (map F (filter (\<lambda>r. name (ar_agent r) = n) (Rollup ss)))
    = sum_list (map f (filter (\<lambda>m. name (ms_agent m) = n) (all_messages ss)))"
proof -
  let ?ms = "all_messages ss"
  let ?xs = "filter (\<lambda>m. name (ms_agent m) = n) ?ms"
  let ?as = "filter (\<lambda>a. name a = n) (sorted_list_of_set (ms_agent ` set ?ms))"
  have ag: "ar_agent (agent_row a ms) = a" for a ms by (simp add: agent_row_def)
  have "sum_list (map F (filter (\<lambda>r. name (ar_agent r) = n) (Rollup ss)))
      = sum_list (map (\<lambda>a. sum_list (map f (filter (\<lambda>m. ms_agent m = a) ?ms))) ?as)"
    unfolding Rollup_rows by (simp add: filter_map comp_def assms ag)
  also have "\<dots> = (\<Sum>a\<in>set ?as. sum_list (map f (filter (\<lambda>m. ms_agent m = a) ?ms)))"
    by (simp add: sum_list_distinct_conv_sum_set)
  also have "\<dots> = (\<Sum>a\<in>ms_agent ` set ?xs. sum_list (map f (filter (\<lambda>m. ms_agent m = a) ?xs)))"
  proof (rule sum.cong)
    show "set ?as = ms_agent ` set ?xs" by auto
    fix a assume "a \<in> ms_agent ` set ?xs"
    then have "filter (\<lambda>m. ms_agent m = a) ?ms = filter (\<lambda>m. ms_agent m = a) ?xs"
      by (auto intro!: filter_cong)
    then show "sum_list (map f (filter (\<lambda>m. ms_agent m = a) ?ms)) = sum_list (map f (filter (\<lambda>m. ms_agent m = a) ?xs))" by simp
  qed
  also have "\<dots> = sum_list (map f ?xs)" by (rule sum_list_groups)
  finally show ?thesis .
qed

lemma adds_up_row:
  "adds_up r (filter (\<lambda>r. name (ar_agent r) = n) (Rollup ss)) \<Longrightarrow>
   rollup_metrics k r = rollup_metrics k (agent_row n (filter (\<lambda>m. name (ms_agent m) = n) (all_messages ss)))"
proof -
  assume a: "adds_up r (filter (\<lambda>r. name (ar_agent r) = n) (Rollup ss))"
  note g = rollup_group_sum [where name = name and n = n and ss = ss]
  let ?xs = "filter (\<lambda>m. name (ms_agent m) = n) (all_messages ss)"
  have "ar_messages r = sum_list (map (\<lambda>_. 1) ?xs)" "ar_cost r = sum_list (map ms_cost ?xs)"
    "ar_tokens r = sum_list (map ms_tokens ?xs)" "ar_toolcalls r = sum_list (map (\<lambda>m. length (ms_tools m)) ?xs)"
    "ar_failed r = sum_list (map (\<lambda>m. length (filter (\<lambda>tc. tc_status tc = ''error'') (ms_tools m))) ?xs)"
    using a g [of ar_messages "\<lambda>_. 1"] g [of ar_cost ms_cost] g [of ar_tokens ms_tokens]
      g [of ar_toolcalls "\<lambda>m. length (ms_tools m)"]
      g [of ar_failed "\<lambda>m. length (filter (\<lambda>tc. tc_status tc = ''error'') (ms_tools m))"]
    by (simp_all add: adds_up_def agent_row_def sum_list_triv length_concat filter_concat comp_def)
  then show ?thesis
    by (simp add: rollup_metrics_def agent_row_def sum_list_triv length_concat filter_concat comp_def)
qed


lemma dotted_inj:
  assumes "CHR ''.'' \<notin> set u" "CHR ''.'' \<notin> set v" "a @ CHR ''.'' # u = b @ CHR ''.'' # v"
  shows "a = b \<and> u = v"
proof -
  have "rev u @ CHR ''.'' # rev a = rev v @ CHR ''.'' # rev b" using arg_cong [OF assms(3), of rev] by simp
  then have "takeWhile (\<lambda>c. c \<noteq> CHR ''.'') (rev u @ CHR ''.'' # rev a) = takeWhile (\<lambda>c. c \<noteq> CHR ''.'') (rev v @ CHR ''.'' # rev b)"
    by simp
  moreover have "takeWhile (\<lambda>c. c \<noteq> CHR ''.'') (xs @ CHR ''.'' # ys) = xs" if "CHR ''.'' \<notin> set xs" for xs ys
    using that by (induction xs) auto
  ultimately have "rev u = rev v" using assms(1,2) by simp
  then show ?thesis using assms(3) by simp
qed

lemma rollup_keys:
  "map fst (rollup_metrics n r) = map (\<lambda>k. ''agent.'' @ n @ CHR ''.'' # k)
     [''messages'', ''cost'', ''tokens_input'', ''tokens_output'', ''tokens_reasoning'', ''tokens_cache_read'',
      ''tokens_cache_write'', ''tokens_total'', ''tool_calls'', ''tool_calls_failed'']"
  by (simp add: rollup_metrics_def)

lemma rollup_key_shape: "k \<in> fst ` set (rollup_metrics n r) \<Longrightarrow> \<exists>u. CHR ''.'' \<notin> set u \<and> k = ''agent.'' @ n @ CHR ''.'' # u"
  by (auto simp: rollup_metrics_def)

lemma distinct_rollup_keys: "distinct (map fst (rollup_metrics n r))"
  unfolding rollup_keys by simp

lemma rollup_keys_disjoint:
  assumes "k \<in> fst ` set (rollup_metrics n r)" "k \<in> fst ` set (rollup_metrics n' r')"
  shows "n = n'"
proof -
  obtain u u' where u: "CHR ''.'' \<notin> set u" "k = ''agent.'' @ n @ CHR ''.'' # u"
    "CHR ''.'' \<notin> set u'" "k = ''agent.'' @ n' @ CHR ''.'' # u'"
    using rollup_key_shape assms by metis
  then have "n @ CHR ''.'' # u = n' @ CHR ''.'' # u'" by simp
  then show ?thesis using dotted_inj u by blast
qed

lemma all_rollup_keys:
  assumes "map_wf m"
  shows "distinct (map fst (concat (map (\<lambda>p. rollup_metrics (fst p) (snd p)) m)))" (is "distinct (map fst (?rows m))")
  using assms
proof (induction m)
  case (Cons p m)
  have "k \<notin> fst ` set (?rows m)" if k: "k \<in> fst ` set (rollup_metrics (fst p) (snd p))" for k
  proof
    assume "k \<in> fst ` set (?rows m)"
    then obtain q where q: "q \<in> set m" "k \<in> fst ` set (rollup_metrics (fst q) (snd q))" by auto
    then have "fst p = fst q" using rollup_keys_disjoint k by blast
    then show False using Cons.prems q(1) by (simp add: map_wf_def)
  qed
  then show ?case using Cons distinct_rollup_keys [of "fst p" "snd p"] by (auto simp: map_wf_def)
qed simp


lemma rollup_row_lookup:
  assumes "map_wf m" "map_of m n = Some r" "p \<in> set (rollup_metrics n r)"
  shows "map_of (concat (map (\<lambda>p. rollup_metrics (fst p) (snd p)) m)) (fst p) = Some (snd p)"
proof -
  have "(n, r) \<in> set m" using assms(2) by (rule map_of_SomeD)
  then have "p \<in> set (concat (map (\<lambda>p. rollup_metrics (fst p) (snd p)) m))" using assms(3) by force
  then have "(fst p, snd p) \<in> set (concat (map (\<lambda>p. rollup_metrics (fst p) (snd p)) m))" by simp
  then show ?thesis by (rule map_of_is_SomeI [OF all_rollup_keys [OF assms(1)]])
qed

text \<open>The messages of a captured tree and those of an agent's metric name.\<close>

definition captured_messages :: "session_capture \<Rightarrow> message list" where
  "captured_messages c = all_messages (sc_primary c # sc_children c)"

definition messages_of :: "(nat \<Rightarrow> bool) \<Rightarrow> session_capture \<Rightarrow> string \<Rightarrow> message list" where
  "messages_of uni c n = filter (\<lambda>m. agent_metric_name uni (ms_agent m) = n) (captured_messages c)"

text \<open>
  The roll-up metrics of the captured sessions count every message under the metric name of its
  agent: the counts, costs, tokens and tool calls reported for a name are those of all the messages
  whose agent has that name, and the collisions are the agents less the names.
\<close>

theorem sessionMetrics_counts:
  "(\<forall>n\<in>(\<lambda>m. agent_metric_name uni (ms_agent m)) ` set (captured_messages c).
      \<forall>p\<in>set (rollup_metrics n (agent_row n (messages_of uni c n))). map_of (sessionMetrics uni c t) (fst p) = Some (snd p)) \<and>
   getd 0 (sessionMetrics uni c t) ''agent_name_collisions''
     = real (card (ms_agent ` set (captured_messages c)) - card (agent_metric_name uni ` ms_agent ` set (captured_messages c)))"
proof -
  let ?ss = "(if sc_primary c \<noteq> None then [sc_primary c] else []) @ sc_children c"
  have ms: "all_messages ?ss = captured_messages c" by (simp add: captured_messages_def all_messages_def split: option.splits)
  obtain m k where f: "fold (merge_rollup uni) (Rollup ?ss) ([], 0) = (m, k)" by force
  note mf = merge_fold [OF f]
  let ?rows = "concat (map (\<lambda>p. rollup_metrics (fst p) (snd p)) m)"
  let ?base = "[(''subagent_sessions'', real (length (sc_children c))), (''subagent_export_failures'', real (sc_failures c))]"
  have wf: "map_wf m" using mf by blast
  have agents: "ar_agent ` set (Rollup ?ss) = ms_agent ` set (captured_messages c)"
    "length (Rollup ?ss) = card (ms_agent ` set (captured_messages c))"
    unfolding Rollup_rows ms by (auto simp: agent_row_def image_image)
  have keys: "(\<lambda>r. agent_metric_name uni (ar_agent r)) ` set (Rollup ?ss) = agent_metric_name uni ` ms_agent ` set (captured_messages c)"
    unfolding agents(1) [symmetric] by (simp add: image_image)
  have k: "k = card (ms_agent ` set (captured_messages c)) - card (agent_metric_name uni ` ms_agent ` set (captured_messages c))"
    using mf unfolding keys agents(2) by linarith
  have key_agent: "\<exists>u. x = ''agent.'' @ u" if "x \<in> fst ` set ?rows" for x
    using that rollup_key_shape by fastforce
  define out where "out = put_all ?rows ?base"
  have sm: "sessionMetrics uni c t =
     (let out = (if k > 0 then put ''agent_name_collisions'' (real k) out else out);
          out = (if sc_children c \<noteq> []
                 then put ''subagent_cost'' (sum_list (map se_cost (somes (sc_children c))))
                   (put ''subagent_tokens_total'' (real_of_i64 (sum_list (map (\<lambda>s. uTotal (se_tokens s)) (somes (sc_children c))))) out)
                 else out)
      in case sc_primary c of None \<Rightarrow> out
         | Some p \<Rightarrow> put ''session_crosscheck_tokens_delta'' \<bar>t - real_of_i64 (uTotal (se_tokens p))\<bar> out)"
    unfolding sessionMetrics_def Let_def f prod.case out_def ..
  have look: "map_of (sessionMetrics uni c t) x = map_of out x" if "\<exists>u. x = ''agent.'' @ u" for x
  proof -
    have "x \<notin> {''agent_name_collisions'', ''subagent_cost'', ''subagent_tokens_total'', ''session_crosscheck_tokens_delta''}"
      using that by auto
    then show ?thesis unfolding sm Let_def by (cases "sc_primary c") (simp_all add: map_of_put)
  qed
  have "map_of (sessionMetrics uni c t) (fst p) = Some (snd p)"
    if n: "n \<in> (\<lambda>m. agent_metric_name uni (ms_agent m)) ` set (captured_messages c)"
      and p: "p \<in> set (rollup_metrics n (agent_row n (messages_of uni c n)))" for n p
  proof -
    have "n \<in> dom (map_of m)" using mf n unfolding keys by (simp add: image_image)
    then obtain r where r: "map_of m n = Some r" by auto
    then have "adds_up r (filter (\<lambda>r. agent_metric_name uni (ar_agent r) = n) (Rollup ?ss))" using mf by blast
    from adds_up_row [OF this, of n] have "rollup_metrics n r = rollup_metrics n (agent_row n (messages_of uni c n))"
      unfolding ms messages_of_def .
    then have "map_of ?rows (fst p) = Some (snd p)" using rollup_row_lookup [OF wf r] p by simp
    moreover from this have "fst p \<in> fst ` set ?rows" by (metis domI dom_map_of_conv_image_fst)
    ultimately show ?thesis using look [OF key_agent] by (simp add: out_def map_of_put_all [OF all_rollup_keys [OF wf]])
  qed
  moreover have "getd 0 (sessionMetrics uni c t) ''agent_name_collisions'' = real k"
  proof -
    have "''agent_name_collisions'' \<notin> fst ` set ?rows" using key_agent by fastforce
    then have "map_of ?rows ''agent_name_collisions'' = None" by (simp only: map_of_eq_None_iff not_False_eq_True)
    then have "map_of out ''agent_name_collisions'' = None"
      unfolding out_def map_of_put_all [OF all_rollup_keys [OF wf]] by simp
    then show ?thesis unfolding sm Let_def by (cases "sc_primary c") (simp_all add: getd_def map_of_put)
  qed
  ultimately show ?thesis using k by blast
qed

text \<open>Two agents whose names become one metric name.\<close>

definition sample_message :: "string \<Rightarrow> message" where
  "sample_message a = \<lparr>ms_agent = a, ms_cost = 0, ms_tokens = 0, ms_tools = [], ms_rawparts = []\<rparr>"

definition sample_capture :: session_capture where
  "sample_capture = \<lparr>sc_primary = Some \<lparr>se_id = ''p'', se_agent = ''a-b'', se_cost = 0, se_tokens = 0, se_messages = [sample_message ''a-b'']\<rparr>,
     sc_children = [Some \<lparr>se_id = ''c'', se_agent = ''a_b'', se_cost = 0, se_tokens = 0, se_messages = [sample_message ''a_b'']\<rparr>],
     sc_failures = 0\<rparr>"

theorem sessionMetrics_counts_witness:
  "map_of (sessionMetrics (\<lambda>_. False) sample_capture 0) ''agent.a_b.messages'' = Some 2 \<and>
   getd 0 (sessionMetrics (\<lambda>_. False) sample_capture 0) ''agent_name_collisions'' = 1"
proof -
  have names: "agent_metric_name (\<lambda>_. False) ''a-b'' = ''a_b''" "agent_metric_name (\<lambda>_. False) ''a_b'' = ''a_b''" by code_simp+
  have ms: "captured_messages sample_capture = [sample_message ''a-b'', sample_message ''a_b'']"
    by (simp add: captured_messages_def all_messages_def sample_capture_def)
  have "messages_of (\<lambda>_. False) sample_capture ''a_b'' = [sample_message ''a-b'', sample_message ''a_b'']"
    by (simp add: messages_of_def ms names sample_message_def)
  then have p: "(''agent.a_b.messages'', 2) \<in> set (rollup_metrics ''a_b'' (agent_row ''a_b'' (messages_of (\<lambda>_. False) sample_capture ''a_b'')))"
    by (simp add: rollup_metrics_def agent_row_def)
  have n: "''a_b'' \<in> (\<lambda>m. agent_metric_name (\<lambda>_. False) (ms_agent m)) ` set (captured_messages sample_capture)"
    by (simp add: ms names sample_message_def)
  note counts = sessionMetrics_counts [of "\<lambda>_. False" sample_capture 0]
  have "card {''a-b'', ''a_b''} = (2 :: nat)" by simp
  then have "getd 0 (sessionMetrics (\<lambda>_. False) sample_capture 0) ''agent_name_collisions'' = 1"
    using conjunct2 [OF counts] by (simp add: ms names sample_message_def)
  moreover have "map_of (sessionMetrics (\<lambda>_. False) sample_capture 0) ''agent.a_b.messages'' = Some 2"
    using bspec [OF bspec [OF conjunct1 [OF counts] n] p] by simp
  ultimately show ?thesis by simp
qed

end
