(* ===== verification/Capture.thy ===== *)
theory Capture
  imports GitSource RunMetrics
begin

text \<open>
  The event stream of a run and the sessions it delegated to (\<open>runner.go\<close>): \<open>drainEvents\<close> stores and
  observes every line, \<open>readStoredEvents\<close> reads the stored file back, and \<open>captureSessions\<close> exports the
  delegated sessions level by level, at most five levels deep, each session once.
\<close>

datatype run_error =
  MissingInput string
| NoRunId
| Artifact string
| Source source_error
| Git git_error
| Db db_error
| HiddenTests string

section \<open>The event stream\<close>

fun drain_lines :: "'s os \<Rightarrow> string \<Rightarrow> string list \<Rightarrow> metrics \<Rightarrow> ('s, run_error, metrics) io" where
  "drain_lines os path [] m = io_return m"
| "drain_lines os path (line # lines) m =
     io_then (io_try (os_append os path (line @ [CHR 0x0A])) (Artifact ''write events.jsonl''))
       (drain_lines os path lines (ObserveLine (os_json os) line m))"

definition drainEvents :: "'s os \<Rightarrow> string \<Rightarrow> string list \<Rightarrow> metrics \<Rightarrow> ('s, run_error, metrics) io" where
  "drainEvents os path events m =
     io_then (io_try (os_create os path) (Artifact ''create events.jsonl'')) (drain_lines os path events m)"

definition stored_events :: "(string \<Rightarrow> json option) \<Rightarrow> string \<Rightarrow> event list" where
  "stored_events parse data =
     List.map_filter (\<lambda>line.
       let line = trim_space line
       in if line = [] then None
          else (case ParseLine parse line of Inl _ \<Rightarrow> None | Inr e \<Rightarrow> Some e))
       (split_on (CHR 0x0A) data)"

definition readStoredEvents :: "'s os \<Rightarrow> string \<Rightarrow> ('s, run_error, event list) io" where
  "readStoredEvents os path =
     io_bind (io_look (os_read os path)) (\<lambda>r.
       io_return (case r of None \<Rightarrow> [] | Some data \<Rightarrow> stored_events (os_json os) data))"

section \<open>Delegated sessions\<close>

definition maxSessionDepth :: nat where "maxSessionDepth = 5"

definition discoverChildrenInExport :: "session option \<Rightarrow> child_ref list" where
  "discoverChildrenInExport s =
     (case s of
        None \<Rightarrow> []
      | Some s \<Rightarrow> DiscoverChildren (concat (map (\<lambda>m. map (\<lambda>part.
          zero_event\<lparr>ev_type := ''tool_use'', ev_part := Some part\<rparr>) (ms_rawparts m)) (se_messages s))))"

record walk_state =
  ws_visited :: "string list"
  ws_capture :: session_capture
  ws_next :: "child_ref list"

definition count_failure :: "walk_state \<Rightarrow> walk_state" where
  "count_failure st = st\<lparr>ws_capture := (ws_capture st)\<lparr>sc_failures := sc_failures (ws_capture st) + 1\<rparr>\<rparr>"

definition add_child :: "session \<Rightarrow> walk_state \<Rightarrow> walk_state" where
  "add_child child st =
     st\<lparr>ws_capture := (ws_capture st)\<lparr>sc_children := sc_children (ws_capture st) @ [Some child]\<rparr>,
        ws_next := ws_next st @ discoverChildrenInExport (Some child)\<rparr>"

definition unsafe_id :: "string \<Rightarrow> bool" where
  "unsafe_id i \<longleftrightarrow> contains_str i ''/'' \<or> contains_str i ''..''"

definition capture_child :: "'s os \<Rightarrow> string \<Rightarrow> string \<Rightarrow> walk_state \<Rightarrow> ('s, 'e, walk_state) io" where
  "capture_child os sessionsDir i st =
     (if unsafe_id i then io_return (count_failure st)
      else io_bind (io_look (os_export os i)) (\<lambda>r.
        case r of
          Inl _ \<Rightarrow> io_return (count_failure st)
        | Inr data \<Rightarrow>
            (case ParseExport (os_json os) data of
               None \<Rightarrow> io_return (count_failure st)
             | Some child \<Rightarrow>
                 io_bind (io_get (os_mkdir os sessionsDir)) (\<lambda>ok.
                   if \<not> ok then io_return (count_failure st)
                   else io_bind (io_get (os_write os (filepath_join [sessionsDir, i @ ''.json'']) data)) (\<lambda>ok.
                     if \<not> ok then io_return (count_failure st) else io_return (add_child child st))))))"

fun capture_level :: "'s os \<Rightarrow> string \<Rightarrow> child_ref list \<Rightarrow> walk_state \<Rightarrow> ('s, 'e, walk_state) io" where
  "capture_level os sessionsDir [] st = io_return st"
| "capture_level os sessionsDir (ref # refs) st =
     (if cr_session ref = [] \<or> cr_session ref \<in> set (ws_visited st) then capture_level os sessionsDir refs st
      else io_bind (capture_child os sessionsDir (cr_session ref) (st\<lparr>ws_visited := cr_session ref # ws_visited st\<rparr>))
        (capture_level os sessionsDir refs))"

fun capture_levels :: "'s os \<Rightarrow> string \<Rightarrow> nat \<Rightarrow> walk_state \<Rightarrow> ('s, 'e, walk_state) io" where
  "capture_levels os sessionsDir 0 st = io_return st"
| "capture_levels os sessionsDir (Suc n) st =
     (if ws_next st = [] then io_return st
      else io_bind (capture_level os sessionsDir (ws_next st) (st\<lparr>ws_next := []\<rparr>)) (capture_levels os sessionsDir n))"

definition captureSessions :: "'s os \<Rightarrow> string \<Rightarrow> string \<Rightarrow> event list \<Rightarrow> ('s, 'e, session_capture) io" where
  "captureSessions os runDir primaryID events =
     io_bind (io_look (os_read os (filepath_join [runDir, ''session.json'']))) (\<lambda>r.
       let primary = (case r of None \<Rightarrow> None | Some data \<Rightarrow> ParseExport (os_json os) data);
           st = \<lparr>ws_visited = (if primaryID \<noteq> [] then [primaryID] else []),
                 ws_capture = \<lparr>sc_primary = primary, sc_children = [], sc_failures = 0\<rparr>,
                 ws_next = DiscoverChildren events\<rparr>
       in io_bind (capture_levels os (filepath_join [runDir, ''sessions'']) maxSessionDepth st) (\<lambda>st.
            io_return (ws_capture st)))"

section \<open>What is captured\<close>

text \<open>The session an id is exported as, and the walk of the sessions when every write succeeds.\<close>

definition exported_as :: "(string \<Rightarrow> json option) \<Rightarrow> (string \<Rightarrow> string + string) \<Rightarrow> string \<Rightarrow> session option" where
  "exported_as parse exports i =
     (if unsafe_id i then None else case exports i of Inl _ \<Rightarrow> None | Inr data \<Rightarrow> ParseExport parse data)"

definition visit :: "session option \<Rightarrow> walk_state \<Rightarrow> walk_state" where
  "visit c st = (case c of None \<Rightarrow> count_failure st | Some child \<Rightarrow> add_child child st)"

definition writes_succeed :: "'s os \<Rightarrow> bool" where
  "writes_succeed os \<longleftrightarrow> (\<forall>p s. snd (os_mkdir os p s)) \<and> (\<forall>p b s. snd (os_write os p b s))"

fun fresh_ids :: "string set \<Rightarrow> string list \<Rightarrow> string list" where
  "fresh_ids seen [] = []"
| "fresh_ids seen (i # ids) = (if i = [] \<or> i \<in> seen then fresh_ids seen ids else i # fresh_ids (insert i seen) ids)"

lemma fresh_ids: "set (fresh_ids seen ids) = set ids - {[]} - seen \<and> distinct (fresh_ids seen ids)"
  by (induction seen ids rule: fresh_ids.induct) auto

definition visit_all :: "(string \<Rightarrow> session option) \<Rightarrow> string list \<Rightarrow> walk_state \<Rightarrow> walk_state" where
  "visit_all get new st =
     fold (\<lambda>i st. visit (get i) (st\<lparr>ws_visited := i # ws_visited st\<rparr>)) new st"

lemma visit_fields [simp]:
  "ws_visited (visit c st) = ws_visited st"
  "sc_primary (ws_capture (visit c st)) = sc_primary (ws_capture st)"
  "sc_children (ws_capture (visit c st)) = sc_children (ws_capture st) @ (case c of None \<Rightarrow> [] | Some x \<Rightarrow> [Some x])"
  "sc_failures (ws_capture (visit c st)) = sc_failures (ws_capture st) + (if c = None then 1 else 0)"
  "ws_next (visit c st) = ws_next st @ discoverChildrenInExport c"
  by (cases c; simp add: visit_def count_failure_def add_child_def discoverChildrenInExport_def)+

lemma visit_all_Cons:
  "visit_all get (i # new) st = visit_all get new (visit (get i) (st\<lparr>ws_visited := i # ws_visited st\<rparr>))"
  by (simp add: visit_all_def)

lemma visit_all_fields:
  "set (ws_visited (visit_all get new st)) = set new \<union> set (ws_visited st)"
  "sc_primary (ws_capture (visit_all get new st)) = sc_primary (ws_capture st)"
  "sc_children (ws_capture (visit_all get new st)) = sc_children (ws_capture st) @ map Some (List.map_filter get new)"
  "sc_failures (ws_capture (visit_all get new st)) = sc_failures (ws_capture st) + length (filter (\<lambda>i. get i = None) new)"
  "ws_next (visit_all get new st) = ws_next st @ concat (map (\<lambda>i. discoverChildrenInExport (get i)) new)"
proof (induction new arbitrary: st)
  case Nil
  case 1 show ?case by (simp add: visit_all_def)
  case 2 show ?case by (simp add: visit_all_def)
  case 3 show ?case by (simp add: visit_all_def map_filter_simps)
  case 4 show ?case by (simp add: visit_all_def)
  case 5 show ?case by (simp add: visit_all_def)
next
  case (Cons i new)
  case 1 show ?case using Cons(1) by (simp add: visit_all_Cons)
  case 2 show ?case using Cons(2) by (simp add: visit_all_Cons)
  case 3 show ?case using Cons(3) by (simp add: visit_all_Cons map_filter_simps split: option.split)
  case 4 show ?case using Cons(4) by (simp add: visit_all_Cons)
  case 5 show ?case using Cons(5) by (simp add: visit_all_Cons)
qed

definition exports_fixed :: "'s os \<Rightarrow> (string \<Rightarrow> string + string) \<Rightarrow> bool" where
  "exports_fixed os exports \<longleftrightarrow> (\<forall>i s. os_export os i s = exports i)"

lemma capture_child_visit:
  fixes os :: "'s os"
  assumes "writes_succeed os" "exports_fixed os exports"
  shows "\<exists>s'. capture_child os dir i st s = (s', Inr (visit (exported_as (os_json os) exports i) st))"
proof -
  have mk: "\<exists>s'. os_mkdir os p s = (s', True)" and wr: "\<exists>s'. os_write os p b s = (s', True)" for p b s
    using assms(1) unfolding writes_succeed_def by (metis prod.collapse)+
  have ex: "os_export os i s = exports i" for s using assms(2) by (simp add: exports_fixed_def)
  obtain s1 where s1: "os_mkdir os dir (fst s) = (s1, True)" using mk by blast
  show ?thesis
  proof (cases "exported_as (os_json os) exports i")
    case None
    then show ?thesis
      by (auto simp: capture_child_def exported_as_def visit_def io_return_def io_bind_def io_look_def ex
        split: sum.splits option.splits if_splits)
  next
    case (Some child)
    then obtain data where data: "\<not> unsafe_id i" "exports i = Inr data" "ParseExport (os_json os) data = Some child"
      by (auto simp: exported_as_def split: if_splits sum.splits)
    obtain s2 where "os_write os (filepath_join [dir, i @ ''.json'']) data s1 = (s2, True)" using wr by blast
    then show ?thesis
      using data s1 Some by (simp add: capture_child_def visit_def io_return_def io_bind_def io_look_def io_get_def ex)
  qed
qed

lemma capture_level_visit:
  fixes os :: "'s os"
  assumes "writes_succeed os" "exports_fixed os exports"
  shows "\<exists>s'. (capture_level os dir refs st :: ('s, 'e, walk_state) io) s =
     (s', Inr (visit_all (exported_as (os_json os) exports) (fresh_ids (set (ws_visited st)) (map cr_session refs)) st))"
proof (induction refs arbitrary: st s)
  case Nil
  show ?case by (simp add: io_return_def visit_all_def)
next
  case (Cons r refs)
  let ?i = "cr_session r" and ?get = "exported_as (os_json os) exports"
  let ?st = "visit (?get ?i) (st\<lparr>ws_visited := ?i # ws_visited st\<rparr>)"
  show ?case
  proof (cases "?i = [] \<or> ?i \<in> set (ws_visited st)")
    case True
    then show ?thesis using Cons.IH [of st s] by auto
  next
    case False
    obtain s1 where "(capture_child os dir ?i (st\<lparr>ws_visited := ?i # ws_visited st\<rparr>) :: ('s, 'e, walk_state) io) s = (s1, Inr ?st)"
      using capture_child_visit [OF assms] by blast
    moreover obtain s2 where "(capture_level os dir refs ?st :: ('s, 'e, walk_state) io) s1 =
        (s2, Inr (visit_all ?get (fresh_ids (set (ws_visited ?st)) (map cr_session refs)) ?st))"
      using Cons.IH [of ?st s1] by blast
    ultimately have "(capture_level os dir (r # refs) st :: ('s, 'e, walk_state) io) s =
        (s2, Inr (visit_all ?get (fresh_ids (set (ws_visited ?st)) (map cr_session refs)) ?st))"
      using False by (simp add: io_bind_def)
    then show ?thesis using False by (simp add: visit_all_Cons)
  qed
qed

definition level_visit :: "(string \<Rightarrow> session option) \<Rightarrow> walk_state \<Rightarrow> walk_state" where
  "level_visit get st =
     visit_all get (fresh_ids (set (ws_visited st)) (map cr_session (ws_next st))) (st\<lparr>ws_next := []\<rparr>)"

lemma level_visit_done: "ws_next st = [] \<Longrightarrow> (level_visit get ^^ n) st = st"
  by (induction n) (simp_all add: level_visit_def visit_all_def)

lemma capture_levels_visit:
  fixes os :: "'s os"
  assumes "writes_succeed os" "exports_fixed os exports"
  shows "\<exists>s'. (capture_levels os dir n st :: ('s, 'e, walk_state) io) s = (s', Inr ((level_visit (exported_as (os_json os) exports) ^^ n) st))"
proof (induction n arbitrary: st s)
  case 0
  show ?case by (simp add: io_return_def)
next
  case (Suc n)
  let ?get = "exported_as (os_json os) exports"
  show ?case
  proof (cases "ws_next st = []")
    case True
    then show ?thesis using level_visit_done [OF True, where get = ?get and n = "Suc n"] by (simp add: io_return_def)
  next
    case False
    obtain s1 where "(capture_level os dir (ws_next st) (st\<lparr>ws_next := []\<rparr>) :: ('s, 'e, walk_state) io) s = (s1, Inr (level_visit ?get st))"
      using capture_level_visit [OF assms, of dir "ws_next st" "st\<lparr>ws_next := []\<rparr>" s] by (auto simp: level_visit_def)
    moreover obtain s2 where "(capture_levels os dir n (level_visit ?get st) :: ('s, 'e, walk_state) io) s1 = (s2, Inr ((level_visit ?get ^^ n) (level_visit ?get st)))"
      using Suc.IH by blast
    ultimately show ?thesis using False by (simp add: io_bind_def funpow_swap1)
  qed
qed

text \<open>The sessions that can be reached from the events of the run over at most \<open>n\<close> delegations.\<close>

definition delegates :: "session option \<Rightarrow> string set" where
  "delegates c = set (map cr_session (discoverChildrenInExport c)) - {[]}"

fun reach :: "(string \<Rightarrow> session option) \<Rightarrow> string \<Rightarrow> string list \<Rightarrow> nat \<Rightarrow> string set" where
  "reach get primary roots 0 = {}"
| "reach get primary roots (Suc n) =
     (set roots - {[]}) \<union> (\<Union>i\<in>reach get primary roots n - {primary}. delegates (get i))"

lemma reach_mono: "reach get p roots n \<subseteq> reach get p roots (Suc n)"
  by (induction n) auto

definition level_inv :: "(string \<Rightarrow> session option) \<Rightarrow> string \<Rightarrow> string list \<Rightarrow> nat \<Rightarrow> walk_state \<Rightarrow> bool" where
  "level_inv get p roots n st \<longleftrightarrow>
     set (ws_visited st) \<union> {[]} = {p, []} \<union> reach get p roots n \<and>
     set (ws_visited st) \<union> {[]} \<union> set (map cr_session (ws_next st)) = {p, []} \<union> reach get p roots (Suc n) \<and>
     (\<exists>ids. distinct ids \<and> set ids = reach get p roots n - {p} \<and>
        sc_children (ws_capture st) = map Some (List.map_filter get ids) \<and>
        sc_failures (ws_capture st) = length (filter (\<lambda>i. get i = None) ids))"

lemma reach_nonempty: "[] \<notin> reach get p roots n"
  by (cases n) (auto simp: delegates_def)

lemma union_grows: "N \<union> {e} = D \<union> {e} \<Longrightarrow> R' = R \<union> D \<Longrightarrow> A \<union> {e} = {p, e} \<union> R \<Longrightarrow> A \<union> {e} \<union> N = {p, e} \<union> R'"
  by blast

lemma level_inv_step:
  assumes "level_inv get p roots n st"
  shows "level_inv get p roots (Suc n) (level_visit get st)"
proof -
  let ?R = "reach get p roots"
  let ?new = "fresh_ids (set (ws_visited st)) (map cr_session (ws_next st))"
  obtain ids where ids: "distinct ids" "set ids = ?R n - {p}"
      "sc_children (ws_capture st) = map Some (List.map_filter get ids)"
      "sc_failures (ws_capture st) = length (filter (\<lambda>i. get i = None) ids)"
    and seen: "set (ws_visited st) \<union> {[]} = {p, []} \<union> ?R n"
    and todo: "set (ws_visited st) \<union> {[]} \<union> set (map cr_session (ws_next st)) = {p, []} \<union> ?R (Suc n)"
    using assms unfolding level_inv_def by blast
  have new: "set ?new = ?R (Suc n) - {p} - ?R n" "distinct ?new"
  proof -
    have "set ?new = (set (map cr_session (ws_next st)) \<union> (set (ws_visited st) \<union> {[]})) - (set (ws_visited st) \<union> {[]})"
      using fresh_ids by blast
    also have "\<dots> = ({p, []} \<union> ?R (Suc n)) - ({p, []} \<union> ?R n)" using seen todo by (simp only: Un_commute Un_left_commute Un_assoc)
    also have "\<dots> = ?R (Suc n) - {p} - ?R n" using reach_nonempty [of get p roots "Suc n"] by blast
    finally show "set ?new = ?R (Suc n) - {p} - ?R n" .
    show "distinct ?new" using fresh_ids by blast
  qed
  have vis: "set (ws_visited (level_visit get st)) \<union> {[]} = {p, []} \<union> ?R (Suc n)"
  proof -
    have "set (ws_visited (level_visit get st)) \<union> {[]} = set ?new \<union> (set (ws_visited st) \<union> {[]})"
      by (simp add: level_visit_def visit_all_fields Un_assoc)
    also have "\<dots> = {p, []} \<union> ?R (Suc n)" unfolding new(1) seen using reach_mono [of get p roots n] by blast
    finally show ?thesis .
  qed
  moreover have "set (ws_visited (level_visit get st)) \<union> {[]} \<union> set (map cr_session (ws_next (level_visit get st)))
      = {p, []} \<union> ?R (Suc (Suc n))"
  proof -
    have "set (map cr_session (ws_next (level_visit get st))) \<union> {[]} = (\<Union>i\<in>set ?new. delegates (get i)) \<union> {[]}"
      by (auto simp: level_visit_def visit_all_fields delegates_def)
    moreover have "?R (Suc (Suc n)) = ?R (Suc n) \<union> (\<Union>i\<in>set ?new. delegates (get i))"
    proof -
      have "?R (Suc n) - {p} = set ?new \<union> (?R n - {p})" unfolding new(1) using reach_mono [of get p roots n] by blast
      then have "?R (Suc (Suc n)) = (set roots - {[]}) \<union> (\<Union>i\<in>set ?new. delegates (get i)) \<union> (\<Union>i\<in>?R n - {p}. delegates (get i))"
        by (subst reach.simps(2)) (simp only: UN_Un Un_ac)
      then show ?thesis by (subst (2) reach.simps(2)) (simp only: Un_ac)
    qed
    ultimately show ?thesis using vis by (intro union_grows)
  qed
  moreover have "\<exists>ids. distinct ids \<and> set ids = ?R (Suc n) - {p} \<and>
      sc_children (ws_capture (level_visit get st)) = map Some (List.map_filter get ids) \<and>
      sc_failures (ws_capture (level_visit get st)) = length (filter (\<lambda>i. get i = None) ids)"
  proof (intro exI [of _ "ids @ ?new"] conjI)
    show "distinct (ids @ ?new)" using ids(1,2) new by auto
    show "set (ids @ ?new) = ?R (Suc n) - {p}" unfolding set_append ids(2) new(1) using reach_mono [of get p roots n] by blast
  qed (simp_all add: level_visit_def visit_all_fields ids(3,4) List.map_filter_def)
  ultimately show ?thesis unfolding level_inv_def by blast
qed

text \<open>C17: 
  Which sessions are captured when exports and writes work: exactly those within five delegations of the
  run's events, each once and never the primary one; a session that cannot be exported or parsed, or whose
  id could leave the directory, is counted as a failure and not followed further.
\<close>

theorem captureSessions_reach:
  fixes os :: "'s os" and primary :: string and events :: "event list"
  assumes "writes_succeed os" "exports_fixed os exports"
  defines "get \<equiv> exported_as (os_json os) exports"
  defines "found \<equiv> reach get primary (map cr_session (DiscoverChildren events)) 5 - {primary}"
  shows "\<exists>s' c ids. (captureSessions os runDir primary events :: ('s, run_error, session_capture) io) s = (s', Inr c) \<and>
     distinct ids \<and> set ids = found \<and>
     sc_children c = map Some (List.map_filter get ids) \<and> sc_failures c = card {i \<in> found. get i = None}"
proof -
  let ?roots = "map cr_session (DiscoverChildren events)"
  have start: "level_inv get primary ?roots 0
      \<lparr>ws_visited = (if primary \<noteq> [] then [primary] else []),
       ws_capture = \<lparr>sc_primary = p, sc_children = [], sc_failures = 0\<rparr>, ws_next = DiscoverChildren events\<rparr>" for p :: "session option"
    by (auto simp: level_inv_def map_filter_simps)
  have step: "level_inv get primary ?roots 0 st \<Longrightarrow> level_inv get primary ?roots n ((level_visit get ^^ n) st)" for n st
    by (induction n) (simp_all add: level_inv_step)
  define p where "p = (case os_read os (filepath_join [runDir, ''session.json'']) (fst s) of
      None \<Rightarrow> None | Some data \<Rightarrow> ParseExport (os_json os) data)"
  define st where "st = \<lparr>ws_visited = (if primary \<noteq> [] then [primary] else []),
      ws_capture = \<lparr>sc_primary = p, sc_children = [], sc_failures = 0\<rparr>, ws_next = DiscoverChildren events\<rparr>"
  obtain s1 where s1: "(capture_levels os (filepath_join [runDir, ''sessions'']) 5 st :: ('s, run_error, walk_state) io) s
      = (s1, Inr ((level_visit get ^^ 5) st))"
    using capture_levels_visit [OF assms(1,2)] unfolding get_def by blast
  have run: "(captureSessions os runDir primary events :: ('s, run_error, session_capture) io) s
      = (s1, Inr (ws_capture ((level_visit get ^^ 5) st)))"
    using s1 by (simp add: captureSessions_def io_bind_def io_look_def maxSessionDepth_def Let_def p_def [symmetric]
        st_def [symmetric] io_return_def)
  have "level_inv get primary ?roots 0 st" using start unfolding st_def by blast
  from step [OF this, of 5] obtain ids where ids: "distinct ids" "set ids = found"
      "sc_children (ws_capture ((level_visit get ^^ 5) st)) = map Some (List.map_filter get ids)"
      "sc_failures (ws_capture ((level_visit get ^^ 5) st)) = length (filter (\<lambda>i. get i = None) ids)"
    unfolding level_inv_def found_def by blast
  moreover have "length (filter (\<lambda>i. get i = None) ids) = card {i \<in> found. get i = None}"
    using ids(1,2) distinct_card [of "filter (\<lambda>i. get i = None) ids"] by simp
  ultimately show ?thesis using run by metis
qed

definition sample_delegation :: event where
  "sample_delegation = zero_event\<lparr>ev_type := ''tool_use'', ev_part := Some (JObj [(''tool'', JStr ''task''),
     (''state'', JObj [(''metadata'', JObj [(''sessionId'', JStr ''ses_1'')])])])\<rparr>"

theorem captureSessions_reach_witness:
  "\<exists>s' c. (captureSessions idle_os ''/r'' ''ses_0'' [sample_delegation] :: (unit, run_error, session_capture) io) ((), empty_db)
     = (s', Inr c) \<and> sc_children c = [] \<and> sc_failures c = 1"
proof -
  let ?get = "exported_as (os_json (idle_os :: unit os)) (\<lambda>_. Inl ''none'')"
  have get: "?get = (\<lambda>_. None)" by (simp add: exported_as_def fun_eq_iff)
  have d: "map cr_session (DiscoverChildren [sample_delegation]) = [''ses_1'']" by code_simp
  have none: "delegates None = {}" by (simp add: delegates_def discoverChildrenInExport_def)
  have r: "reach ?get ''ses_0'' [''ses_1''] 5 - {''ses_0''} = {''ses_1''}" by (simp add: get none eval_nat_numeral)
  have "writes_succeed (idle_os :: unit os)" "exports_fixed (idle_os :: unit os) (\<lambda>_. Inl ''none'')"
    by (simp_all add: writes_succeed_def exports_fixed_def idle_os_def)
  from captureSessions_reach [OF this, where primary = "''ses_0''" and events = "[sample_delegation]" and runDir = "''/r''" and s = "((), empty_db)"]
  obtain s' c ids where w: "(captureSessions idle_os ''/r'' ''ses_0'' [sample_delegation] :: (unit, run_error, session_capture) io)
        ((), empty_db) = (s', Inr c) \<and> distinct ids \<and> set ids = {''ses_1''} \<and>
        sc_children c = map Some (List.map_filter ?get ids) \<and> sc_failures c = card {i \<in> {''ses_1''}. ?get i = None}"
    unfolding d r by (elim exE)
  have "sc_children c = []" "sc_failures c = 1" using w unfolding get by (simp_all add: List.map_filter_def)
  with w show ?thesis by (intro exI conjI) (elim conjE)
qed


section \<open>The stored events and the metrics\<close>

text \<open>Files that read back what was appended to them.\<close>

definition keeps_files :: "'s os \<Rightarrow> bool" where
  "keeps_files os \<longleftrightarrow>
     (\<forall>p s s'. os_create os p s = (s', True) \<longrightarrow> os_read os p s' = Some []) \<and>
     (\<forall>p b c s s'. os_append os p b s = (s', True) \<longrightarrow> os_read os p s = Some c \<longrightarrow> os_read os p s' = Some (c @ b))"

definition parse_failure :: "metrics \<Rightarrow> metrics" where
  "parse_failure m = m\<lparr>ParseErrors := ParseErrors m + 1\<rparr>"

lemma note_parse_failure:
  "note_edit p (parse_failure m) = parse_failure (note_edit p m)"
  "note_read p (parse_failure m) = parse_failure (note_read p m)"
  "note_command p (parse_failure m) = parse_failure (note_command p m)"
  "note_failure p (parse_failure m) = parse_failure (note_failure p m)"
  "note_delegate p (parse_failure m) = parse_failure (note_delegate p m)"
  "note_server p (parse_failure m) = parse_failure (note_server p m)"
  by (simp_all add: note_edit_def note_read_def note_command_def note_failure_def note_delegate_def note_server_def
      parse_failure_def Let_def split: option.splits)

lemma count_parse_failure:
  "(parse_failure m)\<lparr>ToolCalls := a, ToolCallsByName := b\<rparr> = parse_failure (m\<lparr>ToolCalls := a, ToolCallsByName := b\<rparr>)"
  "(parse_failure m)\<lparr>lastTimestamp := t\<rparr> = parse_failure (m\<lparr>lastTimestamp := t\<rparr>)"
  "(parse_failure m)\<lparr>Steps := n\<rparr> = parse_failure (m\<lparr>Steps := n\<rparr>)"
  "(parse_failure m)\<lparr>Retries := n\<rparr> = parse_failure (m\<lparr>Retries := n\<rparr>)"
  "(parse_failure m)\<lparr>Compactions := n\<rparr> = parse_failure (m\<lparr>Compactions := n\<rparr>)"
  "Steps (parse_failure m) = Steps m" "Retries (parse_failure m) = Retries m" "Compactions (parse_failure m) = Compactions m"
  "ToolCalls (parse_failure m) = ToolCalls m" "ToolCallsByName (parse_failure m) = ToolCallsByName m"
  by (simp_all add: parse_failure_def)

lemma observed_parse_failure:
  "observeTool p (parse_failure m) = parse_failure (observeTool p m)"
  "observeStepFinish p (parse_failure m) = parse_failure (observeStepFinish p m)"
  "observeText p (parse_failure m) = parse_failure (observeText p m)"
  "m'\<lparr>ParseErrors := ParseErrors m' + 1\<rparr> = parse_failure m'"
proof -
  show "observeTool p (parse_failure m) = parse_failure (observeTool p m)"
    by (simp add: observeTool_def Let_def note_parse_failure count_parse_failure)
  show "observeStepFinish p (parse_failure m) = parse_failure (observeStepFinish p m)"
    by (simp add: observeStepFinish_def Let_def parse_failure_def split: option.splits)
qed (simp_all add: observeText_def parse_failure_def)

lemma observe_parse_failure: "Observe e (parse_failure m) = parse_failure (Observe e m)"
  unfolding Observe_def Let_def observed_parse_failure(4) count_parse_failure(2)
  by (cases "PartDecoded e") (simp_all add: observed_parse_failure(1-3) count_parse_failure)

lemma observe_all_parse_failure: "observe_all es (parse_failure m) = parse_failure (observe_all es m)"
  by (induction es arbitrary: m) (simp_all add: observe_all_def observe_parse_failure)

lemma observe_lines:
  "fold (ObserveLine parse) lines m =
     (parse_failure ^^ length (filter (\<lambda>l. \<exists>err. ParseLine parse l = Inl err) lines))
       (observe_all (List.map_filter (\<lambda>l. case ParseLine parse l of Inl _ \<Rightarrow> None | Inr e \<Rightarrow> Some e) lines) m)"
proof (induction lines arbitrary: m)
  case Nil
  show ?case by (simp add: observe_all_def map_filter_simps)
next
  case (Cons l lines)
  have swap: "observe_all es ((parse_failure ^^ n) m) = (parse_failure ^^ n) (observe_all es m)" for es n m
    by (induction n) (simp_all add: observe_all_parse_failure)
  show ?case
  proof (cases "ParseLine parse l")
    case (Inl err)
    then have "ObserveLine parse l m = parse_failure m" by (simp add: ObserveLine_def parse_failure_def)
    then show ?thesis using Inl Cons by (simp add: map_filter_simps observe_all_parse_failure funpow_swap1)
  next
    case (Inr e)
    then show ?thesis using Cons by (simp add: map_filter_simps ObserveLine_def observe_all_def)
  qed
qed

lemma drain_lines_file:
  assumes "keeps_files os" "drain_lines os path lines m s = (s', Inr m')" "os_read os path (fst s) = Some c"
  shows "m' = fold (ObserveLine (os_json os)) lines m \<and> snd s' = snd s \<and>
    os_read os path (fst s') = Some (c @ concat (map (\<lambda>l. l @ [CHR 0x0A]) lines))"
  using assms(2,3)
proof (induction lines arbitrary: m s c)
  case Nil
  then show ?case by (simp add: io_simps)
next
  case (Cons l lines)
  from Cons.prems(1) obtain s1 where s1: "os_append os path (l @ [CHR 0x0A]) (fst s) = (fst s1, True)" "snd s1 = snd s"
      "drain_lines os path lines (ObserveLine (os_json os) l m) s1 = (s', Inr m')"
    by (auto simp: io_then_Inr io_simps)
  then have "os_read os path (fst s1) = Some (c @ l @ [CHR 0x0A])"
    using assms(1) Cons.prems(2) unfolding keeps_files_def by blast
  from Cons.IH [OF s1(3) this] s1(2) show ?case by simp
qed

lemma split_lines:
  "(\<And>l. l \<in> set lines \<Longrightarrow> c \<notin> set l) \<Longrightarrow> split_on c (concat (map (\<lambda>l. l @ [c]) lines)) = lines @ [[]]"
  by (induction lines) (simp_all add: split_on_append)

text \<open>C19: 
  What was counted is what is stored: after a drain whose lines have no surrounding blanks, the events
  read back from the file are the events the metrics have observed, and every other line is one parse error.
\<close>

theorem drained_events_stored:
  assumes "keeps_files os" "drainEvents os path lines m s = (s', Inr m')"
    "\<And>l. l \<in> set lines \<Longrightarrow> CHR 0x0A \<notin> set l \<and> l \<noteq> [] \<and> trim_space l = l"
  shows "\<exists>es. readStoredEvents os path s' = (s', Inr es) \<and>
     m' = (parse_failure ^^ (length lines - length es)) (observe_all es m)"
proof -
  let ?parse = "\<lambda>l. case ParseLine (os_json os) l of Inl _ \<Rightarrow> None | Inr e \<Rightarrow> Some e"
  let ?es = "List.map_filter ?parse lines"
  from assms(2) obtain s1 where s1: "os_create os path (fst s) = (fst s1, True)" "drain_lines os path lines m s1 = (s', Inr m')"
    by (auto simp: drainEvents_def io_then_Inr io_simps)
  have "os_read os path (fst s1) = Some []" using assms(1) s1(1) unfolding keeps_files_def by blast
  from drain_lines_file [OF assms(1) s1(2) this]
  have m': "m' = fold (ObserveLine (os_json os)) lines m"
    and read: "os_read os path (fst s') = Some (concat (map (\<lambda>l. l @ [CHR 0x0A]) lines))" by simp_all
  have blank: "trim_space [] = []" by (simp add: trim_space_def)
  have "stored_events (os_json os) (concat (map (\<lambda>l. l @ [CHR 0x0A]) lines)) = ?es"
  proof -
    have "split_on (CHR 0x0A) (concat (map (\<lambda>l. l @ [CHR 0x0A]) lines)) = lines @ [[]]"
      using assms(3) by (intro split_lines) blast
    moreover have "List.map_filter f (xs @ [[]]) = List.map_filter g xs"
      if "f [] = None" "\<And>l. l \<in> set xs \<Longrightarrow> f l = g l" for f g :: "string \<Rightarrow> event option" and xs
      using that by (induction xs) (auto simp: map_filter_simps split: option.splits)
    ultimately show ?thesis using assms(3) by (simp add: stored_events_def blank Let_def)
  qed
  then have "readStoredEvents os path s' = (s', Inr ?es)"
    by (simp add: readStoredEvents_def io_bind_def io_look_def io_return_def read)
  moreover have "length lines - length ?es = length (filter (\<lambda>l. \<exists>err. ParseLine (os_json os) l = Inl err) lines)"
  proof -
    have "length lines = length ?es + length (filter (\<lambda>l. \<exists>err. ParseLine (os_json os) l = Inl err) lines)"
      by (induction lines) (auto simp: map_filter_simps split: sum.splits)
    then show ?thesis by simp
  qed
  ultimately show ?thesis unfolding m' observe_lines by metis
qed


definition sample_disk :: "(string \<Rightarrow> string option) os" where
  "sample_disk = \<lparr>os_stat = (\<lambda>p s. if s p = None then Missing else Regular), os_lstat = (\<lambda>p s. if s p = None then Missing else Regular),
     os_read = (\<lambda>p s. s p), os_abs = (\<lambda>p _. Some p),
     os_create = (\<lambda>p s. (s(p \<mapsto> []), True)), os_write = (\<lambda>p b s. (s(p \<mapsto> b), True)),
     os_append = (\<lambda>p b s. (s(p \<mapsto> (case s p of None \<Rightarrow> b | Some c \<Rightarrow> c @ b)), True)),
     os_mkdir = (\<lambda>_ s. (s, True)), os_lock = (\<lambda>_ s. (s, LockCreated)), os_remove = (\<lambda>p s. s(p := None)),
     os_remove_all = (\<lambda>_ s. (s, True)), os_git = (\<lambda>_ _ _ s. (s, None)), os_now = (\<lambda>_. ''2026-01-01T00:00:00Z''),
     os_elapsed = (\<lambda>_. 0), os_ended = (\<lambda>_. False), os_sleep = (\<lambda>_ s. s), os_uuid = (\<lambda>s. (s, Some ''u'')),
     os_start = (\<lambda>_ s. (s, Inl ''none'')), os_export = (\<lambda>_ _. Inl ''none''), os_host = (\<lambda>_. idle_host),
     os_validated = (\<lambda>_ _ s. s), os_found = (\<lambda>_. True), os_alnum = (\<lambda>_. False), os_environ = [], os_platform = [], os_version = [],
     os_json = (\<lambda>_. None), os_num = (\<lambda>_. [])\<rparr>"

theorem drained_events_stored_witness:
  "\<exists>s' m'. drainEvents sample_disk ''e'' [''x'', ''y''] (NewMetrics []) (Map.empty, empty_db) = (s', Inr m') \<and>
     ParseErrors m' = 2"
proof -
  have laws: "keeps_files sample_disk" by (auto simp: keeps_files_def sample_disk_def)
  obtain s' m' where run: "drainEvents sample_disk ''e'' [''x'', ''y''] (NewMetrics []) (Map.empty, empty_db) = (s', Inr m')"
  proof -
    have "\<not> isl (snd (drainEvents sample_disk ''e'' [''x'', ''y''] (NewMetrics []) (Map.empty, empty_db)))" by code_simp
    then show thesis using that by (metis prod.collapse sum.collapse(2))
  qed
  have trimmed: "l \<in> set [''x'', ''y''] \<Longrightarrow> CHR 0x0A \<notin> set l \<and> l \<noteq> [] \<and> trim_space l = l" for l
    by (auto simp: trim_space_def spaces_def upt_rec char_of_def)
  from drained_events_stored [OF laws run trimmed] obtain es
    where es: "readStoredEvents sample_disk ''e'' s' = (s', Inr es)"
      "m' = (parse_failure ^^ (length [''x'', ''y''] - length es)) (observe_all es (NewMetrics []))" by blast
  have none: "stored_events (\<lambda>_. None) d = []" for d
    by (simp add: stored_events_def ParseLine_def List.map_filter_def Let_def)
  have "os_json sample_disk = (\<lambda>_. None)" by (simp add: sample_disk_def)
  then have "es = []"
    using es(1) by (simp add: readStoredEvents_def io_bind_def io_look_def io_return_def none split: option.splits)
  then have "ParseErrors m' = 2" using es(2) by (simp add: observe_all_def NewMetrics_def parse_failure_def eval_nat_numeral)
  with run show ?thesis by blast
qed

end
