(* ===== verification/Experiment.thy ===== *)
theory Experiment
  imports Stats GoJson Store
begin

text \<open>
  \<open>internal/experiment\<close>, the aggregation of one experiment and the regression decision
  (\<open>aggregate.go\<close>). \<open>Summarize\<close> reads the stored arms, runs, metrics and validations and is a
  function of the database; \<open>DecideRegression\<close> interprets the summary. The generator of the
  permutation tests is the pair \<open>src\<close> (its state for a seed) and \<open>draw\<close>; \<open>parse\<close> is the JSON
  tokenizer.
\<close>

section \<open>Data\<close>

definition wilsonZ :: real where "wilsonZ = 1.96"
definition permutationIters :: int where "permutationIters = 10000"
definition permutationSeed :: int where "permutationSeed = 20260923"

record stat_test =
  te_observed :: real
  te_p :: real
  te_n :: nat
  te_applicable :: bool
  te_base :: real
  te_arm :: real

definition zero_test :: stat_test where
  "zero_test = \<lparr>te_observed = 0, te_p = 0, te_n = 0, te_applicable = False, te_base = 0, te_arm = 0\<rparr>"

record arm_task_stats =
  as_executions :: nat
  as_successes :: nat
  as_pass_rate :: real
  as_lo :: real
  as_hi :: real
  as_pass_at_k :: bool
  as_pass_all_k :: bool
  as_median_tokens :: real
  as_mean_score :: real
  as_has_score :: bool
  as_has_tokens :: bool
  as_median_cost :: real
  as_median_duration :: real

record task_summary =
  tk_id :: string
  tk_per_arm :: "(string, arm_task_stats) gomap"

record decision =
  de_arm :: string
  de_regressed :: bool
  de_reason :: string

record summary =
  sm_experiment :: experiment_row
  sm_arms :: "arm_row list"
  sm_tasks :: "task_summary list"
  sm_cost :: "(string, real) gomap"
  sm_drift :: "string list"
  sm_suppressed :: bool
  sm_insufficient :: bool
  sm_regression :: "decision option"
  sm_pass_tests :: "(string, stat_test) gomap"
  sm_cost_tests :: "(string, stat_test) gomap"
  sm_runs :: "run_row list"

record agg =
  ag_executions :: nat
  ag_successes :: nat
  ag_cost_sum :: real
  ag_tokens :: "real list"
  ag_costs :: "real list"
  ag_durations :: "real list"
  ag_score_sum :: real
  ag_score_runs :: nat

definition zero_agg :: agg where
  "zero_agg = \<lparr>ag_executions = 0, ag_successes = 0, ag_cost_sum = 0, ag_tokens = [], ag_costs = [],
     ag_durations = [], ag_score_sum = 0, ag_score_runs = 0\<rparr>"

datatype summary_error = NoExperiment string | UnknownBaseline string

section \<open>One run\<close>

fun metricValue :: "metric_row list \<Rightarrow> string \<Rightarrow> real option" where
  "metricValue [] name = None"
| "metricValue (m # ms) name =
     (if mt_name m = name \<and> mt_num m \<noteq> None then mt_num m else metricValue ms name)"

definition vetoing :: "string list" where "vetoing = [''failed'', ''error'', ''timeout'']"

definition runSucceeded :: "run_row \<Rightarrow> metric_row list \<Rightarrow> validation_row list \<Rightarrow> bool" where
  "runSucceeded run metrics validations =
     (if list_ex (\<lambda>v. va_status v \<in> set vetoing) validations then False
      else (case metricValue metrics ''success'' of
              None \<Rightarrow> RunSucceeded run 0 False
            | Some v \<Rightarrow> RunSucceeded run v True))"

definition opt_list :: "'a option \<Rightarrow> 'a list" where
  "opt_list v = (case v of None \<Rightarrow> [] | Some x \<Rightarrow> [x])"

definition observe_run :: "run_row \<Rightarrow> metric_row list \<Rightarrow> validation_row list \<Rightarrow> agg \<Rightarrow> agg" where
  "observe_run run metrics validations g =
     (let tokens = metricValue metrics ''tokens_total'';
          cost = metricValue metrics ''cost'';
          duration = (case metricValue metrics ''duration_ms'' of None \<Rightarrow> 0 | Some d \<Rightarrow> d);
          score = metricValue metrics ''score''
      in g\<lparr>ag_executions := ag_executions g + 1,
           ag_successes := ag_successes g + (if runSucceeded run metrics validations then 1 else 0),
           ag_tokens := ag_tokens g @ opt_list tokens,
           ag_score_sum := (case score of None \<Rightarrow> ag_score_sum g | Some v \<Rightarrow> ag_score_sum g + v),
           ag_score_runs := (case score of None \<Rightarrow> ag_score_runs g | Some v \<Rightarrow> ag_score_runs g + 1),
           ag_costs := ag_costs g @ opt_list cost,
           ag_durations := ag_durations g @ [duration],
           ag_cost_sum := (case cost of None \<Rightarrow> ag_cost_sum g | Some c \<Rightarrow> ag_cost_sum g + c)\<rparr>)"

section \<open>Grouping by arm and task\<close>

type_synonym grouping = "(string, (string, agg) gomap) gomap"

definition labels_by_arm :: "arm_row list \<Rightarrow> (string, string) gomap" where
  "labels_by_arm arms = fold (\<lambda>a m. put (am_id a) (am_label a) m) arms []"

text \<open>The label a run counts for: none for a run without an arm, a dry run or an unknown arm.\<close>

definition run_label :: "(string, string) gomap \<Rightarrow> run_row \<Rightarrow> string option" where
  "run_label labelByArm run =
     (case rr_arm run of
        None \<Rightarrow> None
      | Some a \<Rightarrow> if rr_dry run then None else map_of labelByArm a)"

definition group_run ::
  "db \<Rightarrow> (string, string) gomap \<Rightarrow> run_row \<Rightarrow> grouping \<times> (string, run_row list) gomap \<Rightarrow>
   grouping \<times> (string, run_row list) gomap" where
  "group_run s labelByArm run acc =
     (case run_label labelByArm run of
        None \<Rightarrow> acc
      | Some label \<Rightarrow>
          (modify label [] (modify (rr_task run) zero_agg
              (observe_run run (GetRunMetrics (rr_id run) s) (ListRunValidations (rr_id run) s))) (fst acc),
           modify (rr_task run) [] (\<lambda>runs. runs @ [run]) (snd acc)))"

definition find_agg :: "grouping \<Rightarrow> string \<Rightarrow> string \<Rightarrow> agg option" where
  "find_agg grouped label t = map_of (getd [] grouped label) t"

section \<open>Per-task and per-arm statistics\<close>

definition summarizeArmTask :: "agg \<Rightarrow> arm_task_stats" where
  "summarizeArmTask g =
     (let (lo, hi) = Wilson (int (ag_successes g)) (int (ag_executions g)) wilsonZ;
          outcomes = map (\<lambda>i. i < ag_successes g) [0..<ag_executions g]
      in \<lparr>as_executions = ag_executions g, as_successes = ag_successes g,
          as_pass_rate = real (ag_successes g) / real (ag_executions g), as_lo = lo, as_hi = hi,
          as_pass_at_k = PassAtK outcomes = 1, as_pass_all_k = PassAllK outcomes = 1,
          as_median_tokens = Median (ag_tokens g),
          as_mean_score = ag_score_sum g / real (max (ag_score_runs g) 1),
          as_has_score = ag_score_runs g = ag_executions g,
          as_has_tokens = length (ag_tokens g) = ag_executions g,
          as_median_cost = Median (ag_costs g), as_median_duration = Median (ag_durations g)\<rparr>)"

definition task_summary_of :: "arm_row list \<Rightarrow> grouping \<Rightarrow> string \<Rightarrow> task_summary" where
  "task_summary_of arms grouped t =
     \<lparr>tk_id = t,
      tk_per_arm = fold (\<lambda>a m. case find_agg grouped (am_label a) t of
                                 None \<Rightarrow> m
                               | Some g \<Rightarrow> put (am_label a) (summarizeArmTask g) m) arms []\<rparr>"

text \<open>The cost per solved task of one arm: only tasks it solved with a cost on every execution.\<close>

definition task_cost :: "grouping \<Rightarrow> string \<Rightarrow> string \<Rightarrow> real option" where
  "task_cost grouped label t =
     (case find_agg grouped label t of
        None \<Rightarrow> None
      | Some g \<Rightarrow>
          if ag_successes g = 0 \<or> length (ag_costs g) \<noteq> ag_executions g then None
          else Some (ag_cost_sum g / real (ag_successes g)))"

definition arm_costs :: "grouping \<Rightarrow> string list \<Rightarrow> string \<Rightarrow> (string, real) gomap" where
  "arm_costs grouped taskIDs label =
     concat (map (\<lambda>t. map (Pair t) (opt_list (task_cost grouped label t))) taskIDs)"

definition cost_tables ::
  "grouping \<Rightarrow> string list \<Rightarrow> arm_row list \<Rightarrow> (string, (string, real) gomap) gomap \<times> (string, real) gomap" where
  "cost_tables grouped taskIDs arms =
     fold (\<lambda>a (costByTask, costPerSolved).
        let perTask = arm_costs grouped taskIDs (am_label a); vals = map snd perTask
        in if vals = [] then (costByTask, costPerSolved)
           else (put (am_label a) perTask costByTask, put (am_label a) (Median vals) costPerSolved)) arms ([], [])"

section \<open>Guards\<close>

definition driftFields :: "(string \<times> (run_row \<Rightarrow> string)) list" where
  "driftFields =
     [(''model'', rr_model), (''agent'', rr_agent), (''variant'', rr_variant),
      (''opencode_version'', rr_opencode), (''suite_hash'', rr_suite_hash),
      (''task_version'', rr_task_version), (''fixture_sha'', rr_fixture)]"

definition drift_warning :: "run_row list \<Rightarrow> string \<times> (run_row \<Rightarrow> string) \<Rightarrow> string list" where
  "drift_warning runs f =
     (let values = sort (remdups (map (snd f) runs))
      in if length values < 2 then [] else [fst f @ '' differs across arms: '' @ join '', '' values])"

definition driftWarnings :: "string list \<Rightarrow> (string, run_row list) gomap \<Rightarrow> string list \<times> bool" where
  "driftWarnings taskIDs taskRuns =
     (let warnings = concat (map (\<lambda>t. concat (map (drift_warning (getd [] taskRuns t)) driftFields)) taskIDs)
      in (warnings, 0 < length warnings))"

definition executions_of :: "task_summary \<Rightarrow> string \<Rightarrow> nat" where
  "executions_of ts label = (case map_of (tk_per_arm ts) label of None \<Rightarrow> 0 | Some st \<Rightarrow> as_executions st)"

definition insufficientData :: "arm_row list \<Rightarrow> task_summary list \<Rightarrow> bool" where
  "insufficientData arms tasks =
     (if arms \<noteq> [] \<and> tasks = [] then True
      else list_ex (\<lambda>ts. list_ex (\<lambda>a. executions_of ts (am_label a) < 3) arms) tasks)"

section \<open>Tests against the baseline\<close>

definition passRateSample :: "task_summary list \<Rightarrow> string \<Rightarrow> real list" where
  "passRateSample tasks label =
     concat (map (\<lambda>ts. case map_of (tk_per_arm ts) label of
                         None \<Rightarrow> []
                       | Some st \<Rightarrow> replicate (as_successes st) 1
                                    @ replicate (as_executions st - as_successes st) 0) tasks)"

definition sampleMean :: "real list \<Rightarrow> real" where
  "sampleMean xs = (if xs = [] then 0 else fold (\<lambda>x s. s + x) xs 0 / real (length xs))"

definition sharedCosts ::
  "string list \<Rightarrow> (string, (string, real) gomap) gomap \<Rightarrow> string \<Rightarrow> string \<Rightarrow> bool \<Rightarrow> real list" where
  "sharedCosts taskIDs costByTask baseline candidate fromBaseline =
     concat (map (\<lambda>t. case (map_of (getd [] costByTask baseline) t, map_of (getd [] costByTask candidate) t) of
                        (Some base, Some arm) \<Rightarrow> [if fromBaseline then base else arm]
                      | _ \<Rightarrow> []) taskIDs)"

definition exp_permutationP :: "(int \<Rightarrow> 'g) \<Rightarrow> 'g rng \<Rightarrow> real list \<Rightarrow> real list \<Rightarrow> real" where
  "exp_permutationP src draw base arm =
     (if base = [] \<or> arm = [] then 1 else PermutationP draw base arm (src permutationSeed) permutationIters)"

definition exp_permutationPMedian :: "(int \<Rightarrow> 'g) \<Rightarrow> 'g rng \<Rightarrow> real list \<Rightarrow> real list \<Rightarrow> real" where
  "exp_permutationPMedian src draw base arm =
     (if base = [] \<or> arm = [] then 1 else PermutationPMedian draw base arm (src permutationSeed) permutationIters)"

definition exceedsBy25 :: "real \<Rightarrow> real \<Rightarrow> bool" where
  "exceedsBy25 baseline candidate =
     (if baseline > 0 then candidate / baseline > 1.25 else candidate > 0)"

definition dec_baseline :: "string dec" where
  "dec_baseline = dec_struct (\<lambda>k. if k = ''baseline'' then dec_string else skip_field)"

definition spec_baseline :: "(string \<Rightarrow> json option) \<Rightarrow> experiment_row \<Rightarrow> string option" where
  "spec_baseline parse x =
     (case parse (ex_spec x) of None \<Rightarrow> None | Some j \<Rightarrow> unmarshal dec_baseline [] j)"

definition baselineLabel :: "(string \<Rightarrow> json option) \<Rightarrow> string \<Rightarrow> experiment_row \<Rightarrow> arm_row list \<Rightarrow> string" where
  "baselineLabel parse requested x arms =
     (if requested \<noteq> [] then requested
      else case spec_baseline parse x of
        Some b \<Rightarrow> if b \<noteq> [] then b else (case arms of [] \<Rightarrow> [] | a # _ \<Rightarrow> am_label a)
      | None \<Rightarrow> (case arms of [] \<Rightarrow> [] | a # _ \<Rightarrow> am_label a))"

definition pass_test :: "(int \<Rightarrow> 'g) \<Rightarrow> 'g rng \<Rightarrow> real list \<Rightarrow> real list \<Rightarrow> stat_test" where
  "pass_test src draw basePass armPass =
     (let baseMean = sampleMean basePass; armMean = sampleMean armPass
      in \<lparr>te_observed = baseMean - armMean, te_p = exp_permutationP src draw basePass armPass,
          te_n = length basePass + length armPass, te_applicable = basePass \<noteq> [] \<and> armPass \<noteq> [],
          te_base = baseMean, te_arm = armMean\<rparr>)"

definition cost_test :: "(int \<Rightarrow> 'g) \<Rightarrow> 'g rng \<Rightarrow> real list \<Rightarrow> real list \<Rightarrow> stat_test" where
  "cost_test src draw baseCost armCost =
     (let baseMedian = Median baseCost; armMedian = Median armCost
      in \<lparr>te_observed = armMedian - baseMedian, te_p = exp_permutationPMedian src draw baseCost armCost,
          te_n = length baseCost + length armCost, te_applicable = baseCost \<noteq> [] \<and> armCost \<noteq> [],
          te_base = baseMedian, te_arm = armMedian\<rparr>)"

section \<open>The summary\<close>

definition Summarize ::
  "(int \<Rightarrow> 'g) \<Rightarrow> 'g rng \<Rightarrow> (string \<Rightarrow> json option) \<Rightarrow> string \<Rightarrow> string \<Rightarrow> db \<Rightarrow> summary_error + summary" where
  "Summarize src draw parse experimentID baseline s =
     (case GetExperiment experimentID s of
        None \<Rightarrow> Inl (NoExperiment experimentID)
      | Some x \<Rightarrow>
          (let arms = ListExperimentArms experimentID s
           in if baseline \<noteq> [] \<and> \<not> list_ex (\<lambda>a. am_label a = baseline) arms
              then Inl (UnknownBaseline baseline)
              else
                (let runs = RunsForExperiment experimentID s;
                     labelByArm = labels_by_arm arms;
                     (grouped, taskRuns) = fold (group_run s labelByArm) runs ([], []);
                     taskIDs = sort (map fst taskRuns);
                     tasks = map (task_summary_of arms grouped) taskIDs;
                     (costByTask, costPerSolved) = cost_tables grouped taskIDs arms;
                     (warnings, suppressed) = driftWarnings taskIDs taskRuns;
                     base = baselineLabel parse baseline x arms;
                     basePass = passRateSample tasks base;
                     others = filter (\<lambda>a. am_label a \<noteq> base) arms
                 in Inr \<lparr>sm_experiment = x, sm_arms = arms, sm_tasks = tasks, sm_cost = costPerSolved,
                         sm_drift = warnings, sm_suppressed = suppressed,
                         sm_insufficient = insufficientData arms tasks, sm_regression = None,
                         sm_pass_tests = fold (\<lambda>a. put (am_label a)
                            (pass_test src draw basePass (passRateSample tasks (am_label a)))) others [],
                         sm_cost_tests = fold (\<lambda>a. put (am_label a)
                            (cost_test src draw (sharedCosts taskIDs costByTask base (am_label a) True)
                               (sharedCosts taskIDs costByTask base (am_label a) False))) others [],
                         sm_runs = runs\<rparr>)))"

section \<open>The decision\<close>

definition sortedTestArms :: "(string, stat_test) gomap \<Rightarrow> string list" where
  "sortedTestArms tests = sort (map fst tests)"

definition no_regression :: "string \<Rightarrow> decision" where
  "no_regression reason = \<lparr>de_arm = [], de_regressed = False, de_reason = reason\<rparr>"

definition decideArm :: "summary \<Rightarrow> string \<Rightarrow> real \<Rightarrow> decision \<times> real" where
  "decideArm s arm alpha =
     (let pass = getd zero_test (sm_pass_tests s) arm;
          passSignificant = (te_applicable pass \<and> te_p pass < alpha);
          cost = getd zero_test (sm_cost_tests s) arm;
          f4 = show_fixed 4
      in if passSignificant \<and> te_observed pass > 0 then
           (\<lparr>de_arm = arm, de_regressed = True,
             de_reason = ''regression: arm '' @ arm @ '' pass rate '' @ f4 (te_arm pass) @ '' below baseline ''
               @ f4 (te_base pass) @ '' (p='' @ f4 (te_p pass) @ '' < '' @ f4 alpha @ '')''\<rparr>, te_p pass)
         else if \<not> passSignificant \<and> te_applicable cost \<and> te_p cost < alpha \<and> exceedsBy25 (te_base cost) (te_arm cost) then
           (\<lparr>de_arm = arm, de_regressed = True,
             de_reason = ''regression: arm '' @ arm @ '' median cost per solved task '' @ f4 (te_arm cost)
               @ '' exceeds baseline '' @ f4 (te_base cost) @ '' by more than 25% (p='' @ f4 (te_p cost)
               @ '' < '' @ f4 alpha @ '')''\<rparr>, te_p cost)
         else if passSignificant then
           (\<lparr>de_arm = arm, de_regressed = False,
             de_reason = ''arm '' @ arm @ '': pass rate differs but arm is not worse (p='' @ f4 (te_p pass) @ '')''\<rparr>, 1)
         else if te_applicable cost then
           (\<lparr>de_arm = arm, de_regressed = False,
             de_reason = ''arm '' @ arm @ '': pass rates indistinguishable (p='' @ f4 (te_p pass)
               @ ''); cost per solved task rule evaluated (p='' @ f4 (te_p cost) @ '')''\<rparr>, 1)
         else
           (\<lparr>de_arm = arm, de_regressed = False,
             de_reason = ''arm '' @ arm @ '': pass rate rule evaluated (p='' @ f4 (te_p pass)
               @ ''); cost per solved task rule not applicable''\<rparr>, 1))"

text \<open>The loop over the arms: the worst regressed arm so far, its p-value, the other reasons.\<close>

fun decide_arms ::
  "summary \<Rightarrow> real \<Rightarrow> string list \<Rightarrow> decision option \<Rightarrow> real \<Rightarrow> string list \<Rightarrow> decision option \<times> string list" where
  "decide_arms s alpha [] worst worstP reason = (worst, reason)"
| "decide_arms s alpha (arm # arms) worst worstP reason =
     (let (d, p) = decideArm s arm alpha
      in if de_regressed d then
           (if worst = None \<or> p < worstP then decide_arms s alpha arms (Some d) p reason
            else decide_arms s alpha arms worst worstP reason)
         else decide_arms s alpha arms worst worstP (reason @ [de_reason d]))"

definition DecideRegression :: "summary \<Rightarrow> real \<Rightarrow> decision" where
  "DecideRegression s alpha =
     (if sm_insufficient s then no_regression ''insufficient data''
      else if sm_suppressed s then no_regression (''significance suppressed: '' @ join ''; '' (sm_drift s))
      else (let arms = sortedTestArms (sm_pass_tests s)
            in if arms = [] then no_regression ''no regression: no comparison arm''
               else (case decide_arms s alpha arms None 1 [] of
                       (Some d, _) \<Rightarrow> d
                     | (None, reason) \<Rightarrow> no_regression (''no regression: '' @ join ''; '' reason))))"

section \<open>What the summary counts\<close>

definition counted :: "(string, string) gomap \<Rightarrow> string \<Rightarrow> string \<Rightarrow> run_row \<Rightarrow> bool" where
  "counted L label t r \<longleftrightarrow> run_label L r = Some label \<and> rr_task r = t"

definition succeeded_in :: "db \<Rightarrow> run_row \<Rightarrow> bool" where
  "succeeded_in s r = runSucceeded r (GetRunMetrics (rr_id r) s) (ListRunValidations (rr_id r) s)"

definition observed_in :: "db \<Rightarrow> run_row \<Rightarrow> agg \<Rightarrow> agg" where
  "observed_in s r = observe_run r (GetRunMetrics (rr_id r) s) (ListRunValidations (rr_id r) s)"

lemma find_agg_group_run:
  "find_agg (fst (group_run s L r acc)) label t =
     (if counted L label t r
      then Some (observed_in s r (case find_agg (fst acc) label t of None \<Rightarrow> zero_agg | Some g \<Rightarrow> g))
      else find_agg (fst acc) label t)"
  by (cases acc)
    (auto simp: group_run_def find_agg_def counted_def observed_in_def go_map getd_def split: option.splits)

lemma find_agg_group_runs:
  "find_agg (fst (fold (group_run s L) runs ([], []))) label t =
     (case filter (counted L label t) runs of
        [] \<Rightarrow> None
      | rs \<Rightarrow> Some (fold (observed_in s) rs zero_agg))"
proof (induction runs rule: rev_induct)
  case Nil
  then show ?case by (simp add: find_agg_def)
next
  case (snoc r runs)
  then show ?case by (simp add: find_agg_group_run split: list.splits)
qed

lemma task_runs_group_run:
  "getd [] (snd (group_run s L r acc)) t =
     getd [] (snd acc) t @ (if run_label L r \<noteq> None \<and> rr_task r = t then [r] else [])"
  by (cases acc) (auto simp: group_run_def go_map split: option.splits)

lemma task_runs_group_runs:
  "getd [] (snd (fold (group_run s L) runs ([], []))) t
   = filter (\<lambda>r. run_label L r \<noteq> None \<and> rr_task r = t) runs"
  by (induction runs rule: rev_induct) (auto simp: task_runs_group_run)

lemma task_ids_group_runs:
  "map_wf (snd (fold (group_run s L) runs ([], [])))"
  "fst ` set (snd (fold (group_run s L) runs ([], []))) = rr_task ` {r \<in> set runs. run_label L r \<noteq> None}"
proof (induction runs rule: rev_induct)
  case (snoc r runs)
  { case 1 then show ?case using snoc(1) by (auto simp: group_run_def split: option.splits)
  next
    case 2 then show ?case using snoc(2) by (auto simp: group_run_def keys_modify split: option.splits) }
qed auto

lemma observed_counts:
  "ag_executions (fold (observed_in s) rs g) = ag_executions g + length rs"
  "ag_successes (fold (observed_in s) rs g) = ag_successes g + length (filter (succeeded_in s) rs)"
  by (induction rs arbitrary: g)
    (auto simp: observed_in_def observe_run_def Let_def succeeded_in_def)

lemma per_arm_fold:
  "map_of (fold (\<lambda>a m. case find_agg G (am_label a) t of
                          None \<Rightarrow> m | Some g \<Rightarrow> put (am_label a) (summarizeArmTask g) m) arms m) label
   = (if label \<in> am_label ` set arms \<and> find_agg G label t \<noteq> None
      then map_option summarizeArmTask (find_agg G label t) else map_of m label)"
  by (induction arms arbitrary: m) (auto simp: go_map split: option.splits)

lemma per_arm_lookup:
  assumes "a \<in> set arms"
  shows "map_of (tk_per_arm (task_summary_of arms G t)) (am_label a)
     = map_option summarizeArmTask (find_agg G (am_label a) t)"
  using assms by (auto simp: task_summary_of_def per_arm_fold)

lemma summarized_fields [simp]:
  "as_executions (summarizeArmTask g) = ag_executions g"
  "as_successes (summarizeArmTask g) = ag_successes g"
  by (simp_all add: summarizeArmTask_def Let_def split: prod.splits)

lemma labels_fold_absent:
  "i \<notin> am_id ` set arms \<Longrightarrow> map_of (fold (\<lambda>a m. put (am_id a) (am_label a) m) arms m) i = map_of m i"
  by (induction arms arbitrary: m) (auto simp: go_map)

lemma labels_fold_present:
  "distinct (map am_id arms) \<Longrightarrow> a \<in> set arms \<Longrightarrow>
   map_of (fold (\<lambda>a m. put (am_id a) (am_label a) m) arms m) (am_id a) = Some (am_label a)"
proof (induction arms arbitrary: m)
  case (Cons b arms)
  show ?case
  proof (cases "a \<in> set arms")
    case True
    then show ?thesis using Cons by simp
  next
    case False
    then have "a = b" "am_id b \<notin> am_id ` set arms" using Cons.prems by auto
    then show ?thesis by (simp add: labels_fold_absent go_map)
  qed
qed simp

lemma labels_by_arm_lookup:
  assumes "distinct (map am_id arms)"
  shows "map_of (labels_by_arm arms) i = Some l \<longleftrightarrow> (\<exists>a\<in>set arms. am_id a = i \<and> am_label a = l)"
proof (cases "i \<in> am_id ` set arms")
  case True
  then obtain a where a: "a \<in> set arms" "i = am_id a" by blast
  then have "map_of (labels_by_arm arms) i = Some (am_label a)"
    using labels_fold_present [OF assms] by (simp add: labels_by_arm_def)
  moreover have "b = a" if "b \<in> set arms" "am_id b = i" for b
    using assms a that by (simp add: distinct_map inj_on_def)
  ultimately show ?thesis using a by (metis option.inject)
next
  case False
  then have "map_of (labels_by_arm arms) i = None" by (simp add: labels_by_arm_def labels_fold_absent)
  then show ?thesis using False by auto
qed

text \<open>The arms of one experiment have distinct ids and distinct labels.\<close>

lemma arms_distinct:
  assumes "db_keys s"
  shows "distinct (map am_id (ListExperimentArms e s))" "distinct (map am_label (ListExperimentArms e s))"
proof -
  let ?f = "filter (\<lambda>a. am_experiment a = e) (db_arms s)"
  have "distinct (map am_id (db_arms s))" "distinct (map (\<lambda>a. (am_experiment a, am_label a)) (db_arms s))"
    using assms by (auto simp: db_keys_def)
  then have "distinct (map am_id ?f)" "distinct (map (\<lambda>a. (am_experiment a, am_label a)) ?f)"
    by (auto simp: distinct_map_filter)
  moreover have "map (\<lambda>a. (am_experiment a, am_label a)) ?f = map (Pair e) (map am_label ?f)"
    by simp
  ultimately have "distinct (map am_id ?f)" "distinct (map am_label ?f)"
    by (metis, metis distinct_map)
  then show "distinct (map am_id (ListExperimentArms e s))" "distinct (map am_label (ListExperimentArms e s))"
    by (simp_all add: ListExperimentArms_def)
qed

lemma counted_arm:
  assumes "db_keys s" "a \<in> set (ListExperimentArms e s)"
  shows "counted (labels_by_arm (ListExperimentArms e s)) (am_label a) t r
     \<longleftrightarrow> rr_arm r = Some (am_id a) \<and> \<not> rr_dry r \<and> rr_task r = t"
proof -
  note d = arms_distinct [OF assms(1), of e]
  have "map_of (labels_by_arm (ListExperimentArms e s)) i = Some (am_label a) \<longleftrightarrow> i = am_id a" for i
    unfolding labels_by_arm_lookup [OF d(1)] using assms(2) d(2)
    by (auto simp: distinct_map inj_on_eq_iff)
  then show ?thesis by (auto simp: counted_def run_label_def split: option.splits)
qed

section \<open>The guards and the tests, in terms of runs\<close>

definition sum_runs :: "string \<Rightarrow> db \<Rightarrow> grouping \<times> (string, run_row list) gomap" where
  "sum_runs e s = fold (group_run s (labels_by_arm (ListExperimentArms e s))) (RunsForExperiment e s) ([], [])"

definition sum_ids :: "string \<Rightarrow> db \<Rightarrow> string list" where
  "sum_ids e s = sort (map fst (snd (sum_runs e s)))"

text \<open>The runs that count for an arm, and their success rate.\<close>

definition arm_runs :: "string \<Rightarrow> db \<Rightarrow> arm_row \<Rightarrow> run_row list" where
  "arm_runs e s a = filter (\<lambda>r. rr_arm r = Some (am_id a) \<and> \<not> rr_dry r) (RunsForExperiment e s)"

definition solved_rate :: "string \<Rightarrow> db \<Rightarrow> arm_row \<Rightarrow> real" where
  "solved_rate e s a = real (length (filter (succeeded_in s) (arm_runs e s a))) / real (length (arm_runs e s a))"

lemma sum_ids_distinct [simp]: "distinct (sum_ids e s)"
  using task_ids_group_runs(1) by (simp add: sum_ids_def sum_runs_def map_wf_def)

lemma sum_ids_cover:
  assumes "a \<in> set (ListExperimentArms e s)" "db_keys s" "r \<in> set (arm_runs e s a)"
  shows "rr_task r \<in> set (sum_ids e s)"
proof -
  have "counted (labels_by_arm (ListExperimentArms e s)) (am_label a) (rr_task r) r"
    using assms by (simp add: counted_arm arm_runs_def)
  then show ?thesis
    using assms(3) task_ids_group_runs(2) [of s "labels_by_arm (ListExperimentArms e s)" "RunsForExperiment e s"]
    by (auto simp: sum_ids_def sum_runs_def counted_def arm_runs_def)
qed

text \<open>A per-arm entry of a task counts exactly the runs of that arm and task.\<close>

lemma per_arm_counts:
  assumes "db_keys s" "a \<in> set (ListExperimentArms e s)"
  shows "map_of (tk_per_arm (task_summary_of (ListExperimentArms e s) (fst (sum_runs e s)) t)) (am_label a)
     = (let rs = filter (\<lambda>r. rr_task r = t) (arm_runs e s a)
        in if rs = [] then None else Some (summarizeArmTask (fold (observed_in s) rs zero_agg)))"
proof -
  let ?rs = "filter (\<lambda>r. rr_task r = t) (arm_runs e s a)"
  have "filter (counted (labels_by_arm (ListExperimentArms e s)) (am_label a) t) (RunsForExperiment e s) = ?rs"
    unfolding counted_arm [OF assms(1,2)] arm_runs_def filter_filter by (rule filter_cong) auto
  then show ?thesis
    unfolding per_arm_lookup [OF assms(2)] sum_runs_def find_agg_group_runs
    by (simp split: list.splits)
qed

lemma sum_list_indicator: "distinct ids \<Longrightarrow> x \<in> set ids \<Longrightarrow> sum_list (map (\<lambda>t. if x = t then 1 else 0 :: nat) ids) = 1"
proof (induction ids)
  case (Cons i ids)
  have "sum_list (map (\<lambda>t. if x = t then 1 else 0 :: nat) ids) = 0" if "x \<notin> set ids"
    using that by (induction ids) auto
  with Cons show ?case by auto
qed simp

lemma length_split_by:
  assumes "distinct ids" "\<And>r. r \<in> set rs \<Longrightarrow> k r \<in> set ids"
  shows "sum_list (map (\<lambda>t. length (filter (\<lambda>r. k r = t) rs)) ids) = length rs"
  using assms(2)
proof (induction rs)
  case (Cons r rs)
  have "sum_list (map (\<lambda>t. length (filter (\<lambda>r. k r = t) (r # rs))) ids)
      = sum_list (map (\<lambda>t. (if k r = t then 1 else 0) + length (filter (\<lambda>r. k r = t) rs)) ids)"
    by (intro arg_cong [where f = sum_list] map_cong) auto
  also have "\<dots> = sum_list (map (\<lambda>t. if k r = t then 1 else 0) ids) + length rs"
    using Cons by (simp add: sum_list_addf)
  also have "sum_list (map (\<lambda>t. if k r = t then 1 else 0 :: nat) ids) = 1"
    using Cons.prems [of r] assms(1) by (simp add: sum_list_indicator)
  finally show ?case by simp
qed simp

lemma sum_sample:
  "sum_list (concat (map (\<lambda>t. replicate (f t) 1 @ replicate (g t) 0) ids)) = real (sum_list (map f ids))"
  by (induction ids) (simp_all add: sum_list_replicate)

lemma sampleMean_sum: "sampleMean xs = sum_list xs / real (length xs)"
  by (simp add: sampleMean_def fold_plus_sum)

lemma arm_sample:
  assumes "db_keys s" "a \<in> set (ListExperimentArms e s)"
  defines "tasks \<equiv> map (task_summary_of (ListExperimentArms e s) (fst (sum_runs e s))) (sum_ids e s)"
  shows "sampleMean (passRateSample tasks (am_label a)) = solved_rate e s a"
    and "passRateSample tasks (am_label a) = [] \<longleftrightarrow> arm_runs e s a = []"
proof -
  let ?rs = "\<lambda>t. filter (\<lambda>r. rr_task r = t) (arm_runs e s a)"
  let ?ok = "\<lambda>t. length (filter (succeeded_in s) (?rs t))"
  have len: "length (filter P xs) \<le> length xs" for P and xs :: "run_row list" by simp
  have one: "(case (let rs = ?rs t in if rs = [] then None
          else Some (summarizeArmTask (fold (observed_in s) rs zero_agg))) of
        None \<Rightarrow> [] | Some st \<Rightarrow> replicate (as_successes st) 1 @ replicate (as_executions st - as_successes st) 0)
      = replicate (?ok t) (1 :: real) @ replicate (length (?rs t) - ?ok t) 0" for t
    by (cases "?rs t = []") (simp_all add: Let_def observed_counts zero_agg_def del: filter_filter)
  have "passRateSample tasks (am_label a)
      = concat (map (\<lambda>t. replicate (?ok t) 1 @ replicate (length (?rs t) - ?ok t) 0) (sum_ids e s))"
    unfolding passRateSample_def tasks_def map_map comp_def per_arm_counts [OF assms(1,2)]
    by (simp only: one)
  note sample = this
  have split: "sum_list (map (\<lambda>t. length (?rs t)) (sum_ids e s)) = length (arm_runs e s a)"
    by (rule length_split_by) (use sum_ids_cover [OF assms(2,1)] in auto)
  have "sum_list (map ?ok (sum_ids e s))
      = sum_list (map (\<lambda>t. length (filter (\<lambda>r. rr_task r = t) (filter (succeeded_in s) (arm_runs e s a)))) (sum_ids e s))"
    by (simp add: conj_commute)
  also have "\<dots> = length (filter (succeeded_in s) (arm_runs e s a))"
    by (rule length_split_by) (use sum_ids_cover [OF assms(2,1)] in auto)
  finally have ok: "sum_list (map ?ok (sum_ids e s)) = length (filter (succeeded_in s) (arm_runs e s a))" .
  have l: "length (passRateSample tasks (am_label a)) = length (arm_runs e s a)"
    unfolding sample split [symmetric]
    by (simp add: length_concat comp_def del: filter_filter)
  have "sum_list (passRateSample tasks (am_label a)) = real (sum_list (map ?ok (sum_ids e s)))"
    unfolding sample by (rule sum_sample)
  then show "sampleMean (passRateSample tasks (am_label a)) = solved_rate e s a"
    unfolding sampleMean_sum l ok solved_rate_def by (rule arg_cong)
  show "passRateSample tasks (am_label a) = [] \<longleftrightarrow> arm_runs e s a = []"
    using l by (metis length_0_conv)
qed

section \<open>The decision\<close>

definition by_pass_rate :: "summary \<Rightarrow> real \<Rightarrow> string \<Rightarrow> bool" where
  "by_pass_rate sm alpha arm \<longleftrightarrow>
     (let t = getd zero_test (sm_pass_tests sm) arm in te_applicable t \<and> te_p t < alpha \<and> te_arm t < te_base t)"

definition by_cost :: "summary \<Rightarrow> real \<Rightarrow> string \<Rightarrow> bool" where
  "by_cost sm alpha arm \<longleftrightarrow>
     (let t = getd zero_test (sm_pass_tests sm) arm; c = getd zero_test (sm_cost_tests sm) arm
      in \<not> (te_applicable t \<and> te_p t < alpha) \<and> te_applicable c \<and> te_p c < alpha \<and> exceedsBy25 (te_base c) (te_arm c))"

definition evidence :: "summary \<Rightarrow> real \<Rightarrow> string \<Rightarrow> real" where
  "evidence sm alpha arm =
     (if by_pass_rate sm alpha arm then te_p (getd zero_test (sm_pass_tests sm) arm)
      else te_p (getd zero_test (sm_cost_tests sm) arm))"

text \<open>\<open>Observed\<close> is the baseline's rate less the arm's, in every pass-rate test.\<close>

definition observed_ok :: "summary \<Rightarrow> bool" where
  "observed_ok sm \<longleftrightarrow> list_all (\<lambda>(arm, t). te_observed t = te_base t - te_arm t) (sm_pass_tests sm)"

lemma observed_ok_getd: "observed_ok sm \<Longrightarrow> te_observed (getd zero_test (sm_pass_tests sm) arm) =
    te_base (getd zero_test (sm_pass_tests sm) arm) - te_arm (getd zero_test (sm_pass_tests sm) arm)"
  by (auto simp: observed_ok_def getd_def zero_test_def list_all_iff dest: map_of_SomeD split: option.splits)

lemma decideArm_spec:
  assumes "observed_ok sm"
  shows "de_arm (fst (decideArm sm arm alpha)) = arm"
    and "de_regressed (fst (decideArm sm arm alpha)) \<longleftrightarrow> by_pass_rate sm alpha arm \<or> by_cost sm alpha arm"
    and "de_regressed (fst (decideArm sm arm alpha)) \<Longrightarrow> snd (decideArm sm arm alpha) = evidence sm alpha arm"
  using observed_ok_getd [OF assms, of arm]
  by (auto simp: decideArm_def by_pass_rate_def by_cost_def evidence_def Let_def)

definition worst_of :: "summary \<Rightarrow> real \<Rightarrow> string set \<Rightarrow> decision option \<Rightarrow> real \<Rightarrow> bool" where
  "worst_of sm alpha A w p \<longleftrightarrow>
     (case w of
        None \<Rightarrow> \<forall>a\<in>A. \<not> de_regressed (fst (decideArm sm a alpha))
      | Some d \<Rightarrow> \<exists>a\<in>A. d = fst (decideArm sm a alpha) \<and> de_regressed d \<and> p = snd (decideArm sm a alpha) \<and>
          (\<forall>b\<in>A. de_regressed (fst (decideArm sm b alpha)) \<longrightarrow> p \<le> snd (decideArm sm b alpha)))"

lemma decide_arms_worst:
  "worst_of sm alpha A w p \<Longrightarrow>
   \<exists>q. worst_of sm alpha (A \<union> set arms) (fst (decide_arms sm alpha arms w p reason)) q"
proof (induction arms arbitrary: A w p reason)
  case (Cons arm arms)
  obtain d q where dq: "decideArm sm arm alpha = (d, q)" by force
  have A: "A \<union> set (arm # arms) = insert arm A \<union> set arms" by auto
  consider (new) "de_regressed d" "w = None \<or> q < p" | (old) "de_regressed d" "w \<noteq> None" "p \<le> q"
    | (not) "\<not> de_regressed d" by force
  then show ?case
  proof cases
    case new
    then have "worst_of sm alpha (insert arm A) (Some d) q"
      using Cons.prems dq by (cases w) (force simp: worst_of_def)+
    from Cons.IH [OF this] new dq show ?thesis unfolding A by auto
  next
    case old
    then have "worst_of sm alpha (insert arm A) w p"
      using Cons.prems dq by (cases w) (force simp: worst_of_def)+
    from Cons.IH [OF this] old dq show ?thesis unfolding A by auto
  next
    case not
    then have "worst_of sm alpha (insert arm A) w p"
      using Cons.prems dq by (cases w) (force simp: worst_of_def)+
    from Cons.IH [OF this] not dq show ?thesis unfolding A by auto
  qed
qed auto

definition regressing :: "summary \<Rightarrow> real \<Rightarrow> string set" where
  "regressing sm alpha = {a \<in> fst ` set (sm_pass_tests sm). by_pass_rate sm alpha a \<or> by_cost sm alpha a}"

lemma DecideRegression_cases:
  fixes alpha :: real
  assumes "observed_ok sm"
  defines "d \<equiv> DecideRegression sm alpha"
  shows "de_regressed d \<longleftrightarrow> \<not> sm_insufficient sm \<and> \<not> sm_suppressed sm \<and> regressing sm alpha \<noteq> {}"
    and "de_regressed d \<Longrightarrow> de_arm d \<in> regressing sm alpha"
    and "de_regressed d \<Longrightarrow> a \<in> regressing sm alpha \<Longrightarrow> evidence sm alpha (de_arm d) \<le> evidence sm alpha a"
    and "\<not> de_regressed d \<Longrightarrow> de_arm d = []"
proof -
  note sp = decideArm_spec [OF assms(1)]
  let ?as = "sortedTestArms (sm_pass_tests sm)"
  let ?r = "decide_arms sm alpha ?as None 1 []"
  have set: "set ?as = fst ` set (sm_pass_tests sm)" by (simp add: sortedTestArms_def)
  obtain q where w: "worst_of sm alpha (set ?as) (fst ?r) q"
    using decide_arms_worst [of sm alpha "{}" None 1 ?as "[]"] by (auto simp: worst_of_def)
  have reg: "regressing sm alpha = {a \<in> set ?as. de_regressed (fst (decideArm sm a alpha))}"
    by (auto simp: regressing_def set sp)
  have d: "d = (if sm_insufficient sm \<or> sm_suppressed sm \<or> ?as = [] \<or> fst ?r = None
      then no_regression (de_reason d) else the (fst ?r))"
    by (cases ?r) (auto simp: d_def DecideRegression_def no_regression_def Let_def split: option.splits)
  show "de_regressed d \<longleftrightarrow> \<not> sm_insufficient sm \<and> \<not> sm_suppressed sm \<and> regressing sm alpha \<noteq> {}"
    using w by (subst d) (auto simp: no_regression_def reg worst_of_def split: option.splits)
  show "de_arm d = []" if "\<not> de_regressed d"
    using w that by (subst (asm) d, subst d) (auto simp: no_regression_def worst_of_def split: option.splits if_splits)
  assume dr: "de_regressed d"
  moreover have "\<not> de_regressed (no_regression r)" for r by (simp add: no_regression_def)
  ultimately have ran: "\<not> (sm_insufficient sm \<or> sm_suppressed sm \<or> ?as = [] \<or> fst ?r = None)"
    using d by metis
  then have "d = the (fst ?r)" using d by (simp only: if_False)
  then have "fst ?r = Some d" using ran by (metis option.collapse)
  with w obtain c where c: "c \<in> set ?as" "d = fst (decideArm sm c alpha)" "q = snd (decideArm sm c alpha)"
    "\<And>b. b \<in> set ?as \<Longrightarrow> de_regressed (fst (decideArm sm b alpha)) \<Longrightarrow> q \<le> snd (decideArm sm b alpha)"
    unfolding worst_of_def by auto
  then have arm: "de_arm d = c" by (simp add: sp)
  then show "de_arm d \<in> regressing sm alpha" using c dr by (simp add: reg)
  assume "a \<in> regressing sm alpha"
  then show "evidence sm alpha (de_arm d) \<le> evidence sm alpha a"
    using c dr arm sp(3) by (auto simp: reg)
qed

section \<open>The summary of a database\<close>

lemma Summarize_Inr:
  fixes src :: "int \<Rightarrow> 'g"
  assumes "Summarize src draw parse e b s = Inr sm"
  defines "base \<equiv> baselineLabel parse b (sm_experiment sm) (sm_arms sm)"
  defines "others \<equiv> filter (\<lambda>a. am_label a \<noteq> base) (sm_arms sm)"
  shows "sm_arms sm = ListExperimentArms e s"
    and "sm_tasks sm = map (task_summary_of (ListExperimentArms e s) (fst (sum_runs e s))) (sum_ids e s)"
    and "sm_insufficient sm = insufficientData (sm_arms sm) (sm_tasks sm)"
    and "sm_suppressed sm = snd (driftWarnings (sum_ids e s) (snd (sum_runs e s)))"
    and "sm_pass_tests sm = fold (\<lambda>a. put (am_label a)
          (pass_test src draw (passRateSample (sm_tasks sm) base) (passRateSample (sm_tasks sm) (am_label a)))) others []"
    and "\<exists>costs :: string \<Rightarrow> bool \<Rightarrow> real list.
          (\<forall>l fb. costs l fb = sharedCosts (sum_ids e s)
             (fst (cost_tables (fst (sum_runs e s)) (sum_ids e s) (sm_arms sm))) base l fb) \<and>
          sm_cost_tests sm = fold (\<lambda>a. put (am_label a)
            (cost_test src draw (costs (am_label a) True) (costs (am_label a) False))) others []"
  using assms(1) unfolding base_def others_def Summarize_def sum_runs_def sum_ids_def
  by (auto simp: Let_def split: option.splits if_splits prod.splits)

lemma map_of_fold_put:
  "map_of (fold (\<lambda>a. put (k a) (f (k a))) xs m) i = (if i \<in> k ` set xs then Some (f i) else map_of m i)"
  by (induction xs arbitrary: m) (auto simp: go_map)

lemma keys_fold_put: "fst ` set (fold (\<lambda>a. put (k a) (f (k a))) xs []) = k ` set xs"
proof -
  have "fst ` set (fold (\<lambda>a. put (k a) (f (k a))) xs m) = fst ` set m \<union> k ` set xs" for m
    by (induction xs arbitrary: m) (auto simp: keys_put)
  then show ?thesis by simp
qed

lemma observed_ok_Summarize: "Summarize src draw parse e b s = Inr sm \<Longrightarrow> observed_ok sm"
proof -
  assume a: "Summarize src draw parse e b s = Inr sm"
  have preserved: "list_all (\<lambda>(arm, t). te_observed t = te_base t - te_arm t)
      (fold (\<lambda>a. put (am_label a) (pass_test src draw bs (f a))) as m)"
    if "list_all (\<lambda>(arm, t). te_observed t = te_base t - te_arm t) m" for bs f as m
    using that
  proof (induction as arbitrary: m)
    case (Cons a as)
    have "list_all (\<lambda>(arm, t). te_observed t = te_base t - te_arm t) (put l (pass_test src draw x y) m)" for l x y
      using Cons.prems by (induction m) (auto simp: pass_test_def Let_def)
    then show ?case using Cons.IH by simp
  qed simp
  show ?thesis unfolding observed_ok_def Summarize_Inr(5) [OF a] by (rule preserved) simp
qed

lemma many_values_iff:
  "length (sort (remdups xs)) < 2 \<longleftrightarrow> (\<forall>x\<in>set xs. \<forall>y\<in>set xs. x = y)"
proof -
  have "length (sort (remdups xs)) = card (set xs)" by (simp add: length_remdups_card_conv)
  moreover have "card (set xs) < 2 \<longleftrightarrow> card (set xs) \<le> 1" by auto
  ultimately show ?thesis by (simp add: card_le_Suc0_iff_eq)
qed

lemma no_drift_iff:
  "\<not> snd (driftWarnings ids TR) \<longleftrightarrow>
     (\<forall>t\<in>set ids. \<forall>f\<in>snd ` set driftFields. \<forall>r\<in>set (getd [] TR t). \<forall>r'\<in>set (getd [] TR t). f r = f r')"
proof -
  have one: "drift_warning runs f = [] \<longleftrightarrow> (\<forall>r\<in>set runs. \<forall>r'\<in>set runs. snd f r = snd f r')" for runs f
  proof -
    have "drift_warning runs f = [] \<longleftrightarrow> length (sort (remdups (map (snd f) runs))) < 2"
      unfolding drift_warning_def Let_def by (cases "length (sort (remdups (map (snd f) runs))) < 2") simp_all
    then show ?thesis unfolding many_values_iff by (simp only: list.set_map ball_simps)
  qed
  show ?thesis unfolding driftWarnings_def Let_def snd_conv length_greater_0_conv not_not concat_map_Nil one
    by (simp only: ball_simps)
qed

lemma insufficientData_iff:
  "insufficientData arms tasks \<longleftrightarrow>
     arms \<noteq> [] \<and> tasks = [] \<or> (\<exists>ts\<in>set tasks. \<exists>a\<in>set arms. executions_of ts (am_label a) < 3)"
  by (auto simp: insufficientData_def list_ex_iff)

lemma executions_of_arm:
  assumes "db_keys s" "a \<in> set (ListExperimentArms e s)"
  shows "executions_of (task_summary_of (ListExperimentArms e s) (fst (sum_runs e s)) t) (am_label a)
    = length (filter (\<lambda>r. rr_task r = t) (arm_runs e s a))"
  unfolding executions_of_def per_arm_counts [OF assms]
  by (simp add: Let_def observed_counts zero_agg_def del: filter_filter)

lemma arm_run_labelled:
  assumes "db_keys s" "a \<in> set (ListExperimentArms e s)" "r \<in> set (arm_runs e s a)"
  shows "r \<in> set (getd [] (snd (sum_runs e s)) (rr_task r))"
  using counted_arm [OF assms(1,2), of "rr_task r" r] assms(3)
  by (auto simp: sum_runs_def task_runs_group_runs arm_runs_def counted_def)

lemma sample_arm_known:
  assumes "passRateSample (map (task_summary_of arms G) ids) l \<noteq> []"
  shows "l \<in> am_label ` set arms"
proof (rule ccontr)
  assume "l \<notin> am_label ` set arms"
  then have "map_of (tk_per_arm (task_summary_of arms G t)) l = None" for t
    by (simp add: task_summary_of_def per_arm_fold)
  then have "passRateSample (map (task_summary_of arms G) ids) l = []"
    by (simp add: passRateSample_def comp_def)
  then show False using assms by simp
qed

lemma shared_costs_known:
  assumes "sharedCosts ids (fst (cost_tables G ids arms)) base l fb \<noteq> []"
  shows "base \<in> am_label ` set arms"
proof (rule ccontr)
  assume n: "base \<notin> am_label ` set arms"
  have "base \<notin> am_label ` set as \<Longrightarrow> map_of (fst acc) base = None \<Longrightarrow>
      map_of (fst (fold (\<lambda>a (costByTask, costPerSolved).
        let perTask = arm_costs G ids (am_label a); vals = map snd perTask
        in if vals = [] then (costByTask, costPerSolved)
           else (put (am_label a) perTask costByTask, put (am_label a) (Median vals) costPerSolved)) as acc)) base = None"
    for as acc
    by (induction as arbitrary: acc) (auto simp: Let_def go_map split: prod.splits)
  from this [of arms "([], [])"] n have "map_of (fst (cost_tables G ids arms)) base = None"
    by (simp add: cost_tables_def)
  then have "sharedCosts ids (fst (cost_tables G ids arms)) base l fb = []"
    by (simp add: sharedCosts_def getd_def)
  then show False using assms by simp
qed

lemma getd_fold_put:
  "x \<in> k ` set xs \<Longrightarrow> getd d (fold (\<lambda>a. put (k a) (F (k a))) xs []) x = F x"
  by (simp add: getd_def map_of_fold_put)

lemma outcome_set:
  "True \<in> set (map (\<lambda>i. i < k) [0..<n]) \<longleftrightarrow> 0 < k \<and> 0 < n" "False \<in> set (map (\<lambda>i. i < k) [0..<n]) \<longleftrightarrow> k < n"
  by (auto simp: image_iff intro: bexI [of _ 0] bexI [of _ k] le_less_trans)

definition same_inputs :: "run_row \<Rightarrow> run_row \<Rightarrow> bool" where
  "same_inputs r q \<longleftrightarrow>
     rr_model r = rr_model q \<and> rr_agent r = rr_agent q \<and> rr_variant r = rr_variant q \<and>
     rr_opencode r = rr_opencode q \<and> rr_suite_hash r = rr_suite_hash q \<and>
     rr_task_version r = rr_task_version q \<and> rr_fixture r = rr_fixture q"

text \<open>What the two guards establish about the stored runs.\<close>

lemma guards_evidence:
  assumes "db_keys s" "Summarize src draw parse e b s = Inr sm" "\<not> sm_insufficient sm" "\<not> sm_suppressed sm"
  shows "(\<forall>x\<in>set (sm_arms sm). \<forall>ts\<in>set (sm_tasks sm).
       3 \<le> length (filter (\<lambda>r. rr_task r = tk_id ts) (arm_runs e s x))) \<and>
    (\<forall>x\<in>set (sm_arms sm). \<forall>y\<in>set (sm_arms sm). \<forall>r\<in>set (arm_runs e s x). \<forall>q\<in>set (arm_runs e s y).
       rr_task r = rr_task q \<longrightarrow> same_inputs r q)"
proof -
  note S = Summarize_Inr [OF assms(2)]
  note guards = assms(3,4)
  have three: "3 \<le> length (filter (\<lambda>r. rr_task r = tk_id ts) (arm_runs e s x))"
    if x: "x \<in> set (sm_arms sm)" and tsk: "ts \<in> set (sm_tasks sm)" for x ts
  proof -
    obtain t where ts: "ts = task_summary_of (ListExperimentArms e s) (fst (sum_runs e s)) t" "tk_id ts = t"
      using tsk S(2) by (auto simp: task_summary_of_def)
    have "\<not> executions_of ts (am_label x) < 3"
      using guards(1) x tsk unfolding S(3) insufficientData_iff by blast
    then show ?thesis using x executions_of_arm [OF assms(1), of x e t] by (simp add: S(1) ts(1)) (simp add: task_summary_of_def)
  qed
  have same: "f r = f q"
    if "x \<in> set (sm_arms sm)" "y \<in> set (sm_arms sm)" "r \<in> set (arm_runs e s x)" "q \<in> set (arm_runs e s y)"
      "rr_task r = rr_task q" "f \<in> snd ` set driftFields" for x y r q f
  proof -
    have "rr_task r \<in> set (sum_ids e s)"
      using sum_ids_cover [OF _ assms(1)] that(1,3) S(1) by simp
    moreover have "r \<in> set (getd [] (snd (sum_runs e s)) (rr_task r))" "q \<in> set (getd [] (snd (sum_runs e s)) (rr_task r))"
      using arm_run_labelled [OF assms(1)] that S(1) by metis+
    ultimately show ?thesis using guards(2) that(6) unfolding S(4) no_drift_iff by blast
  qed
  have "same_inputs r q"
    if "x \<in> set (sm_arms sm)" "y \<in> set (sm_arms sm)" "r \<in> set (arm_runs e s x)" "q \<in> set (arm_runs e s y)"
      "rr_task r = rr_task q" for x y r q
    using same [OF that] by (simp add: driftFields_def same_inputs_def)
  then show ?thesis using three by blast
qed

lemma summarized_interval:
  "as_lo (summarizeArmTask g) = fst (Wilson (int (ag_successes g)) (int (ag_executions g)) wilsonZ)"
  "as_hi (summarizeArmTask g) = snd (Wilson (int (ag_successes g)) (int (ag_executions g)) wilsonZ)"
  "as_pass_rate (summarizeArmTask g) = real (ag_successes g) / real (ag_executions g)"
  by (simp_all add: summarizeArmTask_def Let_def split: prod.splits)

lemma Summarize_keys:
  assumes "Summarize src draw parse e b s = Inr sm"
  shows "fst ` set (sm_pass_tests sm)
    = am_label ` set (filter (\<lambda>a. am_label a \<noteq> baselineLabel parse b (sm_experiment sm) (sm_arms sm)) (sm_arms sm))"
  unfolding Summarize_Inr(5) [OF assms] by (rule keys_fold_put)

lemma Summarize_total: "GetExperiment e s \<noteq> None \<Longrightarrow> \<exists>sm. Summarize src draw parse e [] s = Inr sm"
  by (cases "GetExperiment e s") (simp_all add: Summarize_def Let_def case_prod_beta)

lemma pass_test_of:
  assumes "Summarize src draw parse e b s = Inr sm" "a \<in> set (sm_arms sm)"
  defines "base \<equiv> baselineLabel parse b (sm_experiment sm) (sm_arms sm)"
  assumes "am_label a \<noteq> base"
  shows "am_label a \<in> fst ` set (sm_pass_tests sm)"
    and "getd zero_test (sm_pass_tests sm) (am_label a)
      = pass_test src draw (passRateSample (sm_tasks sm) base) (passRateSample (sm_tasks sm) (am_label a))"
proof -
  show "am_label a \<in> fst ` set (sm_pass_tests sm)"
    using assms by (simp add: Summarize_keys [OF assms(1)])
  show "getd zero_test (sm_pass_tests sm) (am_label a)
      = pass_test src draw (passRateSample (sm_tasks sm) base) (passRateSample (sm_tasks sm) (am_label a))"
    unfolding Summarize_Inr(5) [OF assms(1)] base_def using assms
    by (intro getd_fold_put [where F = "\<lambda>l. pass_test src draw (passRateSample (sm_tasks sm) base) (passRateSample (sm_tasks sm) l)",
          unfolded base_def]) auto
qed

text \<open>A regression needs both arms of the comparison to exist and to have runs.\<close>

lemma regressing_arms:
  assumes "db_keys s" "Summarize src draw parse e b s = Inr sm" "x \<in> regressing sm alpha"
  obtains a c where "a \<in> set (sm_arms sm)" "c \<in> set (sm_arms sm)" "am_label a = x"
    "am_label c = baselineLabel parse b (sm_experiment sm) (sm_arms sm)" "am_label a \<noteq> am_label c"
    "by_pass_rate sm alpha x \<Longrightarrow> solved_rate e s a < solved_rate e s c"
proof -
  note S = Summarize_Inr [OF assms(2)]
  let ?base = "baselineLabel parse b (sm_experiment sm) (sm_arms sm)"
  let ?others = "filter (\<lambda>a. am_label a \<noteq> ?base) (sm_arms sm)"
  obtain a where a: "a \<in> set (sm_arms sm)" "am_label a = x" "x \<noteq> ?base"
    using assms(3) by (auto simp: regressing_def Summarize_keys [OF assms(2)])
  have pt: "getd zero_test (sm_pass_tests sm) x
      = pass_test src draw (passRateSample (sm_tasks sm) ?base) (passRateSample (sm_tasks sm) x)"
    using pass_test_of(2) [OF assms(2) a(1)] a by simp
  from S(6) obtain costs where co: "\<And>l fb. costs l fb = sharedCosts (sum_ids e s)
             (fst (cost_tables (fst (sum_runs e s)) (sum_ids e s) (sm_arms sm))) ?base l fb"
    "sm_cost_tests sm = fold (\<lambda>a. put (am_label a)
            (cost_test src draw (costs (am_label a) True) (costs (am_label a) False))) ?others []" by blast
  have ct: "getd zero_test (sm_cost_tests sm) x = cost_test src draw (costs x True) (costs x False)"
    unfolding co(2) using a
    by (intro getd_fold_put [where F = "\<lambda>l. cost_test src draw (costs l True) (costs l False)"]) auto
  have "?base \<in> am_label ` set (sm_arms sm)"
  proof (cases "by_pass_rate sm alpha x")
    case True
    then have "passRateSample (sm_tasks sm) ?base \<noteq> []"
      by (simp add: by_pass_rate_def pt pass_test_def Let_def)
    then show ?thesis unfolding S(2) S(1) by (rule sample_arm_known)
  next
    case False
    then have "by_cost sm alpha x" using assms(3) by (simp add: regressing_def)
    then have "costs x True \<noteq> []" by (simp add: by_cost_def ct cost_test_def Let_def)
    then show ?thesis unfolding co(1) by (rule shared_costs_known)
  qed
  then obtain c where c: "c \<in> set (sm_arms sm)" "am_label c = ?base" by (metis imageE)
  have rate: "sampleMean (passRateSample (sm_tasks sm) (am_label y)) = solved_rate e s y" if "y \<in> set (sm_arms sm)" for y
    unfolding S(2) using that unfolding S(1) by (rule arm_sample(1) [OF assms(1)])
  have "solved_rate e s a < solved_rate e s c" if "by_pass_rate sm alpha x"
    using that a c rate [of a] rate [of c] by (simp add: by_pass_rate_def pt pass_test_def Let_def)
  with a c show ?thesis by (intro that [of a c]) auto
qed

section \<open>A regressed experiment\<close>

definition sample_arm :: "string \<Rightarrow> arm_row" where
  "sample_arm l = \<lparr>am_id = l, am_experiment = ''e'', am_label = l, am_profile = None, am_overlay_path = None,
     am_overlay_sha = None, am_profile_hash = [], am_overlay_kind = ''none'', am_created = []\<rparr>"

definition sample_run :: "string \<Rightarrow> string \<Rightarrow> string \<Rightarrow> run_sql" where
  "sample_run i l status = run_params [] (zero_run\<lparr>rr_id := i, rr_experiment := ''e'', rr_arm := Some l,
     rr_task := ''t'', rr_status := status\<rparr>)"

definition regressed_db :: db where
  "regressed_db = empty_db\<lparr>
     db_experiments := [\<lparr>ex_id = ''e'', ex_name = [], ex_spec = [], ex_created = []\<rparr>],
     db_arms := [sample_arm ''A'', sample_arm ''B''],
     db_runs := [sample_run ''1'' ''A'' ''passed'', sample_run ''2'' ''A'' ''passed'', sample_run ''3'' ''A'' ''passed'',
       sample_run ''4'' ''B'' ''failed'', sample_run ''5'' ''B'' ''failed'', sample_run ''6'' ''B'' ''failed'']\<rparr>"

lemma regressed_keys: "db_keys regressed_db"
  by (simp add: db_keys_def regressed_db_def empty_db_def sample_arm_def sample_run_def run_params_def)

lemma regressed_arms: "ListExperimentArms ''e'' regressed_db = [sample_arm ''A'', sample_arm ''B'']"
  by code_simp

lemma regressed_ids: "sum_ids ''e'' regressed_db = [''t'']"
  by code_simp

lemma regressed_runs:
  "arm_runs ''e'' regressed_db (sample_arm ''A'') = map (\<lambda>i. scanRunRow (sample_run i ''A'' ''passed'')) [''1'', ''2'', ''3'']"
  "arm_runs ''e'' regressed_db (sample_arm ''B'') = map (\<lambda>i. scanRunRow (sample_run i ''B'' ''failed'')) [''4'', ''5'', ''6'']"
  by code_simp+

lemma exp_permutationP_le: "exp_permutationP src draw xs ys \<le> 1"
  by (simp add: exp_permutationP_def PermutationP_def permutationP_bounds(2))

lemma regressed_summary:
  obtains sm where
    "Summarize (\<lambda>_. ()) (\<lambda>g n. (0, g)) (\<lambda>_. None) ''e'' [] regressed_db = Inr sm"
    "sm_arms sm = [sample_arm ''A'', sample_arm ''B'']" "tk_id ` set (sm_tasks sm) = {''t''}"
    "de_regressed (DecideRegression sm 2)"
proof -
  have "GetExperiment ''e'' regressed_db \<noteq> None" by code_simp
  then obtain sm where sm: "Summarize (\<lambda>_. ()) (\<lambda>g n. (0, g)) (\<lambda>_. None) ''e'' [] regressed_db = Inr sm"
    using Summarize_total by blast
  note S = Summarize_Inr [OF sm]
  have arms: "sm_arms sm = [sample_arm ''A'', sample_arm ''B'']" unfolding S(1) by (rule regressed_arms)
  have tasks: "sm_tasks sm = [task_summary_of (ListExperimentArms ''e'' regressed_db) (fst (sum_runs ''e'' regressed_db)) ''t'']"
    unfolding S(2) regressed_ids by simp
  have base: "baselineLabel (\<lambda>_. None) [] (sm_experiment sm) (sm_arms sm) = ''A''"
    by (simp add: baselineLabel_def spec_baseline_def arms sample_arm_def)
  have in_arms: "sample_arm ''A'' \<in> set (ListExperimentArms ''e'' regressed_db)" "sample_arm ''B'' \<in> set (ListExperimentArms ''e'' regressed_db)"
    by (simp_all add: regressed_arms)
  note sample = arm_sample [OF regressed_keys in_arms(1)] arm_sample [OF regressed_keys in_arms(2)]
  have rates: "solved_rate ''e'' regressed_db (sample_arm ''A'') = 1" "solved_rate ''e'' regressed_db (sample_arm ''B'') = 0"
    unfolding solved_rate_def regressed_runs by code_simp+
  have lab: "am_label (sample_arm l) = l" for l by (simp add: sample_arm_def)
  have "sm_tasks sm \<noteq> []" by (simp add: tasks)
  have "\<not> sm_insufficient sm"
    unfolding S(3) insufficientData_iff arms tasks
    using executions_of_arm [OF regressed_keys in_arms(1), of "''t''"] executions_of_arm [OF regressed_keys in_arms(2), of "''t''"]
    by (simp add: regressed_runs sample_run_def run_params_def scanRunRow_def)
  moreover have "\<not> sm_suppressed sm"
    unfolding S(4) regressed_ids by code_simp
  moreover have "by_pass_rate sm 2 ''B''"
  proof -
    let ?A = "passRateSample (sm_tasks sm) ''A''" and ?B = "passRateSample (sm_tasks sm) ''B''"
    have t: "getd zero_test (sm_pass_tests sm) ''B'' = pass_test (\<lambda>_. ()) (\<lambda>g n. (0, g)) ?A ?B"
      using pass_test_of(2) [OF sm, of "sample_arm ''B''"] unfolding base lab by (simp add: arms)
    have "?A \<noteq> []" "?B \<noteq> []" "sampleMean ?A = 1" "sampleMean ?B = 0"
      using sample rates unfolding S(2) lab regressed_runs by simp_all
    then show ?thesis
      using order.strict_trans1 [OF exp_permutationP_le, of 2]
      unfolding by_pass_rate_def t pass_test_def Let_def by simp
  qed
  moreover have "''B'' \<in> fst ` set (sm_pass_tests sm)"
    using pass_test_of(1) [OF sm, of "sample_arm ''B''"] unfolding base lab by (simp add: arms)
  ultimately have "\<not> sm_insufficient sm" "\<not> sm_suppressed sm" "''B'' \<in> regressing sm 2"
    by (simp_all add: regressing_def)
  then have "de_regressed (DecideRegression sm 2)"
    using DecideRegression_cases(1) [OF observed_ok_Summarize [OF sm], of 2] by blast
  moreover have "tk_id ` set (sm_tasks sm) = {''t''}" by (simp add: tasks task_summary_of_def)
  ultimately show ?thesis using that sm arms by blast
qed

text \<open>
  The run counts of a summary: for every task and arm of an experiment, the statistics
  are those of the recorded runs of that arm and task that are not dry runs, and are absent when there are
  none; a pass rate lies in its interval.
\<close>

theorem Summarize_counts:
  assumes "db_keys s" "Summarize src draw parse e b s = Inr sm"
    "a \<in> set (sm_arms sm)" "ts \<in> set (sm_tasks sm)"
  shows "let rs = filter (\<lambda>r. rr_task r = tk_id ts) (arm_runs e s a); ok = filter (succeeded_in s) rs
     in case map_of (tk_per_arm ts) (am_label a) of
          None \<Rightarrow> rs = []
        | Some st \<Rightarrow> 0 < length rs \<and> as_executions st = length rs \<and> as_successes st = length ok \<and>
            as_lo st \<le> as_pass_rate st \<and> as_pass_rate st \<le> as_hi st \<and>
            (as_pass_at_k st \<longleftrightarrow> ok \<noteq> []) \<and> (as_pass_all_k st \<longleftrightarrow> ok = rs)"
proof -
  note S = Summarize_Inr [OF assms(2)]
  obtain t where ts: "ts = task_summary_of (ListExperimentArms e s) (fst (sum_runs e s)) t"
    using assms(4) S(2) by auto
  have t: "tk_id ts = t" by (simp add: ts task_summary_of_def)
  define rs where "rs = filter (\<lambda>r. rr_task r = t) (arm_runs e s a)"
  define g where "g = fold (observed_in s) rs zero_agg"
  have look: "map_of (tk_per_arm ts) (am_label a) = (if rs = [] then None else Some (summarizeArmTask g))"
    using per_arm_counts [OF assms(1), of a e t] assms(3) S(1) by (simp add: ts g_def rs_def Let_def)
  have n: "ag_executions g = length rs" "ag_successes g = length (filter (succeeded_in s) rs)"
    by (simp_all add: g_def observed_counts zero_agg_def)
  have all: "filter (succeeded_in s) rs = rs \<longleftrightarrow> length (filter (succeeded_in s) rs) = length rs"
    by (metis filter_True length_filter_less less_irrefl)
  have st: "as_lo (summarizeArmTask g) \<le> as_pass_rate (summarizeArmTask g) \<and>
      as_pass_rate (summarizeArmTask g) \<le> as_hi (summarizeArmTask g) \<and>
      (as_pass_at_k (summarizeArmTask g) \<longleftrightarrow> filter (succeeded_in s) rs \<noteq> []) \<and>
      (as_pass_all_k (summarizeArmTask g) \<longleftrightarrow> filter (succeeded_in s) rs = rs)" if "rs \<noteq> []"
  proof -
    have pos: "0 < ag_executions g" "ag_successes g \<le> ag_executions g" using that n by auto
    then have "as_lo (summarizeArmTask g) \<le> as_pass_rate (summarizeArmTask g)"
      "as_pass_rate (summarizeArmTask g) \<le> as_hi (summarizeArmTask g)"
      using Wilson_contains [of "int (ag_executions g)" "int (ag_successes g)" wilsonZ]
      by (simp_all add: summarized_interval wilsonZ_def)
    moreover have "as_pass_at_k (summarizeArmTask g) \<longleftrightarrow> 0 < ag_successes g"
      "as_pass_all_k (summarizeArmTask g) \<longleftrightarrow> ag_successes g = ag_executions g"
      using pos by (auto simp add: summarizeArmTask_def Let_def PassAtK_1_iff PassAllK_1_iff outcome_set
          simp del: set_map split: prod.splits)
    ultimately show ?thesis unfolding all n by simp
  qed
  show ?thesis unfolding t Let_def look rs_def [symmetric]
    using st by (auto simp: n)
qed

theorem Summarize_counts_witness:
  "\<exists>sm. Summarize (\<lambda>_. ()) (\<lambda>g n. (0, g)) (\<lambda>_. None) ''e'' [] regressed_db = Inr sm \<and>
     (\<exists>ts\<in>set (sm_tasks sm). \<exists>st. map_of (tk_per_arm ts) ''A'' = Some st \<and> as_executions st = 3 \<and> as_successes st = 3)"
proof -
  obtain sm where sm: "Summarize (\<lambda>_. ()) (\<lambda>g n. (0, g)) (\<lambda>_. None) ''e'' [] regressed_db = Inr sm"
    "sm_arms sm = [sample_arm ''A'', sample_arm ''B'']" "tk_id ` set (sm_tasks sm) = {''t''}"
    by (rule regressed_summary)
  then obtain ts where ts: "ts \<in> set (sm_tasks sm)" "tk_id ts = ''t''" by (metis imageE singletonI)
  have a: "sample_arm ''A'' \<in> set (sm_arms sm)" by (simp add: sm)
  have runs: "filter (\<lambda>r. rr_task r = ''t'') (arm_runs ''e'' regressed_db (sample_arm ''A'')) = arm_runs ''e'' regressed_db (sample_arm ''A'')"
    "length (arm_runs ''e'' regressed_db (sample_arm ''A'')) = 3"
    "filter (succeeded_in regressed_db) (arm_runs ''e'' regressed_db (sample_arm ''A'')) = arm_runs ''e'' regressed_db (sample_arm ''A'')"
    unfolding regressed_runs by code_simp+
  have "am_label (sample_arm ''A'') = ''A''" by (simp add: sample_arm_def)
  then show ?thesis
    using Summarize_counts [OF regressed_keys sm(1) a ts(1)] sm(1) ts runs
    by (auto simp: Let_def split: option.splits intro!: exI [of _ sm] bexI [of _ ts])
qed

text \<open>
  The decision: a summary is a regression exactly when neither guard fires and some compared
  arm is significantly worse by the pass-rate rule or, failing significance there, by the cost rule; the arm
  named is one of those with the smallest p-value, and otherwise no arm is named.
\<close>

theorem DecideRegression_worst:
  fixes alpha :: real
  assumes "Summarize src draw parse e b s = Inr sm"
  defines "d \<equiv> DecideRegression sm alpha"
  shows "(de_regressed d \<longleftrightarrow> \<not> sm_insufficient sm \<and> \<not> sm_suppressed sm \<and> regressing sm alpha \<noteq> {}) \<and>
    (if de_regressed d
     then de_arm d \<in> regressing sm alpha \<and> (\<forall>x\<in>regressing sm alpha. evidence sm alpha (de_arm d) \<le> evidence sm alpha x)
     else de_arm d = [])"
  unfolding d_def using DecideRegression_cases [OF observed_ok_Summarize [OF assms(1)], of alpha] by auto

theorem DecideRegression_worst_witness:
  "\<exists>sm. Summarize (\<lambda>_. ()) (\<lambda>g n. (0, g)) (\<lambda>_. None) ''e'' [] regressed_db = Inr sm \<and>
     regressing sm 2 \<noteq> {} \<and> de_arm (DecideRegression sm 2) \<in> regressing sm 2"
proof -
  obtain sm where sm: "Summarize (\<lambda>_. ()) (\<lambda>g n. (0, g)) (\<lambda>_. None) ''e'' [] regressed_db = Inr sm"
    "de_regressed (DecideRegression sm 2)"
    by (rule regressed_summary)
  with DecideRegression_worst [OF sm(1), of 2] show ?thesis by auto
qed

text \<open>C36: 
  A reported regression is backed by the stored runs: the arm and the baseline are two arms of the
  experiment, every arm has at least three runs of every task, the runs of a task agree on every benchmark
  variable, and the arm solved a strictly smaller share of its runs than the baseline, or its median cost per
  solved task is more than a quarter above the baseline's.
\<close>

theorem DecideRegression_sound:
  assumes "db_keys s" "Summarize src draw parse e b s = Inr sm"
    and "de_regressed (DecideRegression sm alpha)"
  defines "cost \<equiv> getd zero_test (sm_cost_tests sm) (de_arm (DecideRegression sm alpha))"
  shows "\<exists>a\<in>set (sm_arms sm). \<exists>c\<in>set (sm_arms sm).
      am_label a = de_arm (DecideRegression sm alpha) \<and>
      am_label c = baselineLabel parse b (sm_experiment sm) (sm_arms sm) \<and> am_label a \<noteq> am_label c \<and>
      (\<forall>x\<in>set (sm_arms sm). \<forall>ts\<in>set (sm_tasks sm).
         3 \<le> length (filter (\<lambda>r. rr_task r = tk_id ts) (arm_runs e s x))) \<and>
      (\<forall>x\<in>set (sm_arms sm). \<forall>y\<in>set (sm_arms sm). \<forall>r\<in>set (arm_runs e s x). \<forall>q\<in>set (arm_runs e s y).
         rr_task r = rr_task q \<longrightarrow> same_inputs r q) \<and>
      (solved_rate e s a < solved_rate e s c \<or> te_applicable cost \<and> exceedsBy25 (te_base cost) (te_arm cost))"
proof -
  note S = Summarize_Inr [OF assms(2)]
  note D = DecideRegression_cases [OF observed_ok_Summarize [OF assms(2)], of alpha]
  have guards: "\<not> sm_insufficient sm" "\<not> sm_suppressed sm" and reg: "de_arm (DecideRegression sm alpha) \<in> regressing sm alpha"
    using D(1,2) assms(3) by auto
  obtain a c where ac: "a \<in> set (sm_arms sm)" "c \<in> set (sm_arms sm)"
    "am_label a = de_arm (DecideRegression sm alpha)"
    "am_label c = baselineLabel parse b (sm_experiment sm) (sm_arms sm)" "am_label a \<noteq> am_label c"
    "by_pass_rate sm alpha (de_arm (DecideRegression sm alpha)) \<Longrightarrow> solved_rate e s a < solved_rate e s c"
    using regressing_arms [OF assms(1,2) reg] by blast
  have "solved_rate e s a < solved_rate e s c \<or> te_applicable cost \<and> exceedsBy25 (te_base cost) (te_arm cost)"
    using ac(6) reg by (auto simp: regressing_def by_cost_def cost_def Let_def)
  then show ?thesis using ac(1-5) guards_evidence [OF assms(1,2) guards] by blast
qed

theorem DecideRegression_sound_witness:
  "\<exists>sm. Summarize (\<lambda>_. ()) (\<lambda>g n. (0, g)) (\<lambda>_. None) ''e'' [] regressed_db = Inr sm \<and>
     de_regressed (DecideRegression sm 2) \<and> (\<exists>a\<in>set (sm_arms sm). am_label a = de_arm (DecideRegression sm 2))"
proof -
  obtain sm where sm: "Summarize (\<lambda>_. ()) (\<lambda>g n. (0, g)) (\<lambda>_. None) ''e'' [] regressed_db = Inr sm"
    "de_regressed (DecideRegression sm 2)"
    by (rule regressed_summary)
  with DecideRegression_sound [OF regressed_keys sm] show ?thesis by blast
qed

end
