(* ===== verification/Cohort.thy ===== *)
theory Cohort
  imports Experiment ProfileView ProfileStore
begin

text \<open>
  \<open>internal/experiment/cohort.go\<close>: the standing of the configurations of one experiment and the gate that
  lets them be ranked by cost. \<open>parse\<close> is the JSON tokenizer, \<open>num\<close> and \<open>fmt_g\<close> the printing of numbers, and
  the generator of the tests is the one of \<open>Summarize\<close>.
\<close>

record cohort_arm =
  ch_label :: string
  ch_hash :: string
  ch_runs :: nat
  ch_tasks :: nat
  ch_min_repeats :: nat
  ch_pass_rate :: real
  ch_score :: real
  ch_score_ok :: bool
  ch_cost :: real
  ch_cost_ok :: bool
  ch_tokens :: real
  ch_tokens_ok :: bool
  ch_envs :: "string list"
  ch_eligible :: bool
  ch_changes :: "change_note list"
  ch_unavailable :: bool

record cohort =
  co_experiment :: experiment_row
  co_baseline :: string
  co_arms :: "cohort_arm list"
  co_envs :: "string list"
  co_ranked :: bool
  co_gate :: string
  co_drift :: "string list"

definition RankableRepeats :: nat where "RankableRepeats = 3"

section \<open>Parts\<close>

definition dec_tasks :: "string list dec" where
  "dec_tasks = dec_struct (\<lambda>k. if k = ''tasks'' then dec_list [] dec_string else skip_field)"

definition spec_tasks :: "(string \<Rightarrow> json option) \<Rightarrow> experiment_row \<Rightarrow> string list" where
  "spec_tasks parse x =
     (case parse (ex_spec x) of
        None \<Rightarrow> []
      | Some j \<Rightarrow> (case unmarshal dec_tasks [] j of None \<Rightarrow> [] | Some ts \<Rightarrow> dedup (filter (\<lambda>i. i \<noteq> []) ts)))"

definition cohortTaskIDs :: "(string \<Rightarrow> json option) \<Rightarrow> summary \<Rightarrow> string list" where
  "cohortTaskIDs parse sm =
     (let declared = spec_tasks parse (sm_experiment sm)
      in if declared \<noteq> [] then declared else map tk_id (sm_tasks sm))"

definition sortedStrings :: "string list \<Rightarrow> string list" where
  "sortedStrings xs = sort (remdups xs)"

definition joinWarnings :: "string list \<Rightarrow> string" where
  "joinWarnings ws = (if ws = [] then ''unknown drift'' else join ''; '' ws)"

definition cohortBaseline :: "(string \<Rightarrow> json option) \<Rightarrow> experiment_row \<Rightarrow> string" where
  "cohortBaseline parse x = (case spec_baseline parse x of None \<Rightarrow> [] | Some b \<Rightarrow> b)"

definition armProfile :: "(string \<Rightarrow> json option) \<Rightarrow> db \<Rightarrow> string \<Rightarrow> arm_row list \<Rightarrow> profile option" where
  "armProfile parse s label arms =
     (if label = [] then None
      else (case find (\<lambda>a. am_label a = label) arms of
              None \<Rightarrow> None
            | Some a \<Rightarrow>
                if am_profile_hash a = [] then None
                else (case profile_Load parse (am_profile_hash a) s of Inl _ \<Rightarrow> None | Inr p \<Rightarrow> Some p)))"

text \<open>The runner environments seen, with the label of the arm they ran under.\<close>

definition run_env :: "(string, string) gomap \<Rightarrow> run_row \<Rightarrow> (string \<times> string) list" where
  "run_env labelByArm run =
     (case run_label labelByArm run of
        None \<Rightarrow> []
      | Some label \<Rightarrow> [(label, if rr_env run = [] then ''unknown'' else rr_env run)])"

section \<open>The standing of an arm\<close>

record standing =
  sd_tasks :: nat
  sd_runs :: nat
  sd_min :: nat
  sd_passed :: bool
  sd_tokens :: "real list"
  sd_score :: real
  sd_scored_runs :: nat
  sd_scored_tasks :: nat

definition no_standing :: standing where
  "no_standing = \<lparr>sd_tasks = 0, sd_runs = 0, sd_min = 0, sd_passed = True, sd_tokens = [], sd_score = 0, sd_scored_runs = 0,
     sd_scored_tasks = 0\<rparr>"

definition task_stats :: "(string, task_summary) gomap \<Rightarrow> string \<Rightarrow> string \<Rightarrow> arm_task_stats option" where
  "task_stats taskByID label t = (case map_of taskByID t of None \<Rightarrow> None | Some ts \<Rightarrow> map_of (tk_per_arm ts) label)"

definition count_task :: "(string, task_summary) gomap \<Rightarrow> string \<Rightarrow> string \<Rightarrow> standing \<Rightarrow> standing" where
  "count_task taskByID label t d =
     (case task_stats taskByID label t of
        None \<Rightarrow> d\<lparr>sd_passed := False\<rparr>
      | Some st \<Rightarrow>
          \<lparr>sd_tasks = Suc (sd_tasks d), sd_runs = sd_runs d + as_executions st,
           sd_min = (if sd_tasks d = 0 \<or> as_executions st < sd_min d then as_executions st else sd_min d),
           sd_passed = (sd_passed d \<and> as_executions st \<noteq> 0 \<and> as_successes st = as_executions st),
           sd_tokens = (if as_has_tokens st then sd_tokens d @ [as_median_tokens st] else sd_tokens d),
           sd_score = (if as_has_score st then sd_score d + as_mean_score st * real (as_executions st) else sd_score d),
           sd_scored_runs = (if as_has_score st then sd_scored_runs d + as_executions st else sd_scored_runs d),
           sd_scored_tasks = (if as_has_score st then Suc (sd_scored_tasks d) else sd_scored_tasks d)\<rparr>)"

definition successes_of :: "(string, task_summary) gomap \<Rightarrow> string \<Rightarrow> string list \<Rightarrow> nat" where
  "successes_of taskByID label taskIDs =
     fold (\<lambda>t n. case task_stats taskByID label t of None \<Rightarrow> n | Some st \<Rightarrow> n + as_successes st) taskIDs 0"

definition arm_changes ::
  "(string \<Rightarrow> json option) \<Rightarrow> (json \<Rightarrow> string) \<Rightarrow> (real \<Rightarrow> string) \<Rightarrow> db \<Rightarrow> arm_row list \<Rightarrow> string \<Rightarrow> string \<Rightarrow> change_note list \<times> bool" where
  "arm_changes parse num fmt_g s arms baseline label =
     (if label = baseline then ([], False)
      else (case armProfile parse s baseline arms of
              None \<Rightarrow> ([], True)
            | Some base \<Rightarrow>
                (case armProfile parse s label arms of
                   None \<Rightarrow> ([], True)
                 | Some p \<Rightarrow> (DiffNotes parse num fmt_g base p, False))))"

definition cohort_item ::
  "(string, task_summary) gomap \<Rightarrow> string list \<Rightarrow> (string, real) gomap \<Rightarrow> (string \<times> string) list \<Rightarrow> change_note list \<times> bool \<Rightarrow>
   arm_row \<Rightarrow> cohort_arm" where
  "cohort_item taskByID taskIDs costs envs changes a =
     (let label = am_label a;
          d = fold (count_task taskByID label) taskIDs no_standing;
          scored = sd_scored_tasks d = length taskIDs \<and> 0 < sd_scored_runs d;
          tokens = (if length (sd_tokens d) = length taskIDs then MedianOK (sd_tokens d) else None);
          cost = map_of costs label
      in \<lparr>ch_label = label, ch_hash = am_profile_hash a, ch_runs = sd_runs d, ch_tasks = sd_tasks d, ch_min_repeats = sd_min d,
          ch_pass_rate = (if 0 < sd_runs d then real (successes_of taskByID label taskIDs) / real (sd_runs d) else 0),
          ch_score = (if scored then sd_score d / real (sd_scored_runs d) else 0), ch_score_ok = scored,
          ch_cost = (case cost of None \<Rightarrow> 0 | Some c \<Rightarrow> c), ch_cost_ok = (cost \<noteq> None),
          ch_tokens = (case tokens of None \<Rightarrow> 0 | Some m \<Rightarrow> m), ch_tokens_ok = (tokens \<noteq> None),
          ch_envs = sortedStrings (map snd (filter (\<lambda>e. fst e = label) envs)),
          ch_eligible = (sd_tasks d = length taskIDs \<and> RankableRepeats \<le> sd_min d \<and> sd_passed d \<and> cost \<noteq> None),
          ch_changes = fst changes, ch_unavailable = snd changes\<rparr>)"

section \<open>The gate and the ranking\<close>

definition cohort_gate :: "summary \<Rightarrow> bool \<Rightarrow> cohort_arm list \<Rightarrow> bool \<times> string" where
  "cohort_gate sm missing items =
     (if length (sm_arms sm) < 2 then (False, ''needs at least two configuration arms'')
      else if sm_tasks sm = [] then (False, ''no attributed task runs'')
      else if missing then (False, ''a selected task has no recorded runs'')
      else if sm_suppressed sm then (False, ''incompatible benchmark inputs: '' @ joinWarnings (sm_drift sm))
      else if sm_insufficient sm then (False, ''needs at least three runs per task for every configuration'')
      else if list_ex (\<lambda>i. \<not> ch_cost_ok i) items then (False, ''cost metrics are required before efficiency can be ranked'')
      else if \<not> list_all ch_eligible items then (False, ''every configuration must pass every task before cost can be ranked'')
      else (True, ''eligible: three or more validated runs per task for every configuration''))"

definition ranks_before :: "cohort_arm \<Rightarrow> cohort_arm \<Rightarrow> bool" where
  "ranks_before a b =
     (if ch_eligible a \<noteq> ch_eligible b then ch_eligible a
      else if ch_eligible a \<and> ch_cost a \<noteq> ch_cost b then ch_cost a < ch_cost b
      else ch_label a < ch_label b)"

definition SummarizeCohort ::
  "(int \<Rightarrow> 'g) \<Rightarrow> 'g rng \<Rightarrow> (string \<Rightarrow> json option) \<Rightarrow> (json \<Rightarrow> string) \<Rightarrow> (real \<Rightarrow> string) \<Rightarrow> string \<Rightarrow> db \<Rightarrow> summary_error + cohort" where
  "SummarizeCohort src draw parse num fmt_g experimentID s =
     (case Summarize src draw parse experimentID [] s of
        Inl e \<Rightarrow> Inl e
      | Inr sm \<Rightarrow>
          (let envs = concat (map (run_env (labels_by_arm (sm_arms sm))) (sm_runs sm));
               baseline = cohortBaseline parse (sm_experiment sm);
               taskIDs = cohortTaskIDs parse sm;
               taskByID = put_all (map (\<lambda>ts. (tk_id ts, ts)) (sm_tasks sm)) [];
               missing = list_ex (\<lambda>t. map_of taskByID t = None) taskIDs;
               items = map (\<lambda>a. cohort_item taskByID taskIDs (sm_cost sm) envs
                   (arm_changes parse num fmt_g s (sm_arms sm) baseline (am_label a)) a) (sm_arms sm);
               gate = cohort_gate sm missing items
           in Inr \<lparr>co_experiment = sm_experiment sm, co_baseline = baseline, co_arms = sort_by ranks_before items,
                co_envs = sortedStrings (map snd envs), co_ranked = fst gate, co_gate = snd gate, co_drift = sm_drift sm\<rparr>))"

section \<open>The evidence behind a ranking\<close>

text \<open>The tasks a cohort is judged by: those the experiment declared, else those that were run.\<close>

definition selected_tasks :: "(string \<Rightarrow> json option) \<Rightarrow> experiment_row \<Rightarrow> string \<Rightarrow> db \<Rightarrow> string list" where
  "selected_tasks parse x e s = (let declared = spec_tasks parse x in if declared \<noteq> [] then declared else sum_ids e s)"

lemma standing_runs: "sd_runs d \<le> sd_runs (fold (count_task m l) ts d)"
proof (induction ts arbitrary: d)
  case (Cons t ts)
  have "sd_runs d \<le> sd_runs (count_task m l t d)" by (simp add: count_task_def split: option.split)
  then show ?case using Cons [of "count_task m l t d"] by simp
qed simp

lemma standing_passed:
  assumes "sd_passed (fold (count_task m l) ts d)"
  shows "sd_passed d \<and> (0 < sd_tasks d \<longrightarrow> sd_min (fold (count_task m l) ts d) \<le> sd_min d) \<and>
    (\<forall>t\<in>set ts. \<exists>st. task_stats m l t = Some st \<and> as_successes st = as_executions st \<and>
        sd_min (fold (count_task m l) ts d) \<le> as_executions st \<and> as_executions st \<le> sd_runs (fold (count_task m l) ts d)) \<and>
    fold (\<lambda>t n. case task_stats m l t of None \<Rightarrow> n | Some st \<Rightarrow> n + as_successes st) ts n + sd_runs d = n + sd_runs (fold (count_task m l) ts d)"
  using assms
proof (induction ts arbitrary: d n)
  case (Cons t ts)
  let ?d = "count_task m l t d"
  have IH: "sd_passed ?d" "0 < sd_tasks ?d \<longrightarrow> sd_min (fold (count_task m l) ts ?d) \<le> sd_min ?d"
    "\<forall>t\<in>set ts. \<exists>st. task_stats m l t = Some st \<and> as_successes st = as_executions st \<and> sd_min (fold (count_task m l) ts ?d) \<le> as_executions st \<and> as_executions st \<le> sd_runs (fold (count_task m l) ts ?d)"
    "fold (\<lambda>t n. case task_stats m l t of None \<Rightarrow> n | Some st \<Rightarrow> n + as_successes st) ts k + sd_runs ?d = k + sd_runs (fold (count_task m l) ts ?d)" for k
    using Cons.IH [of ?d] Cons.prems by simp_all
  from IH(1) obtain st where st: "task_stats m l t = Some st" "as_successes st = as_executions st" "sd_passed d"
    "sd_tasks ?d = Suc (sd_tasks d)" "sd_min ?d \<le> as_executions st" "0 < sd_tasks d \<longrightarrow> sd_min ?d \<le> sd_min d"
    "sd_runs ?d = sd_runs d + as_executions st"
    by (auto simp: count_task_def split: option.splits)
  have "fold (\<lambda>t n. case task_stats m l t of None \<Rightarrow> n | Some st \<Rightarrow> n + as_successes st) (t # ts) n + sd_runs d
      = n + sd_runs (fold (count_task m l) (t # ts) d)"
    using IH(4) [of "n + as_executions st"] st by simp
  moreover have "sd_min (fold (count_task m l) ts ?d) \<le> sd_min ?d" using IH(2) st(4) by simp
  moreover have "as_executions st \<le> sd_runs (fold (count_task m l) ts ?d)" using standing_runs [of ?d m l ts] st(7) by simp
  ultimately show ?case using IH(3) st by (auto intro: order_trans)
qed simp

lemma map_of_ids: "map_of (map (\<lambda>ts. (f ts, ts)) xs) k = Some y \<Longrightarrow> y \<in> set xs \<and> f y = k"
  by (induction xs) (auto split: if_splits)

text \<open>The comparison is the lexicographic order of a key.\<close>

definition rank_key :: "cohort_arm \<Rightarrow> bool \<times> real \<times> string" where
  "rank_key a = (\<not> ch_eligible a, if ch_eligible a then ch_cost a else 0, ch_label a)"

lemma ranks_before_key: "ranks_before a b \<longleftrightarrow> rank_key a < rank_key b"
  by (auto simp: ranks_before_def rank_key_def less_prod_def')

lemma sort_ranks: "sort_by ranks_before items = sort_key rank_key items"
proof -
  have "ranks_before = (\<lambda>a b. rank_key a < rank_key b)" by (intro ext) (rule ranks_before_key)
  then show ?thesis by (metis sort_by_key)
qed

lemma ranked_order:
  assumes "list_all ch_eligible items"
  shows "sorted_wrt (\<lambda>a b. ch_cost a < ch_cost b \<or> ch_cost a = ch_cost b \<and> ch_label a \<le> ch_label b) (sort_by ranks_before items)"
proof -
  have "sorted_wrt (\<lambda>a b. rank_key a \<le> rank_key b) (sort_key rank_key items)"
    using sorted_sort_key [of rank_key items] by (simp add: sorted_map)
  moreover have "ch_eligible a" if "a \<in> set (sort_key rank_key items)" for a
    using that assms by (simp add: list_all_iff)
  ultimately show ?thesis unfolding sort_ranks
    by (elim sorted_wrt_mono_rel [rotated]) (auto simp: rank_key_def less_eq_prod_def)
qed

text \<open>C5: 
  A ranking is backed by the stored runs: two or more arms; at least three runs of every selected task by
  every arm, all of which succeeded; runs of a task that agree on every benchmark variable. Every arm is in
  it once, with a pass rate of one and a cost, and they stand in the order of their cost.
\<close>

theorem ranked_evidence:
  assumes "db_keys s" "SummarizeCohort src draw parse num fmt_g e s = Inr c" "co_ranked c"
  shows "2 \<le> length (ListExperimentArms e s) \<and>
    (\<forall>a\<in>set (ListExperimentArms e s). \<forall>t\<in>set (selected_tasks parse (co_experiment c) e s).
       3 \<le> length (filter (\<lambda>r. rr_task r = t) (arm_runs e s a)) \<and>
       (\<forall>r\<in>set (arm_runs e s a). rr_task r = t \<longrightarrow> succeeded_in s r)) \<and>
    (\<forall>a\<in>set (ListExperimentArms e s). \<forall>b\<in>set (ListExperimentArms e s). \<forall>r\<in>set (arm_runs e s a). \<forall>q\<in>set (arm_runs e s b).
       rr_task r = rr_task q \<longrightarrow> same_inputs r q) \<and>
    mset (map ch_label (co_arms c)) = mset (map am_label (ListExperimentArms e s)) \<and>
    list_all (\<lambda>i. ch_pass_rate i = 1 \<and> ch_cost_ok i) (co_arms c) \<and>
    sorted_wrt (\<lambda>a b. ch_cost a < ch_cost b \<or> ch_cost a = ch_cost b \<and> ch_label a \<le> ch_label b) (co_arms c)"
proof -
  obtain sm where sm: "Summarize src draw parse e [] s = Inr sm"
    using assms(2) by (auto simp: SummarizeCohort_def split: sum.splits)
  note S = Summarize_Inr [OF sm]
  define ids where "ids = cohortTaskIDs parse sm"
  define m where "m = put_all (map (\<lambda>ts. (tk_id ts, ts)) (sm_tasks sm)) []"
  define items where "items = map (\<lambda>a. cohort_item m ids (sm_cost sm) (concat (map (run_env (labels_by_arm (sm_arms sm))) (sm_runs sm)))
      (arm_changes parse num fmt_g s (sm_arms sm) (cohortBaseline parse (sm_experiment sm)) (am_label a)) a) (sm_arms sm)"
  have c: "co_arms c = sort_by ranks_before items" "co_experiment c = sm_experiment sm"
      "fst (cohort_gate sm (list_ex (\<lambda>t. map_of m t = None) ids) items)"
    using assms(2,3) sm by (auto simp: SummarizeCohort_def Let_def items_def m_def ids_def)
  have gate: "2 \<le> length (sm_arms sm)" "\<not> sm_suppressed sm" "\<not> sm_insufficient sm" "list_all ch_eligible items"
      "list_all ch_cost_ok items"
    using c(3) unfolding cohort_gate_def by (auto simp: list_ex_iff list_all_iff split: if_splits)
  have names: "map tk_id (sm_tasks sm) = sum_ids e s" unfolding S(2) by (simp add: task_summary_of_def comp_def)
  then have ids: "ids = selected_tasks parse (co_experiment c) e s"
    by (simp add: ids_def cohortTaskIDs_def selected_tasks_def c(2) Let_def)
  have "sm_tasks sm \<noteq> []" using c(3) unfolding cohort_gate_def by (auto split: if_splits)
  then have some: "ids \<noteq> []" using names unfolding ids selected_tasks_def by (auto simp: Let_def)
  have one: "3 \<le> length (filter (\<lambda>r. rr_task r = t) (arm_runs e s a)) \<and> (\<forall>r\<in>set (arm_runs e s a). rr_task r = t \<longrightarrow> succeeded_in s r)"
    if a: "a \<in> set (ListExperimentArms e s)" and t: "t \<in> set ids" for a t
  proof -
    let ?d = "fold (count_task m (am_label a)) ids no_standing" and ?rs = "filter (\<lambda>r. rr_task r = t) (arm_runs e s a)"
    have d: "sd_passed ?d" "3 \<le> sd_min ?d"
      using gate(4) a unfolding items_def list_all_iff S(1) by (auto simp: cohort_item_def Let_def RankableRepeats_def)
    from standing_passed [OF d(1), of 0] t obtain st where st: "task_stats m (am_label a) t = Some st" "as_successes st = as_executions st"
        "sd_min ?d \<le> as_executions st" by blast
    from st(1) obtain ts where ts: "map_of m t = Some ts" "map_of (tk_per_arm ts) (am_label a) = Some st"
      by (auto simp: task_stats_def split: option.splits)
    have "distinct (map fst (map (\<lambda>ts. (tk_id ts, ts)) (sm_tasks sm)))" using names by (simp add: comp_def)
    from map_of_put_all [OF this, of "[]" t] ts(1) have "ts \<in> set (sm_tasks sm)" "tk_id ts = t"
      by (auto simp: m_def dest: map_of_ids split: option.splits)
    then have "ts = task_summary_of (ListExperimentArms e s) (fst (sum_runs e s)) t" unfolding S(2) by (auto simp: task_summary_of_def)
    with ts(2) per_arm_counts [OF assms(1) a, of t]
    have n: "as_executions st = length ?rs" "as_successes st = length (filter (succeeded_in s) ?rs)"
      by (auto simp: Let_def observed_counts zero_agg_def simp del: filter_filter split: if_splits)
    then have "filter (succeeded_in s) ?rs = ?rs" using st(2) by (metis filter_True length_filter_less less_irrefl)
    then have "\<forall>r\<in>set ?rs. succeeded_in s r" by (metis (mono_tags, lifting) filter_id_conv)
    then show ?thesis using n(1) st(3) d(2) by auto
  qed
  have rate: "ch_pass_rate i = 1" if item: "i \<in> set items" for i
  proof -
    obtain envs changes a where i: "i = cohort_item m ids (sm_cost sm) envs changes a"
      using item unfolding items_def set_map by (elim imageE) (rule that)
    then have a: "sd_passed (fold (count_task m (am_label a)) ids no_standing)" "3 \<le> sd_min (fold (count_task m (am_label a)) ids no_standing)"
      using item gate(4) unfolding list_all_iff by (auto simp: cohort_item_def Let_def RankableRepeats_def)
    let ?d = "fold (count_task m (am_label a)) ids no_standing"
    note st = standing_passed [OF a(1), of 0]
    have "successes_of m (am_label a) ids = sd_runs ?d" using st by (simp add: successes_of_def no_standing_def)
    moreover have "0 < sd_runs ?d"
    proof -
      obtain t where "t \<in> set ids" using some by (cases ids) auto
      with st [THEN conjunct2, THEN conjunct2, THEN conjunct1] obtain x :: arm_task_stats where "sd_min ?d \<le> as_executions x" "as_executions x \<le> sd_runs ?d" by blast
      then show ?thesis using a(2) by simp
    qed
    ultimately show ?thesis unfolding i by (simp add: cohort_item_def Let_def)
  qed
  have "map ch_label items = map am_label (sm_arms sm)" by (simp add: items_def cohort_item_def Let_def comp_def)
  then have "mset (map ch_label (co_arms c)) = mset (map am_label (ListExperimentArms e s))"
    unfolding c(1) S(1) [symmetric] by (metis mset_map mset_sort_by)
  moreover have "list_all (\<lambda>i. ch_pass_rate i = 1 \<and> ch_cost_ok i) (co_arms c)"
    using gate(5) rate unfolding c(1) list_all_iff by simp
  ultimately show ?thesis
    using gate(1) one guards_evidence [OF assms(1) sm gate(3,2)] ranked_order [OF gate(4)] unfolding c(1) ids S(1) by blast
qed

section \<open>A sample cohort\<close>

definition ranked_db :: db where
  "ranked_db = regressed_db\<lparr>
     db_runs := [sample_run ''1'' ''A'' ''passed'', sample_run ''2'' ''A'' ''passed'', sample_run ''3'' ''A'' ''passed'',
       sample_run ''4'' ''B'' ''passed'', sample_run ''5'' ''B'' ''passed'', sample_run ''6'' ''B'' ''passed''],
     db_metrics := map (\<lambda>i. \<lparr>mq_run = i, mq_name = ''cost'', mq_num = Some 1, mq_text = None, mq_unit = None\<rparr>)
       [''1'', ''2'', ''3'', ''4'', ''5'', ''6'']\<rparr>"

lemma ranked_keys: "db_keys ranked_db"
  by (simp add: db_keys_def ranked_db_def regressed_db_def empty_db_def sample_arm_def sample_run_def run_params_def)

lemma ranked_arms: "ListExperimentArms ''e'' ranked_db = [sample_arm ''A'', sample_arm ''B'']"
  by code_simp

lemma ranked_ids: "sum_ids ''e'' ranked_db = [''t'']"
  by code_simp

lemma ranked_runs:
  "arm_runs ''e'' ranked_db (sample_arm ''A'') = map (\<lambda>i. scanRunRow (sample_run i ''A'' ''passed'')) [''1'', ''2'', ''3'']"
  "arm_runs ''e'' ranked_db (sample_arm ''B'') = map (\<lambda>i. scanRunRow (sample_run i ''B'' ''passed'')) [''4'', ''5'', ''6'']"
  by code_simp+

lemma cost_known:
  "map_of (snd (cost_tables G ids arms)) l \<noteq> None \<longleftrightarrow> l \<in> am_label ` set arms \<and> arm_costs G ids l \<noteq> []"
proof -
  have "map_of (snd (fold (\<lambda>a (costByTask, costPerSolved).
        let perTask = arm_costs G ids (am_label a); vals = map snd perTask
        in if vals = [] then (costByTask, costPerSolved)
           else (put (am_label a) perTask costByTask, put (am_label a) (Median vals) costPerSolved)) arms (x, y))) l \<noteq> None
      \<longleftrightarrow> map_of y l \<noteq> None \<or> l \<in> am_label ` set arms \<and> arm_costs G ids l \<noteq> []" for x :: "(string, (string, real) gomap) gomap" and y
    by (induction arms arbitrary: x y) (auto simp: Let_def go_map)
  from this [of "[]" "[]"] show ?thesis by (simp add: cost_tables_def)
qed

lemma sample_stats:
  assumes "l = ''A'' \<or> l = ''B''"
  shows "\<exists>g. find_agg (fst (sum_runs ''e'' ranked_db)) l ''t'' = Some g \<and> ag_executions g = 3 \<and> ag_successes g = 3 \<and> length (ag_costs g) = 3"
proof -
  let ?rs = "arm_runs ''e'' ranked_db (sample_arm l)"
  have "\<exists>a\<in>set (ListExperimentArms ''e'' ranked_db). a = sample_arm l" using assms by (auto simp: ranked_arms)
  then have a: "sample_arm l \<in> set (ListExperimentArms ''e'' ranked_db)" by simp
  have lab: "am_label (sample_arm l) = l" by (simp add: sample_arm_def)
  have "filter (counted (labels_by_arm (ListExperimentArms ''e'' ranked_db)) l ''t'') (RunsForExperiment ''e'' ranked_db)
      = filter (\<lambda>r. rr_task r = ''t'') ?rs"
    using counted_arm [OF ranked_keys a, of "''t''"] unfolding lab arm_runs_def filter_filter by (intro filter_cong) auto
  also have "\<dots> = ?rs"
    using assms by (auto simp: ranked_runs sample_run_def run_params_def scanRunRow_def)
  finally have "find_agg (fst (sum_runs ''e'' ranked_db)) l ''t'' = Some (fold (observed_in ranked_db) ?rs zero_agg)"
    using assms unfolding sum_runs_def find_agg_group_runs by (auto simp: ranked_runs)
  moreover have "ag_executions (fold (observed_in ranked_db) ?rs zero_agg) = 3" "ag_successes (fold (observed_in ranked_db) ?rs zero_agg) = 3"
    "length (ag_costs (fold (observed_in ranked_db) ?rs zero_agg)) = 3"
    using assms by (elim disjE; simp only: ranked_runs; code_simp)+
  ultimately show ?thesis by blast
qed

lemma Summarize_cost:
  "Summarize src draw parse e b s = Inr sm \<Longrightarrow>
     sm_cost sm = snd (cost_tables (fst (sum_runs e s)) (sum_ids e s) (ListExperimentArms e s)) \<and> GetExperiment e s = Some (sm_experiment sm)"
  unfolding Summarize_def sum_runs_def sum_ids_def by (auto simp: Let_def split: option.splits if_splits prod.splits)

theorem ranked_evidence_witness:
  "\<exists>c. SummarizeCohort (\<lambda>_. ()) (\<lambda>g n. (0, g)) (\<lambda>_. None) (\<lambda>_. []) (\<lambda>_. []) ''e'' ranked_db = Inr c \<and> co_ranked c \<and>
     mset (map ch_label (co_arms c)) = {#''A'', ''B''#}"
proof -
  have "GetExperiment ''e'' ranked_db \<noteq> None" by code_simp
  then obtain sm where sm: "Summarize (\<lambda>_. ()) (\<lambda>g n. (0, g)) (\<lambda>_. None) ''e'' [] ranked_db = Inr sm"
    using Summarize_total by blast
  note S = Summarize_Inr [OF sm]
  let ?G = "fst (sum_runs ''e'' ranked_db)"
  define ts where "ts = task_summary_of (ListExperimentArms ''e'' ranked_db) ?G ''t''"
  define m where "m = put_all (map (\<lambda>ts. (tk_id ts, ts)) (sm_tasks sm)) []"
  have arms: "sm_arms sm = [sample_arm ''A'', sample_arm ''B'']" unfolding S(1) by (rule ranked_arms)
  have tasks: "sm_tasks sm = [ts]" unfolding S(2) ranked_ids ts_def by simp
  have id: "tk_id ts = ''t''" by (simp add: ts_def task_summary_of_def)
  have m: "m = [(''t'', ts)]" unfolding m_def tasks by (simp add: put_all_def id)
  have ids: "cohortTaskIDs (\<lambda>_. None) sm = [''t'']" by (simp add: cohortTaskIDs_def spec_tasks_def tasks id)
  have in_arms: "sample_arm ''A'' \<in> set (ListExperimentArms ''e'' ranked_db)" "sample_arm ''B'' \<in> set (ListExperimentArms ''e'' ranked_db)"
    by (simp_all add: ranked_arms)
  have item: "ch_eligible (cohort_item m [''t''] (sm_cost sm) envs ch (sample_arm l)) \<and> ch_cost_ok (cohort_item m [''t''] (sm_cost sm) envs ch (sample_arm l))"
    and three: "executions_of ts l = 3"
    if l: "l = ''A'' \<or> l = ''B''" for l envs ch
  proof -
    have a: "sample_arm l \<in> set (ListExperimentArms ''e'' ranked_db)" "am_label (sample_arm l) = l" using l in_arms by (auto simp: sample_arm_def)
    obtain g where g: "find_agg ?G l ''t'' = Some g" "ag_executions g = 3" "ag_successes g = 3" "length (ag_costs g) = 3"
      using sample_stats [OF l] by blast
    have st: "map_of (tk_per_arm ts) l = Some (summarizeArmTask g)"
      using per_arm_lookup [OF a(1), of ?G "''t''"] g(1) by (simp add: ts_def a(2))
    have "map_of (sm_cost sm) l \<noteq> None"
      unfolding Summarize_cost [OF sm, THEN conjunct1] cost_known using a g
      by (auto simp: ranked_ids arm_costs_def task_cost_def opt_list_def intro: rev_image_eqI)
    then show "ch_eligible (cohort_item m [''t''] (sm_cost sm) envs ch (sample_arm l)) \<and> ch_cost_ok (cohort_item m [''t''] (sm_cost sm) envs ch (sample_arm l))"
      by (simp add: cohort_item_def Let_def a(2) count_task_def task_stats_def m st g no_standing_def RankableRepeats_def)
    show "executions_of ts l = 3" by (simp add: executions_of_def st g)
  qed
  have "\<not> sm_insufficient sm"
    unfolding S(3) insufficientData_iff arms tasks using three by (auto simp: sample_arm_def)
  moreover have "\<not> sm_suppressed sm" unfolding S(4) ranked_ids by code_simp
  ultimately obtain c where c: "SummarizeCohort (\<lambda>_. ()) (\<lambda>g n. (0, g)) (\<lambda>_. None) (\<lambda>_. []) (\<lambda>_. []) ''e'' ranked_db = Inr c" "co_ranked c"
    unfolding SummarizeCohort_def sm sum.case Let_def m_def [symmetric] ids using item by (simp add: cohort_gate_def arms tasks m)
  with ranked_evidence [OF ranked_keys c] show ?thesis by (simp add: ranked_arms sample_arm_def)
qed

end
