(* ===== verification/Discover.thy ===== *)
theory Discover
  imports ProfileView HostOS
begin

text \<open>
  Observation of the machine for a profile (\<open>internal/profile/sources.go\<close>, \<open>instructions.go\<close>): what the
  OpenCode command reports and the instruction files in force. The command is the record \<open>adapter\<close>,
  the file system the function \<open>read\<close>; the search for the project's instructions climbs to the root
  and is a loop of its own, \<open>None\<close> if it did not end.
\<close>

datatype file_read = ReadOk string | NotExist | ReadError string

record adapter =
  ad_version :: "string + string"
  ad_config :: "string \<Rightarrow> string + string"
  ad_skills :: "string \<Rightarrow> string + skill_info list"
  ad_agent :: "string \<Rightarrow> string \<Rightarrow> string + agent_info"

datatype discover_error = AdapterError string string | BadConfig | NoHome | BadDir | Unreadable string

definition instructionsFile :: string where "instructionsFile = ''AGENTS.md''"

definition agentNames :: "json \<Rightarrow> string list" where
  "agentNames cfg =
     (case cfg of
        JObj kvs \<Rightarrow> (case map_of kvs ''agent'' of Some (JObj agents) \<Rightarrow> sort (map fst agents) | _ \<Rightarrow> [])
      | _ \<Rightarrow> [])"

text \<open>The project's instructions: the first file found from \<open>d\<close> upwards, with its path.\<close>

partial_function (option) find_up ::
  "(string \<Rightarrow> file_read) \<Rightarrow> string \<Rightarrow> (discover_error + (string \<times> string) option) option" where
  "find_up read d =
     (case read (filepath_join [d, instructionsFile]) of
        ReadError e \<Rightarrow> Some (Inl (Unreadable (filepath_join [d, instructionsFile])))
      | ReadOk b \<Rightarrow> Some (Inr (Some (filepath_join [d, instructionsFile], b)))
      | NotExist \<Rightarrow> if file_dir d = d then Some (Inr None) else find_up read (file_dir d))"

definition global_instructions :: "(string \<Rightarrow> file_read) \<Rightarrow> string \<Rightarrow> discover_error + (string \<times> string) option" where
  "global_instructions read home =
     (if home = [] then Inr None
      else let path = filepath_join [home, ''.config'', ''opencode'', instructionsFile]
           in case read path of ReadOk b \<Rightarrow> Inr (Some (path, b)) | NotExist \<Rightarrow> Inr None | ReadError e \<Rightarrow> Inl (Unreadable path))"

definition put_scope ::
  "string \<Rightarrow> (string \<times> string) option \<Rightarrow> (string, string) gomap \<times> (string, string) gomap \<Rightarrow>
   (string, string) gomap \<times> (string, string) gomap" where
  "put_scope scope found maps =
     (case found of
        None \<Rightarrow> maps
      | Some (path, b) \<Rightarrow> (put (scope @ '':'' @ instructionsFile) b (fst maps), put (scope @ '':'' @ instructionsFile) path (snd maps)))"

definition readInstructions ::
  "(string \<Rightarrow> file_read) \<Rightarrow> (string \<Rightarrow> string option) \<Rightarrow> string \<Rightarrow> string \<Rightarrow>
   (discover_error + (string, string) gomap \<times> (string, string) gomap) option" where
  "readInstructions read absolute home dir =
     (case global_instructions read home of
        Inl e \<Rightarrow> Some (Inl e)
      | Inr found \<Rightarrow>
          (let maps = put_scope ''global'' found ([], [])
           in if dir = [] then Some (Inr maps)
              else (case absolute dir of
                      None \<Rightarrow> Some (Inl BadDir)
                    | Some d \<Rightarrow>
                        map_option (\<lambda>r. rbind r (\<lambda>found. Inr (put_scope ''project'' found maps))) (find_up read d))))"

definition adapter_call :: "string \<Rightarrow> string + 'a \<Rightarrow> discover_error + 'a" where
  "adapter_call what r = (case r of Inl e \<Rightarrow> Inl (AdapterError what e) | Inr x \<Rightarrow> Inr x)"

text \<open>\<open>home\<close> is \<open>os.UserHomeDir\<close>; an empty configuration has no agents.\<close>

definition observe_adapter ::
  "(string \<Rightarrow> json option) \<Rightarrow> adapter \<Rightarrow> string \<Rightarrow> discover_error + (string \<times> string \<times> skill_info list \<times> agent_info list)" where
  "observe_adapter parse a dir =
     rbind (adapter_call ''version'' (ad_version a)) (\<lambda>version.
     rbind (adapter_call ''config'' (ad_config a dir)) (\<lambda>raw.
     rbind (adapter_call ''skills'' (ad_skills a dir)) (\<lambda>skills.
     rbind (if raw = [] then Inr JNull
            else (case parse raw of
                    Some (JObj kvs) \<Rightarrow> Inr (any_of (JObj kvs))
                  | Some JNull \<Rightarrow> Inr JNull
                  | _ \<Rightarrow> Inl BadConfig)) (\<lambda>cfg.
     rbind (res_map (\<lambda>name. adapter_call name (ad_agent a dir name)) (agentNames cfg)) (\<lambda>agents.
     Inr (version, raw, skills, agents))))))"

definition Discover ::
  "(string \<Rightarrow> json option) \<Rightarrow> (string \<Rightarrow> file_read) \<Rightarrow> (string \<Rightarrow> string option) \<Rightarrow> string option \<Rightarrow> adapter \<Rightarrow> string \<Rightarrow>
   (discover_error + sources) option" where
  "Discover parse read absolute home a dir =
     (case observe_adapter parse a dir of
        Inl e \<Rightarrow> Some (Inl e)
      | Inr (version, raw, skills, agents) \<Rightarrow>
          (case home of
             None \<Rightarrow> Some (Inl NoHome)
           | Some home \<Rightarrow>
               map_option (\<lambda>r. rbind r (\<lambda>maps.
                 Inr \<lparr>so_version = version, so_config = raw, so_skills = skills, so_agents = agents,
                      so_instructions = fst maps, so_paths = snd maps, so_dir = dir, so_home = home\<rparr>))
                 (readInstructions read absolute home dir)))"

section \<open>The instructions in force\<close>

text \<open>An absolute path by its elements, and its directories from itself to the root.\<close>

definition abs_path :: "string list \<Rightarrow> string" where
  "abs_path es = CHR ''/'' # join ''/'' es"

definition proper :: "string list \<Rightarrow> bool" where
  "proper es \<longleftrightarrow> list_all (\<lambda>e. plain e \<and> CHR ''/'' \<notin> set e) es"

definition ancestors :: "string list \<Rightarrow> string list" where
  "ancestors es = map (\<lambda>n. abs_path (take n es)) (rev [0..<Suc (length es)])"

definition candidate :: "string \<Rightarrow> string" where
  "candidate d = filepath_join [d, instructionsFile]"

lemma split_abs_path: "proper es \<Longrightarrow> es \<noteq> [] \<Longrightarrow> split_on (CHR ''/'') (abs_path es) = [] # es"
proof -
  assume es: "proper es" "es \<noteq> []"
  then have "split_on (CHR ''/'') (join ''/'' es) = es" by (intro split_on_join) (auto simp: proper_def list_all_iff)
  then show ?thesis by (simp add: abs_path_def split: list.splits)
qed

lemma clean_abs_path: "proper es \<Longrightarrow> path_clean (abs_path es) = abs_path es"
proof (cases "es = []")
  case False
  assume es: "proper es"
  have "clean_elems True ([] # es) [] = es"
    using es clean_elems_plain [of es True "[]"] by (auto simp: proper_def list_all_iff)
  then have "join ''/'' (clean_elems True (split_on (CHR ''/'') (abs_path es)) []) = join ''/'' es"
    unfolding split_abs_path [OF es False] by simp
  moreover have "abs_path es \<noteq> []" "hd (abs_path es) = CHR ''/''" by (simp_all add: abs_path_def)
  ultimately show ?thesis unfolding path_clean_def Let_def by (simp add: abs_path_def del: split_on.simps)
qed (simp add: path_clean_def abs_path_def)

lemma clean_slash: "proper es \<Longrightarrow> path_clean (abs_path es @ ''/'') = abs_path es"
proof (cases "es = []")
  case False
  assume es: "proper es"
  have "split_on (CHR ''/'') (abs_path es @ ''/'') = [] # es @ [[]]"
  proof -
    have "split_on (CHR ''/'') (join ''/'' es @ ''/'') = es @ [[]]"
      using es False
    proof (induction es rule: induct_list012)
      case (3 x y zs)
      then show ?case using split_on_append [of "CHR ''/''" x] by (auto simp: proper_def)
    qed (auto simp: proper_def split_on_append)
    then show ?thesis by (simp add: abs_path_def split: list.splits)
  qed
  moreover have "clean_elems True ([] # es @ [[]]) [] = es"
    using es
  proof -
    have "clean_elems True (es @ [[]]) out = rev out @ es" for out
      using es by (induction es arbitrary: out) (auto simp: proper_def plain_def)
    then show ?thesis by simp
  qed
  ultimately show ?thesis unfolding path_clean_def Let_def by (simp add: abs_path_def del: split_on.simps)
qed (simp add: path_clean_def abs_path_def)

lemma abs_path_snoc: "es \<noteq> [] \<Longrightarrow> abs_path (es @ [e]) = abs_path es @ CHR ''/'' # e"
proof -
  assume "es \<noteq> []"
  then have "join ''/'' (es @ [e]) = join ''/'' es @ CHR ''/'' # e" by (induction es rule: induct_list012) auto
  then show ?thesis by (simp add: abs_path_def)
qed

lemma last_index_mid: "c \<notin> set e \<Longrightarrow> last_index c (x @ c # e) = Some (length x)"
proof (induction x)
  case Nil
  then have "last_index c e = None" by (simp add: last_index_None)
  then show ?case by simp
qed simp

lemma file_dir_snoc: "proper (es @ [e]) \<Longrightarrow> file_dir (abs_path (es @ [e])) = abs_path es"
proof -
  assume p: "proper (es @ [e])"
  then have e: "CHR ''/'' \<notin> set e" and es: "proper es" by (simp_all add: proper_def)
  show ?thesis
  proof (cases "es = []")
    case True
    then show ?thesis using last_index_mid [OF e, of "[]"] by (simp add: file_dir_def abs_path_def path_clean_def)
  next
    case False
    show ?thesis using clean_slash [OF es]
      by (simp add: file_dir_def abs_path_snoc [OF False] last_index_mid [OF e])
  qed
qed

lemma file_dir_root: "file_dir (abs_path []) = abs_path []"
  by (simp add: file_dir_def abs_path_def path_clean_def)

lemma abs_path_shorter: "proper (es @ [e]) \<Longrightarrow> abs_path (es @ [e]) \<noteq> abs_path es"
  by (cases "es = []") (simp_all add: abs_path_snoc, simp add: abs_path_def proper_def plain_def)

lemma ancestors_snoc: "ancestors (es @ [e]) = abs_path (es @ [e]) # ancestors es"
proof -
  have "map (\<lambda>n. abs_path (take n (es @ [e]))) (rev [0..<Suc (length es)]) = ancestors es"
    unfolding ancestors_def by (rule map_cong) auto
  then show ?thesis by (simp add: ancestors_def)
qed

definition nearest :: "(string \<Rightarrow> file_read) \<Rightarrow> string list \<Rightarrow> discover_error + (string \<times> string) option" where
  "nearest read dirs =
     (case find (\<lambda>d. read (candidate d) \<noteq> NotExist) dirs of
        None \<Rightarrow> Inr None
      | Some d \<Rightarrow> (case read (candidate d) of ReadOk b \<Rightarrow> Inr (Some (candidate d, b)) | _ \<Rightarrow> Inl (Unreadable (candidate d))))"

lemma find_up_nearest: "proper es \<Longrightarrow> find_up read (abs_path es) = Some (nearest read (ancestors es))"
proof (induction es rule: rev_induct)
  case Nil
  show ?case
    by (subst find_up.simps) (simp add: nearest_def ancestors_def candidate_def file_dir_root split: file_read.splits)
next
  case (snoc e es)
  then have IH: "find_up read (abs_path es) = Some (nearest read (ancestors es))" by (simp add: proper_def)
  show ?case
    unfolding ancestors_snoc nearest_def candidate_def
    by (subst find_up.simps)
      (simp add: file_dir_snoc [OF snoc.prems] abs_path_shorter [OF snoc.prems]
         abs_path_shorter [OF snoc.prems, symmetric] IH [unfolded nearest_def candidate_def] split: file_read.splits)
qed

text \<open>
  The search for the project's instructions ends, and what it returns is the \<open>AGENTS.md\<close> of the nearest
  directory at or above the given one that has any: that file, nothing when there is none up to the
  root, or an error when the nearest one cannot be read.
\<close>

theorem find_up_ends:
  assumes "proper es"
  shows "find_up read (abs_path es) = Some (nearest read (ancestors es))"
  using assms by (rule find_up_nearest)

theorem find_up_ends_witness:
  "find_up (\<lambda>p. if p = ''/a/AGENTS.md'' then ReadOk ''x'' else NotExist) ''/a/b'' = Some (Inr (Some (''/a/AGENTS.md'', ''x'')))"
proof -
  let ?read = "\<lambda>p. if p = ''/a/AGENTS.md'' then ReadOk ''x'' else NotExist"
  have p: "proper [''a'', ''b'']" and path: "abs_path [''a'', ''b''] = ''/a/b''" by (simp_all add: proper_def plain_def abs_path_def)
  have "nearest ?read (ancestors [''a'', ''b'']) = Inr (Some (''/a/AGENTS.md'', ''x''))"
    by (simp add: nearest_def ancestors_def abs_path_def candidate_def filepath_join_def instructionsFile_def path_clean_def upt_rec)
  then show ?thesis using find_up_ends [OF p, of ?read] unfolding path by simp
qed

end
