(* ===== verification/Runner.thy ===== *)
theory Runner
  imports Capture Profile
begin

text \<open>
  \<open>internal/runner/runner.go\<close> and the artifacts of \<open>artifacts.go\<close>: one run of a task from the request to
  the rows of the store. \<open>Run\<close> performs the effects of \<open>HostOS\<close> in the order of the code; its result is
  an error when nothing could be recorded, else the outcome the run was recorded with. The store and the
  adapter are always there; the contexts of the calls appear as \<open>os_ended\<close> only.
\<close>

record request =
  req_suite :: "suite option"
  req_task :: "task option"
  req_profile :: "profile option"
  req_runs :: string
  req_cache :: string
  req_policy :: env_policy
  req_agent :: string
  req_model :: string
  req_variant :: string
  req_auto :: bool
  req_pure :: bool
  req_dry :: bool
  req_keep :: bool
  req_experiment :: string
  req_arm :: string
  req_repeat :: int
  req_mcp :: "string list"
  req_extra :: "string list"

text \<open>Of the result, the lists of files are nil until they are computed.\<close>

record run_result =
  res_id :: string
  res_status :: string
  res_task :: string
  res_session :: string
  res_exit :: "int option"
  res_metrics :: "(string, real) gomap"
  res_validations :: "validation_result list"
  res_changed :: "string list option"
  res_unexpected :: "string list option"
  res_duration :: int
  res_artifacts :: string
  res_error :: string

section \<open>Artifacts\<close>

text \<open>
  The encoder on structs: fields in order, \<open>omitempty\<close> where declared. A nil slice is \<open>null\<close>; of the
  slices of suites and tasks, which are nil when absent, an empty one is taken to be nil.
\<close>

definition omit_empty :: "string \<Rightarrow> string \<Rightarrow> (string \<times> json) list" where
  "omit_empty k v = (if v = [] then [] else [(k, JStr v)])"

definition strings_json :: "string list \<Rightarrow> json" where
  "strings_json xs = JArr (map JStr xs)"

definition nil_strings :: "string list \<Rightarrow> json" where
  "nil_strings xs = (if xs = [] then JNull else strings_json xs)"

definition omit_strings :: "string \<Rightarrow> string list \<Rightarrow> (string \<times> json) list" where
  "omit_strings k xs = (if xs = [] then [] else [(k, strings_json xs)])"

definition slice_json :: "string list option \<Rightarrow> json" where
  "slice_json xs = (case xs of None \<Rightarrow> JNull | Some xs \<Rightarrow> strings_json xs)"

definition map_json :: "('v \<Rightarrow> json) \<Rightarrow> (string, 'v) gomap \<Rightarrow> json" where
  "map_json f m = JObj (sort_key fst (map (\<lambda>p. (fst p, f (snd p))) m))"

definition writeJSON :: "'s os \<Rightarrow> string \<Rightarrow> json \<Rightarrow> ('s, run_error, unit) io" where
  "writeJSON os path v =
     io_then (io_try (os_mkdir os (file_dir path)) (Artifact path))
       (io_try (os_write os path (MarshalIndent (os_num os) v @ [CHR 0x0A])) (Artifact path))"

definition validator_plan :: "validator_spec \<Rightarrow> json" where
  "validator_plan v = JObj
     ([(''kind'', JStr (vs_kind v)), (''name'', JStr (vs_name v))] @ omit_strings ''command'' (vs_command v)
      @ omit_strings ''patterns'' (vs_patterns v) @ omit_empty ''mode'' (vs_mode v))"

definition plan_json :: "request \<Rightarrow> suite \<Rightarrow> task \<Rightarrow> profile \<Rightarrow> string \<Rightarrow> string list \<Rightarrow> baseline \<Rightarrow> string \<Rightarrow> json" where
  "plan_json req s t p runID env b worktree = JObj
     ([(''run_id'', JStr runID), (''profile_id'', JStr (pf_id p)), (''profile_hash'', JStr (pf_hash p)),
       (''suite_name'', JStr (s_name s)), (''suite_version'', JStr (s_version s)), (''suite_hash'', JStr (s_hash s)),
       (''task_id'', JStr (t_id t)), (''task_version'', JStr (t_version t)), (''fixture_sha'', JStr (bl_sha b)),
       (''worktree'', JStr worktree), (''env_names'', strings_json (EnvNames env))]
      @ omit_empty ''agent'' (req_agent req) @ omit_empty ''model'' (req_model req) @ omit_empty ''variant'' (req_variant req)
      @ [(''auto'', JBool (req_auto req \<and> \<not> req_pure req)), (''pure'', JBool (req_pure req))]
      @ omit_strings ''mcp_tools'' (req_mcp req)
      @ [(''validators'', JArr (map validator_plan (t_validators t)))])"

definition writePlan ::
  "'s os \<Rightarrow> string \<Rightarrow> request \<Rightarrow> suite \<Rightarrow> task \<Rightarrow> profile \<Rightarrow> string \<Rightarrow> string list \<Rightarrow> baseline \<Rightarrow> string \<Rightarrow> ('s, run_error, unit) io" where
  "writePlan os runDir req s t p runID env b worktree =
     writeJSON os (filepath_join [runDir, ''plan.json'']) (plan_json req s t p runID env b worktree)"

text \<open>A validator name as a path element; the map goes over the runes of the name.\<close>

definition safe_rune :: "nat \<Rightarrow> bool" where
  "safe_rune r \<longleftrightarrow> 97 \<le> r \<and> r \<le> 122 \<or> 65 \<le> r \<and> r \<le> 90 \<or> 48 \<le> r \<and> r \<le> 57 \<or> r = 46 \<or> r = 95 \<or> r = 45"

function safeLogName :: "string \<Rightarrow> string" where
  "safeLogName s =
     (if s = [] then []
      else let (r, n) = decode_rune s
           in (if safe_rune r then take n s else ''_'') @ safeLogName (drop n s))"
  by pat_completeness auto
termination
proof (relation "measure length", goal_cases)
  case (2 s x r n)
  then have "1 \<le> n" using decode_rune_width [of s] by (metis snd_conv)
  then show ?case using 2 by (cases s) auto
qed simp

declare safeLogName.simps [simp del]

definition validationRelPath :: "int \<Rightarrow> string \<Rightarrow> string" where
  "validationRelPath seq name = filepath_join [''validation'', show_int seq @ ''-'' @ safeLogName name @ ''.log'']"

definition artifactFiles :: "string list" where
  "artifactFiles = [''plan.json'', ''events.jsonl'', ''stderr.txt'', ''session.json'', ''diff.patch'', ''changed.json'',
     ''suite.yaml'', ''task.yaml'', ''prompt.md'']"

definition artifactDirs :: "string list" where
  "artifactDirs = [''untracked'', ''validation'', ''sessions'']"

definition existingArtifacts :: "'s os \<Rightarrow> string \<Rightarrow> 's \<Rightarrow> (string, string) gomap" where
  "existingArtifacts os runDir s =
     (let files = filter (\<lambda>rel. os_stat os (filepath_join [runDir, rel]) s = Regular) artifactFiles;
          dirs = filter (\<lambda>dir. os_stat os (filepath_join [runDir, dir]) s = Directory) artifactDirs
      in put_all (map (\<lambda>rel. (rel, filepath_join [runDir, rel])) (files @ dirs)) [])"

definition validation_json :: "validation_result \<Rightarrow> json" where
  "validation_json v = JObj
     ([(''seq'', JInt (vr_seq v)), (''kind'', JStr (vr_kind v)), (''name'', JStr (vr_name v)), (''status'', JStr (vr_status v)),
       (''exit_code'', JInt (vr_exitcode v)), (''duration_ms'', JInt (vr_duration v)),
       (''output_path'', JStr (validationRelPath (vr_seq v) (vr_name v)))] @ omit_empty ''excerpt'' (vr_excerpt v))"

definition result_json ::
  "request \<Rightarrow> suite \<Rightarrow> task \<Rightarrow> profile \<Rightarrow> run_result \<Rightarrow> baseline \<Rightarrow> string \<Rightarrow> string \<Rightarrow> (string, string) gomap \<Rightarrow> json" where
  "result_json req s t p res b started finished artifacts = JObj
     ([(''run_id'', JStr (res_id res)), (''status'', JStr (res_status res)), (''task_id'', JStr (t_id t)),
       (''task_version'', JStr (t_version t))] @ omit_empty ''session_id'' (res_session res)
      @ [(''profile_id'', JStr (pf_id p)), (''profile_hash'', JStr (pf_hash p)), (''suite_name'', JStr (s_name s)),
         (''suite_version'', JStr (s_version s)), (''suite_hash'', JStr (s_hash s)), (''fixture_sha'', JStr (bl_sha b))]
      @ omit_empty ''agent'' (req_agent req) @ omit_empty ''model'' (req_model req) @ omit_empty ''variant'' (req_variant req)
      @ (case res_exit res of None \<Rightarrow> [] | Some c \<Rightarrow> [(''exit_code'', JInt c)])
      @ [(''metrics'', map_json JFloat (res_metrics res)),
         (''validations'', JArr (map validation_json (res_validations res))),
         (''changed_files'', slice_json (res_changed res)), (''unexpected_files'', slice_json (res_unexpected res)),
         (''duration_ms'', JInt (res_duration res))] @ omit_empty ''error'' (res_error res)
      @ [(''started_at'', JStr started), (''finished_at'', JStr finished), (''artifacts_dir'', JStr (res_artifacts res)),
         (''artifacts'', map_json JStr artifacts)])"

definition writeResult ::
  "'s os \<Rightarrow> string \<Rightarrow> request \<Rightarrow> suite \<Rightarrow> task \<Rightarrow> profile \<Rightarrow> run_result \<Rightarrow> baseline \<Rightarrow> string \<Rightarrow> string \<Rightarrow> ('s, run_error, unit) io" where
  "writeResult os runDir req s t p res b started finished =
     io_bind (io_look (existingArtifacts os runDir)) (\<lambda>artifacts.
       writeJSON os (filepath_join [runDir, ''result.json''])
         (result_json req s t p res b started finished
            (put ''result.json'' (filepath_join [runDir, ''result.json'']) artifacts)))"

definition suite_inputs :: "task \<Rightarrow> (string \<times> string) list" where
  "suite_inputs t = [(''suite.yaml'', ''suite.yaml''), (filepath_join [''tasks'', t_id t, ''task.yaml''], ''task.yaml''),
     (filepath_join [''tasks'', t_id t, ''prompt.md''], ''prompt.md'')]"

definition copySuiteInputs :: "'s os \<Rightarrow> string \<Rightarrow> suite \<Rightarrow> task \<Rightarrow> ('s, run_error, unit) io" where
  "copySuiteInputs os runDir s t =
     (case s_fs s of
        None \<Rightarrow> io_return ()
      | Some fsys \<Rightarrow> io_all (\<lambda>(src, dst).
          case stat fsys (split_on (CHR ''/'') src) of
            None \<Rightarrow> io_return ()
          | Some (EFile data) \<Rightarrow> io_try (os_write os (filepath_join [runDir, dst]) data) (Artifact dst)
          | Some _ \<Rightarrow> io_fail (Artifact src)) (suite_inputs t))"

fun capture_untracked :: "'s os \<Rightarrow> string \<Rightarrow> string \<Rightarrow> string list \<Rightarrow> ('s, run_error, string list) io" where
  "capture_untracked os runDir worktree [] = io_return []"
| "capture_untracked os runDir worktree (rel # rels) =
     (if \<not> safeUntrackedRel rel then capture_untracked os runDir worktree rels
      else io_bind (io_look (os_lstat os (filepath_join [worktree, rel]))) (\<lambda>kind.
        if kind \<noteq> Regular then capture_untracked os runDir worktree rels
        else io_bind (io_look (os_read os (filepath_join [worktree, rel]))) (\<lambda>r.
          case r of
            None \<Rightarrow> io_fail (Artifact rel)
          | Some data \<Rightarrow>
              let dst = filepath_join [runDir, ''untracked'', rel]
              in io_then (io_try (os_mkdir os (file_dir dst)) (Artifact rel))
                (io_then (io_try (os_write os dst data) (Artifact rel))
                (io_bind (capture_untracked os runDir worktree rels) (\<lambda>captured. io_return (rel # captured)))))))"

definition captureUntracked :: "'s os \<Rightarrow> string \<Rightarrow> string \<Rightarrow> ('s, run_error, string list) io" where
  "captureUntracked os runDir worktree =
     io_bind (io_err Source (runGit os [] worktree [''ls-files'', ''--others'', ''--exclude-standard'', ''-z''])) (\<lambda>out.
     io_bind (capture_untracked os runDir worktree (splitNul out)) (\<lambda>captured.
     io_return (sort captured)))"

section \<open>Hidden tests\<close>

definition unsafe_test :: "string list \<Rightarrow> bool" where
  "unsafe_test p \<longleftrightarrow> (\<exists>seg\<in>set (split_on (CHR ''/'') (rel_path p)). seg = ''..'' \<or> seg = [])"

definition trim_suffix :: "string \<Rightarrow> string \<Rightarrow> string" where
  "trim_suffix s suf = (if has_suffix s suf then take (length s - length suf) s else s)"

definition hidden_rel :: "task \<Rightarrow> string list \<Rightarrow> string" where
  "hidden_rel t p =
     (let name = trim_suffix (rel_path p) ''.hidden'';
          dir = (if t_hidden_dest t = [] then ''tests'' else t_hidden_dest t)
      in if dir \<noteq> ''.'' then filepath_join [dir, name] else name)"

definition copy_hidden :: "'s os \<Rightarrow> task \<Rightarrow> string \<Rightarrow> string list \<Rightarrow> string \<Rightarrow> ('s, run_error, unit) io" where
  "copy_hidden os t worktree p data =
     (let rel = hidden_rel t p; dest = filepath_join [worktree, rel]
      in if unsafe_test p then io_fail (HiddenTests (rel_path p))
         else io_bind (io_look (exists os dest)) (\<lambda>found.
           if found then io_fail (HiddenTests rel)
           else io_then (io_try (os_mkdir os (file_dir dest)) (HiddenTests rel))
             (io_try (os_write os dest data) (HiddenTests rel))))"

definition hidden_entry :: "'s os \<Rightarrow> task \<Rightarrow> string \<Rightarrow> string list \<times> entry \<Rightarrow> ('s, run_error, unit) io" where
  "hidden_entry os t worktree item =
     (case snd item of
        EFile data \<Rightarrow> copy_hidden os t worktree (fst item) data
      | EUnreadable \<Rightarrow> io_fail (HiddenTests (rel_path (fst item)))
      | _ \<Rightarrow> io_return ())"

definition copyHiddenTests :: "'s os \<Rightarrow> task \<Rightarrow> string \<Rightarrow> ('s, run_error, unit) io" where
  "copyHiddenTests os t worktree =
     (case t_hidden t of
        None \<Rightarrow> io_return ()
      | Some e \<Rightarrow> io_all (hidden_entry os t worktree) (walk_entries [] e))"

section \<open>Validators\<close>

definition skipped_result :: "int \<Rightarrow> validator_spec \<Rightarrow> string \<Rightarrow> validation_result" where
  "skipped_result seq v reason =
     \<lparr>vr_seq = seq, vr_kind = vs_kind v, vr_name = vs_name v, vr_status = ''skipped'', vr_exitcode = -1,
      vr_duration = 0, vr_output = reason, vr_excerpt = reason, vr_weight = 0\<rparr>"

definition validation_row_of :: "validator_spec \<Rightarrow> validation_result \<Rightarrow> validation_row" where
  "validation_row_of v r =
     \<lparr>va_seq = vr_seq r, va_kind = vr_kind r, va_name = vr_name r, va_command = join '' '' (vs_command v),
      va_status = vr_status r, va_exit = vr_exitcode r, va_duration = vr_duration r,
      va_path = validationRelPath (vr_seq r) (vs_name v), va_excerpt = vr_excerpt r\<rparr>"

definition run_validator ::
  "'s os \<Rightarrow> string list \<Rightarrow> int \<Rightarrow> validator_spec \<Rightarrow> validator_context \<Rightarrow> string list \<Rightarrow> int \<Rightarrow> ('s, run_error, validation_result) io" where
  "run_validator os missing seq v vctx env timeout =
     (if missing \<noteq> [] then io_return (skipped_result seq v (''skipped: missing requirements: '' @ join '', '' missing))
      else io_bind (io_look (os_ended os)) (\<lambda>ended.
        if ended then io_return (skipped_result seq v ''skipped: run cancelled'')
        else io_bind (io_look (\<lambda>s. RunValidatorContext (os_host os s) seq v vctx env timeout)) (\<lambda>r.
          io_get (\<lambda>s. (os_validated os seq v s, r)))))"

fun run_validators ::
  "'s os \<Rightarrow> string list \<Rightarrow> string \<Rightarrow> validator_context \<Rightarrow> string list \<Rightarrow> int \<Rightarrow> int \<Rightarrow> validator_spec list \<Rightarrow>
   ('s, run_error, (validator_spec \<times> validation_result) list) io" where
  "run_validators os missing runDir vctx env timeout seq [] = io_return []"
| "run_validators os missing runDir vctx env timeout seq (v # vs) =
     io_bind (run_validator os missing seq v vctx env timeout) (\<lambda>r.
     io_then (io_try (os_write os (filepath_join [runDir, validationRelPath seq (vs_name v)]) (vr_output r))
               (Artifact (validationRelPath seq (vs_name v))))
       (io_bind (run_validators os missing runDir vctx env timeout (seq + 1) vs) (\<lambda>rs. io_return ((v, r) # rs))))"

definition runValidators ::
  "'s os \<Rightarrow> task \<Rightarrow> string \<Rightarrow> validator_context \<Rightarrow> string list \<Rightarrow> int \<Rightarrow>
   ('s, run_error, validation_result list \<times> validation_row list) io" where
  "runValidators os t runDir vctx env timeout =
     (let missing = Requirements (os_found os) (t_requires t)
      in io_then (io_try (os_mkdir os (filepath_join [runDir, ''validation''])) (Artifact ''validation''))
        (io_bind (run_validators os missing runDir vctx env timeout 1 (t_validators t)) (\<lambda>rs.
           io_return (map snd rs, map (\<lambda>p. validation_row_of (fst p) (snd p)) rs))))"

section \<open>Rows\<close>

definition suiteSource :: "suite \<Rightarrow> string" where
  "suiteSource s = (if s_dir s \<noteq> [] then s_dir s else ''embedded'')"

definition manifest_json :: "suite \<Rightarrow> json" where
  "manifest_json s = JObj [(''name'', JStr (s_name s)), (''version'', JStr (s_version s)),
     (''hash'', JStr (s_hash s)), (''description'', JStr (s_description s))]"

definition validator_json :: "validator_spec \<Rightarrow> json" where
  "validator_json v = JObj
     [(''Kind'', JStr (vs_kind v)), (''Name'', JStr (vs_name v)), (''Command'', nil_strings (vs_command v)),
      (''Patterns'', nil_strings (vs_patterns v)), (''Mode'', JStr (vs_mode v)),
      (''RequiredPaths'', nil_strings (vs_required v)), (''ForbiddenPaths'', nil_strings (vs_forbidden v)),
      (''MaxLines'', JInt (vs_maxlines v)), (''Present'', nil_strings (vs_present v)),
      (''Absent'', nil_strings (vs_absent v)), (''ToolPattern'', JStr (vs_toolpattern v)), (''Weight'', JFloat (vs_weight v))]"

definition spec_json :: "task \<Rightarrow> json" where
  "spec_json t = JObj
     [(''id'', JStr (t_id t)), (''version'', JStr (t_version t)), (''spec_hash'', JStr (t_spec_hash t)),
      (''fixture_hash'', JStr (t_fixture_hash t)), (''difficulty'', JStr (t_difficulty t)),
      (''capabilities'', nil_strings (t_capabilities t)), (''expected_tokens'', JInt (t_expected t)),
      (''hidden_tests'', JBool (t_hidden t \<noteq> None)),
      (''validators'', if t_validators t = [] then JNull else JArr (map validator_json (t_validators t)))]"

definition suite_row_of :: "'s os \<Rightarrow> suite \<Rightarrow> string \<Rightarrow> suite_row" where
  "suite_row_of os s started =
     \<lparr>su_id = s_hash s, su_name = s_name s, su_version = s_version s, su_hash = s_hash s, su_source = suiteSource s,
      su_manifest = JSON (os_num os) (manifest_json s), su_created = started\<rparr>"

definition task_row_of :: "'s os \<Rightarrow> suite \<Rightarrow> task \<Rightarrow> baseline \<Rightarrow> task_row" where
  "task_row_of os s t b =
     \<lparr>ta_suite = s_hash s, ta_task = t_id t, ta_version = t_version t, ta_name = t_name t,
      ta_tags = JSON (os_num os) (nil_strings (t_tags t)), ta_timeout = EffectiveTimeout t (Some s) div 1000000000,
      ta_fixture = bl_sha b, ta_spec = JSON (os_num os) (spec_json t)\<rparr>"

definition run_row_of ::
  "'s os \<Rightarrow> request \<Rightarrow> suite \<Rightarrow> task \<Rightarrow> profile \<Rightarrow> run_result \<Rightarrow> baseline \<Rightarrow> string \<Rightarrow> string \<Rightarrow> run_row" where
  "run_row_of os req s t p res b started finished =
     \<lparr>rr_id = res_id res, rr_experiment = req_experiment req, rr_arm = OptionalString (req_arm req),
      rr_repeat = req_repeat req, rr_profile = pf_id p, rr_profile_hash = pf_hash p, rr_suite = s_hash s,
      rr_suite_name = s_name s, rr_suite_version = s_version s, rr_suite_hash = s_hash s, rr_task = t_id t,
      rr_task_version = t_version t, rr_fixture = bl_sha b, rr_opencode = pf_opencode p, rr_ocbench = os_version os,
      rr_env = os_platform os, rr_model = req_model req, rr_agent = req_agent req, rr_variant = req_variant req,
      rr_status = res_status res, rr_dry = req_dry req, rr_exit = res_exit res, rr_session = res_session res,
      rr_started = started, rr_finished = finished, rr_duration = Some (res_duration res),
      rr_artifacts = res_artifacts res, rr_error = res_error res\<rparr>"

definition io_store :: "'s os \<Rightarrow> (string \<Rightarrow> db \<Rightarrow> db db_result) \<Rightarrow> ('s, run_error, unit) io" where
  "io_store os f = io_bind (io_look (os_now os)) (\<lambda>now. io_db Db (f now))"

definition persist_run ::
  "'s os \<Rightarrow> request \<Rightarrow> suite \<Rightarrow> task \<Rightarrow> profile \<Rightarrow> run_result \<Rightarrow> baseline \<Rightarrow> string \<Rightarrow> string \<Rightarrow>
   (string, real) gomap \<Rightarrow> validation_row list \<Rightarrow> ('s, run_error, unit) io" where
  "persist_run os req s t p res b started finished metrics rows =
     io_then (io_store os (\<lambda>now. InsertSuite now (suite_row_of os s started)))
    (io_then (io_db Db (InsertTask (task_row_of os s t b)))
    (io_then (io_store os (\<lambda>now. InsertRun now (run_row_of os req s t p res b started finished)))
    (io_then (io_db Db (InsertRunMetrics (res_id res) metrics))
             (io_db Db (InsertRunValidations (res_id res) rows)))))"

section \<open>A run\<close>

definition appendNote :: "string \<Rightarrow> string \<Rightarrow> string" where
  "appendNote dst note = (if note = [] then dst else if dst = [] then note else dst @ ''; '' @ note)"

definition wait_text :: "wait_error \<Rightarrow> string" where
  "wait_text e = (case e of WaitDeadline \<Rightarrow> ''context deadline exceeded'' | WaitCanceled \<Rightarrow> ''context canceled'' | WaitFailed m \<Rightarrow> m)"

text \<open>The verdict: the status, and the note added to the error.\<close>

definition run_verdict :: "bool \<Rightarrow> wait_error option \<Rightarrow> bool \<Rightarrow> int \<Rightarrow> validation_result list \<Rightarrow> string \<times> string" where
  "run_verdict timedOut waitErr cancelled code validations =
     (if timedOut \<or> waitErr = Some WaitDeadline then (''timeout'', ''task timed out'')
      else if cancelled then (''error'', ''run cancelled'')
      else (case waitErr of
              Some e \<Rightarrow> (''error'', wait_text e)
            | None \<Rightarrow>
                if code \<noteq> 0 then (''error'', ''opencode exited with code '' @ show_int code)
                else if validatorsFailed validations then (''failed'', [])
                else (''passed'', [])))"

definition run_git_look :: "'s os \<Rightarrow> (git \<Rightarrow> git_error + 'a) \<Rightarrow> ('s, run_error, 'a) io" where
  "run_git_look os f = io_bind (io_look (\<lambda>s. f (git_at os s))) (\<lambda>r. io_err Git (io_lift r))"

definition export_primary :: "'s os \<Rightarrow> string \<Rightarrow> string \<Rightarrow> ('s, run_error, string) io" where
  "export_primary os runDir sessionID =
     (if sessionID = [] then io_return (appendNote [] ''export skipped: no session id'')
      else io_bind (io_look (os_export os sessionID)) (\<lambda>r.
        case r of
          Inl err \<Rightarrow> io_return (appendNote [] (''export: '' @ err))
        | Inr data \<Rightarrow>
            io_then (io_try (os_write os (filepath_join [runDir, ''session.json'']) data) (Artifact ''session.json''))
              (io_return [])))"

text \<open>What is read off the worktree after the session: the delegated sessions, the changes and the diff.\<close>

definition capture_run ::
  "'s os \<Rightarrow> string \<Rightarrow> string \<Rightarrow> baseline \<Rightarrow> string \<Rightarrow>
   ('s, run_error, event list \<times> session_capture \<times> string list \<times> string) io" where
  "capture_run os runDir worktree b sessionID =
     io_bind (readStoredEvents os (filepath_join [runDir, ''events.jsonl''])) (\<lambda>events.
     io_bind (captureSessions os runDir sessionID events) (\<lambda>cap.
     io_bind (run_git_look os (\<lambda>git. ChangedFiles git worktree (bl_sha b))) (\<lambda>changed.
     io_bind (run_git_look os (\<lambda>git. DiffAgainstBaseline git worktree (bl_sha b))) (\<lambda>diff.
     io_then (io_try (os_write os (filepath_join [runDir, ''diff.patch'']) diff) (Artifact ''diff.patch''))
    (io_then (writeJSON os (filepath_join [runDir, ''changed.json'']) (strings_json changed))
    (io_bind (captureUntracked os runDir worktree) (\<lambda>_.
     io_return (events, cap, changed, diff))))))))"

definition judge_run ::
  "'s os \<Rightarrow> task \<Rightarrow> string \<Rightarrow> string \<Rightarrow> string list \<Rightarrow> int \<Rightarrow> bool \<Rightarrow> string list \<Rightarrow> string \<Rightarrow> event list \<Rightarrow> string \<Rightarrow>
   ('s, run_error, validation_result list \<times> validation_row list) io" where
  "judge_run os t runDir worktree env timeout cancelled changed diff events answer =
     (if cancelled then io_return ([], [])
      else io_then (copyHiddenTests os t worktree)
        (runValidators os t runDir
           \<lparr>vc_worktree = worktree, vc_changed = changed, vc_diff = diff, vc_events = events, vc_answer = answer\<rparr> env timeout))"

text \<open>From the end of the drain to the stored result.\<close>

definition finish_run ::
  "'s os \<Rightarrow> request \<Rightarrow> suite \<Rightarrow> task \<Rightarrow> profile \<Rightarrow> run_result \<Rightarrow> baseline \<Rightarrow> string \<Rightarrow> string \<Rightarrow> string list \<Rightarrow> int \<Rightarrow> string \<Rightarrow>
   agent_session \<Rightarrow> metrics \<Rightarrow> ('s, run_error, run_result) io" where
  "finish_run os req s t p res b runDir worktree env timeout started sess m =
     (let w = watch_run (as_steps sess);
          res = res\<lparr>res_session := as_id sess, res_exit := Some (as_exit sess)\<rparr>;
          cancelled = wt_sawCancelled w \<or> as_wait sess = Some WaitCanceled
      in io_then (io_try (os_write os (filepath_join [runDir, ''stderr.txt'']) (as_stderr sess)) (Artifact ''stderr.txt''))
        (io_bind (export_primary os runDir (as_id sess)) (\<lambda>note.
         io_bind (capture_run os runDir worktree b (as_id sess)) (\<lambda>(events, cap, changed, diff).
         io_bind (io_look (os_ended os)) (\<lambda>ended.
         let cancelled = cancelled \<or> ended;
             res = res\<lparr>res_error := note, res_changed := Some changed,
                       res_unexpected := Some (unexpectedFiles (t_allow t) changed)\<rparr>
         in io_bind (judge_run os t runDir worktree env timeout cancelled changed diff events (FinalAnswer m)) (\<lambda>(validations, rows).
         io_bind (io_look (os_ended os)) (\<lambda>ended.
         let cancelled = cancelled \<or> ended;
             verdict = run_verdict (wt_sawTimeout w) (as_wait sess) cancelled (as_exit sess) validations
         in io_bind (io_look (os_elapsed os)) (\<lambda>ms.
         let res = res\<lparr>res_validations := validations, res_status := fst verdict,
                       res_error := appendNote (res_error res) (snd verdict), res_duration := ms,
                       res_metrics := MetricsMap (os_alnum os) m\<rparr>
         in io_bind (run_git_look os (\<lambda>git. changeCounts git worktree (bl_sha b))) (\<lambda>(created, deleted).
         let res = res\<lparr>res_metrics := put_all (derivedMetrics (os_alnum os) (res_status res)
               (length (unexpectedFiles (t_allow t) changed)) (res_duration res) (res_metrics res) cap changed diff
               validations created deleted) (res_metrics res)\<rparr>
         in io_bind (io_look (os_now os)) (\<lambda>finished.
            io_then (writeResult os runDir req s t p res b started finished)
           (io_then (persist_run os req s t p res b started finished (res_metrics res) rows)
              (io_return res))))))))))))"

definition start_failed ::
  "'s os \<Rightarrow> request \<Rightarrow> suite \<Rightarrow> task \<Rightarrow> profile \<Rightarrow> run_result \<Rightarrow> baseline \<Rightarrow> string \<Rightarrow> string \<Rightarrow> string \<Rightarrow> ('s, run_error, run_result) io" where
  "start_failed os req s t p res b runDir started err =
     io_bind (io_look (os_elapsed os)) (\<lambda>ms.
     let res = res\<lparr>res_status := ''error'', res_error := err, res_metrics := [], res_duration := ms\<rparr>
     in io_bind (io_look (os_now os)) (\<lambda>finished.
        io_then (writeResult os runDir req s t p res b started finished)
       (io_then (persist_run os req s t p res b started finished (res_metrics res) [])
          (io_return res))))"

definition dry_run ::
  "'s os \<Rightarrow> request \<Rightarrow> suite \<Rightarrow> task \<Rightarrow> profile \<Rightarrow> run_result \<Rightarrow> baseline \<Rightarrow> string \<Rightarrow> string \<Rightarrow> string list \<Rightarrow> string \<Rightarrow>
   ('s, run_error, run_result) io" where
  "dry_run os req s t p res b runDir worktree env started =
     io_then (writePlan os runDir req s t p (res_id res) env b worktree)
    (io_bind (io_look (os_elapsed os)) (\<lambda>ms.
     let res = res\<lparr>res_status := ''dry_run'', res_duration := ms\<rparr>
     in io_then (persist_run os req s t p res b started [] [] []) (io_return res)))"

definition agent_request_of :: "request \<Rightarrow> task \<Rightarrow> string \<Rightarrow> string list \<Rightarrow> int \<Rightarrow> agent_request" where
  "agent_request_of req t worktree env timeout =
     \<lparr>aq_dir = worktree, aq_prompt = t_prompt t, aq_agent = req_agent req, aq_model = req_model req,
      aq_variant = req_variant req, aq_auto = req_auto req \<and> \<not> req_pure req, aq_pure = req_pure req,
      aq_env = env, aq_timeout = timeout\<rparr>"

definition in_worktree ::
  "'s os \<Rightarrow> request \<Rightarrow> suite \<Rightarrow> task \<Rightarrow> profile \<Rightarrow> run_result \<Rightarrow> baseline \<Rightarrow> string \<Rightarrow> string \<Rightarrow> string \<Rightarrow> ('s, run_error, run_result) io" where
  "in_worktree os req s t p res b runDir worktree started =
     (let env = ApplyExtraEnv (BuildEnv (os_environ os) (req_policy req)) (req_extra req);
          timeout = EffectiveTimeout t (Some s)
      in if req_dry req then dry_run os req s t p res b runDir worktree env started
         else io_then (copySuiteInputs os runDir s t)
           (io_bind (io_get (os_start os (agent_request_of req t worktree env timeout))) (\<lambda>r.
              case r of
                Inl err \<Rightarrow> start_failed os req s t p res b runDir started err
              | Inr sess \<Rightarrow>
                  io_bind (drainEvents os (filepath_join [runDir, ''events.jsonl'']) (as_lines sess) (NewMetrics (req_mcp req)))
                    (finish_run os req s t p res b runDir worktree env timeout started sess))))"

definition new_result_of :: "string \<Rightarrow> task \<Rightarrow> string \<Rightarrow> run_result" where
  "new_result_of runID t runDir =
     \<lparr>res_id = runID, res_status = [], res_task = t_id t, res_session = [], res_exit = None, res_metrics = [],
      res_validations = [], res_changed = None, res_unexpected = None, res_duration = 0, res_artifacts = runDir,
      res_error = []\<rparr>"

definition release_worktree :: "'s os \<Rightarrow> request \<Rightarrow> baseline \<Rightarrow> string \<Rightarrow> ('s, run_error, unit) io" where
  "release_worktree os req b worktree =
     (if req_keep req then io_return () else io_err Source (RemoveWorktree os b worktree))"

definition Run :: "'s os \<Rightarrow> request \<Rightarrow> ('s, run_error, run_result) io" where
  "Run os req =
     (case (req_suite req, req_task req, req_profile req) of
        (Some s, Some t, Some p) \<Rightarrow>
          if pf_id p = [] then io_fail (MissingInput ''profile id'')
          else io_bind (io_look (os_now os)) (\<lambda>started.
               io_bind (io_get (os_uuid os)) (\<lambda>u.
               case u of
                 None \<Rightarrow> io_fail NoRunId
               | Some runID \<Rightarrow>
                   let runDir = filepath_join [req_runs req, runID]; worktree = filepath_join [runDir, ''worktree'']
                   in io_then (io_try (os_mkdir os runDir) (Artifact runDir))
                     (io_bind (io_err Source (MaterializeFixture os (req_cache req) (t_fixture t) (t_fixture_hash t))) (\<lambda>b.
                      io_then (io_err Source (CreateWorktree os b worktree))
                        (io_defer (release_worktree os req b worktree)
                          (in_worktree os req s t p (new_result_of runID t runDir) b runDir worktree started))))))
      | _ \<Rightarrow> io_fail (MissingInput ''suite, task and profile''))"

end
