(* ===== verification/RunRecord.thy ===== *)
theory RunRecord
  imports Runner
begin

text \<open>
  What a run leaves behind: a result that \<open>Run\<close> returns is the row, the metrics and the validations
  found in the store, its status says how the session ended, and the worktree is removed on every path.
\<close>

section \<open>Effects leave the store alone\<close>

lemma keeps_db_step [keeps_intro]:
  "keeps (\<lambda>s. snd s = d) (io_try f e)" "keeps (\<lambda>s. snd s = d) (io_get g)"
  by (auto simp: keeps_def io_try_def io_get_def split: prod.splits)

lemma keeps_case_option [keeps_intro]:
  "(x = None \<Longrightarrow> keeps P m) \<Longrightarrow> (\<And>y. x = Some y \<Longrightarrow> keeps P (f y)) \<Longrightarrow> keeps P (case x of None \<Rightarrow> m | Some y \<Rightarrow> f y)"
  by (cases x) simp_all

lemma keeps_case_sum [keeps_intro]:
  "(\<And>y. keeps P (f y)) \<Longrightarrow> (\<And>y. keeps P (g y)) \<Longrightarrow> keeps P (case x of Inl y \<Rightarrow> f y | Inr y \<Rightarrow> g y)"
  by (cases x) simp_all

lemma keeps_case_prod [keeps_intro]: "(\<And>a b. keeps P (f a b)) \<Longrightarrow> keeps P (case x of (a, b) \<Rightarrow> f a b)"
  by (cases x) simp

lemma keeps_case_entry [keeps_intro]:
  "(\<And>b. keeps P (f1 b)) \<Longrightarrow> keeps P f2 \<Longrightarrow> keeps P f3 \<Longrightarrow> (\<And>k. keeps P (f4 k)) \<Longrightarrow>
   keeps P (case x of EFile b \<Rightarrow> f1 b | EUnreadable \<Rightarrow> f2 | ESpecial \<Rightarrow> f3 | EDir k \<Rightarrow> f4 k)"
  by (cases x) simp_all

lemma keeps_let [keeps_intro]: "(\<And>y. y = x \<Longrightarrow> keeps P (f y)) \<Longrightarrow> keeps P (let y = x in f y)"
  by simp

lemma keeps_db_git [keeps_intro]:
  "keeps (\<lambda>s. snd s = d) (runGit os extra dir args)"
  "keeps (\<lambda>s. snd s = d) (baselineSHA os repo)"
  "keeps (\<lambda>s. snd s = d) (run_git_look os h)"
  unfolding runGit_def baselineSHA_def run_git_look_def by (intro keeps_intro)+

lemma keeps_db_fixture [keeps_intro]:
  "keeps (\<lambda>s. snd s = d) (MaterializeFixture os cache fixture h)"
  unfolding MaterializeFixture_def acquireLock_def releaseLock_def commit_fixture_def writeFixture_def write_entry_def
  by (intro keeps_intro)

lemma keeps_db_worktree [keeps_intro]:
  "keeps (\<lambda>s. snd s = d) (CreateWorktree os b dest)" "keeps (\<lambda>s. snd s = d) (RemoveWorktree os b dest)"
  "keeps (\<lambda>s. snd s = d) (release_worktree os req b dest)"
  unfolding CreateWorktree_def RemoveWorktree_def release_worktree_def by (intro keeps_intro)+

lemma keeps_db_artifacts [keeps_intro]:
  "keeps (\<lambda>s. snd s = d) (writePlan os dir req s t p i env b wt)"
  "keeps (\<lambda>s. snd s = d) (writeResult os dir req s t p res b started finished)"
  "keeps (\<lambda>s. snd s = d) (writeJSON os path v)"
  "keeps (\<lambda>s. snd s = d) (copySuiteInputs os dir s t)"
  "keeps (\<lambda>s. snd s = d) (copyHiddenTests os t wt)"
  unfolding writePlan_def writeResult_def writeJSON_def copySuiteInputs_def copyHiddenTests_def hidden_entry_def copy_hidden_def
  by (intro keeps_intro)+

lemma keeps_db_untracked [keeps_intro]: "keeps (\<lambda>s. snd s = d) (captureUntracked os dir wt)"
proof -
  have "keeps (\<lambda>s. snd s = d) (capture_untracked os dir wt rels)" for rels
  proof (induction rels)
    case (Cons r rels)
    show ?case by (subst capture_untracked.simps) (intro keeps_intro Cons.IH)
  qed (simp add: keeps_intro)
  then show ?thesis unfolding captureUntracked_def by (intro keeps_intro)
qed

lemma keeps_db_drain [keeps_intro]: "keeps (\<lambda>s. snd s = d) (drainEvents os path lines m)"
proof -
  have "keeps (\<lambda>s. snd s = d) (drain_lines os path lines m)"
  proof (induction lines arbitrary: m)
    case (Cons l lines)
    show ?case by (subst drain_lines.simps) (intro keeps_intro Cons.IH)
  qed (simp add: keeps_intro)
  then show ?thesis unfolding drainEvents_def by (intro keeps_intro)
qed

lemma keeps_db_sessions [keeps_intro]:
  "keeps (\<lambda>s. snd s = d) (captureSessions os dir primary events)" "keeps (\<lambda>s. snd s = d) (readStoredEvents os path)"
proof -
  have child: "keeps (\<lambda>s. snd s = d) (capture_child os dir i st)" for dir i st
    unfolding capture_child_def by (intro keeps_intro)
  have level: "keeps (\<lambda>s. snd s = d) (capture_level os dir refs st)" for dir refs st
  proof (induction refs arbitrary: st)
    case (Cons r refs)
    show ?case by (subst capture_level.simps) (intro keeps_intro Cons.IH child)
  qed (simp add: keeps_intro)
  have levels: "keeps (\<lambda>s. snd s = d) (capture_levels os dir n st)" for dir n st
  proof (induction n arbitrary: st)
    case (Suc n)
    show ?case by (subst capture_levels.simps) (intro keeps_intro Suc.IH level)
  qed (simp add: keeps_intro)
  show "keeps (\<lambda>s. snd s = d) (captureSessions os dir primary events)"
    unfolding captureSessions_def by (intro keeps_intro levels)
  show "keeps (\<lambda>s. snd s = d) (readStoredEvents os path)" unfolding readStoredEvents_def by (intro keeps_intro)
qed

lemma keeps_db_capture [keeps_intro]:
  "keeps (\<lambda>s. snd s = d) (export_primary os dir i)" "keeps (\<lambda>s. snd s = d) (capture_run os dir wt b i)"
  unfolding export_primary_def capture_run_def by (intro keeps_intro)+

lemma keeps_db_validators [keeps_intro]:
  "keeps (\<lambda>s. snd s = d) (judge_run os t dir wt env timeout c changed diff events answer)"
proof -
  have one: "keeps (\<lambda>s. snd s = d) (run_validator os missing seq v vctx env timeout)" for missing seq v vctx
    unfolding run_validator_def by (intro keeps_intro)
  have "keeps (\<lambda>s. snd s = d) (run_validators os missing dir vctx env timeout seq vs)" for missing vctx seq vs
  proof (induction vs arbitrary: seq)
    case (Cons v vs)
    show ?case by (subst run_validators.simps) (intro keeps_intro Cons.IH one)
  qed (simp add: keeps_intro)
  then show ?thesis unfolding judge_run_def runValidators_def by (intro keeps_intro)
qed

lemma keeps_db_eq: "keeps (\<lambda>s. snd s = d) m \<Longrightarrow> m s = (s', r) \<Longrightarrow> snd s = d \<Longrightarrow> snd s' = d"
  unfolding keeps_def by (metis fst_conv)

section \<open>Validations\<close>

definition row_matches :: "validation_row \<Rightarrow> validation_result \<Rightarrow> bool" where
  "row_matches row r \<longleftrightarrow>
     va_seq row = vr_seq r \<and> va_kind row = vr_kind r \<and> va_name row = vr_name r \<and> va_status row = vr_status r \<and>
     va_exit row = vr_exitcode r \<and> va_duration row = vr_duration r \<and> va_excerpt row = vr_excerpt r \<and>
     va_path row = validationRelPath (vr_seq r) (vr_name r)"

definition judged :: "int \<Rightarrow> validator_spec \<Rightarrow> validation_result \<Rightarrow> bool" where
  "judged seq v r \<longleftrightarrow> vr_seq r = seq \<and> vr_kind r = vs_kind v \<and> vr_name r = vs_name v \<and>
     (vr_status r = ''skipped'' \<or> result_ok seq v r)"

lemma run_validator_judged: "run_validator os missing seq v vctx env timeout s = (s', Inr r) \<Longrightarrow> judged seq v r"
  by (auto simp: run_validator_def io_bind_Inr io_simps skipped_result_def judged_def result_ok_dispatch
      result_ok_dispatch [unfolded result_ok_def] split: if_splits)

lemma run_validators_judged:
  "run_validators os missing dir vctx env timeout seq vs s = (s', Inr rs) \<Longrightarrow>
   map fst rs = vs \<and> (\<forall>i<length rs. judged (seq + int i) (fst (rs ! i)) (snd (rs ! i)))"
proof (induction vs arbitrary: seq s s' rs)
  case Nil
  then show ?case by (simp add: io_simps)
next
  case (Cons v vs)
  from Cons.prems obtain r s1 s2 rs' s3 where run: "run_validator os missing seq v vctx env timeout s = (s1, Inr r)"
      "run_validators os missing dir vctx env timeout (seq + 1) vs s2 = (s3, Inr rs')" "rs = (v, r) # rs'"
    by (auto simp: io_bind_Inr io_then_Inr io_return_Inr simp del: io_try_Inr)
  have "judged seq v r" by (rule run_validator_judged [OF run(1)])
  moreover note IH = Cons.IH [OF run(2)]
  ultimately show ?case unfolding run(3) by (auto simp: nth_Cons algebra_simps split: nat.splits)
qed

lemma judge_run_rows:
  assumes "judge_run os t dir wt env timeout c changed diff events answer s = (s', Inr (vs, rows))"
  shows "list_all2 row_matches rows vs" "\<And>i. i < length vs \<Longrightarrow> vr_seq (vs ! i) = int i + 1" "c \<Longrightarrow> vs = []"
    "\<not> c \<Longrightarrow> map vr_name vs = map vs_name (t_validators t)"
proof -
  have "list_all2 row_matches rows vs \<and> (\<forall>i<length vs. vr_seq (vs ! i) = int i + 1) \<and> (c \<longrightarrow> vs = []) \<and>
      (\<not> c \<longrightarrow> map vr_name vs = map vs_name (t_validators t))"
  proof (cases c)
    case True
    then show ?thesis using assms by (simp add: judge_run_def io_simps)
  next
    case False
    from assms False obtain s1 s2 rs where rs: "run_validators os (Requirements (os_found os) (t_requires t)) dir
          \<lparr>vc_worktree = wt, vc_changed = changed, vc_diff = diff, vc_events = events, vc_answer = answer\<rparr>
          env timeout 1 (t_validators t) s1 = (s2, Inr rs)"
        "vs = map snd rs" "rows = map (\<lambda>p. validation_row_of (fst p) (snd p)) rs"
      by (auto simp: judge_run_def runValidators_def Let_def io_bind_Inr io_then_Inr io_return_Inr simp del: io_try_Inr)
    note j = run_validators_judged [OF rs(1)]
    have "row_matches (validation_row_of (fst p) (snd p)) (snd p)" if p: "p \<in> set rs" for p
    proof -
      obtain i where "i < length rs" "rs ! i = p" using p unfolding in_set_conv_nth by blast
      then have "judged (1 + int i) (fst p) (snd p)" using j by blast
      then show ?thesis by (simp add: row_matches_def validation_row_of_def judged_def)
    qed
    then have "list_all2 row_matches rows vs"
      unfolding rs(2,3) list_all2_map1 list_all2_map2 by (intro list.rel_refl_strong) blast
    moreover have "vr_seq (vs ! i) = int i + 1" if "i < length vs" for i
      using j that by (simp add: rs(2) judged_def)
    moreover have "map vr_name vs = map vs_name (t_validators t)"
    proof (rule nth_equalityI)
      show "length (map vr_name vs) = length (map vs_name (t_validators t))" using j by (metis rs(2) length_map)
      fix i assume "i < length (map vr_name vs)"
      then have i: "i < length rs" by (simp add: rs(2))
      then have "t_validators t ! i = fst (rs ! i)" using j by (metis nth_map)
      moreover have "length (t_validators t) = length rs" using j by (metis length_map)
      ultimately show "map vr_name vs ! i = map vs_name (t_validators t) ! i"
        using i j by (simp add: rs(2) judged_def)
    qed
    ultimately show ?thesis using False by blast
  qed
  then show "list_all2 row_matches rows vs" "\<And>i. i < length vs \<Longrightarrow> vr_seq (vs ! i) = int i + 1" "c \<Longrightarrow> vs = []"
    "\<not> c \<Longrightarrow> map vr_name vs = map vs_name (t_validators t)" by blast+
qed

section \<open>The store\<close>

lemma validation_keys: "vq_run (validation_params run v) = run" "vq_seq (validation_params run v) = va_seq v"
  by (simp_all add: validation_params_def)

lemma fold_upsert_validation:
  assumes "\<And>q. q \<in> set qs \<Longrightarrow> vq_run q \<noteq> run" "distinct (map va_seq vals)"
  shows "fold (upsert_validation run) vals qs = qs @ map (validation_params run) vals"
  using assms(2)
proof (induction vals rule: rev_induct)
  case (snoc v vals)
  have new: "upsert hit upd n xs = xs @ [n]" if "\<And>x. x \<in> set xs \<Longrightarrow> \<not> hit x" for hit upd and n :: validation_sql and xs
    using that by (induction xs) auto
  have "upsert_validation run v (qs @ map (validation_params run) vals) = qs @ map (validation_params run) vals @ [validation_params run v]"
  proof -
    have "\<not> (vq_run x = run \<and> vq_seq x = va_seq v)" if x: "x \<in> set (qs @ map (validation_params run) vals)" for x
    proof (cases "x \<in> set qs")
      case True
      then show ?thesis using assms(1) by blast
    next
      case False
      then obtain u where "u \<in> set vals" "x = validation_params run u" using x by auto
      then show ?thesis using snoc.prems by (auto simp: validation_keys) (metis image_eqI)
    qed
    then show ?thesis unfolding upsert_validation_def by (subst new) simp_all
  qed
  then show ?case using snoc by simp
qed simp

lemma sorted_seqs_list:
  assumes "map va_seq rows = map (\<lambda>i. int i + 1) [0..<n]"
  shows "distinct (map va_seq rows)" "sort_by (\<lambda>a b. vq_seq a < vq_seq b) (map (validation_params run) rows) = map (validation_params run) rows"
proof -
  show "distinct (map va_seq rows)" unfolding assms by (simp add: distinct_map inj_on_def)
  have "sorted (map vq_seq (map (validation_params run) rows))"
  proof -
    have "map vq_seq (map (validation_params run) rows) = map va_seq rows" by (simp add: validation_params_def comp_def)
    then show ?thesis unfolding assms by (simp add: sorted_map sorted_wrt_upt)
  qed
  then show "sort_by (\<lambda>a b. vq_seq a < vq_seq b) (map (validation_params run) rows) = map (validation_params run) rows"
    unfolding sort_by_key by (rule sort_key_id_if_sorted)
qed

text \<open>What a successful \<open>persist\<close> has written.\<close>

definition recorded :: "request \<Rightarrow> run_result \<Rightarrow> db \<Rightarrow> db \<Rightarrow> bool" where
  "recorded req r d d' \<longleftrightarrow>
     GetRun (res_id r) d = None \<and>
     (\<exists>row. GetRun (res_id r) d' = Some row \<and> rr_status row = res_status r \<and> rr_exit row = res_exit r \<and>
        rr_session row = res_session r \<and> rr_error row = res_error r \<and> rr_duration row = Some (res_duration r) \<and>
        rr_artifacts row = res_artifacts r \<and> rr_dry row = req_dry req \<and> rr_task row = res_task r \<and>
        rr_profile row = pf_id (the (req_profile req)) \<and> rr_profile_hash row = pf_hash (the (req_profile req)) \<and>
        rr_suite_hash row = s_hash (the (req_suite req)) \<and>
        rr_experiment row = req_experiment req \<and> rr_arm row = OptionalString (req_arm req) \<and> rr_repeat row = req_repeat req) \<and>
     (\<forall>k. k \<noteq> res_id r \<longrightarrow> GetRun k d' = GetRun k d) \<and>
     (\<forall>n. metric (res_id r) n (db_metrics d') = map_of (res_metrics r) n) \<and>
     list_all2 row_matches (ListRunValidations (res_id r) d') (res_validations r)"

lemma GetRun_db_runs: "db_runs d' = db_runs d \<Longrightarrow> GetRun k d' = GetRun k d"
  by (simp add: GetRun_def)

lemma InsertSuite_frame:
  "InsertSuite now row d = Inr d' \<Longrightarrow> db_runs d' = db_runs d \<and> db_metrics d' = db_metrics d \<and> db_validations d' = db_validations d"
  by (auto simp: InsertSuite_def split: if_splits)

lemma InsertTask_frame:
  "InsertTask row d = Inr d' \<Longrightarrow> db_runs d' = db_runs d \<and> db_metrics d' = db_metrics d \<and> db_validations d' = db_validations d"
  by (auto simp: InsertTask_def split: if_splits)

lemma InsertRunMetrics_frame:
  "InsertRunMetrics i ms d = Inr d' \<Longrightarrow>
     db_runs d' = db_runs d \<and> db_validations d' = db_validations d \<and> db_metrics d' = fold (upsert_metric i) ms (db_metrics d)"
  by (auto simp: InsertRunMetrics_def split: if_splits)

lemma InsertRunValidations_frame:
  "InsertRunValidations i vs d = Inr d' \<Longrightarrow>
     db_runs d' = db_runs d \<and> db_metrics d' = db_metrics d \<and> db_validations d' = fold (upsert_validation i) vs (db_validations d)"
  by (auto simp: InsertRunValidations_def split: if_splits)

lemma persist_recorded:
  assumes "persist_run os req s t p r b started finished (res_metrics r) rows (m, d) = ((m', d'), Inr ())"
    and "db_refs d" "map_wf (res_metrics r)" "list_all2 row_matches rows (res_validations r)"
      "\<And>i. i < length (res_validations r) \<Longrightarrow> vr_seq (res_validations r ! i) = int i + 1"
      "req_suite req = Some s" "req_profile req = Some p" "res_task r = t_id t"
  shows "recorded req r d d'"
proof -
  obtain now1 now2 d1 d2 d3 d4 where ins: "InsertSuite now1 (suite_row_of os s started) d = Inr d1"
      "InsertTask (task_row_of os s t b) d1 = Inr d2"
      "InsertRun now2 (run_row_of os req s t p r b started finished) d2 = Inr d3"
      "InsertRunMetrics (res_id r) (res_metrics r) d3 = Inr d4" "InsertRunValidations (res_id r) rows d4 = Inr d'"
    using assms(1) by (auto simp: persist_run_def io_store_def io_then_Inr io_bind_Inr io_simps)
  note frames = InsertSuite_frame [OF ins(1)] InsertTask_frame [OF ins(2)] InsertRunMetrics_frame [OF ins(4)]
    InsertRunValidations_frame [OF ins(5)]
  let ?row = "run_row_of os req s t p r b started finished"
  have id: "rr_id ?row = res_id r" by (simp add: run_row_of_def)
  note run = InsertRun_Inr [OF ins(3)]
  have get2: "GetRun k d2 = GetRun k d" for k using frames by (intro GetRun_db_runs) simp
  have get: "GetRun k d' = (case GetRun k d of Some v \<Rightarrow> Some v
      | None \<Rightarrow> if res_id r = k then Some (?row\<lparr>rr_started := rfc3339UTC now2 started\<rparr>) else None)" for k
  proof -
    have "GetRun k d' = GetRun k d3" using frames by (intro GetRun_db_runs) simp
    moreover have "rr_started ?row = started" by (simp add: run_row_of_def)
    ultimately show ?thesis by (simp only: run(1) GetRun_append get2 id)
  qed
  have none: "GetRun (res_id r) d = None" using run(2) get2 id by simp
  have absent: "\<forall>q\<in>set (db_runs d). rq_id q \<noteq> res_id r" using none unfolding GetRun_None by simp
  have nomet: "\<And>q. q \<in> set (db_metrics d) \<Longrightarrow> mq_run q \<noteq> res_id r"
    and noval: "\<And>q. q \<in> set (db_validations d) \<Longrightarrow> vq_run q \<noteq> res_id r"
    using assms(2) absent unfolding db_refs_def by (metis image_eqI subsetD imageE)+
  have "metric (res_id r) n (db_metrics d') = map_of (res_metrics r) n" for n
  proof -
    have "metric (res_id r) n (db_metrics d) = None"
    proof -
      have "find (\<lambda>q. mq_run q = res_id r \<and> mq_name q = n) (db_metrics d) = None" using nomet by (auto simp: find_None_iff)
      then show ?thesis by (simp add: metric_def)
    qed
    moreover have "db_metrics d3 = db_metrics d" using frames run(1) by simp
    ultimately show ?thesis using frames metric_fold [OF assms(3), of "res_id r" n "res_id r" "db_metrics d"]
      by (simp split: option.splits)
  qed
  moreover have "list_all2 row_matches (ListRunValidations (res_id r) d') (res_validations r)"
  proof -
    have len: "length rows = length (res_validations r)" using assms(4) by (rule list_all2_lengthD)
    have "map va_seq rows = map (\<lambda>i. int i + 1) [0..<length rows]"
      using assms(4,5) len by (intro nth_equalityI) (auto simp: list_all2_conv_all_nth row_matches_def)
    note seqs = sorted_seqs_list [OF this]
    have "db_validations d' = db_validations d @ map (validation_params (res_id r)) rows"
      using frames run(1) fold_upsert_validation [OF noval seqs(1)] by simp
    moreover have "filter (\<lambda>q. vq_run q = res_id r) (db_validations d) = []" using noval by (simp add: filter_empty_conv)
    moreover have "filter (\<lambda>q. vq_run q = res_id r) (map (validation_params (res_id r)) rows) = map (validation_params (res_id r)) rows"
      by (simp add: filter_map comp_def validation_keys)
    ultimately have "ListRunValidations (res_id r) d' = rows"
      by (simp add: ListRunValidations_def seqs(2) comp_def scan_validation_params)
    then show ?thesis using assms(4) by simp
  qed
  ultimately show ?thesis
    unfolding recorded_def using none get assms(6-8) by (simp add: run_row_of_def split: option.split)
qed

section \<open>The outcome\<close>

lemma map_wf_MetricsMap: "map_wf (MetricsMap uni m)"
proof -
  have named: "map_wf out \<Longrightarrow> map_wf (put_named uni prefix counts out)" for prefix counts and out :: "(string, real) gomap"
    unfolding put_named_def by (induction counts arbitrary: out) (auto simp: case_prod_beta)
  have "map_wf (base_metrics m)" by (simp add: map_wf_def base_metrics_def)
  then show ?thesis unfolding MetricsMap_def Let_def by (intro named) simp
qed

text \<open>How a session that was drained is judged; a cancellation may be noticed late.\<close>

definition session_outcome :: "agent_session \<Rightarrow> run_result \<Rightarrow> bool" where
  "session_outcome sess r \<longleftrightarrow>
     res_exit r = Some (as_exit sess) \<and> res_session r = as_id sess \<and>
     (\<exists>cancelled. (wt_sawCancelled (watch_run (as_steps sess)) \<or> as_wait sess = Some WaitCanceled \<longrightarrow> cancelled) \<and>
        res_status r = fst (run_verdict (wt_sawTimeout (watch_run (as_steps sess))) (as_wait sess) cancelled
          (as_exit sess) (res_validations r)))"

definition stored_as ::
  "'s os \<Rightarrow> request \<Rightarrow> suite \<Rightarrow> task \<Rightarrow> profile \<Rightarrow> run_result \<Rightarrow> baseline \<Rightarrow> string \<Rightarrow> db \<Rightarrow> 's \<times> db \<Rightarrow> bool" where
  "stored_as os req s t p r b started d s' \<longleftrightarrow>
     (\<exists>m finished rows. persist_run os req s t p r b started finished (res_metrics r) rows (m, d) = (s', Inr ()) \<and>
        map_wf (res_metrics r) \<and> list_all2 row_matches rows (res_validations r) \<and>
        (\<forall>i<length (res_validations r). vr_seq (res_validations r ! i) = int i + 1))"

lemma db_frames:
  "io_try f e s = (s', r1) \<Longrightarrow> snd s' = snd s" "io_get g s = (s', r2) \<Longrightarrow> snd s' = snd s"
  "export_primary os dir i s = (s', r3) \<Longrightarrow> snd s' = snd s" "capture_run os dir wt b i s = (s', r4) \<Longrightarrow> snd s' = snd s"
  "judge_run os t dir wt env timeout c changed diff events answer s = (s', r5) \<Longrightarrow> snd s' = snd s"
  "run_git_look os look s = (s', r6) \<Longrightarrow> snd s' = snd s"
  "writeResult os dir req su t p res b started finished s = (s', r7) \<Longrightarrow> snd s' = snd s"
  "writePlan os dir req su t p i env b wt s = (s', r8) \<Longrightarrow> snd s' = snd s"
  "copySuiteInputs os dir su t s = (s', r9) \<Longrightarrow> snd s' = snd s" "drainEvents os path lines m s = (s', r10) \<Longrightarrow> snd s' = snd s"
  "MaterializeFixture os cache fixture h s = (s', r11) \<Longrightarrow> snd s' = snd s" "CreateWorktree os b wt s = (s', r12) \<Longrightarrow> snd s' = snd s"
  "release_worktree os req b wt s = (s', r13) \<Longrightarrow> snd s' = snd s"
  by (erule keeps_db_eq [rotated], rule refl, intro keeps_intro)+

lemma judge_run_matches:
  "judge_run os t dir wt env timeout c changed diff events answer s = (s', Inr (vs, rows)) \<Longrightarrow>
     list_all2 row_matches rows vs \<and> (\<forall>i<length vs. vr_seq (vs ! i) = int i + 1)"
  by (intro conjI allI impI; erule judge_run_rows(1) judge_run_rows(2); assumption)

lemma finish_run_Inr:
  assumes "finish_run os req s t p res b dir wt env timeout started sess m s0 = (s', Inr r)"
  shows "stored_as os req s t p r b started (snd s0) s'" "session_outcome sess r"
    "res_id r = res_id res" "res_task r = res_task res" "res_artifacts r = res_artifacts res"
proof -
  have "stored_as os req s t p r b started (snd s0) s' \<and> session_outcome sess r \<and>
      res_id r = res_id res \<and> res_task r = res_task res \<and> res_artifacts r = res_artifacts res"
    using assms
    apply (clarsimp simp: finish_run_def Let_def io_bind_Inr io_then_Inr io_look_Inr io_return_Inr simp del: io_try_Inr split: prod.splits)
    subgoal for m1 d1 m2 d2 nt m3 d3 events cap changed diff m4 d4 vs rows m5 d5 created deleted m6 d6
      apply (frule judge_run_matches)
      apply (drule db_frames)+
      apply (rule conjI)
      subgoal unfolding stored_as_def
        by (rule exI [of _ m6], rule exI [of _ "os_now os m5"], rule exI [of _ rows])
          (simp add: map_wf_put_all map_wf_MetricsMap)
      subgoal unfolding session_outcome_def
        by (intro conjI exI [of _ "wt_sawCancelled (watch_run (as_steps sess)) \<or> as_wait sess = Some WaitCanceled \<or>
            os_ended os m3 \<or> os_ended os m4"]) simp_all
      done
    done
  then show "stored_as os req s t p r b started (snd s0) s'" "session_outcome sess r"
    "res_id r = res_id res" "res_task r = res_task res" "res_artifacts r = res_artifacts res" by blast+
qed

text \<open>The three ends of a run in its worktree.\<close>

definition run_outcome :: "request \<Rightarrow> run_result \<Rightarrow> bool" where
  "run_outcome req r \<longleftrightarrow>
     req_dry req \<and> res_status r = ''dry_run'' \<and> res_exit r = None \<and> res_validations r = [] \<or>
     \<not> req_dry req \<and> res_status r = ''error'' \<and> res_exit r = None \<and> res_validations r = [] \<or>
     \<not> req_dry req \<and> (\<exists>sess. session_outcome sess r)"

lemma in_worktree_Inr:
  assumes "in_worktree os req s t p res b dir wt started s0 = (s', Inr r)"
    "res_validations res = []" "res_metrics res = []" "res_exit res = None"
  shows "stored_as os req s t p r b started (snd s0) s' \<and> run_outcome req r \<and>
    res_id r = res_id res \<and> res_task r = res_task res \<and> res_artifacts r = res_artifacts res"
proof (cases "req_dry req")
  case True
  show ?thesis
    using assms True
    apply (clarsimp simp: in_worktree_def dry_run_def Let_def io_bind_Inr io_then_Inr io_look_Inr io_return_Inr simp del: io_try_Inr)
    apply (drule db_frames)+
    apply (rule conjI)
    subgoal unfolding stored_as_def by (intro exI conjI) simp_all
    subgoal by (simp add: run_outcome_def)
    done
next
  case False
  let ?env = "ApplyExtraEnv (BuildEnv (os_environ os) (req_policy req)) (req_extra req)"
  from assms(1) False obtain s1 s2 r0 where start: "copySuiteInputs os dir s t s0 = (s1, Inr ())"
      "io_get (os_start os (agent_request_of req t wt ?env (EffectiveTimeout t (Some s)))) s1 = (s2, (Inr r0 :: run_error + _))"
      "(case r0 of Inl err \<Rightarrow> start_failed os req s t p res b dir started err
        | Inr sess \<Rightarrow> io_bind (drainEvents os (filepath_join [dir, ''events.jsonl'']) (as_lines sess) (NewMetrics (req_mcp req)))
             (finish_run os req s t p res b dir wt ?env (EffectiveTimeout t (Some s)) started sess)) s2 = (s', Inr r)"
    by (auto simp: in_worktree_def Let_def io_bind_Inr io_then_Inr simp del: io_get_Inr)
  have d: "snd s2 = snd s0" using db_frames(9) [OF start(1)] db_frames(2) [OF start(2)] by simp
  show ?thesis
  proof (cases r0)
    case (Inl err)
    then show ?thesis
      using start(3) assms(2-4) d False
      apply (clarsimp simp: start_failed_def Let_def io_bind_Inr io_then_Inr io_look_Inr io_return_Inr simp del: io_try_Inr)
      apply (drule db_frames)+
      apply (rule conjI)
      subgoal unfolding stored_as_def by (intro exI conjI) simp_all
      subgoal by (simp add: run_outcome_def)
      done
  next
    case (Inr sess)
    with start(3) obtain s3 m where fin: "drainEvents os (filepath_join [dir, ''events.jsonl'']) (as_lines sess) (NewMetrics (req_mcp req)) s2 = (s3, Inr m)"
        "finish_run os req s t p res b dir wt ?env (EffectiveTimeout t (Some s)) started sess m s3 = (s', Inr r)"
      by (auto simp: io_bind_Inr)
    have "snd s3 = snd s0" using db_frames(10) [OF fin(1)] d by simp
    then show ?thesis using finish_run_Inr [OF fin(2)] False by (auto simp: run_outcome_def)
  qed
qed

lemma Run_Inr:
  assumes "Run os req s0 = (s', Inr r)"
  obtains s t p b started s2 where "req_suite req = Some s" "req_task req = Some t" "req_profile req = Some p"
    "stored_as os req s t p r b started (snd s0) s2" "snd s' = snd s2" "run_outcome req r" "res_task r = t_id t"
    "s' = fst (release_worktree os req b (filepath_join [res_artifacts r, ''worktree'']) s2)"
proof -
  obtain s t p where inputs: "req_suite req = Some s" "req_task req = Some t" "req_profile req = Some p"
    using assms by (auto simp: Run_def io_simps split: option.splits)
  obtain u s1 i where u: "io_get (os_uuid os) s0 = (s1, (Inr (Some i) :: run_error + _))"
    and rest: "(let runDir = filepath_join [req_runs req, i]; worktree = filepath_join [runDir, ''worktree'']
       in io_then (io_try (os_mkdir os runDir) (Artifact runDir))
         (io_bind (io_err Source (MaterializeFixture os (req_cache req) (t_fixture t) (t_fixture_hash t))) (\<lambda>b.
          io_then (io_err Source (CreateWorktree os b worktree))
            (io_defer (release_worktree os req b worktree)
              (in_worktree os req s t p (new_result_of i t runDir) b runDir worktree (os_now os (fst s0))))))) s1 = (s', Inr r)"
    using assms inputs
    by (auto simp: Run_def io_fail_Inr io_bind_Inr io_look_Inr Let_def simp del: io_get_Inr split: if_splits option.splits)
  let ?dir = "filepath_join [req_runs req, i]"
  let ?wt = "filepath_join [?dir, ''worktree'']"
  from rest obtain s2 s3 s4 s5 b where steps: "io_try (os_mkdir os ?dir) (Artifact ?dir) s1 = (s2, Inr ())"
      "MaterializeFixture os (req_cache req) (t_fixture t) (t_fixture_hash t) s2 = (s3, Inr b)"
      "CreateWorktree os b ?wt s3 = (s4, Inr ())"
      "in_worktree os req s t p (new_result_of i t ?dir) b ?dir ?wt (os_now os (fst s0)) s4 = (s5, Inr r)"
      "s' = fst (release_worktree os req b ?wt s5)"
    by (auto simp: Let_def io_then_Inr io_bind_Inr io_err_Inr io_defer_Inr simp del: io_try_Inr)
  have d: "snd s4 = snd s0"
    using db_frames(2) [OF u] db_frames(1) [OF steps(1)] db_frames(11) [OF steps(2)] db_frames(12) [OF steps(3)] by simp
  have r: "stored_as os req s t p r b (os_now os (fst s0)) (snd s0) s5" "run_outcome req r"
      "res_task r = t_id t" "res_artifacts r = ?dir"
    using in_worktree_Inr [OF steps(4)] d by (simp_all add: new_result_of_def)
  have "snd s' = snd s5" unfolding steps(5) by (rule db_frames(13) [OF surjective_pairing])
  then show thesis using that [OF inputs r(1)] r steps(5) by simp
qed

section \<open>The writes of a run\<close>

text \<open>A run writes its suite, its task, its row, its metrics and its validations, and nothing else.\<close>

definition run_write :: "db \<Rightarrow> db \<Rightarrow> bool" where
  "run_write d d' \<longleftrightarrow>
     (\<exists>now row. InsertSuite now row d = Inr d') \<or> (\<exists>row. InsertTask row d = Inr d') \<or> (\<exists>now row. InsertRun now row d = Inr d') \<or>
     (\<exists>i ms. InsertRunMetrics i ms d = Inr d') \<or> (\<exists>i vs. InsertRunValidations i vs d = Inr d')"

lemma keeps_unchanged: "(\<And>d. keeps (\<lambda>s. snd s = d) m) \<Longrightarrow> keeps (\<lambda>s. Q (snd s)) m"
  unfolding keeps_def by metis

lemma keeps_Run:
  assumes "\<And>d d'. run_write d d' \<Longrightarrow> Q d \<Longrightarrow> Q d'"
  shows "keeps (\<lambda>s. Q (snd s)) (Run os req)"
proof -
  let ?P = "\<lambda>s. Q (snd s)"
  have put_db: "keeps ?P (io_db Db f)" if f: "\<And>d d'. f d = Inr d' \<Longrightarrow> run_write d d'" for f
    using assms f by (fastforce simp: keeps_def io_db_def split: sum.splits)
  have store: "keeps ?P (io_store os f)" if "\<And>now d d'. f now d = Inr d' \<Longrightarrow> run_write d d'" for f
    unfolding io_store_def using that by (intro keeps_intro put_db)
  have persist: "keeps ?P (persist_run os req s t p r b started finished ms rows)" for s t p r b started finished ms rows
    unfolding persist_run_def by (intro keeps_then store put_db) (auto simp: run_write_def)
  note [keeps_intro] = keeps_db_fixture [THEN keeps_unchanged] keeps_db_worktree [THEN keeps_unchanged]
    keeps_db_artifacts [THEN keeps_unchanged] keeps_db_drain [THEN keeps_unchanged] keeps_db_capture [THEN keeps_unchanged]
    keeps_db_validators [THEN keeps_unchanged] keeps_db_git [THEN keeps_unchanged] keeps_db_step [THEN keeps_unchanged] persist
  show ?thesis
    unfolding Run_def in_worktree_def dry_run_def start_failed_def finish_run_def
    by (intro keeps_intro)
qed

lemma run_write_step: "run_write d d' \<Longrightarrow> db_step d d'"
  unfolding run_write_def by (auto intro: db_step.intros)

lemma keeps_Run_reachable: "keeps (\<lambda>s. db_step\<^sup>*\<^sup>* d (snd s)) (Run os req)"
  by (rule keeps_Run) (metis run_write_step rtranclp.rtrancl_into_rtrancl)

lemma keeps_Run_arms: "keeps (\<lambda>s. db_arms (snd s) = arms \<and> db_experiments (snd s) = exps \<and> db_profiles (snd s) = ps) (Run os req)"
  by (rule keeps_Run)
    (auto simp: run_write_def InsertSuite_def InsertTask_def InsertRun_def InsertRunMetrics_def InsertRunValidations_def Let_def
      split: if_splits)

section \<open>Properties\<close>

lemma Run_records:
  assumes "Run os req (m, d) = ((m', d'), Inr r)" "db_refs d"
  shows "recorded req r d d'"
proof -
  show ?thesis
  proof (rule Run_Inr [OF assms(1)])
    fix s t p b started s2
    assume run: "req_suite req = Some s" "req_profile req = Some p" "stored_as os req s t p r b started (snd (m, d)) s2"
      "snd (m', d') = snd s2" "res_task r = t_id t"
    from run(3) obtain m2 finished rows where st: "persist_run os req s t p r b started finished (res_metrics r) rows (m2, d) = (s2, Inr ())"
        "map_wf (res_metrics r)" "list_all2 row_matches rows (res_validations r)"
        "\<forall>i<length (res_validations r). vr_seq (res_validations r ! i) = int i + 1"
      unfolding stored_as_def snd_conv by blast
    have "persist_run os req s t p r b started finished (res_metrics r) rows (m2, d) = ((fst s2, d'), Inr ())"
      using st(1) run(4) by simp
    from persist_recorded [OF this assms(2) st(2,3)] st(4) run(1,2,5) show ?thesis by blast
  qed
qed

text \<open>C2: 
  A run that returns a result is recorded: the store had no run under its id and now has exactly this one more,
  with the status, exit code, session, error and duration of the result, its metrics and its validations.
\<close>

theorem Run_recorded:
  assumes "Run os req (m, d) = ((m', d'), Inr r)" "db_refs d"
  shows "recorded req r d d'"
  using assms by (rule Run_records)

text \<open>C4: 
  What the status of a run means: \<open>dry_run\<close> for dry runs only; \<open>passed\<close> and \<open>failed\<close> only for a session
  that exited with zero, and then according to its validators; without a session the run is an error.
\<close>

theorem Run_status:
  assumes "Run os req s = (s', Inr r)"
  shows "res_status r \<in> {''dry_run'', ''passed'', ''failed'', ''error'', ''timeout''} \<and>
    (res_status r = ''dry_run'' \<longleftrightarrow> req_dry req) \<and>
    (res_status r = ''passed'' \<longrightarrow> res_exit r = Some 0 \<and> \<not> validatorsFailed (res_validations r)) \<and>
    (res_status r = ''failed'' \<longrightarrow> res_exit r = Some 0 \<and> validatorsFailed (res_validations r)) \<and>
    (res_exit r = None \<longrightarrow> res_status r = ''dry_run'' \<or> res_status r = ''error'')"
proof -
  have out: "run_outcome req r" using assms by (rule Run_Inr)
  have verdict: "fst (run_verdict timedOut w c code vs) \<in> {''passed'', ''failed'', ''error'', ''timeout''} \<and>
      (fst (run_verdict timedOut w c code vs) = ''passed'' \<longrightarrow> code = 0 \<and> \<not> validatorsFailed vs) \<and>
      (fst (run_verdict timedOut w c code vs) = ''failed'' \<longrightarrow> code = 0 \<and> validatorsFailed vs)" for timedOut w c code vs
    by (simp add: run_verdict_def split: option.split)
  consider "req_dry req" "res_status r = ''dry_run''"
    | "\<not> req_dry req" "res_status r = ''error''"
    | timedOut w c code where "\<not> req_dry req" "res_exit r = Some code"
        "res_status r = fst (run_verdict timedOut w c code (res_validations r))"
    using out unfolding run_outcome_def session_outcome_def by blast
  then show ?thesis
  proof cases
    case 3
    then show ?thesis using verdict [of timedOut w c code "res_validations r"] by (elim conjE insertE) simp_all
  qed simp_all
qed


section \<open>A sample machine\<close>

text \<open>Its state says whether a worktree is attached; the fixture is already in the cache.\<close>

definition sample_machine :: "bool os" where
  "sample_machine = idle_os\<lparr>os_stat := (\<lambda>p s. Directory), os_uuid := (\<lambda>s. (s, Some ''u'')),
     os_git := (\<lambda>env dir args s.
       if take 2 args = [''worktree'', ''add''] then (True, Some [])
       else if take 2 args = [''worktree'', ''remove''] then (False, Some [])
       else (s, Some (replicate 40 (CHR ''a''))))\<rparr>"

definition sample_request :: request where
  "sample_request = \<lparr>req_suite = Some \<lparr>s_name = ''s'', s_version = ''1'', s_description = [], s_tier = [], s_timeout = 0,
       s_dir = [], s_fs = None, s_tasks = [], s_hash = ''h''\<rparr>,
     req_task = Some (zero_task\<lparr>t_id := ''t'', t_fixture_hash := replicate 64 (CHR ''0'')\<rparr>),
     req_profile = Some \<lparr>pf_id = ''p'', pf_hash = ''h'', pf_opencode = [], pf_json = [], pf_components = [], pf_snapshot = [],
       pf_captures = \<lparr>ca_config = [], ca_skills = [], ca_agents = [], ca_instructions = []\<rparr>\<rparr>,
     req_runs = ''/r'', req_cache = ''/c'', req_policy = \<lparr>ep_inherit = False, ep_pass = []\<rparr>, req_agent = [], req_model = [],
     req_variant = [], req_auto = False, req_pure = False, req_dry = True, req_keep = False, req_experiment = [], req_arm = [],
     req_repeat = 0, req_mcp = [], req_extra = []\<rparr>"


lemma no_blank: "find (has_prefix (CHR ''a'' # t)) spaces = None" "find (has_prefix (CHR ''a'' # t)) (map rev spaces) = None"
  by (simp_all add: spaces_def upt_rec char_of_def bit_0)

lemma hex_sha: "trim_space (replicate 40 (CHR ''a'')) = replicate 40 (CHR ''a'')" "isHexSHA (replicate 40 (CHR ''a''))"
proof -
  have r: "replicate 40 (CHR ''a'') = CHR ''a'' # replicate 39 (CHR ''a'')" by (simp add: numeral_eq_Suc)
  have "strip ws n (CHR ''a'' # t) = CHR ''a'' # t" if "find (has_prefix (CHR ''a'' # t)) ws = None" for ws n t
    using that by (cases n) simp_all
  moreover have "rev (replicate 40 (CHR ''a'')) = replicate 40 (CHR ''a'')" by simp
  ultimately show "trim_space (replicate 40 (CHR ''a'')) = replicate 40 (CHR ''a'')"
    unfolding trim_space_def Let_def r by (metis no_blank)
  show "isHexSHA (replicate 40 (CHR ''a''))" by (simp add: isHexSHA_def hex_upper_def)
qed

lemma filepath_join_nonempty: "ys = filter (\<lambda>x. x \<noteq> []) xs \<Longrightarrow> ys \<noteq> [] \<Longrightarrow> filepath_join xs \<noteq> []"
  by (simp add: filepath_join_def path_clean_def Let_def)

lemma sample_fixture:
  assumes "c \<noteq> []" "isLowerHex64 h"
  shows "MaterializeFixture sample_machine c fixture h (s, d)
    = ((s, d), Inr \<lparr>bl_repo = filepath_join [c, ''fixtures'', h], bl_sha = replicate 40 (CHR ''a'')\<rparr>)"
proof -
  have found: "exists sample_machine p s" for p s by (simp add: exists_def sample_machine_def)
  have git: "os_git sample_machine e dir [''rev-parse'', ''--verify'', ''--quiet'', ''HEAD^{commit}''] s
      = (s, Some (replicate 40 (CHR ''a'')))" for e dir s
    by (simp add: sample_machine_def)
  have "baselineSHA sample_machine repo (s, d) = ((s, d), Inr (Some (replicate 40 (CHR ''a''))))" for repo
    by (simp add: baselineSHA_def io_bind_def io_look_def io_get_def io_return_def found git hex_sha)
  then show ?thesis using assms by (simp add: MaterializeFixture_def Let_def io_bind_def io_return_def)
qed

lemma sample_worktree:
  assumes "bl_repo b \<noteq> []" "bl_sha b \<noteq> []" "wt \<noteq> []"
  shows "CreateWorktree sample_machine b wt (s, d) = ((True, d), Inr ())"
    "RemoveWorktree sample_machine b wt (s, d) = ((False, d), Inr ())"
  using assms
  by (simp_all add: CreateWorktree_def RemoveWorktree_def validateBaseline_def runGit_def sample_machine_def idle_os_def
      io_then_def io_bind_def io_lift_def io_try_def io_get_def io_look_def io_return_def)

lemma sample_insert:
  assumes "req_experiment req = []" "req_arm req = []" "pf_id p = ''p''"
  shows "\<exists>d'. persist_run sample_machine req su t p r b started finished [] [] (s, sample_db) = ((s, d'), Inr ())"
proof -
  let ?now = "os_now sample_machine s"
  define d1 where "d1 = sample_db\<lparr>db_suites := [(suite_row_of sample_machine su started)\<lparr>su_created := rfc3339UTC ?now started\<rparr>]\<rparr>"
  define d2 where "d2 = d1\<lparr>db_tasks := [task_row_of sample_machine su t b]\<rparr>"
  let ?row = "run_row_of sample_machine req su t p r b started finished"
  define d3 where "d3 = d2\<lparr>db_runs := [run_params ?now ?row]\<rparr>"
  have 1: "InsertSuite ?now (suite_row_of sample_machine su started) sample_db = Inr d1"
    by (simp add: InsertSuite_def d1_def sample_db_def empty_db_def suite_row_of_def)
  have 2: "InsertTask (task_row_of sample_machine su t b) d1 = Inr d2"
    by (simp add: InsertTask_def d2_def d1_def sample_db_def empty_db_def task_row_of_def suite_row_of_def)
  have cols: "rq_experiment (run_params ?now ?row) = None" "rq_arm (run_params ?now ?row) = None"
      "rq_profile (run_params ?now ?row) = ''p''" "rq_suite (run_params ?now ?row) = nullString (s_hash su)"
    using assms by (simp_all add: run_params_def run_row_of_def nullString_def OptionalString_def)
  have tables: "db_runs d2 = []" "map pr_id (db_profiles d2) = [''p'']" "map su_id (db_suites d2) = [s_hash su]"
    by (simp_all add: d2_def d1_def sample_db_def empty_db_def suite_row_of_def)
  have 3: "InsertRun ?now ?row d2 = Inr d3"
  proof -
    have "\<exists>x\<in>set (db_profiles d2). pr_id x = ''p''" using tables(2) by (cases "db_profiles d2") auto
    moreover have "\<exists>x\<in>set (db_suites d2). su_id x = s_hash su" using tables(3) by (cases "db_suites d2") auto
    ultimately show ?thesis unfolding InsertRun_def Let_def cols by (simp add: tables(1) nullString_def d3_def)
  qed
  show ?thesis
    by (rule exI [of _ d3])
      (simp add: persist_run_def io_store_def io_then_def io_bind_def io_look_def io_db_def 1 2 3 InsertRunMetrics_def
        InsertRunValidations_def)
qed

lemma sample_plan: "writePlan sample_machine dir req su t p i env b wt (s, d) = ((s, d), Inr ())"
  by (simp add: writePlan_def writeJSON_def sample_machine_def idle_os_def io_then_def io_bind_def io_try_def)

text \<open>The dry run of the sample request ends in a result.\<close>

lemma sample_run:
  "\<exists>m' d' r. Run sample_machine sample_request (False, sample_db) = ((m', d'), Inr r) \<and> res_id r = ''u''"
proof -
  define b where "b = \<lparr>bl_repo = filepath_join [''/c'', ''fixtures'', replicate 64 (CHR ''0'')], bl_sha = replicate 40 (CHR ''a'')\<rparr>"
  define dir where "dir = filepath_join [''/r'', ''u'']"
  define wt where "wt = filepath_join [dir, ''worktree'']"
  define su where "su = \<lparr>s_name = ''s'', s_version = ''1'', s_description = [], s_tier = [], s_timeout = 0,
       s_dir = [], s_fs = None, s_tasks = [], s_hash = ''h''\<rparr>"
  define t where "t = zero_task\<lparr>t_id := ''t'', t_fixture_hash := replicate 64 (CHR ''0'')\<rparr>"
  obtain p where p: "req_profile sample_request = Some p" "pf_id p = ''p''" by (simp add: sample_request_def)
  have inputs: "req_suite sample_request = Some su" "req_task sample_request = Some t" "req_dry sample_request"
      "req_experiment sample_request = []" "req_arm sample_request = []" "req_runs sample_request = ''/r''"
      "req_cache sample_request = ''/c''" "t_fixture_hash t = replicate 64 (CHR ''0'')"
    by (simp_all add: sample_request_def su_def t_def)
  have hex: "isLowerHex64 (replicate 64 (CHR ''0''))" by (simp add: isLowerHex64_def)
  have ne: "bl_repo b \<noteq> []" "bl_sha b \<noteq> []" "wt \<noteq> []"
    unfolding b_def wt_def by (simp_all add: filepath_join_nonempty)
  have mkdir: "os_mkdir sample_machine q s = (s, True)" and uuid: "os_uuid sample_machine s = (s, Some ''u'')" for q s
    by (simp_all add: sample_machine_def idle_os_def)
  let ?r = "(new_result_of ''u'' t dir)\<lparr>res_status := ''dry_run'', res_duration := 0\<rparr>"
  obtain d' where d': "persist_run sample_machine sample_request su t p ?r b (os_now sample_machine False) [] [] [] (True, sample_db) = ((True, d'), Inr ())"
    using sample_insert [OF inputs(4,5) p(2)] by blast
  have "os_elapsed sample_machine s = 0" for s by (simp add: sample_machine_def idle_os_def)
  then have "dry_run sample_machine sample_request su t p (new_result_of ''u'' t dir) b dir wt env (os_now sample_machine False) (True, sample_db)
      = ((True, d'), Inr ?r)" for env
    using d' by (simp add: dry_run_def io_then_def io_bind_def io_look_def io_return_def sample_plan Let_def new_result_of_def)
  then have "in_worktree sample_machine sample_request su t p (new_result_of ''u'' t dir) b dir wt (os_now sample_machine False) (True, sample_db)
      = ((True, d'), Inr ?r)"
    using inputs(3) by (simp add: in_worktree_def Let_def)
  then have "\<exists>s'. Run sample_machine sample_request (False, sample_db) = (s', Inr ?r)"
    using p inputs sample_fixture [of "''/c''" "replicate 64 (CHR ''0'')", folded b_def] hex
      sample_worktree(1) [OF ne] mkdir uuid
    by (simp add: Run_def Let_def io_bind_def io_look_def io_get_def io_then_def io_try_def io_err_def io_defer_def
        dir_def [symmetric] wt_def [symmetric] split: prod.splits)
  moreover have "res_id ?r = ''u''" by (simp add: new_result_of_def)
  ultimately show ?thesis by (metis surj_pair)
qed

theorem Run_recorded_witness:
  "\<exists>m' d' r. Run sample_machine sample_request (False, sample_db) = ((m', d'), Inr r) \<and> recorded sample_request r sample_db d'"
proof -
  obtain m' d' r where run: "Run sample_machine sample_request (False, sample_db) = ((m', d'), Inr r)" using sample_run by blast
  have "db_refs sample_db" by (simp add: db_refs_def refers_def sample_db_def empty_db_def)
  from Run_recorded [OF run this] run show ?thesis by blast
qed

theorem Run_status_witness:
  "\<exists>s' r. Run sample_machine sample_request (False, sample_db) = (s', Inr r) \<and> res_status r = ''dry_run''"
proof -
  obtain s' r where run: "Run sample_machine sample_request (False, sample_db) = (s', Inr r)" using sample_run by blast
  moreover have "req_dry sample_request" by (simp add: sample_request_def)
  ultimately show ?thesis using Run_status [OF run] by blast
qed


end
