(* ===== verification/Plan.thy ===== *)
theory Plan
  imports Suite
begin

text \<open>
  The plan of an experiment (\<open>internal/experiment/overlay.go\<close> and the pure part of \<open>experiment.go\<close>): the
  configuration overlays of the arms with the hash that identifies them, the arm specifications of the
  command line, and the interleaved order of execution. The disk is a function from absolute paths to trees.
\<close>

section \<open>Overlays\<close>

datatype overlay_kind = OverlayNone | OverlayFile | OverlayDir

definition kind_text :: "overlay_kind \<Rightarrow> string" where
  "kind_text k = (case k of OverlayNone \<Rightarrow> ''none'' | OverlayFile \<Rightarrow> ''file'' | OverlayDir \<Rightarrow> ''dir'')"

record overlay =
  ol_kind :: overlay_kind
  ol_path :: string
  ol_sha :: string
  ol_env :: "string list"

datatype overlay_error = NoAbs string | NoStat string | NoRead string | NotFileOrDir string | EmptyLabel string

definition no_overlay :: overlay where
  "no_overlay = \<lparr>ol_kind = OverlayNone, ol_path = [], ol_sha = [], ol_env = []\<rparr>"

definition overlayDirHash :: "(string \<Rightarrow> string) \<Rightarrow> entry \<Rightarrow> unit + string" where
  "overlayDirHash sha dir =
     rbind (tree_files [] dir) (\<lambda>files.
       let entries = map (\<lambda>f. fst f @ [CHR 0x00] @ sha (snd f)) files
       in Inr (sha (join [CHR 0x0A] (sort entries))))"

text \<open>
  \<open>os.Stat\<close> follows a symbolic link and the walk of the directory does not, so the two views of the
  disk are different arguments; \<open>absolute\<close> is \<open>filepath.Abs\<close>.
\<close>

definition ResolveOverlay ::
  "(string \<Rightarrow> string) \<Rightarrow> (string \<Rightarrow> string option) \<Rightarrow> (string \<Rightarrow> entry option) \<Rightarrow> (string \<Rightarrow> entry option) \<Rightarrow>
   string \<Rightarrow> overlay_error + overlay" where
  "ResolveOverlay sha absolute disk links path =
     (if path = [] then Inr no_overlay
      else (case absolute path of
              None \<Rightarrow> Inl (NoAbs path)
            | Some a \<Rightarrow>
                (case disk a of
                   None \<Rightarrow> Inl (NoStat path)
                 | Some (EFile b) \<Rightarrow>
                     Inr \<lparr>ol_kind = OverlayFile, ol_path = a, ol_sha = sha b, ol_env = [''OPENCODE_CONFIG='' @ a]\<rparr>
                 | Some EUnreadable \<Rightarrow> Inl (NoRead path)
                 | Some ESpecial \<Rightarrow> Inl (NotFileOrDir a)
                 | Some (EDir kids) \<Rightarrow>
                     (case (case links a of None \<Rightarrow> Inl () | Some e \<Rightarrow> overlayDirHash sha e) of
                        Inl _ \<Rightarrow> Inl (NoRead path)
                      | Inr h \<Rightarrow>
                          Inr \<lparr>ol_kind = OverlayDir, ol_path = a, ol_sha = h, ol_env = [''OPENCODE_CONFIG_DIR='' @ a]\<rparr>))))"

section \<open>Arms and steps\<close>

record arm_spec =
  al_label :: string
  al_overlay :: overlay

record plan_step =
  pl_task :: task
  pl_arm :: arm_spec
  pl_repeat :: nat

definition ParseArm ::
  "(string \<Rightarrow> string) \<Rightarrow> (string \<Rightarrow> string option) \<Rightarrow> (string \<Rightarrow> entry option) \<Rightarrow> (string \<Rightarrow> entry option) \<Rightarrow>
   string \<Rightarrow> overlay_error + arm_spec" where
  "ParseArm sha absolute disk links spec =
     (case cut (CHR ''='') spec of (label, path, _) \<Rightarrow>
        if label = [] then Inl (EmptyLabel spec)
        else if path = [] then Inr \<lparr>al_label = label, al_overlay = no_overlay\<rparr>
        else rbind (ResolveOverlay sha absolute disk links path) (\<lambda>ol. Inr \<lparr>al_label = label, al_overlay = ol\<rparr>))"

definition BuildPlan :: "task list \<Rightarrow> arm_spec list \<Rightarrow> nat \<Rightarrow> plan_step list" where
  "BuildPlan tasks arms repeat =
     concat (map (\<lambda>task. concat (map (\<lambda>r. map (\<lambda>arm. \<lparr>pl_task = task, pl_arm = arm, pl_repeat = r\<rparr>) arms) [0..<repeat])) tasks)"

definition hasArm :: "arm_spec list \<Rightarrow> string \<Rightarrow> bool" where
  "hasArm arms label \<longleftrightarrow> list_ex (\<lambda>a. al_label a = label) arms"

definition armSpecs :: "arm_spec list \<Rightarrow> json list" where
  "armSpecs arms = map (\<lambda>a. JObj
     [(''label'', JStr (al_label a)), (''overlay_kind'', JStr (kind_text (ol_kind (al_overlay a)))),
      (''overlay_path'', JStr (ol_path (al_overlay a))), (''overlay_sha256'', JStr (ol_sha (al_overlay a)))]) arms"

section \<open>The order of the plan\<close>

lemma concat_block:
  assumes "\<And>x. x \<in> set xs \<Longrightarrow> length (f x) = k" "i < length xs" "j < k"
  shows "concat (map f xs) ! (i * k + j) = f (xs ! i) ! j"
  using assms
proof (induction xs arbitrary: i)
  case (Cons x xs)
  show ?case
  proof (cases i)
    case 0
    then show ?thesis using Cons.prems by (simp add: nth_append)
  next
    case (Suc n)
    then have "concat (map f xs) ! (n * k + j) = f (xs ! n) ! j" using Cons by simp
    then show ?thesis using Suc Cons.prems(1) by (simp add: nth_append)
  qed
qed simp

lemma length_concat_blocks: "(\<And>x. x \<in> set xs \<Longrightarrow> length (f x) = k) \<Longrightarrow> length (concat (map f xs)) = length xs * k"
  by (induction xs) simp_all

text \<open>C22: 
  The order of execution is task-major, repeats inside a task, and the arms alternate inside each repeat:
  the step at \<open>(i * R + r) * A + j\<close> is repeat \<open>r\<close> of task \<open>i\<close> under arm \<open>j\<close>, and there are no others.
\<close>

theorem BuildPlan_interleaves:
  assumes "i < length tasks" "r < repeat" "j < length arms"
  shows "BuildPlan tasks arms repeat ! ((i * repeat + r) * length arms + j) = \<lparr>pl_task = tasks ! i, pl_arm = arms ! j, pl_repeat = r\<rparr>
    \<and> length (BuildPlan tasks arms repeat) = length tasks * repeat * length arms"
proof -
  let ?row = "\<lambda>task r. map (\<lambda>arm. \<lparr>pl_task = task, pl_arm = arm, pl_repeat = r\<rparr>) arms"
  let ?block = "\<lambda>task. concat (map (?row task) [0..<repeat])"
  have len: "length (?block task) = repeat * length arms" for task
    using length_concat_blocks [of "[0..<repeat]" "?row task" "length arms"] by simp
  have rj: "r * length arms + j < repeat * length arms"
    using assms(2,3) by (metis add.commute add_less_cancel_right less_le_trans mult_Suc mult_le_mono1 Suc_leI add.commute)
  have "(i * repeat + r) * length arms + j = i * (repeat * length arms) + (r * length arms + j)" by (simp add: algebra_simps)
  moreover have "concat (map ?block tasks) ! (i * (repeat * length arms) + (r * length arms + j)) = ?block (tasks ! i) ! (r * length arms + j)"
    using assms(1) rj len by (intro concat_block) simp_all
  moreover have "?block (tasks ! i) ! (r * length arms + j) = ?row (tasks ! i) ([0..<repeat] ! r) ! j"
    using assms(2,3) by (intro concat_block) simp_all
  moreover have "length (concat (map ?block tasks)) = length tasks * (repeat * length arms)"
    using len by (intro length_concat_blocks) simp
  ultimately show ?thesis using assms(2,3) by (simp add: BuildPlan_def algebra_simps)
qed

theorem BuildPlan_interleaves_witness:
  "BuildPlan [zero_task] [\<lparr>al_label = ''a'', al_overlay = no_overlay\<rparr>, \<lparr>al_label = ''b'', al_overlay = no_overlay\<rparr>] 2 ! 3
     = \<lparr>pl_task = zero_task, pl_arm = \<lparr>al_label = ''b'', al_overlay = no_overlay\<rparr>, pl_repeat = 1\<rparr>"
  using BuildPlan_interleaves [of 0 "[zero_task]" 1 2 1 "[\<lparr>al_label = ''a'', al_overlay = no_overlay\<rparr>, \<lparr>al_label = ''b'', al_overlay = no_overlay\<rparr>]"]
  by (simp add: eval_nat_numeral)

section \<open>What an overlay's hash identifies\<close>

definition entry_text :: "(string \<Rightarrow> string) \<Rightarrow> string \<times> string \<Rightarrow> string" where
  "entry_text sha f = fst f @ [CHR 0x00] @ sha (snd f)"

lemma overlayDirHash_manifest:
  "overlayDirHash sha e = rbind (tree_files [] e) (\<lambda>files. Inr (manifestHash sha files))"
  by (simp add: overlayDirHash_def manifestHash_def split_def Let_def)

lemma prefix_to_nul: "c \<notin> set a \<Longrightarrow> c \<notin> set b \<Longrightarrow> a @ c # x = b @ c # y \<Longrightarrow> a = b \<and> x = y"
proof (induction a arbitrary: b)
  case Nil
  then show ?case by (cases b) auto
next
  case (Cons z a)
  then show ?case by (cases b) auto
qed

text \<open>A list of records \<open>name, NUL, 64 characters\<close> joined by line breaks has one reading.\<close>

lemma records_unique:
  assumes "\<And>f. f \<in> set xs \<union> set ys \<Longrightarrow> CHR 0x00 \<notin> set (fst f) \<and> length (snd f) = 64"
    "join [CHR 0x0A] (map (\<lambda>f. fst f @ CHR 0x00 # snd f) xs) = join [CHR 0x0A] (map (\<lambda>f. fst f @ CHR 0x00 # snd f) ys)"
  shows "xs = ys"
  using assms
proof (induction xs arbitrary: ys)
  case Nil
  then show ?case by (cases ys; cases "tl ys") auto
next
  case (Cons x xs)
  let ?e = "\<lambda>f. fst f @ CHR 0x00 # snd f"
  have join_Cons: "join [CHR 0x0A] (map ?e (f # fs)) = ?e f @ (if fs = [] then [] else CHR 0x0A # join [CHR 0x0A] (map ?e fs))" for f fs
    by (cases fs) simp_all
  show ?case
  proof (cases ys)
    case Nil
    then show ?thesis using Cons.prems(2) unfolding Nil join_Cons by simp
  next
    case (Cons y zs)
    note eq = Cons.prems(2) [unfolded Cons join_Cons]
    have ok: "CHR 0x00 \<notin> set (fst x)" "CHR 0x00 \<notin> set (fst y)" "length (snd x) = 64" "length (snd y) = 64"
      using Cons.prems(1) Cons by simp_all
    from eq have "fst x @ CHR 0x00 # (snd x @ (if xs = [] then [] else CHR 0x0A # join [CHR 0x0A] (map ?e xs)))
        = fst y @ CHR 0x00 # (snd y @ (if zs = [] then [] else CHR 0x0A # join [CHR 0x0A] (map ?e zs)))"
      by simp
    from prefix_to_nul [OF ok(1,2) this] have "fst x = fst y" and
      "snd x @ (if xs = [] then [] else CHR 0x0A # join [CHR 0x0A] (map ?e xs)) = snd y @ (if zs = [] then [] else CHR 0x0A # join [CHR 0x0A] (map ?e zs))"
      by blast+
    then have "x = y" and rest: "(if xs = [] then [] else CHR 0x0A # join [CHR 0x0A] (map ?e xs)) = (if zs = [] then [] else CHR 0x0A # join [CHR 0x0A] (map ?e zs))"
      using ok(3,4) by (auto intro: prod_eqI)
    have "xs = zs"
    proof (cases "xs = [] \<or> zs = []")
      case True
      then show ?thesis using rest by (auto split: if_splits)
    next
      case False
      then have "join [CHR 0x0A] (map ?e xs) = join [CHR 0x0A] (map ?e zs)" using rest by simp
      then show ?thesis using Cons.IH Cons.prems(1) \<open>ys = y # zs\<close> by simp
    qed
    then show ?thesis using \<open>x = y\<close> Cons by simp
  qed
qed

lemma mset_map_inj:
  assumes "mset (map k xs) = mset (map k ys)" "inj_on k (set xs \<union> set ys)"
  shows "mset xs = mset ys"
proof -
  have "image_mset k (mset xs) = image_mset k (mset ys) + {#}" using assms(1) by simp
  from image_mset_eq_image_mset_plusD [OF this] assms(2) show ?thesis by auto
qed

lemma sort_map_entry: "sort (map g xs) = map g (sort_key g xs)"
proof -
  have ins: "insort (g x) (map g ys) = map g (insort_key g x ys)" for x ys by (induction ys) simp_all
  show ?thesis by (induction xs) (simp_all add: ins)
qed

text \<open>
  The hash of a directory overlay identifies its files: two directories with the same hash hold the same
  files with the same contents, as long as SHA-256 has no collision among the contents and the listings.
\<close>

theorem overlayDirHash_exact:
  assumes "tree_files [] d1 = Inr f1" "tree_files [] d2 = Inr f2" "overlayDirHash sha d1 = overlayDirHash sha d2"
    "\<And>x. length (sha x) = 64" "\<And>f. f \<in> set f1 \<union> set f2 \<Longrightarrow> CHR 0x00 \<notin> set (fst f)"
    "inj_on sha (snd ` (set f1 \<union> set f2))"
    "inj_on sha {join [CHR 0x0A] (sort (map (entry_text sha) f1)), join [CHR 0x0A] (sort (map (entry_text sha) f2))}"
  shows "mset f1 = mset f2"
proof -
  let ?key = "\<lambda>f. (fst f, sha (snd f))" and ?e = "\<lambda>f. fst f @ CHR 0x00 # snd f"
  have texts: "map (entry_text sha) fs = map ?e (map ?key fs)" for fs by (simp add: entry_text_def)
  have eq: "join [CHR 0x0A] (sort (map (entry_text sha) f1)) = join [CHR 0x0A] (sort (map (entry_text sha) f2))"
  proof -
    have "sha (join [CHR 0x0A] (sort (map (entry_text sha) f1))) = sha (join [CHR 0x0A] (sort (map (entry_text sha) f2)))"
      using assms(3) unfolding overlayDirHash_def assms(1,2) rbind_simps Let_def entry_text_def [symmetric] by simp
    from inj_onD [OF assms(7) this] show ?thesis by simp
  qed
  have sorted: "sort (map (entry_text sha) fs) = map ?e (sort_key ?e (map ?key fs))" for fs
    unfolding texts by (rule sort_map_entry)
  have "sort_key ?e (map ?key f1) = sort_key ?e (map ?key f2)"
  proof (rule records_unique)
    show "join [CHR 0x0A] (map ?e (sort_key ?e (map ?key f1))) = join [CHR 0x0A] (map ?e (sort_key ?e (map ?key f2)))"
      using eq unfolding sorted .
  next
    fix f assume "f \<in> set (sort_key ?e (map ?key f1)) \<union> set (sort_key ?e (map ?key f2))"
    then obtain g where g: "g \<in> set f1 \<union> set f2" "f = ?key g" by fastforce
    show "CHR 0x00 \<notin> set (fst f) \<and> length (snd f) = 64" unfolding g(2) fst_conv snd_conv using assms(5) [OF g(1)] assms(4) by (rule conjI)
  qed
  from arg_cong [OF this, of mset] have "mset (map ?key f1) = mset (map ?key f2)" unfolding mset_sort .
  moreover have "inj_on ?key (set f1 \<union> set f2)"
  proof (rule inj_onI)
    fix x y assume x: "x \<in> set f1 \<union> set f2" "y \<in> set f1 \<union> set f2" "?key x = ?key y"
    then have "snd x = snd y" using inj_onD [OF assms(6), of "snd x" "snd y"] by simp
    then show "x = y" using x(3) by (simp add: prod_eq_iff)
  qed
  ultimately show ?thesis by (rule mset_map_inj)
qed

definition sample_sha :: "string \<Rightarrow> string" where
  "sample_sha x = replicate 64 (if x = ''b'' then CHR ''a'' else CHR ''c'')"

theorem overlayDirHash_exact_witness: "mset [(''f'', ''b'')] = mset [(''f'', ''b'')]"
proof (rule overlayDirHash_exact [where ?d1.0 = "EDir [(''f'', EFile ''b'')]" and ?d2.0 = "EDir [(''f'', EFile ''b'')]" and sha = sample_sha])
qed (simp_all add: sample_sha_def rel_path_def)

text \<open>
  An overlay directory given by a symbolic link is walked without following the link: whatever it holds,
  its hash is the hash of a directory with no files.
\<close>

theorem ResolveOverlay_symlink:
  assumes "absolute path = Some a" "disk a = Some (EDir kids)" "links a = Some ESpecial" "path \<noteq> []"
  shows "\<exists>ol. ResolveOverlay sha absolute disk links path = Inr ol \<and> ol_kind ol = OverlayDir \<and> ol_sha ol = sha []"
  using assms by (simp add: ResolveOverlay_def overlayDirHash_def)

theorem ResolveOverlay_symlink_witness:
  "\<exists>ol. ResolveOverlay sample_sha Some (\<lambda>_. Some (EDir [(''f'', EFile ''b'')])) (\<lambda>_. Some ESpecial) ''/o'' = Inr ol \<and> ol_sha ol = sample_sha []"
  using ResolveOverlay_symlink [of Some "''/o''" "''/o''" "\<lambda>_. Some (EDir [(''f'', EFile ''b'')])" _ "\<lambda>_. Some ESpecial" sample_sha]
  by auto

end
