(* ===== verification/ExperimentRun.thy ===== *)
theory ExperimentRun
  imports RunRecord Plan Discover ProfileStore
begin

text \<open>
  \<open>Run\<close> of \<open>internal/experiment/experiment.go\<close>: the experiment row, then for every arm the profile found
  through the arm's adapter and the arm row, then the runs of the plan one after the other. What the
  adapter and the environment show is \<open>observer\<close>; the adapter's sessions replace those of the machine. An
  error carries the outcome so far.
\<close>

record 's observer =
  ob_world :: "'s \<Rightarrow> world"
  ob_read :: "'s \<Rightarrow> string \<Rightarrow> file_read"
  ob_home :: "'s \<Rightarrow> string option"
  ob_cwd :: "'s \<Rightarrow> string option"

record 's arm_adapter =
  aa_observe :: "'s \<Rightarrow> adapter"
  aa_start :: "agent_request \<Rightarrow> 's \<Rightarrow> 's \<times> (string + agent_session)"
  aa_export :: "string \<Rightarrow> 's \<Rightarrow> string + string"

record 's exp_request =
  xr_suite :: "suite option"
  xr_tasks :: "task list"
  xr_arms :: "arm_spec list"
  xr_baseline :: string
  xr_runs :: string
  xr_cache :: string
  xr_profiles :: string
  xr_options :: options
  xr_adapter :: "(arm_spec \<Rightarrow> 's arm_adapter option) option"
  xr_policy :: env_policy
  xr_repeat :: int
  xr_keep :: bool

record outcome =
  oc_id :: string
  oc_runs :: "string list"

datatype exp_error =
  MissingPart string | FewArms | BaselineNotAnArm string | NoExperimentId | NoAdapter string | NoCwd
  | DiscoverFailed string discover_error | DiscoverStuck string | NoFingerprint string | PersistFailed string persist_error
  | NoArmId | ExpDb db_error | RunFailed run_error

type_synonym ('s, 'a) exp_io = "('s, outcome \<times> exp_error, 'a) io"

section \<open>The profile of an arm\<close>

text \<open>\<open>profile.Persist\<close> as a sequence of effects.\<close>

definition store_captures :: "'s os \<Rightarrow> string \<Rightarrow> profile \<Rightarrow> ('s, persist_error, unit) io" where
  "store_captures os profiles p =
     (if profiles = [] then io_fail NoPath
      else if capture_files p = [] then io_return ()
      else let dir = filepath_join [profiles, pf_hash p]
           in io_then (io_try (os_mkdir os dir) WriteFailed)
                (io_all (\<lambda>f. io_try (os_write os (filepath_join [dir, fst f]) (snd f)) WriteFailed) (capture_files p)))"

definition profile_id :: "'s os \<Rightarrow> profile \<Rightarrow> ('s, persist_error, string) io" where
  "profile_id os p =
     (if pf_id p \<noteq> [] then io_return (pf_id p)
      else io_bind (io_get (os_uuid os)) (\<lambda>u. case u of None \<Rightarrow> io_fail NoUUID | Some i \<Rightarrow> io_return i))"

definition profile_row_of :: "'s os \<Rightarrow> string \<Rightarrow> profile \<Rightarrow> profile_row" where
  "profile_row_of os now p = \<lparr>pr_id = pf_id p, pr_hash = pf_hash p, pr_opencode = pf_opencode p, pr_ocbench = os_version os,
     pr_json = pf_json p, pr_created = now\<rparr>"

definition insert_profile :: "'s os \<Rightarrow> profile \<Rightarrow> ('s, persist_error, unit) io" where
  "insert_profile os p =
     io_bind (io_look (os_now os)) (\<lambda>now.
       io_db Database (InsertProfile now (profile_row_of os now p) (map component_row_of (pf_components p))))"

definition known_profile :: "'s os \<Rightarrow> string \<Rightarrow> profile \<Rightarrow> string \<Rightarrow> ('s, persist_error, profile) io" where
  "known_profile os profiles p stored =
     (let p = (if pf_id p = [] then p\<lparr>pf_id := stored\<rparr> else p)
      in io_then (store_captures os profiles p) (io_return p))"

definition new_profile :: "'s os \<Rightarrow> string \<Rightarrow> profile \<Rightarrow> ('s, persist_error, profile) io" where
  "new_profile os profiles p =
     io_bind (profile_id os p) (\<lambda>i.
       let p = p\<lparr>pf_id := i\<rparr>
       in io_then (insert_profile os p) (io_then (store_captures os profiles p) (io_return p)))"

definition store_profile :: "'s os \<Rightarrow> string \<Rightarrow> profile \<Rightarrow> ('s, persist_error, profile) io" where
  "store_profile os profiles p s =
     (case GetProfileByHash (pf_hash p) (snd s) of
        Some (row, _) \<Rightarrow> known_profile os profiles p (pr_id row) s
      | None \<Rightarrow> new_profile os profiles p s)"

definition working_options :: "'s observer \<Rightarrow> options \<Rightarrow> ('s, exp_error, options) io" where
  "working_options ob opts =
     (if op_dir opts \<noteq> [] then io_return opts
      else io_bind (io_look (ob_cwd ob)) (\<lambda>d.
        case d of None \<Rightarrow> io_fail NoCwd | Some d \<Rightarrow> io_return (opts\<lparr>op_dir := d\<rparr>)))"

definition arm_sources :: "'s os \<Rightarrow> 's observer \<Rightarrow> 's arm_adapter \<Rightarrow> options \<Rightarrow> 's \<Rightarrow> (discover_error + sources) option" where
  "arm_sources os ob a opts s =
     Discover (os_json os) (ob_read ob s) (\<lambda>p. os_abs os p s) (ob_home ob s) (aa_observe a s) (op_dir opts)"

definition arm_profile :: "'s os \<Rightarrow> 's observer \<Rightarrow> 's exp_request \<Rightarrow> arm_spec \<Rightarrow> 's arm_adapter \<Rightarrow> ('s, exp_error, profile) io" where
  "arm_profile os ob req arm a =
     io_bind (working_options ob (xr_options req)) (\<lambda>opts.
     io_bind (io_look (\<lambda>s. (arm_sources os ob a opts s, ob_world ob s))) (\<lambda>(found, w).
       case found of
         None \<Rightarrow> io_fail (DiscoverStuck (al_label arm))
       | Some (Inl e) \<Rightarrow> io_fail (DiscoverFailed (al_label arm) e)
       | Some (Inr sources) \<Rightarrow>
           (case Fingerprint w sources opts of
              None \<Rightarrow> io_fail (NoFingerprint (al_label arm))
            | Some p \<Rightarrow> io_err (PersistFailed (al_label arm)) (store_profile os (xr_profiles req) p))))"

section \<open>The arms\<close>

record 's prepared =
  pp_profiles :: "(string, profile) gomap"
  pp_arms :: "(string, string) gomap"
  pp_adapters :: "(string, 's arm_adapter) gomap"

definition arm_row_of :: "string \<Rightarrow> string \<Rightarrow> string \<Rightarrow> arm_spec \<Rightarrow> profile \<Rightarrow> arm_row" where
  "arm_row_of expID created armID arm p =
     \<lparr>am_id = armID, am_experiment = expID, am_label = al_label arm, am_profile = OptionalString (pf_id p),
      am_overlay_path = OptionalString (ol_path (al_overlay arm)), am_overlay_sha = OptionalString (ol_sha (al_overlay arm)),
      am_profile_hash = pf_hash p, am_overlay_kind = kind_text (ol_kind (al_overlay arm)), am_created = created\<rparr>"

definition prepare_arm ::
  "'s os \<Rightarrow> 's observer \<Rightarrow> 's exp_request \<Rightarrow> (arm_spec \<Rightarrow> 's arm_adapter option) \<Rightarrow> string \<Rightarrow> string \<Rightarrow> arm_spec \<Rightarrow> 's prepared \<Rightarrow>
   ('s, exp_error, 's prepared) io" where
  "prepare_arm os ob req adapterFor expID created arm pp =
     (case adapterFor arm of
        None \<Rightarrow> io_fail (NoAdapter (al_label arm))
      | Some a \<Rightarrow>
          io_bind (arm_profile os ob req arm a) (\<lambda>p.
          io_bind (io_get (os_uuid os)) (\<lambda>u.
          case u of
            None \<Rightarrow> io_fail NoArmId
          | Some armID \<Rightarrow>
              io_then (io_bind (io_look (os_now os)) (\<lambda>now. io_db ExpDb (InsertExperimentArm now (arm_row_of expID created armID arm p))))
                (io_return \<lparr>pp_profiles = put (al_label arm) p (pp_profiles pp), pp_arms = put (al_label arm) armID (pp_arms pp),
                   pp_adapters = put (al_label arm) a (pp_adapters pp)\<rparr>))))"

fun prepare_arms ::
  "'s os \<Rightarrow> 's observer \<Rightarrow> 's exp_request \<Rightarrow> (arm_spec \<Rightarrow> 's arm_adapter option) \<Rightarrow> string \<Rightarrow> string \<Rightarrow> arm_spec list \<Rightarrow> 's prepared \<Rightarrow>
   ('s, exp_error, 's prepared) io" where
  "prepare_arms os ob req adapterFor expID created [] pp = io_return pp"
| "prepare_arms os ob req adapterFor expID created (arm # arms) pp =
     io_bind (prepare_arm os ob req adapterFor expID created arm pp) (prepare_arms os ob req adapterFor expID created arms)"

section \<open>The runs\<close>

definition arm_machine :: "'s os \<Rightarrow> 's arm_adapter \<Rightarrow> 's os" where
  "arm_machine os a = os\<lparr>os_start := aa_start a, os_export := aa_export a\<rparr>"

text \<open>A label without an entry reads as the zero value: no profile, no adapter, no id.\<close>

definition step_request :: "'s exp_request \<Rightarrow> string \<Rightarrow> 's prepared \<Rightarrow> plan_step \<Rightarrow> request" where
  "step_request req expID pp st =
     (let label = al_label (pl_arm st); p = map_of (pp_profiles pp) label; opts = xr_options req
      in \<lparr>req_suite = xr_suite req, req_task = Some (pl_task st), req_profile = p, req_runs = xr_runs req, req_cache = xr_cache req,
          req_policy = xr_policy req, req_agent = op_agent opts, req_model = op_model opts, req_variant = op_variant opts,
          req_auto = op_auto opts, req_pure = op_pure opts, req_dry = False, req_keep = xr_keep req, req_experiment = expID,
          req_arm = (case map_of (pp_arms pp) label of None \<Rightarrow> [] | Some i \<Rightarrow> i), req_repeat = int (pl_repeat st),
          req_mcp = (case p of None \<Rightarrow> [] | Some p \<Rightarrow> MCPToolNames p), req_extra = ol_env (al_overlay (pl_arm st))\<rparr>)"

definition run_step :: "'s os \<Rightarrow> 's exp_request \<Rightarrow> string \<Rightarrow> 's prepared \<Rightarrow> plan_step \<Rightarrow> ('s, run_error, run_result) io" where
  "run_step os req expID pp st =
     (case map_of (pp_adapters pp) (al_label (pl_arm st)) of
        None \<Rightarrow> io_fail (MissingInput ''adapter'')
      | Some a \<Rightarrow> Run (arm_machine os a) (step_request req expID pp st))"

fun run_plan :: "'s os \<Rightarrow> 's exp_request \<Rightarrow> string \<Rightarrow> 's prepared \<Rightarrow> string list \<Rightarrow> plan_step list \<Rightarrow> ('s, string list) exp_io" where
  "run_plan os req expID pp ids [] = io_return ids"
| "run_plan os req expID pp ids (st # sts) =
     io_bind (io_err (\<lambda>e. (\<lparr>oc_id = expID, oc_runs = ids\<rparr>, RunFailed e)) (run_step os req expID pp st)) (\<lambda>res.
       run_plan os req expID pp (ids @ [res_id res]) sts)"

section \<open>The experiment\<close>

definition experiment_spec :: "suite \<Rightarrow> task list \<Rightarrow> arm_spec list \<Rightarrow> string \<Rightarrow> int \<Rightarrow> json" where
  "experiment_spec s tasks arms baseline repeat = JObj
     [(''suite'', JStr (s_name s)), (''suite_version'', JStr (s_version s)), (''suite_hash'', JStr (s_hash s)),
      (''tasks'', strings_json (TaskIDs tasks)), (''arms'', JArr (armSpecs arms)), (''baseline'', JStr baseline),
      (''repeat'', JInt repeat)]"

definition experiment_row_of :: "'s os \<Rightarrow> string \<Rightarrow> suite \<Rightarrow> string \<Rightarrow> json \<Rightarrow> experiment_row" where
  "experiment_row_of os expID s created spec =
     \<lparr>ex_id = expID, ex_name = ''experiment '' @ s_name s @ ''@'' @ s_version s @ '' '' @ created,
      ex_spec = JSON (os_num os) spec, ex_created = created\<rparr>"

definition no_outcome :: outcome where "no_outcome = \<lparr>oc_id = [], oc_runs = []\<rparr>"

definition exp_tasks :: "suite \<Rightarrow> task list \<Rightarrow> task list" where
  "exp_tasks s tasks = (if tasks = [] then s_tasks s else tasks)"

definition at_least_one :: "int \<Rightarrow> int" where
  "at_least_one n = (if n < 1 then 1 else n)"

definition execute ::
  "'s os \<Rightarrow> 's observer \<Rightarrow> 's exp_request \<Rightarrow> suite \<Rightarrow> (arm_spec \<Rightarrow> 's arm_adapter option) \<Rightarrow> string \<Rightarrow> ('s, outcome) exp_io" where
  "execute os ob req s adapterFor baseline =
     (let tasks = exp_tasks s (xr_tasks req); repeat = at_least_one (xr_repeat req)
      in io_bind (io_get (os_uuid os)) (\<lambda>u.
         case u of
           None \<Rightarrow> io_fail (no_outcome, NoExperimentId)
         | Some expID \<Rightarrow>
             io_bind (io_look (os_now os)) (\<lambda>created.
             io_then (io_bind (io_look (os_now os)) (\<lambda>now.
                 io_db (\<lambda>e. (no_outcome, ExpDb e))
                   (InsertExperiment now (experiment_row_of os expID s created (experiment_spec s tasks (xr_arms req) baseline repeat)))))
               (io_bind (io_err (\<lambda>e. (\<lparr>oc_id = expID, oc_runs = []\<rparr>, e))
                   (prepare_arms os ob req adapterFor expID created (xr_arms req) \<lparr>pp_profiles = [], pp_arms = [], pp_adapters = []\<rparr>)) (\<lambda>pp.
                io_bind (run_plan os req expID pp [] (BuildPlan tasks (xr_arms req) (nat repeat))) (\<lambda>ids.
                io_return \<lparr>oc_id = expID, oc_runs = ids\<rparr>))))))"

definition RunExperiment :: "'s os \<Rightarrow> 's observer \<Rightarrow> 's exp_request \<Rightarrow> ('s, outcome) exp_io" where
  "RunExperiment os ob req =
     (case xr_suite req of
        None \<Rightarrow> io_fail (no_outcome, MissingPart ''suite'')
      | Some s \<Rightarrow>
          if exp_tasks s (xr_tasks req) = [] then io_fail (no_outcome, MissingPart ''tasks'')
          else if length (xr_arms req) < 2 then io_fail (no_outcome, FewArms)
          else (case xr_adapter req of
                  None \<Rightarrow> io_fail (no_outcome, MissingPart ''AdapterFor'')
                | Some adapterFor \<Rightarrow>
                    (let baseline = (if xr_baseline req = [] then al_label (hd (xr_arms req)) else xr_baseline req)
                     in if \<not> hasArm (xr_arms req) baseline then io_fail (no_outcome, BaselineNotAnArm (xr_baseline req))
                        else execute os ob req s adapterFor baseline)))"

section \<open>What is recorded\<close>

text \<open>A row that is there stays as it is, whatever is written later.\<close>

lemma InsertProfile_frame:
  assumes "InsertProfile now p cs d = Inr d'"
  shows "db_runs d' = db_runs d" "db_arms d' = db_arms d" "db_experiments d' = db_experiments d"
proof -
  let ?cols = "\<lambda>d. (db_runs d, db_arms d, db_experiments d)"
  have keep: "?cols (if b then d else d\<lparr>db_profiles := ps\<rparr>) = ?cols d" for b ps by simp
  have "map_sum id ?cols (let t = (if b then d else d\<lparr>db_profiles := ps\<rparr>)
      in if c t then Inr (t\<lparr>db_components := ks t\<rparr>) else Inr t) = (Inr (?cols d) :: db_error + _)" for b ps c ks
    using keep by (simp add: Let_def)
  from this [of "\<exists>x\<in>set (db_profiles d). pr_id x = pr_id p \<or> pr_hash x = pr_hash p" _ "\<lambda>t. \<exists>x\<in>set (db_profiles t). pr_id x = pr_id p"]
  have "map_sum id ?cols (InsertProfile now p cs d) = Inr (?cols d)" unfolding InsertProfile_def .
  then have "?cols d' = ?cols d" unfolding assms by simp
  then show "db_runs d' = db_runs d" "db_arms d' = db_arms d" "db_experiments d' = db_experiments d" by simp_all
qed

lemma db_step_runs:
  assumes "db_step d d'"
  shows "db_runs d' = db_runs d \<or> (\<exists>now r. InsertRun now r d = Inr d')"
  using assms
proof (cases rule: db_step.cases)
  case (write_profile now p cs)
  then show ?thesis using InsertProfile_frame by blast
next
  case (write_changes now f t cs)
  then show ?thesis by (auto simp: InsertProfileChanges_def Let_def split: if_splits)
next
  case write_run
  then show ?thesis by blast
next
  case write_suite
  then show ?thesis using InsertSuite_frame by blast
next
  case write_task
  then show ?thesis using InsertTask_frame by blast
next
  case write_metrics
  then show ?thesis using InsertRunMetrics_frame by blast
next
  case write_validations
  then show ?thesis using InsertRunValidations_frame by blast
next
  case write_experiment
  then show ?thesis by (auto simp: InsertExperiment_def split: if_splits)
next
  case write_arm
  then show ?thesis by (auto simp: InsertExperimentArm_def split: if_splits)
qed

lemma GetRun_step: "db_step d d' \<Longrightarrow> GetRun k d = Some v \<Longrightarrow> GetRun k d' = Some v"
proof -
  assume step: "db_step d d'" and k: "GetRun k d = Some v"
  from db_step_runs [OF step] show ?thesis
  proof (elim disjE exE)
    assume "db_runs d' = db_runs d"
    from GetRun_db_runs [OF this] k show ?thesis by simp
  next
    fix now r assume "InsertRun now r d = Inr d'"
    from InsertRun_Inr(1) [OF this] k show ?thesis by (simp add: GetRun_append)
  qed
qed

text \<open>An experiment writes to the store through the operations of the package only.\<close>

lemma keeps_io_db:
  "(\<And>d d'. f d = Inr d' \<Longrightarrow> Q d \<Longrightarrow> Q d') \<Longrightarrow> keeps (\<lambda>s. Q (snd s)) (io_db err f)"
  by (fastforce simp: keeps_def io_db_def split: sum.splits)

lemma keeps_arm_profile:
  assumes "\<And>now p cs d d'. InsertProfile now p cs d = Inr d' \<Longrightarrow> Q d \<Longrightarrow> Q d'"
  shows "keeps (\<lambda>s. Q (snd s)) (arm_profile os ob req arm a)"
proof -
  let ?P = "\<lambda>s. Q (snd s)"
  note [keeps_intro] = keeps_db_step [THEN keeps_unchanged]
  have insert: "keeps ?P (insert_profile os p)" for p
    unfolding insert_profile_def by (intro keeps_intro keeps_io_db) (rule assms)
  have parts: "keeps ?P (store_captures os dir p)" "keeps ?P (profile_id os p)" for dir p
    unfolding store_captures_def profile_id_def by (intro keeps_intro)+
  have "keeps ?P (known_profile os dir p i)" "keeps ?P (new_profile os dir p)" for dir p i
    unfolding known_profile_def new_profile_def by (intro keeps_intro insert parts)+
  then have store: "keeps ?P (store_profile os dir p)" for dir p
    unfolding store_profile_def keeps_def by (simp add: split_paired_all split: option.split)
  have "keeps ?P (working_options ob opts)" for opts unfolding working_options_def by (intro keeps_intro)
  then show ?thesis unfolding arm_profile_def by (intro keeps_intro store)
qed

text \<open>An arm writes its profile and its row.\<close>

definition arm_write :: "db \<Rightarrow> db \<Rightarrow> bool" where
  "arm_write d d' \<longleftrightarrow> (\<exists>now p cs. InsertProfile now p cs d = Inr d') \<or> (\<exists>now a. InsertExperimentArm now a d = Inr d')"

lemma arm_write_step: "arm_write d d' \<Longrightarrow> db_step d d'"
  unfolding arm_write_def by (auto intro: db_step.intros)

lemma arm_write_intros:
  "InsertProfile now p cs d = Inr d' \<Longrightarrow> arm_write d d'" "InsertExperimentArm now a d = Inr d' \<Longrightarrow> arm_write d d'"
  unfolding arm_write_def by blast+

lemma keeps_arm:
  assumes "\<And>d d'. arm_write d d' \<Longrightarrow> Q d \<Longrightarrow> Q d'"
  shows "keeps (\<lambda>s. Q (snd s)) (prepare_arm os ob req adapterFor expID created arm pp)"
proof -
  have "keeps (\<lambda>s. Q (snd s)) (arm_profile os ob req arm a)" for a
    by (rule keeps_arm_profile) (rule assms [OF arm_write_intros(1)])
  then show ?thesis
    unfolding prepare_arm_def
    by (intro keeps_intro keeps_io_db keeps_db_step(2) [THEN keeps_unchanged]) (assumption, rule assms [OF arm_write_intros(2)])
qed

lemma keeps_arms:
  assumes "\<And>d d'. arm_write d d' \<Longrightarrow> Q d \<Longrightarrow> Q d'"
  shows "keeps (\<lambda>s. Q (snd s)) (prepare_arms os ob req adapterFor expID created arms pp)"
proof (induction arms arbitrary: pp)
  case (Cons arm arms)
  show ?case unfolding prepare_arms.simps by (intro keeps_intro keeps_arm Cons.IH) (rule assms)
qed (simp add: keeps_intro)

lemma keeps_run_step:
  assumes "\<And>d d'. run_write d d' \<Longrightarrow> Q d \<Longrightarrow> Q d'"
  shows "keeps (\<lambda>s. Q (snd s)) (run_step os req expID pp st)"
  unfolding run_step_def by (intro keeps_intro keeps_Run) (rule assms)

lemma keeps_plan:
  assumes "\<And>d d'. run_write d d' \<Longrightarrow> Q d \<Longrightarrow> Q d'"
  shows "keeps (\<lambda>s. Q (snd s)) (run_plan os req expID pp ids sts)"
proof (induction sts arbitrary: ids)
  case (Cons st sts)
  show ?case unfolding run_plan.simps by (intro keeps_intro Cons.IH keeps_run_step) (rule assms)
qed (simp add: keeps_intro)

lemma run_write_arms: "run_write d d' \<Longrightarrow> db_arms d' = db_arms d"
  unfolding run_write_def
  by (auto simp: InsertSuite_def InsertTask_def InsertRunMetrics_def InsertRunValidations_def dest!: InsertRun_Inr(1) split: if_splits)

lemma reachable_step: "db_step d d' \<Longrightarrow> db_step\<^sup>*\<^sup>* empty_db d \<Longrightarrow> db_step\<^sup>*\<^sup>* empty_db d'"
  by (rule rtranclp.rtrancl_into_rtrancl)

lemma keeps_experiment:
  assumes "\<And>d d'. db_step d d' \<Longrightarrow> Q d \<Longrightarrow> Q d'"
  shows "keeps (\<lambda>s. Q (snd s)) (RunExperiment os ob req)"
proof -
  show ?thesis
    unfolding RunExperiment_def execute_def
    by (intro keeps_intro keeps_io_db keeps_arms keeps_plan keeps_db_step(2) [THEN keeps_unchanged])
      (assumption | rule db_step.intros assms run_write_step arm_write_step)+
qed

section \<open>Steps and their rows\<close>

text \<open>The row of an arm, and the row of a step of the plan, which names the arm it ran under.\<close>

definition arm_stored :: "string \<Rightarrow> db \<Rightarrow> arm_spec \<Rightarrow> string \<Rightarrow> string \<Rightarrow> bool" where
  "arm_stored expID d arm armID hash \<longleftrightarrow>
     (\<exists>a\<in>set (ListExperimentArms expID d). am_id a = armID \<and> am_label a = al_label arm \<and> am_profile_hash a = hash \<and>
        am_overlay_kind a = kind_text (ol_kind (al_overlay arm)) \<and> am_overlay_sha a = OptionalString (ol_sha (al_overlay arm)))"

definition step_recorded :: "string \<Rightarrow> db \<Rightarrow> plan_step \<Rightarrow> string \<Rightarrow> bool" where
  "step_recorded expID d st runID \<longleftrightarrow>
     (\<exists>row armID. GetRun runID d = Some row \<and> rr_experiment row = expID \<and> rr_task row = t_id (pl_task st) \<and>
        rr_repeat row = int (pl_repeat st) \<and> rr_arm row = Some armID \<and> \<not> rr_dry row \<and>
        arm_stored expID d (pl_arm st) armID (rr_profile_hash row))"

definition arm_ready :: "string \<Rightarrow> 's prepared \<Rightarrow> db \<Rightarrow> arm_spec \<Rightarrow> bool" where
  "arm_ready expID pp d arm \<longleftrightarrow>
     (\<exists>p i. map_of (pp_profiles pp) (al_label arm) = Some p \<and> map_of (pp_arms pp) (al_label arm) = Some i \<and> i \<noteq> [] \<and>
        arm_stored expID d arm i (pf_hash p))"

lemma arm_stored_cong: "db_arms d' = db_arms d \<Longrightarrow> arm_stored expID d' arm i h = arm_stored expID d arm i h"
  by (simp add: arm_stored_def ListExperimentArms_def)

lemma arm_ready_cong: "db_arms d' = db_arms d \<Longrightarrow> arm_ready expID pp d' arm = arm_ready expID pp d arm"
  unfolding arm_ready_def by (simp add: arm_stored_cong [of d' d])

lemma step_recorded_later:
  assumes "step_recorded expID d st i" "db_arms d' = db_arms d" "\<And>v. GetRun i d = Some v \<Longrightarrow> GetRun i d' = Some v"
  shows "step_recorded expID d' st i"
  using assms(1,3) unfolding step_recorded_def arm_stored_cong [OF assms(2)] by blast

text \<open>Identifiers are not empty.\<close>

definition names_runs :: "'s os \<Rightarrow> bool" where
  "names_runs os \<longleftrightarrow> (\<forall>m. snd (os_uuid os m) \<noteq> Some [])"

lemma names_runsD: "names_runs os \<Longrightarrow> os_uuid os m = (m', Some i) \<Longrightarrow> i \<noteq> []"
  unfolding names_runs_def by (metis snd_conv)

lemma InsertExperimentArm_Inr:
  assumes "InsertExperimentArm now a d = Inr d'"
  shows "\<forall>x\<in>set (db_arms d). \<not> (am_experiment x = am_experiment a \<and> am_label x = am_label a)"
    "d' = d\<lparr>db_arms := db_arms d @ [a\<lparr>am_created := rfc3339UTC now (am_created a)\<rparr>]\<rparr>"
  using assms unfolding InsertExperimentArm_def by (simp_all split: if_split_asm)

lemma prepare_arm_ready:
  assumes "prepare_arm os ob req adapterFor expID created arm pp s = (s', Inr pp')"
    and uuid: "names_runs os"
  shows "arm_ready expID pp' (snd s') arm" "\<And>b. arm_ready expID pp (snd s) b \<Longrightarrow> arm_ready expID pp' (snd s') b"
proof -
  from assms(1) obtain a p armID now s1 s2 where steps: "arm_profile os ob req arm a s = (s1, Inr p)"
      "os_uuid os (fst s1) = (fst s2, Some armID)" "snd s2 = snd s1"
      "InsertExperimentArm now (arm_row_of expID created armID arm p) (snd s2) = Inr (snd s')"
    and pp': "pp' = \<lparr>pp_profiles = put (al_label arm) p (pp_profiles pp), pp_arms = put (al_label arm) armID (pp_arms pp),
        pp_adapters = put (al_label arm) a (pp_adapters pp)\<rparr>"
    unfolding prepare_arm_def
    by (auto simp: io_bind_Inr io_then_Inr io_simps split: option.splits)
  let ?row = "arm_row_of expID created armID arm p"
  have arms: "db_arms (snd s1) = db_arms (snd s)"
    using keepsD [OF keeps_arm_profile [of "\<lambda>d. db_arms d = db_arms (snd s)" os ob req arm a], of s] steps(1) InsertProfile_frame(2)
    by simp
  from steps(4) have new: "\<forall>x\<in>set (db_arms (snd s)). \<not> (am_experiment x = expID \<and> am_label x = al_label arm)"
    and after: "db_arms (snd s') = db_arms (snd s) @ [?row\<lparr>am_created := rfc3339UTC now created\<rparr>]"
    using InsertExperimentArm_Inr [OF steps(4)] unfolding steps(3) arms by (simp_all add: arm_row_of_def)
  have "arm_stored expID (snd s') arm armID (pf_hash p)"
    unfolding arm_stored_def ListExperimentArms_def after by (simp add: arm_row_of_def)
  then show "arm_ready expID pp' (snd s') arm"
    using names_runsD [OF uuid steps(2)] unfolding arm_ready_def pp' by (simp add: map_of_put)
  fix b
  assume b: "arm_ready expID pp (snd s) b"
  then have "al_label b \<noteq> al_label arm"
    using new unfolding arm_ready_def arm_stored_def ListExperimentArms_def by auto
  moreover have "arm_stored expID (snd s) b i h \<Longrightarrow> arm_stored expID (snd s') b i h" for i h
    unfolding arm_stored_def ListExperimentArms_def after by auto
  ultimately show "arm_ready expID pp' (snd s') b"
    using b unfolding arm_ready_def pp' by (auto simp: map_of_put)
qed

lemma prepare_arms_ready:
  assumes "prepare_arms os ob req adapterFor expID created arms pp s = (s', Inr pp')"
    and uuid: "names_runs os"
  shows "(\<forall>arm\<in>set arms. arm_ready expID pp' (snd s') arm) \<and>
    (\<forall>b. arm_ready expID pp (snd s) b \<longrightarrow> arm_ready expID pp' (snd s') b)"
  using assms(1)
proof (induction arms arbitrary: pp s)
  case (Cons arm arms)
  then obtain s1 pp1 where "prepare_arm os ob req adapterFor expID created arm pp s = (s1, Inr pp1)"
      "prepare_arms os ob req adapterFor expID created arms pp1 s1 = (s', Inr pp')"
    by (auto simp: io_bind_Inr)
  with Cons.IH [OF this(2)] prepare_arm_ready [OF this(1) uuid] show ?case by auto
qed (simp add: io_return_def)

text \<open>The run ids an outcome or an error carries.\<close>

definition outcome_runs :: "outcome \<times> exp_error + string list \<Rightarrow> string list" where
  "outcome_runs r = (case r of Inl (oc, _) \<Rightarrow> oc_runs oc | Inr ids \<Rightarrow> ids)"

lemma run_step_recorded:
  assumes "run_step os req expID pp st s = (s', Inr res)" "db_refs (snd s)" "arm_ready expID pp (snd s) (pl_arm st)"
  shows "GetRun (res_id res) (snd s) = None" "step_recorded expID (snd s') st (res_id res)"
    "db_arms (snd s') = db_arms (snd s)" "\<And>k. k \<noteq> res_id res \<Longrightarrow> GetRun k (snd s') = GetRun k (snd s)"
proof -
  from assms(1) obtain a where "Run (arm_machine os a) (step_request req expID pp st) (fst s, snd s) = ((fst s', snd s'), Inr res)"
    by (auto simp: run_step_def io_simps split: option.splits)
  note run = this
  note rec = Run_records [OF run assms(2), unfolded recorded_def]
  from keepsD [OF keeps_Run_arms [of "db_arms (snd s)" "db_experiments (snd s)" "db_profiles (snd s)" "arm_machine os a"
        "step_request req expID pp st"], of "(fst s, snd s)"] run
  show arms: "db_arms (snd s') = db_arms (snd s)" by simp
  show "GetRun (res_id res) (snd s) = None" "\<And>k. k \<noteq> res_id res \<Longrightarrow> GetRun k (snd s') = GetRun k (snd s)"
    using rec by blast+
  from assms(3) obtain p i where p: "map_of (pp_profiles pp) (al_label (pl_arm st)) = Some p"
      "map_of (pp_arms pp) (al_label (pl_arm st)) = Some i" "i \<noteq> []" "arm_stored expID (snd s) (pl_arm st) i (pf_hash p)"
    by (auto simp: arm_ready_def)
  have task: "res_task res = t_id (pl_task st)"
    by (rule Run_Inr [OF run]) (simp add: step_request_def Let_def)
  show "step_recorded expID (snd s') st (res_id res)"
    using rec p(4) task
    unfolding step_recorded_def arm_stored_cong [OF arms] step_request_def Let_def
    by (auto simp: p(1,2,3) OptionalString_def)
qed

lemma run_plan_recorded:
  assumes "run_plan os req expID pp ids sts s = (s', r)" "db_step\<^sup>*\<^sup>* empty_db (snd s)"
    "\<And>st. st \<in> set sts \<Longrightarrow> arm_ready expID pp (snd s) (pl_arm st)"
  shows "\<exists>new. outcome_runs r = ids @ new \<and> length new \<le> length sts \<and> distinct new \<and>
    list_all2 (step_recorded expID (snd s')) (take (length new) sts) new \<and>
    (\<forall>i\<in>set new. GetRun i (snd s) = None) \<and>
    (\<forall>oc e. r = Inl (oc, e) \<longrightarrow> oc_id oc = expID) \<and>
    (\<forall>out. r = Inr out \<longrightarrow> length new = length sts \<and> (\<forall>k. k \<notin> set new \<longrightarrow> GetRun k (snd s') = GetRun k (snd s)))"
  using assms
proof (induction sts arbitrary: ids s)
  case Nil
  then show ?case by (auto simp: io_return_def outcome_runs_def)
next
  case (Cons st sts)
  obtain s1 r1 where step: "run_step os req expID pp st s = (s1, r1)" by (rule prod.exhaust)
  show ?case
  proof (cases r1)
    case (Inl e)
    then have "outcome_runs r = ids \<and> (\<forall>out. r \<noteq> Inr out) \<and> (\<forall>oc e. r = Inl (oc, e) \<longrightarrow> oc_id oc = expID)"
      using Cons.prems(1) step by (auto simp: io_bind_def io_err_def outcome_runs_def)
    then show ?thesis by (intro exI [of _ "[]"]) simp
  next
    case (Inr res)
    have refs: "db_refs (snd s)" using db_reachable_ok [OF Cons.prems(2)] by simp
    have ready: "arm_ready expID pp (snd s) (pl_arm st)" using Cons.prems(3) by simp
    note one = run_step_recorded [OF step [unfolded Inr] refs ready]
    have rest: "run_plan os req expID pp (ids @ [res_id res]) sts s1 = (s', r)"
      using Cons.prems(1) step Inr by (simp add: io_bind_def io_err_def)
    have "keeps (\<lambda>s. db_step\<^sup>*\<^sup>* empty_db (snd s)) (run_step os req expID pp st)"
      by (rule keeps_run_step) (rule reachable_step [OF run_write_step])
    from keepsD [OF this, of s] have reach: "db_step\<^sup>*\<^sup>* empty_db (snd s1)" using Cons.prems(2) step by simp
    have "arm_ready expID pp (snd s1) (pl_arm x)" if "x \<in> set sts" for x
      using Cons.prems(3) that by (simp add: arm_ready_cong [OF one(3)])
    from Cons.IH [OF rest reach this] obtain new where new: "outcome_runs r = (ids @ [res_id res]) @ new"
        "length new \<le> length sts" "distinct new" "list_all2 (step_recorded expID (snd s')) (take (length new) sts) new"
        "\<forall>i\<in>set new. GetRun i (snd s1) = None" "\<forall>oc e. r = Inl (oc, e) \<longrightarrow> oc_id oc = expID"
        "\<forall>out. r = Inr out \<longrightarrow> length new = length sts \<and> (\<forall>k. k \<notin> set new \<longrightarrow> GetRun k (snd s') = GetRun k (snd s1))"
      by blast
    obtain row where row: "GetRun (res_id res) (snd s1) = Some row" using one(2) by (auto simp: step_recorded_def)
    have fresh: "res_id res \<notin> set new" using new(5) row by auto
    have later: "GetRun k (snd s') = Some v" if k: "GetRun k (snd s1) = Some v" for k v
    proof -
      have "keeps (\<lambda>s. GetRun k (snd s) = Some v) (run_plan os req expID pp (ids @ [res_id res]) sts)"
        by (rule keeps_plan) (rule GetRun_step [OF run_write_step])
      from keepsD [OF this, of s1] show ?thesis using k rest by simp
    qed
    have arms: "db_arms (snd s') = db_arms (snd s1)"
      using keepsD [OF keeps_plan [of "\<lambda>d. db_arms d = db_arms (snd s1)" os req expID pp "ids @ [res_id res]" sts], of s1] rest
        run_write_arms by simp
    have "step_recorded expID (snd s') st (res_id res)"
      by (rule step_recorded_later [OF one(2) arms]) (rule later)
    moreover have old: "\<forall>i\<in>set new. GetRun i (snd s) = None" using new(5) one(4) fresh by metis
    ultimately show ?thesis
      using new one(1) one(4) fresh by (intro exI [of _ "res_id res # new"]) auto
  qed
qed

section \<open>Properties\<close>

lemma arm_write_runs: "arm_write d d' \<Longrightarrow> db_runs d' = db_runs d"
  unfolding arm_write_def using InsertProfile_frame(1) InsertExperimentArm_Inr(2) by fastforce

lemma keeps_arms_reachable: "keeps (\<lambda>s. db_step\<^sup>*\<^sup>* empty_db (snd s)) (prepare_arms os ob req adapterFor expID created arms pp)"
  by (rule keeps_arms) (rule reachable_step [OF arm_write_step])

lemma keeps_arms_runs: "keeps (\<lambda>s. db_runs (snd s) = rs) (prepare_arms os ob req adapterFor expID created arms pp)"
  by (rule keeps_arms) (simp add: arm_write_runs)

definition exp_plan :: "'s exp_request \<Rightarrow> plan_step list" where
  "exp_plan req = (case xr_suite req of None \<Rightarrow> []
     | Some s \<Rightarrow> BuildPlan (exp_tasks s (xr_tasks req)) (xr_arms req) (nat (at_least_one (xr_repeat req))))"

definition error_free :: "'e + 'a \<Rightarrow> bool" where
  "error_free r = (case r of Inl _ \<Rightarrow> False | Inr _ \<Rightarrow> True)"

definition outcome_of :: "outcome \<times> exp_error + outcome \<Rightarrow> outcome" where
  "outcome_of r = (case r of Inl (oc, _) \<Rightarrow> oc | Inr oc \<Rightarrow> oc)"

text \<open>The runs of an outcome are the rows of the first steps of the plan; of all of them when nothing failed.\<close>

definition outcome_recorded :: "'s exp_request \<Rightarrow> db \<Rightarrow> db \<Rightarrow> outcome \<Rightarrow> bool" where
  "outcome_recorded req d d' oc \<longleftrightarrow>
     length (oc_runs oc) \<le> length (exp_plan req) \<and> distinct (oc_runs oc) \<and>
     list_all2 (step_recorded (oc_id oc) d') (take (length (oc_runs oc)) (exp_plan req)) (oc_runs oc) \<and>
     (\<forall>i\<in>set (oc_runs oc). GetRun i d = None)"

lemma outcome_none: "oc_runs oc = [] \<Longrightarrow> outcome_recorded req d d' oc"
  by (simp add: outcome_recorded_def)

lemma execute_recorded:
  assumes "execute os ob req s adapterFor baseline (m, d) = ((m', d'), r)" "xr_suite req = Some s" "db_step\<^sup>*\<^sup>* empty_db d"
    and uuid: "names_runs os"
  shows "outcome_recorded req d d' (outcome_of r) \<and>
    (error_free r \<longrightarrow> length (oc_runs (outcome_of r)) = length (exp_plan req) \<and>
       (\<forall>k. k \<notin> set (oc_runs (outcome_of r)) \<longrightarrow> GetRun k d' = GetRun k d))"
proof -
  let ?tasks = "exp_tasks s (xr_tasks req)" and ?n = "at_least_one (xr_repeat req)"
  obtain m1 u where u: "os_uuid os m = (m1, u)" by (rule prod.exhaust)
  show ?thesis
  proof (cases u)
    case None
    then have "outcome_of r = no_outcome" "\<not> error_free r"
      using assms(1) u by (auto simp: execute_def Let_def io_bind_def io_get_def io_fail_def outcome_of_def error_free_def)
    then show ?thesis by (simp add: outcome_none no_outcome_def)
  next
    case (Some expID)
    let ?row = "experiment_row_of os expID s (os_now os m1) (experiment_spec s ?tasks (xr_arms req) baseline ?n)"
    obtain d1 where d1: "InsertExperiment (os_now os m1) ?row d = Inr d1"
      unfolding InsertExperiment_cases by (metis (no_types))
    have reach1: "db_step\<^sup>*\<^sup>* empty_db d1" by (rule reachable_step [OF write_experiment [OF d1] assms(3)])
    have runs1: "db_runs d1 = db_runs d" using d1 by (auto simp: InsertExperiment_def split: if_splits)
    let ?prepare = "prepare_arms os ob req adapterFor expID (os_now os m1) (xr_arms req) \<lparr>pp_profiles = [], pp_arms = [], pp_adapters = []\<rparr>"
    obtain s2 r2 where prep: "?prepare (m1, d1) = (s2, r2)" by (rule prod.exhaust)
    note pre = u Some d1 prep
    have d2: "db_runs (snd s2) = db_runs d" "db_step\<^sup>*\<^sup>* empty_db (snd s2)"
      using keepsD [OF keeps_arms_runs, of "(m1, d1)"] keepsD [OF keeps_arms_reachable, of "(m1, d1)"] prep reach1 runs1
      by (metis fst_conv snd_conv)+
    show ?thesis
    proof (cases r2)
      case (Inl e)
      then have "outcome_of r = \<lparr>oc_id = expID, oc_runs = []\<rparr>" "\<not> error_free r"
        using assms(1) pre
        by (auto simp: execute_def Let_def io_bind_def io_then_def io_get_def io_look_def io_db_def io_err_def outcome_of_def error_free_def)
      then show ?thesis by (simp add: outcome_none)
    next
      case (Inr pp)
      obtain s3 r3 where plan: "run_plan os req expID pp [] (BuildPlan ?tasks (xr_arms req) (nat ?n)) s2 = (s3, r3)" by (rule prod.exhaust)
      have r: "s3 = (m', d')" "r = (case r3 of Inl x \<Rightarrow> Inl x | Inr ids \<Rightarrow> Inr \<lparr>oc_id = expID, oc_runs = ids\<rparr>)"
        using assms(1) pre Inr plan
        by (auto simp: execute_def Let_def io_bind_def io_then_def io_get_def io_look_def io_db_def io_err_def io_return_def split: sum.splits)
      have plan_is: "BuildPlan ?tasks (xr_arms req) (nat ?n) = exp_plan req" by (simp add: exp_plan_def assms(2))
      have "arm_ready expID pp (snd s2) (pl_arm st)" if "st \<in> set (exp_plan req)" for st
      proof -
        have "pl_arm st \<in> set (xr_arms req)" using that unfolding plan_is [symmetric] BuildPlan_def by auto
        then show ?thesis using prepare_arms_ready [OF prep [unfolded Inr] uuid] by blast
      qed
      from run_plan_recorded [OF plan [unfolded plan_is] d2(2) this] obtain new where new:
        "outcome_runs r3 = new" "length new \<le> length (exp_plan req)" "distinct new"
        "list_all2 (step_recorded expID (snd s3)) (take (length new) (exp_plan req)) new"
        "\<forall>i\<in>set new. GetRun i (snd s2) = None" "\<forall>oc e. r3 = Inl (oc, e) \<longrightarrow> oc_id oc = expID"
        "\<forall>out. r3 = Inr out \<longrightarrow> length new = length (exp_plan req) \<and> (\<forall>k. k \<notin> set new \<longrightarrow> GetRun k (snd s3) = GetRun k (snd s2))"
        by auto
      have "oc_runs (outcome_of r) = new" "oc_id (outcome_of r) = expID" "error_free r = error_free r3"
        using new(1,6) unfolding r(2) outcome_runs_def outcome_of_def error_free_def by (auto split: sum.splits)
      moreover have "GetRun k (snd s2) = GetRun k d" for k by (rule GetRun_db_runs [OF d2(1)])
      moreover have "error_free r3 \<Longrightarrow> \<exists>out. r3 = Inr out" by (cases r3) (simp_all add: error_free_def)
      ultimately show ?thesis using new(2-5,7) r(1) unfolding outcome_recorded_def by auto
    qed
  qed
qed

text \<open>C1: 
  An experiment that ends has run its whole plan: the run ids are those of the plan's steps in their order,
  all different and new, and each is the row of its step - task, repeat, experiment, and the arm row with the
  label, the overlay and the profile hash it ran under; no other run was written.
\<close>

theorem RunExperiment_complete:
  assumes "RunExperiment os ob req (m, d) = ((m', d'), Inr oc)" "db_step\<^sup>*\<^sup>* empty_db d"
    "names_runs os"
  shows "distinct (oc_runs oc) \<and> list_all2 (step_recorded (oc_id oc) d') (exp_plan req) (oc_runs oc) \<and>
    (\<forall>i\<in>set (oc_runs oc). GetRun i d = None) \<and> (\<forall>k. k \<notin> set (oc_runs oc) \<longrightarrow> GetRun k d' = GetRun k d)"
proof -
  from assms(1) obtain s adapterFor baseline where run: "execute os ob req s adapterFor baseline (m, d) = ((m', d'), Inr oc)" "xr_suite req = Some s"
    by (auto simp: RunExperiment_def io_simps Let_def split: option.splits if_splits)
  from execute_recorded [OF this assms(2,3)] show ?thesis
    by (auto simp: outcome_recorded_def outcome_of_def error_free_def)
qed


section \<open>A sample experiment\<close>

text \<open>A machine that gives out \<open>limit\<close> identifiers and whose agent never starts: every run is recorded as an error.\<close>

definition exp_machine :: "nat \<Rightarrow> nat os" where
  "exp_machine limit = idle_os\<lparr>os_stat := (\<lambda>p s. Directory),
     os_uuid := (\<lambda>n. (Suc n, if n < limit then Some (replicate (Suc n) (CHR ''u'')) else None)),
     os_git := (\<lambda>env dir args s. (s, Some (replicate 40 (CHR ''a''))))\<rparr>"

lemma exp_machine_simps [simp]:
  "os_stat (exp_machine k) p n = Directory" "os_mkdir (exp_machine k) p n = (n, True)" "os_write (exp_machine k) p x n = (n, True)"
  "os_uuid (exp_machine k) n = (Suc n, if n < k then Some (replicate (Suc n) (CHR ''u'')) else None)"
  "os_git (exp_machine k) e dir args n = (n, Some (replicate 40 (CHR ''a'')))" "os_now (exp_machine k) n = ''2026-01-01T00:00:00Z''"
  "os_elapsed (exp_machine k) n = 0" "os_start (exp_machine k) q n = (n, Inl ''none'')"
  by (simp_all add: exp_machine_def idle_os_def)

lemma exp_fixture:
  assumes "c \<noteq> []" "isLowerHex64 h"
  shows "MaterializeFixture (exp_machine k) c fixture h (n, d)
    = ((n, d), Inr \<lparr>bl_repo = filepath_join [c, ''fixtures'', h], bl_sha = replicate 40 (CHR ''a'')\<rparr>)"
proof -
  have found: "exists (exp_machine k) p n" for p n by (simp add: exists_def)
  have "baselineSHA (exp_machine k) repo (n, d) = ((n, d), Inr (Some (replicate 40 (CHR ''a''))))" for repo
    by (simp add: baselineSHA_def io_bind_def io_look_def io_get_def io_return_def found hex_sha)
  then show ?thesis using assms by (simp add: MaterializeFixture_def Let_def io_bind_def io_return_def)
qed

lemma exp_worktree:
  assumes "bl_repo b \<noteq> []" "bl_sha b \<noteq> []" "wt \<noteq> []"
  shows "CreateWorktree (exp_machine k) b wt (n, d) = ((n, d), Inr ())"
    "fst (release_worktree (exp_machine k) req b wt (n, d)) = (n, d)"
  using assms
  by (simp_all add: CreateWorktree_def RemoveWorktree_def release_worktree_def validateBaseline_def runGit_def
      io_then_def io_bind_def io_lift_def io_try_def io_get_def io_look_def io_return_def io_err_def split: prod.splits)

text \<open>The rows a run refers to, and an insert that succeeds when they are there.\<close>

definition run_refs :: "request \<Rightarrow> profile \<Rightarrow> string \<Rightarrow> db \<Rightarrow> bool" where
  "run_refs req p i d \<longleftrightarrow> GetRun i d = None \<and> pf_id p \<in> pr_id ` set (db_profiles d) \<and>
     (req_experiment req = [] \<or> req_experiment req \<in> ex_id ` set (db_experiments d)) \<and>
     (req_arm req = [] \<or> req_arm req \<in> am_id ` set (db_arms d)) \<and>
     s_hash (the (req_suite req)) \<in> su_id ` set (db_suites d)"

lemma exp_persist:
  assumes "run_refs req p (res_id r) d" "req_suite req = Some su"
  shows "\<exists>d'. persist_run os req su t p r b started finished [] [] (m, d) = ((m, d'), Inr ())"
proof -
  have ex: "(\<exists>x\<in>set xs. f x = v) \<longleftrightarrow> v \<in> f ` set xs" for f v and xs :: "'x list" by (auto intro: rev_image_eqI)
  let ?now = "os_now os m" and ?row = "run_row_of os req su t p r b started finished"
  have su: "\<exists>x\<in>set (db_suites d). su_id x = s_hash su" using assms unfolding run_refs_def ex by simp
  then have 1: "InsertSuite ?now (suite_row_of os su started) d = Inr d"
    unfolding InsertSuite_def by (intro if_P) (auto simp: suite_row_of_def)
  have task: "ta_suite (task_row_of os su t b) = s_hash su" by (simp add: task_row_of_def)
  have "\<exists>ts. InsertTask (task_row_of os su t b) d = Inr (d\<lparr>db_tasks := ts\<rparr>)"
    unfolding InsertTask_def task using su by (cases "\<exists>x\<in>set (db_tasks d). ta_suite x = s_hash su \<and>
        ta_task x = ta_task (task_row_of os su t b) \<and> ta_version x = ta_version (task_row_of os su t b)")
      (simp_all only: if_True if_False not_True_eq_False, auto intro: exI [of _ "db_tasks d"])
  then obtain ts where 2: "InsertTask (task_row_of os su t b) d = Inr (d\<lparr>db_tasks := ts\<rparr>)" by blast
  have cols: "rq_experiment (run_params ?now ?row) = nullString (req_experiment req)" "rq_arm (run_params ?now ?row) = OptionalString (req_arm req)"
      "rq_profile (run_params ?now ?row) = pf_id p" "rq_suite (run_params ?now ?row) = nullString (s_hash su)" "rq_id (run_params ?now ?row) = res_id r"
    by (simp_all add: run_params_def run_row_of_def)
  have fresh: "res_id r \<notin> rq_id ` set (db_runs d)" using assms(1) unfolding run_refs_def GetRun_None by auto
  have refs: "\<not> (\<exists>e. nullString (req_experiment req) = Some e \<and> e \<notin> ex_id ` set (db_experiments d))"
    "\<not> (\<exists>a. OptionalString (req_arm req) = Some a \<and> a \<notin> am_id ` set (db_arms d))"
    "\<not> (\<exists>u. nullString (s_hash su) = Some u \<and> u \<notin> su_id ` set (db_suites d))" "pf_id p \<in> pr_id ` set (db_profiles d)"
    using assms unfolding run_refs_def nullString_def OptionalString_def by auto
  obtain d3 where 3: "InsertRun ?now ?row (d\<lparr>db_tasks := ts\<rparr>) = Inr d3"
    using fresh refs unfolding InsertRun_def Let_def cols ex by simp
  show ?thesis
    by (rule exI [of _ d3])
      (simp add: persist_run_def io_store_def io_then_def io_bind_def io_look_def io_db_def 1 2 3 InsertRunMetrics_def
        InsertRunValidations_def)
qed

lemma exp_writes:
  "writeResult (exp_machine k) dir req su t p r b started finished (n, d) = ((n, d), Inr ())"
  "s_fs su = None \<Longrightarrow> copySuiteInputs (exp_machine k) dir su t (n, d) = ((n, d), Inr ())"
  by (simp_all add: writeResult_def writeJSON_def copySuiteInputs_def io_then_def io_bind_def io_try_def io_look_def io_return_def)

lemma exp_run:
  assumes "n < k" "req_suite req = Some su" "s_fs su = None" "req_task req = Some t" "t_fixture_hash t = replicate 64 (CHR ''0'')"
    "req_profile req = Some p" "pf_id p \<noteq> []" "\<not> req_dry req" "req_cache req \<noteq> []" "req_runs req \<noteq> []"
    "run_refs req p (replicate (Suc n) (CHR ''u'')) d"
  shows "\<exists>d' r. Run (exp_machine k) req (n, d) = ((Suc n, d'), Inr r) \<and> res_id r = replicate (Suc n) (CHR ''u'')"
proof -
  let ?id = "replicate (Suc n) (CHR ''u'')"
  define b where "b = \<lparr>bl_repo = filepath_join [req_cache req, ''fixtures'', replicate 64 (CHR ''0'')], bl_sha = replicate 40 (CHR ''a'')\<rparr>"
  define dir where "dir = filepath_join [req_runs req, ?id]"
  define wt where "wt = filepath_join [dir, ''worktree'']"
  have hex: "isLowerHex64 (replicate 64 (CHR ''0''))" by (simp add: isLowerHex64_def)
  have ne: "bl_repo b \<noteq> []" "bl_sha b \<noteq> []" "wt \<noteq> []"
    unfolding b_def wt_def using assms(9) by (simp_all add: filepath_join_nonempty)
  let ?r = "(new_result_of ?id t dir)\<lparr>res_status := ''error'', res_error := ''none'', res_metrics := [], res_duration := 0\<rparr>"
  have refs: "run_refs req p (res_id ?r) d" using assms(11) by (simp add: new_result_of_def)
  from exp_persist [OF refs assms(2), of "exp_machine k" t b _ _ "Suc n"]
  obtain d' where d': "persist_run (exp_machine k) req su t p ?r b ''2026-01-01T00:00:00Z'' ''2026-01-01T00:00:00Z'' [] [] (Suc n, d)
      = ((Suc n, d'), Inr ())"
    by blast
  have "in_worktree (exp_machine k) req su t p (new_result_of ?id t dir) b dir wt ''2026-01-01T00:00:00Z'' (Suc n, d) = ((Suc n, d'), Inr ?r)"
    using d' assms(3,8)
    by (simp add: in_worktree_def start_failed_def Let_def io_then_def io_bind_def io_get_def io_look_def io_return_def exp_writes)
  then have "Run (exp_machine k) req (n, d) = ((Suc n, d'), Inr ?r)"
    using assms(1-10) exp_fixture [of "req_cache req" "replicate 64 (CHR ''0'')", folded b_def] hex exp_worktree [OF ne]
    by (simp add: Run_def Let_def io_bind_def io_look_def io_get_def io_then_def io_try_def io_err_def io_defer_def
        dir_def [symmetric] wt_def [symmetric] del: replicate_Suc split: prod.splits)
  then show ?thesis by (auto simp: new_result_of_def)
qed

definition exp_world :: world where
  "exp_world = \<lparr>w_sha = (\<lambda>_. ''h''), w_digest = id, w_num = (\<lambda>_. []), w_parse = (\<lambda>_. None), w_disk = (\<lambda>_. None)\<rparr>"

definition exp_observer :: "nat observer" where
  "exp_observer = \<lparr>ob_world = (\<lambda>_. exp_world), ob_read = (\<lambda>_ _. NotExist), ob_home = (\<lambda>_. Some []), ob_cwd = (\<lambda>_. Some ''/'')\<rparr>"

definition exp_adapter :: "nat arm_adapter" where
  "exp_adapter = \<lparr>aa_observe = (\<lambda>_. \<lparr>ad_version = Inr ''1'', ad_config = (\<lambda>_. Inr []), ad_skills = (\<lambda>_. Inr []), ad_agent = (\<lambda>_ _. Inl ''none'')\<rparr>),
     aa_start = (\<lambda>_ n. (n, Inl ''none'')), aa_export = (\<lambda>_ _. Inl ''none'')\<rparr>"

definition exp_options :: options where
  "exp_options = \<lparr>op_dir = [], op_agent = [], op_model = [], op_variant = [], op_sandbox = [], op_auto = False, op_pure = False, op_env_names = []\<rparr>"

definition exp_suite :: suite where
  "exp_suite = \<lparr>s_name = ''s'', s_version = ''1'', s_description = [], s_tier = [], s_timeout = 0, s_dir = [], s_fs = None,
     s_tasks = [zero_task\<lparr>t_id := ''t'', t_fixture_hash := replicate 64 (CHR ''0'')\<rparr>], s_hash = ''h''\<rparr>"

definition exp_request :: "nat exp_request" where
  "exp_request = \<lparr>xr_suite = Some exp_suite, xr_tasks = [],
     xr_arms = [\<lparr>al_label = ''a'', al_overlay = no_overlay\<rparr>, \<lparr>al_label = ''b'', al_overlay = no_overlay\<rparr>], xr_baseline = [],
     xr_runs = ''/r'', xr_cache = ''/c'', xr_profiles = ''/p'', xr_options = exp_options, xr_adapter = Some (\<lambda>_. Some exp_adapter),
     xr_policy = \<lparr>ep_inherit = False, ep_pass = []\<rparr>, xr_repeat = 0, xr_keep = False\<rparr>"

definition exp_db :: db where
  "exp_db = sample_db\<lparr>db_suites := [\<lparr>su_id = ''h'', su_name = ''s'', su_version = ''1'', su_hash = ''h'', su_source = [],
     su_manifest = [], su_created = ''0''\<rparr>]\<rparr>"

lemma exp_db_reachable: "db_step\<^sup>*\<^sup>* empty_db exp_db"
proof -
  let ?p = "\<lparr>pr_id = ''p'', pr_hash = ''h'', pr_opencode = [], pr_ocbench = [], pr_json = [], pr_created = ''0''\<rparr>"
    and ?s = "\<lparr>su_id = ''h'', su_name = ''s'', su_version = ''1'', su_hash = ''h'', su_source = [], su_manifest = [], su_created = ''0''\<rparr>"
  have "InsertProfile ''0'' ?p [] empty_db = Inr sample_db"
    by (simp add: InsertProfile_def sample_db_def empty_db_def rfc3339UTC_def)
  moreover have "InsertSuite ''0'' ?s sample_db = Inr exp_db"
    by (simp add: InsertSuite_def exp_db_def sample_db_def empty_db_def rfc3339UTC_def)
  ultimately show ?thesis
    by (meson db_step.intros rtranclp.rtrancl_refl rtranclp.rtrancl_into_rtrancl)
qed

lemma exp_found:
  "arm_sources (exp_machine k) exp_observer exp_adapter (exp_options\<lparr>op_dir := ''/''\<rparr>) n
     = Some (Inr \<lparr>so_version = ''1'', so_config = [], so_skills = [], so_agents = [], so_instructions = [], so_paths = [],
         so_dir = ''/'', so_home = []\<rparr>)"
proof -
  have "find_up (\<lambda>_. NotExist) ''/'' = Some (Inr None)"
    using find_up_nearest [of "[]" "\<lambda>_. NotExist"] by (simp add: proper_def abs_path_def nearest_def ancestors_def)
  then show ?thesis
    by (simp add: arm_sources_def exp_observer_def exp_adapter_def exp_options_def Discover_def observe_adapter_def adapter_call_def
        agentNames_def readInstructions_def global_instructions_def put_scope_def exp_machine_def idle_os_def)
qed

lemma exp_profile:
  assumes "GetProfileByHash ''h'' d = Some (row, comps)" "pr_id row = ''p''"
  shows "\<exists>p. arm_profile (exp_machine k) exp_observer exp_request arm exp_adapter (n, d) = ((n, d), Inr p) \<and> pf_id p = ''p''"
proof -
  obtain p where p: "Fingerprint exp_world \<lparr>so_version = ''1'', so_config = [], so_skills = [], so_agents = [], so_instructions = [],
      so_paths = [], so_dir = ''/'', so_home = []\<rparr> (exp_options\<lparr>op_dir := ''/''\<rparr>) = Some p" "pf_hash p = ''h''" "pf_id p = []"
    unfolding Fingerprint_def by (simp add: decodeConfig_def Let_def Hash_def exp_world_def)
  have files: "io_all (\<lambda>f. io_try (os_write (exp_machine k) (g f) (snd f)) WriteFailed) fs (n, d) = ((n, d), Inr ())" for fs and g :: "string \<times> string \<Rightarrow> string"
    by (induction fs) (simp_all add: io_then_def io_bind_def io_try_def io_return_def)
  have "store_captures (exp_machine k) ''/p'' q (n, d) = ((n, d), Inr ())" for q
    by (simp add: store_captures_def Let_def io_then_def io_bind_def io_try_def io_return_def files)
  then have "store_profile (exp_machine k) ''/p'' p (n, d) = ((n, d), Inr (p\<lparr>pf_id := ''p''\<rparr>))"
    using assms p(2,3) by (simp add: store_profile_def known_profile_def Let_def io_then_def io_bind_def io_return_def)
  then show ?thesis
    using p(1) exp_found
    by (simp add: arm_profile_def working_options_def exp_request_def io_bind_def io_look_def io_return_def io_err_def exp_observer_def
        exp_options_def) 
qed

lemma exp_arm:
  assumes "n < k" "\<exists>row comps. GetProfileByHash ''h'' d = Some (row, comps) \<and> pr_id row = ''p''" "''p'' \<in> pr_id ` set (db_profiles d)"
    "\<forall>x\<in>set (db_arms d). am_id x \<noteq> replicate (Suc n) (CHR ''u'') \<and> am_label x \<noteq> al_label arm" "e \<in> ex_id ` set (db_experiments d)"
    "i = replicate (Suc n) (CHR ''u'')" "n' = Suc n"
  shows "\<exists>p a. prepare_arm (exp_machine k) exp_observer exp_request (\<lambda>_. Some exp_adapter) e created arm pp (n, d)
      = ((n', d\<lparr>db_arms := db_arms d @ [a]\<rparr>), Inr \<lparr>pp_profiles = put (al_label arm) p (pp_profiles pp),
          pp_arms = put (al_label arm) i (pp_arms pp), pp_adapters = put (al_label arm) exp_adapter (pp_adapters pp)\<rparr>) \<and>
      pf_id p = ''p'' \<and> am_id a = i \<and> am_label a = al_label arm"
proof -
  let ?i = "replicate (Suc n) (CHR ''u'')"
  note eqs = assms(6,7)
  obtain p where p: "arm_profile (exp_machine k) exp_observer exp_request arm exp_adapter (n, d) = ((n, d), Inr p)" "pf_id p = ''p''"
    using assms(2) exp_profile by blast
  define a where "a = arm_row_of e created ?i arm p"
  have ex: "\<exists>x\<in>set (db_experiments d). ex_id x = e" "\<exists>x\<in>set (db_profiles d). pr_id x = ''p''" using assms(3,5) by auto
  have "InsertExperimentArm now a d = Inr (d\<lparr>db_arms := db_arms d @ [a\<lparr>am_created := rfc3339UTC now created\<rparr>]\<rparr>)" for now
    using assms(4) ex p(2) unfolding InsertExperimentArm_def by (simp add: a_def arm_row_of_def OptionalString_def)
  then show ?thesis
    unfolding eqs using p assms(1)
    by (intro exI [of _ p] exI [of _ "a\<lparr>am_created := rfc3339UTC ''2026-01-01T00:00:00Z'' created\<rparr>"])
      (simp add: prepare_arm_def io_bind_def io_get_def io_then_def io_look_def io_db_def io_return_def a_def [symmetric] del: replicate_Suc,
       simp add: a_def arm_row_of_def)
qed

lemma exp_step:
  assumes "n < k" "map_of (pp_profiles pp) (al_label (pl_arm st)) = Some p" "pf_id p = ''p''"
    "map_of (pp_arms pp) (al_label (pl_arm st)) = Some i" "map_of (pp_adapters pp) (al_label (pl_arm st)) = Some exp_adapter"
    "''p'' \<in> pr_id ` set (db_profiles d)" "e \<in> ex_id ` set (db_experiments d)" "i \<in> am_id ` set (db_arms d)" "''h'' \<in> su_id ` set (db_suites d)"
    "t_fixture_hash (pl_task st) = replicate 64 (CHR ''0'')" "GetRun (replicate (Suc n) (CHR ''u'')) d = None" "db_refs d"
  shows "\<exists>d' r. run_step (exp_machine k) exp_request e pp st (n, d) = ((Suc n, d'), Inr r) \<and> res_id r = replicate (Suc n) (CHR ''u'') \<and>
    db_profiles d' = db_profiles d \<and> db_experiments d' = db_experiments d \<and> db_arms d' = db_arms d \<and>
    ''h'' \<in> su_id ` set (db_suites d') \<and> (\<forall>j. j \<noteq> res_id r \<longrightarrow> GetRun j d' = GetRun j d)"
proof -
  let ?req = "step_request exp_request e pp st"
  have "arm_machine (exp_machine k) exp_adapter = exp_machine k"
    by (simp add: arm_machine_def exp_machine_def idle_os_def exp_adapter_def)
  then have step: "run_step (exp_machine k) exp_request e pp st = Run (exp_machine k) ?req" by (simp add: run_step_def assms(5))
  have req: "req_suite ?req = Some exp_suite" "req_task ?req = Some (pl_task st)" "req_profile ?req = Some p" "req_experiment ?req = e"
      "req_arm ?req = i" "\<not> req_dry ?req" "req_cache ?req \<noteq> []" "req_runs ?req \<noteq> []" "s_fs exp_suite = None" "s_hash exp_suite = ''h''"
    using assms(2,4) by (simp_all add: step_request_def Let_def exp_request_def exp_suite_def)
  have refs: "run_refs ?req p (replicate (Suc n) (CHR ''u'')) d" using assms(3,6-9,11) by (simp add: run_refs_def req)
  obtain d' r where run: "Run (exp_machine k) ?req (n, d) = ((Suc n, d'), Inr r)" "res_id r = replicate (Suc n) (CHR ''u'')"
    using exp_run [OF assms(1) req(1,9,2) assms(10) req(3) _ req(6-8) refs] assms(3) by auto
  have "keeps (\<lambda>s. ''h'' \<in> su_id ` set (db_suites (snd s))) (Run (exp_machine k) ?req)"
    by (rule keeps_Run)
      (auto simp: run_write_def InsertSuite_def InsertTask_def InsertRunMetrics_def InsertRunValidations_def dest!: InsertRun_Inr(1) split: if_splits)
  from keepsD [OF this, of "(n, d)"] have "''h'' \<in> su_id ` set (db_suites d')" using run(1) assms(9) by simp
  moreover from keepsD [OF keeps_Run_arms [of "db_arms d" "db_experiments d" "db_profiles d" "exp_machine k" ?req], of "(n, d)"] run(1)
  have "db_arms d' = db_arms d \<and> db_experiments d' = db_experiments d \<and> db_profiles d' = db_profiles d" by simp
  moreover have "\<forall>j. j \<noteq> res_id r \<longrightarrow> GetRun j d' = GetRun j d"
    using Run_records [OF run(1) assms(12)] unfolding recorded_def by blast
  ultimately show ?thesis unfolding step using run by blast
qed

text \<open>The state of the sample after its two arms, and what its first run makes of it.\<close>

definition exp_ready :: "nat prepared \<Rightarrow> db \<Rightarrow> bool" where
  "exp_ready pp d \<longleftrightarrow>
     (\<forall>st\<in>set (exp_plan exp_request). \<exists>p i. map_of (pp_profiles pp) (al_label (pl_arm st)) = Some p \<and> pf_id p = ''p'' \<and>
        map_of (pp_arms pp) (al_label (pl_arm st)) = Some i \<and> map_of (pp_adapters pp) (al_label (pl_arm st)) = Some exp_adapter \<and>
        i \<in> am_id ` set (db_arms d) \<and> t_fixture_hash (pl_task st) = replicate 64 (CHR ''0'')) \<and>
     ''p'' \<in> pr_id ` set (db_profiles d) \<and> ''u'' \<in> ex_id ` set (db_experiments d) \<and> ''h'' \<in> su_id ` set (db_suites d)"

lemma exp_plan_sample:
  "exp_plan exp_request = [\<lparr>pl_task = hd (s_tasks exp_suite), pl_arm = \<lparr>al_label = ''a'', al_overlay = no_overlay\<rparr>, pl_repeat = 0\<rparr>,
     \<lparr>pl_task = hd (s_tasks exp_suite), pl_arm = \<lparr>al_label = ''b'', al_overlay = no_overlay\<rparr>, pl_repeat = 0\<rparr>]"
  by (simp add: exp_plan_def exp_request_def exp_suite_def exp_tasks_def BuildPlan_def at_least_one_def)

lemma exp_prepared:
  assumes "3 < k"
  shows "\<exists>d1 pp d. InsertExperiment ''2026-01-01T00:00:00Z'' (experiment_row_of (exp_machine k) ''u'' exp_suite created spec) exp_db = Inr d1 \<and>
     prepare_arms (exp_machine k) exp_observer exp_request (\<lambda>_. Some exp_adapter) ''u'' created (xr_arms exp_request)
       \<lparr>pp_profiles = [], pp_arms = [], pp_adapters = []\<rparr> (1, d1) = ((3, d), Inr pp) \<and> exp_ready pp d \<and> db_runs d = []"
proof -
  let ?e = "(experiment_row_of (exp_machine k) ''u'' exp_suite created spec)\<lparr>ex_created := rfc3339UTC ''2026-01-01T00:00:00Z'' created\<rparr>"
    and ?a = "\<lparr>al_label = ''a'', al_overlay = no_overlay\<rparr>" and ?b = "\<lparr>al_label = ''b'', al_overlay = no_overlay\<rparr>"
  define d1 where "d1 = exp_db\<lparr>db_experiments := [?e]\<rparr>"
  have ins: "InsertExperiment ''2026-01-01T00:00:00Z'' (experiment_row_of (exp_machine k) ''u'' exp_suite created spec) exp_db = Inr d1"
    by (simp add: InsertExperiment_def d1_def exp_db_def sample_db_def empty_db_def experiment_row_of_def)
  have d1: "db_arms d1 = []" "ex_id ` set (db_experiments d1) = {''u''}" "pr_id ` set (db_profiles d1) = {''p''}"
      "su_id ` set (db_suites d1) = {''h''}" "db_runs d1 = []"
    by (simp_all add: d1_def exp_db_def sample_db_def empty_db_def experiment_row_of_def)
  have got1: "\<exists>row comps. GetProfileByHash ''h'' d1 = Some (row, comps) \<and> pr_id row = ''p''"
    by (simp add: GetProfileByHash_def with_components_def d1_def exp_db_def sample_db_def)
  have got: "\<exists>row comps. GetProfileByHash ''h'' (d1\<lparr>db_arms := arms\<rparr>) = Some (row, comps) \<and> pr_id row = ''p''" for arms
    by (simp add: GetProfileByHash_def with_components_def d1_def exp_db_def sample_db_def)
  let ?pp0 = "\<lparr>pp_profiles = [], pp_arms = [], pp_adapters = []\<rparr> :: nat prepared"
  have "\<exists>p a. prepare_arm (exp_machine k) exp_observer exp_request (\<lambda>_. Some exp_adapter) ''u'' created ?a ?pp0 (1, d1)
      = ((2, d1\<lparr>db_arms := db_arms d1 @ [a]\<rparr>), Inr \<lparr>pp_profiles = put (al_label ?a) p (pp_profiles ?pp0),
           pp_arms = put (al_label ?a) ''uu'' (pp_arms ?pp0), pp_adapters = put (al_label ?a) exp_adapter (pp_adapters ?pp0)\<rparr>) \<and>
      pf_id p = ''p'' \<and> am_id a = ''uu'' \<and> am_label a = al_label ?a"
    using got1 by (intro exp_arm) (use assms d1 in \<open>simp_all add: numeral_eq_Suc\<close>)
  then obtain p a where a: "prepare_arm (exp_machine k) exp_observer exp_request (\<lambda>_. Some exp_adapter) ''u'' created ?a ?pp0 (1, d1)
      = ((2, d1\<lparr>db_arms := [a]\<rparr>), Inr \<lparr>pp_profiles = [(''a'', p)], pp_arms = [(''a'', ''uu'')], pp_adapters = [(''a'', exp_adapter)]\<rparr>)"
      "pf_id p = ''p''" "am_id a = ''uu''" "am_label a = ''a''"
    unfolding d1(1) by (simp add: go_map) blast
  let ?d2 = "d1\<lparr>db_arms := [a]\<rparr>"
    and ?pp1 = "\<lparr>pp_profiles = [(''a'', p)], pp_arms = [(''a'', ''uu'')], pp_adapters = [(''a'', exp_adapter)]\<rparr>"
  have "\<exists>p a. prepare_arm (exp_machine k) exp_observer exp_request (\<lambda>_. Some exp_adapter) ''u'' created ?b ?pp1 (2, ?d2)
      = ((3, ?d2\<lparr>db_arms := db_arms ?d2 @ [a]\<rparr>), Inr \<lparr>pp_profiles = put (al_label ?b) p (pp_profiles ?pp1),
           pp_arms = put (al_label ?b) ''uuu'' (pp_arms ?pp1), pp_adapters = put (al_label ?b) exp_adapter (pp_adapters ?pp1)\<rparr>) \<and>
      pf_id p = ''p'' \<and> am_id a = ''uuu'' \<and> am_label a = al_label ?b"
    using got [of "[a]"] by (intro exp_arm) (use assms d1 a(3,4) in \<open>simp_all add: numeral_eq_Suc\<close>)
  then obtain q b where b: "prepare_arm (exp_machine k) exp_observer exp_request (\<lambda>_. Some exp_adapter) ''u'' created ?b ?pp1 (2, ?d2)
      = ((3, d1\<lparr>db_arms := [a, b]\<rparr>), Inr \<lparr>pp_profiles = [(''a'', p), (''b'', q)], pp_arms = [(''a'', ''uu''), (''b'', ''uuu'')],
           pp_adapters = [(''a'', exp_adapter), (''b'', exp_adapter)]\<rparr>)"
      "pf_id q = ''p''" "am_id b = ''uuu''"
    by (simp add: go_map) blast
  have arms: "xr_arms exp_request = [?a, ?b]" by (simp add: exp_request_def)
  have "exp_ready \<lparr>pp_profiles = [(''a'', p), (''b'', q)], pp_arms = [(''a'', ''uu''), (''b'', ''uuu'')],
      pp_adapters = [(''a'', exp_adapter), (''b'', exp_adapter)]\<rparr> (d1\<lparr>db_arms := [a, b]\<rparr>)"
    using a b d1 by (simp add: exp_ready_def exp_plan_sample exp_suite_def)
  then show ?thesis using ins a(1) b(1) d1(5) unfolding arms
    by (intro exI conjI) (assumption | simp add: io_bind_def io_return_def)+
qed

lemma exp_ready_step:
  assumes "exp_ready pp d" "st \<in> set (exp_plan exp_request)" "db_step\<^sup>*\<^sup>* empty_db d" "n < k" "i = replicate (Suc n) (CHR ''u'')" "n' = Suc n"
    "GetRun i d = None"
  shows "\<exists>d' r. run_step (exp_machine k) exp_request ''u'' pp st (n, d) = ((n', d'), Inr r) \<and> res_id r = i \<and> exp_ready pp d' \<and>
    db_step\<^sup>*\<^sup>* empty_db d' \<and> (\<forall>j. j \<noteq> i \<longrightarrow> GetRun j d' = GetRun j d)"
proof -
  obtain p a where pp: "map_of (pp_profiles pp) (al_label (pl_arm st)) = Some p" "pf_id p = ''p''"
      "map_of (pp_arms pp) (al_label (pl_arm st)) = Some a" "map_of (pp_adapters pp) (al_label (pl_arm st)) = Some exp_adapter"
      "a \<in> am_id ` set (db_arms d)" "t_fixture_hash (pl_task st) = replicate 64 (CHR ''0'')"
    using assms(1,2) unfolding exp_ready_def by blast
  have tables: "''p'' \<in> pr_id ` set (db_profiles d)" "''u'' \<in> ex_id ` set (db_experiments d)" "''h'' \<in> su_id ` set (db_suites d)"
    using assms(1) unfolding exp_ready_def by blast+
  have refs: "db_refs d" using db_reachable_ok [OF assms(3)] by simp
  from exp_step [OF assms(4) pp(1-4) tables(1,2) pp(5) tables(3) pp(6) assms(7) [unfolded assms(5)] refs]
  obtain d' r where step: "run_step (exp_machine k) exp_request ''u'' pp st (n, d) = ((Suc n, d'), Inr r)" "res_id r = i"
      "db_profiles d' = db_profiles d" "db_experiments d' = db_experiments d" "db_arms d' = db_arms d" "''h'' \<in> su_id ` set (db_suites d')"
      "\<forall>j. j \<noteq> i \<longrightarrow> GetRun j d' = GetRun j d"
    unfolding assms(5) by metis
  have "keeps (\<lambda>s. db_step\<^sup>*\<^sup>* empty_db (snd s)) (run_step (exp_machine k) exp_request ''u'' pp st)"
    by (rule keeps_run_step) (rule reachable_step [OF run_write_step])
  from keepsD [OF this, of "(n, d)"] have "db_step\<^sup>*\<^sup>* empty_db d'" using assms(3) step(1) by simp
  moreover have "exp_ready pp d'" using assms(1) step(6) unfolding exp_ready_def step(3-5) by blast
  ultimately show ?thesis using step(1,2,7) unfolding assms(6) by blast
qed

lemma exp_no_id:
  assumes "exp_ready pp d" "st \<in> set (exp_plan exp_request)" "k \<le> n"
  shows "run_step (exp_machine k) exp_request ''u'' pp st (n, d) = ((Suc n, d), Inl NoRunId)"
proof -
  obtain p a where pp: "map_of (pp_profiles pp) (al_label (pl_arm st)) = Some p" "pf_id p = ''p''"
      "map_of (pp_arms pp) (al_label (pl_arm st)) = Some a" "map_of (pp_adapters pp) (al_label (pl_arm st)) = Some exp_adapter"
    using assms(1,2) unfolding exp_ready_def by blast
  have "arm_machine (exp_machine k) exp_adapter = exp_machine k"
    by (simp add: arm_machine_def exp_machine_def idle_os_def exp_adapter_def)
  then show ?thesis
    using pp assms(3)
    by (simp add: run_step_def Run_def step_request_def Let_def exp_request_def io_bind_def io_look_def io_get_def io_fail_def)
qed

lemma exp_result:
  assumes "3 < k" "k \<noteq> 4 \<longrightarrow> 4 < k"
  shows "\<exists>m d r. RunExperiment (exp_machine k) exp_observer exp_request (0, exp_db) = ((m, d), r) \<and>
     r = (if k = 4 then Inl (\<lparr>oc_id = ''u'', oc_runs = [''uuuu'']\<rparr>, RunFailed NoRunId) else Inr \<lparr>oc_id = ''u'', oc_runs = [''uuuu'', ''uuuuu'']\<rparr>)"
proof -
  define spec where "spec = experiment_spec exp_suite (s_tasks exp_suite) (xr_arms exp_request) ''a'' 1"
  let ?t = "''2026-01-01T00:00:00Z''" and ?pp0 = "\<lparr>pp_profiles = [], pp_arms = [], pp_adapters = []\<rparr> :: nat prepared"
  obtain d1 pp d where prep: "InsertExperiment ?t (experiment_row_of (exp_machine k) ''u'' exp_suite ?t spec) exp_db = Inr d1"
      "prepare_arms (exp_machine k) exp_observer exp_request (\<lambda>_. Some exp_adapter) ''u'' ?t (xr_arms exp_request) ?pp0 (1, d1) = ((3, d), Inr pp)"
      "exp_ready pp d" "db_runs d = []"
    using exp_prepared [OF assms(1)] by blast
  have "db_step\<^sup>*\<^sup>* empty_db d1" by (rule reachable_step [OF write_experiment [OF prep(1)] exp_db_reachable])
  obtain st1 st2 where plan: "exp_plan exp_request = [st1, st2]" unfolding exp_plan_sample by blast
  have ids: "GetRun i d = None" for i using prep(4) by (simp add: GetRun_def)
  have reach: "db_step\<^sup>*\<^sup>* empty_db d"
    using keepsD [OF keeps_arms_reachable, of "(1, d1)"] prep(2) \<open>db_step\<^sup>*\<^sup>* empty_db d1\<close> by (metis fst_conv snd_conv)
  have "\<exists>d' r. run_step (exp_machine k) exp_request ''u'' pp st1 (3, d) = ((4, d'), Inr r) \<and> res_id r = ''uuuu'' \<and> exp_ready pp d' \<and>
      db_step\<^sup>*\<^sup>* empty_db d' \<and> (\<forall>j. j \<noteq> ''uuuu'' \<longrightarrow> GetRun j d' = GetRun j d)"
    by (rule exp_ready_step) (use prep(3) plan reach assms(1) ids in \<open>simp_all add: numeral_eq_Suc\<close>)
  then obtain d2 r2 where step1: "run_step (exp_machine k) exp_request ''u'' pp st1 (3, d) = ((4, d2), Inr r2)" "res_id r2 = ''uuuu''"
      "exp_ready pp d2" "db_step\<^sup>*\<^sup>* empty_db d2" "GetRun ''uuuuu'' d2 = None"
    using ids by auto
  let ?out = "run_plan (exp_machine k) exp_request ''u'' pp [] [st1, st2] (3, d)"
  let ?r = "if k = 4 then Inl (\<lparr>oc_id = ''u'', oc_runs = [''uuuu'']\<rparr>, RunFailed NoRunId) else Inr [''uuuu'', ''uuuuu'']"
  have out: "\<exists>m' d'. ?out = ((m', d'), ?r)"
  proof (cases "k = 4")
    case True
    have "run_step (exp_machine k) exp_request ''u'' pp st2 (4, d2) = ((Suc 4, d2), Inl NoRunId)"
      using True plan step1(3) by (intro exp_no_id) simp_all
    then show ?thesis using step1(1,2) True by (simp add: io_bind_def io_err_def)
  next
    case False
    have "\<exists>d' r. run_step (exp_machine k) exp_request ''u'' pp st2 (4, d2) = ((5, d'), Inr r) \<and> res_id r = ''uuuuu'' \<and> exp_ready pp d' \<and>
        db_step\<^sup>*\<^sup>* empty_db d' \<and> (\<forall>j. j \<noteq> ''uuuuu'' \<longrightarrow> GetRun j d' = GetRun j d2)"
      by (rule exp_ready_step) (use step1 plan False assms(2) in \<open>simp_all add: numeral_eq_Suc\<close>)
    then show ?thesis using step1(1,2) False by (auto simp: io_bind_def io_err_def io_return_def)
  qed
  have inputs: "xr_suite exp_request = Some exp_suite" "exp_tasks exp_suite (xr_tasks exp_request) = s_tasks exp_suite" "s_tasks exp_suite \<noteq> []"
      "\<not> length (xr_arms exp_request) < 2" "xr_adapter exp_request = Some (\<lambda>_. Some exp_adapter)" "xr_baseline exp_request = []"
      "al_label (hd (xr_arms exp_request)) = ''a''" "hasArm (xr_arms exp_request) ''a''" "at_least_one (xr_repeat exp_request) = 1"
    by (simp_all add: exp_request_def exp_suite_def exp_tasks_def hasArm_def at_least_one_def)
  have "BuildPlan (s_tasks exp_suite) (xr_arms exp_request) (nat 1) = [st1, st2]"
    using plan by (simp add: exp_plan_def inputs)
  moreover obtain m' d' where "?out = ((m', d'), ?r)" using out by blast
  ultimately have "execute (exp_machine k) exp_observer exp_request exp_suite (\<lambda>_. Some exp_adapter) ''a'' (0, exp_db)
      = ((m', d'), case ?r of Inl x \<Rightarrow> Inl x | Inr ids \<Rightarrow> Inr \<lparr>oc_id = ''u'', oc_runs = ids\<rparr>)"
    using prep(1,2) assms(1)
    by (simp add: execute_def inputs spec_def Let_def io_bind_def io_then_def io_get_def io_look_def io_db_def io_err_def io_return_def
        del: run_plan.simps)
  then show ?thesis by (auto simp: RunExperiment_def inputs Let_def)
qed

lemma exp_machine_names: "names_runs (exp_machine k)"
  by (simp add: names_runs_def)

theorem RunExperiment_complete_witness:
  "\<exists>m d oc. RunExperiment (exp_machine 6) exp_observer exp_request (0, exp_db) = ((m, d), Inr oc) \<and>
     list_all2 (step_recorded (oc_id oc) d) (exp_plan exp_request) [''uuuu'', ''uuuuu'']"
proof -
  obtain m d where "RunExperiment (exp_machine 6) exp_observer exp_request (0, exp_db) = ((m, d), Inr \<lparr>oc_id = ''u'', oc_runs = [''uuuu'', ''uuuuu'']\<rparr>)"
    using exp_result [of 6] by auto
  from RunExperiment_complete [OF this exp_db_reachable exp_machine_names] this show ?thesis by fastforce
qed


section \<open>The effects of storing a profile\<close>

text \<open>A machine that is a disk: \<open>writes\<close> says which paths can be written.\<close>

definition disk_machine :: "(string \<Rightarrow> bool) \<Rightarrow> string option \<Rightarrow> string \<Rightarrow> string \<Rightarrow> (string, string) gomap os" where
  "disk_machine writes uuid now version = idle_os\<lparr>os_mkdir := (\<lambda>q s. (s, writes q)),
     os_write := (\<lambda>q b s. if writes q then (put q b s, True) else (s, False)), os_uuid := (\<lambda>s. (s, uuid)), os_now := (\<lambda>_. now),
     os_version := version\<rparr>"

lemma disk_machine_simps [simp]:
  "os_mkdir (disk_machine writes uuid now v) q s = (s, writes q)"
  "os_write (disk_machine writes uuid now v) q b s = (if writes q then (put q b s, True) else (s, False))"
  "os_uuid (disk_machine writes uuid now v) s = (s, uuid)" "os_now (disk_machine writes uuid now v) s = now"
  "os_version (disk_machine writes uuid now v) = v"
  by (simp_all add: disk_machine_def)

lemma filepath_join_two: "dir \<noteq> [] \<Longrightarrow> name \<noteq> [] \<Longrightarrow> filepath_join [dir, name] = path_join dir name"
  by (simp add: filepath_join_def path_join_def)

lemma disk_write_files:
  assumes "dir \<noteq> []" "\<forall>f\<in>set fs. fst f \<noteq> []"
  shows "io_all (\<lambda>f. io_try (os_write (disk_machine writes uuid now v) (filepath_join [dir, fst f]) (snd f)) WriteFailed) fs (disk, d)
    = (case write_files writes dir fs disk of (disk', ok) \<Rightarrow> ((disk', d), if ok then Inr () else Inl WriteFailed))"
  using assms(2)
proof (induction fs arbitrary: disk)
  case (Cons f fs)
  then show ?case using assms(1) by (simp add: filepath_join_two io_then_def io_bind_def io_try_def)
qed (simp add: io_return_def)

lemma disk_captures:
  assumes "pf_hash p \<noteq> []"
  shows "store_captures (disk_machine writes uuid now v) profiles p (disk, d)
    = (case writeCaptures writes profiles p disk of (disk', err) \<Rightarrow> ((disk', d), case err of None \<Rightarrow> Inr () | Some e \<Rightarrow> Inl e))"
proof (cases "profiles = [] \<or> capture_files p = []")
  case True
  then show ?thesis by (auto simp: store_captures_def writeCaptures_def io_fail_def io_return_def)
next
  case False
  then have dir: "filepath_join [profiles, pf_hash p] = path_join profiles (pf_hash p)" "path_join profiles (pf_hash p) \<noteq> []"
    using assms filepath_join_nonempty [of "[profiles, pf_hash p]" "[profiles, pf_hash p]"] by (simp_all add: filepath_join_two)
  have names: "\<forall>f\<in>set (capture_files p). fst f \<noteq> []" by (simp add: capture_files_def)
  show ?thesis
    using False dir disk_write_files [OF dir(2) names]
    by (simp add: store_captures_def writeCaptures_def Let_def io_then_def io_bind_def io_try_def split: prod.splits)
qed

lemma Persist_hash: "pf_hash (p\<lparr>pf_id := i\<rparr>) = pf_hash p" "capture_files (p\<lparr>pf_id := i\<rparr>) = capture_files p"
  by (simp_all add: capture_files_def)



end
