(* ===== verification/Harvest.thy ===== *)
theory Harvest
  imports GitOutput Store
begin

text \<open>
  \<open>internal/harvest/harvest.go\<close>: pairing the user turns of an OpenCode session database with the commits
  that landed in their windows. The tables are lists of rows with the JSON fields the queries extract; a query
  that fails is left out, as is the order of rows the queries do not order. \<open>git\<close> runs git in a repository,
  \<open>tolower\<close> is \<open>strings.ToLower\<close>. Times are milliseconds; commits have whole seconds.
\<close>

section \<open>The session database\<close>

record session_tbl =
  hs_id :: string
  hs_title :: string
  hs_project :: string
  hs_parent :: "string option"

record message_tbl =
  hm_id :: string
  hm_session :: string
  hm_created :: int
  hm_role :: "string option"

record part_tbl =
  hp_message :: string
  hp_created :: int
  hp_type :: "string option"
  hp_text :: "string option"

record session_db =
  hb_sessions :: "session_tbl list"
  hb_projects :: "(string \<times> string) list"
  hb_messages :: "message_tbl list"
  hb_parts :: "part_tbl list"

record session_info =
  hi_id :: string
  hi_title :: string
  hi_repo :: string
  hi_last :: "int option"

definition session_last :: "session_db \<Rightarrow> string \<Rightarrow> int option" where
  "session_last h sid =
     (case map hm_created (filter (\<lambda>m. hm_session m = sid) (hb_messages h)) of [] \<Rightarrow> None | ts \<Rightarrow> Some (fold max ts (hd ts)))"

definition seen_later :: "session_info \<Rightarrow> session_info \<Rightarrow> bool" where
  "seen_later a b =
     (case (hi_last a, hi_last b) of (Some x, Some y) \<Rightarrow> y < x | (Some _, None) \<Rightarrow> True | _ \<Rightarrow> False)"

definition loadSessions :: "session_db \<Rightarrow> string \<Rightarrow> session_info list" where
  "loadSessions h repo =
     filter (\<lambda>i. repo = [] \<or> hi_repo i = repo)
       (sort_by seen_later
         (concat (map (\<lambda>s. map (\<lambda>p. \<lparr>hi_id = hs_id s, hi_title = hs_title s, hi_repo = snd p, hi_last = session_last h (hs_id s)\<rparr>)
             (filter (\<lambda>p. fst p = hs_project s \<and> snd p \<noteq> []) (hb_projects h)))
           (filter (\<lambda>s. hs_parent s = None) (hb_sessions h)))))"

record turn =
  tu_at :: int
  tu_text :: string

function rune_count :: "string \<Rightarrow> nat" where
  "rune_count s = (if s = [] then 0 else Suc (rune_count (drop (snd (decode_rune s)) s)))"
  by pat_completeness auto
termination
proof (relation "measure length", goal_cases)
  case (2 s)
  then have "1 \<le> snd (decode_rune s)" by (rule decode_rune_width)
  then show ?case using 2 by (cases s) auto
qed simp

declare rune_count.simps [simp del]

definition turnText :: "session_db \<Rightarrow> string \<Rightarrow> string" where
  "turnText h messageID =
     (let rows = sort_key hp_created (filter (\<lambda>p. hp_message p = messageID \<and> hp_type p = Some ''text'') (hb_parts h));
          parts = List.map_filter (\<lambda>p. case hp_text p of None \<Rightarrow> None
              | Some t \<Rightarrow> if trim_space t \<noteq> [] then Some (trim_space t) else None) rows
      in join [CHR 0x0A, CHR 0x0A] parts)"

definition loadTurns :: "session_db \<Rightarrow> string \<Rightarrow> nat \<Rightarrow> turn list" where
  "loadTurns h sessionID minPrompt =
     filter (\<lambda>t. minPrompt \<le> rune_count (tu_text t))
       (map (\<lambda>m. \<lparr>tu_at = hm_created m, tu_text = turnText h (hm_id m)\<rparr>)
         (sort_key hm_created (filter (\<lambda>m. hm_session m = sessionID \<and> hm_role m = Some ''user'') (hb_messages h))))"

section \<open>Commits\<close>

record commit =
  ct_hash :: string
  ct_subject :: string
  ct_at :: int

definition parse_commit :: "string \<Rightarrow> commit option" where
  "parse_commit line =
     (case cut (CHR 0x1F) line of (secs, rest, ok1) \<Rightarrow>
        (case cut (CHR 0x1F) rest of (hash, subject, ok2) \<Rightarrow>
           if \<not> (ok1 \<and> ok2) then None
           else (case Atoi secs of None \<Rightarrow> None | Some n \<Rightarrow> Some \<lparr>ct_hash = hash, ct_subject = subject, ct_at = 1000 * n\<rparr>)))"

definition repoCommits :: "git \<Rightarrow> string \<Rightarrow> commit list option" where
  "repoCommits git repo =
     (case git repo [''log'', ''--no-merges'', ''--format=%ct%x1f%H%x1f%s'', ''--reverse''] of
        None \<Rightarrow> None
      | Some out \<Rightarrow> Some (List.map_filter parse_commit (filter (\<lambda>l. l \<noteq> []) (split_on (CHR 0x0A) (trim_space out)))))"

fun commitsIn :: "commit list \<Rightarrow> int \<Rightarrow> int option \<Rightarrow> commit list" where
  "commitsIn [] since till = []"
| "commitsIn (c # cs) since till =
     (if ct_at c < since then commitsIn cs since till
      else if (case till of None \<Rightarrow> False | Some t \<Rightarrow> \<not> ct_at c < t) then []
      else c # commitsIn cs since till)"

section \<open>Candidates\<close>

record harvest_options =
  ho_db :: string
  ho_repo :: string
  ho_min :: int
  ho_limit :: int
  ho_commits :: int
  ho_files :: int
  ho_lines :: int
  ho_split :: string

definition DefaultMinPrompt :: int where "DefaultMinPrompt = 24"

definition SplitCommit :: string where "SplitCommit = ''commit''"

record candidate =
  cd_session :: string
  cd_title :: string
  cd_repo :: string
  cd_prompt :: string
  cd_asked :: int
  cd_ended :: "int option"
  cd_commits :: "commit list"
  cd_files :: nat
  cd_added :: int
  cd_removed :: int
  cd_tests :: bool
  cd_reference :: nat

definition looksLikeTest :: "(string \<Rightarrow> string) \<Rightarrow> string \<Rightarrow> bool" where
  "looksLikeTest tolower path =
     (let low = tolower path; base = (case last_index (CHR ''/'') low of None \<Rightarrow> low | Some i \<Rightarrow> drop (Suc i) low)
      in list_ex (has_suffix base) [''_test.go'', ''.test.js'', ''.test.ts'', ''.spec.js'', ''.spec.ts''] \<or>
         has_prefix base ''test_'' \<or> has_suffix base ''_test.py'' \<or>
         contains_str low ''/tests/'' \<or> contains_str low ''/test/'')"

definition count_or_zero :: "string \<Rightarrow> int" where
  "count_or_zero s = (case Atoi s of None \<Rightarrow> 0 | Some n \<Rightarrow> n)"

definition add_path :: "(string \<Rightarrow> string) \<Rightarrow> string \<Rightarrow> string list \<times> candidate \<Rightarrow> string list \<times> candidate" where
  "add_path tolower path sc =
     (case sc of (seen, c) \<Rightarrow>
        if path \<in> set seen then (seen, c)
        else (seen @ [path],
              if looksLikeTest tolower path then c\<lparr>cd_files := Suc (cd_files c), cd_tests := True\<rparr>
              else c\<lparr>cd_files := Suc (cd_files c), cd_reference := Suc (cd_reference c)\<rparr>))"

definition add_numstat :: "(string \<Rightarrow> string) \<Rightarrow> string \<Rightarrow> string list \<times> candidate \<Rightarrow> string list \<times> candidate" where
  "add_numstat tolower line sc =
     (case cut (CHR 0x09) line of (added, rest, ok1) \<Rightarrow>
        (case cut (CHR 0x09) rest of (removed, path, ok2) \<Rightarrow>
           if \<not> (ok1 \<and> ok2) then sc
           else (case add_path tolower path sc of (seen, c) \<Rightarrow>
                   (seen, c\<lparr>cd_added := cd_added c + count_or_zero added, cd_removed := cd_removed c + count_or_zero removed\<rparr>))))"

fun add_commits :: "git \<Rightarrow> (string \<Rightarrow> string) \<Rightarrow> string \<Rightarrow> commit list \<Rightarrow> string list \<times> candidate \<Rightarrow> candidate option" where
  "add_commits git tolower repo [] sc = Some (snd sc)"
| "add_commits git tolower repo (cm # cms) sc =
     (case git repo [''show'', ''--numstat'', ''--format='', ct_hash cm] of
        None \<Rightarrow> None
      | Some out \<Rightarrow> add_commits git tolower repo cms (fold (add_numstat tolower) (split_on (CHR 0x0A) (trim_space out)) sc))"

definition attachStats :: "git \<Rightarrow> (string \<Rightarrow> string) \<Rightarrow> candidate \<Rightarrow> candidate option" where
  "attachStats git tolower c = add_commits git tolower (cd_repo c) (cd_commits c) ([], c)"

definition exceedsSize :: "candidate \<Rightarrow> harvest_options \<Rightarrow> bool" where
  "exceedsSize c opts \<longleftrightarrow>
     ho_commits opts > 0 \<and> int (length (cd_commits c)) > ho_commits opts \<or>
     ho_files opts > 0 \<and> int (cd_files c) > ho_files opts \<or>
     ho_lines opts > 0 \<and> cd_added c + cd_removed c > ho_lines opts"

text \<open>Each turn with the end of its window: the next turn, or the session's last message.\<close>

fun turn_windows :: "turn list \<Rightarrow> int option \<Rightarrow> (turn \<times> int option) list" where
  "turn_windows [] seen = []"
| "turn_windows [t] seen = [(t, seen)]"
| "turn_windows (t # u # us) seen = (t, Some (tu_at u)) # turn_windows (u # us) seen"

definition commit_groups :: "harvest_options \<Rightarrow> commit list \<Rightarrow> commit list list" where
  "commit_groups opts inWindow = (if ho_split opts = SplitCommit then map (\<lambda>c. [c]) inWindow else [inWindow])"

definition measured :: "git \<Rightarrow> (string \<Rightarrow> string) \<Rightarrow> harvest_options \<Rightarrow> candidate \<Rightarrow> candidate list" where
  "measured git tolower opts c =
     (case attachStats git tolower c of
        None \<Rightarrow> [c\<lparr>cd_files := 0, cd_added := 0, cd_removed := 0, cd_tests := False, cd_reference := 0\<rparr>]
      | Some c \<Rightarrow> if exceedsSize c opts then [] else [c])"

definition turn_candidates ::
  "git \<Rightarrow> (string \<Rightarrow> string) \<Rightarrow> harvest_options \<Rightarrow> session_info \<Rightarrow> commit list \<Rightarrow> turn \<times> int option \<Rightarrow> candidate list" where
  "turn_candidates git tolower opts s commits w =
     (let inWindow = commitsIn commits (tu_at (fst w)) (snd w)
      in if inWindow = [] then []
         else concat (map (\<lambda>group. measured git tolower opts
                \<lparr>cd_session = hi_id s, cd_title = hi_title s, cd_repo = hi_repo s, cd_prompt = tu_text (fst w),
                 cd_asked = tu_at (fst w), cd_ended = snd w, cd_commits = group, cd_files = 0, cd_added = 0, cd_removed = 0,
                 cd_tests = False, cd_reference = 0\<rparr>) (commit_groups opts inWindow)))"

definition session_candidates :: "git \<Rightarrow> (string \<Rightarrow> string) \<Rightarrow> session_db \<Rightarrow> harvest_options \<Rightarrow> session_info \<Rightarrow> candidate list" where
  "session_candidates git tolower h opts s =
     (let turns = loadTurns h (hi_id s) (nat (ho_min opts))
      in if turns = [] then []
         else case repoCommits git (hi_repo s) of
                None \<Rightarrow> []
              | Some commits \<Rightarrow> concat (map (turn_candidates git tolower opts s commits) (turn_windows turns (hi_last s))))"

datatype harvest_error = NoDatabasePath

definition Candidates ::
  "git \<Rightarrow> (string \<Rightarrow> string) \<Rightarrow> session_db \<Rightarrow> harvest_options \<Rightarrow> harvest_error + candidate list" where
  "Candidates git tolower h opts =
     (if ho_db opts = [] then Inl NoDatabasePath
      else let opts = (if ho_min opts \<le> 0 then opts\<lparr>ho_min := DefaultMinPrompt\<rparr> else opts);
               out = sort_by (\<lambda>a b. cd_asked b < cd_asked a)
                 (concat (map (session_candidates git tolower h opts) (loadSessions h (ho_repo opts))))
           in Inr (if 0 < ho_limit opts \<and> ho_limit opts < int (length out) then take (nat (ho_limit opts)) out else out))"

section \<open>Windows\<close>

lemma commitsIn_exact:
  "commitsIn cs since till = filter (\<lambda>c. since \<le> ct_at c)
     (takeWhile (\<lambda>c. ct_at c < since \<or> (case till of None \<Rightarrow> True | Some t \<Rightarrow> ct_at c < t)) cs)"
  by (induction cs) (auto split: option.splits)

lemma commitsIn_sorted:
  "sorted (map ct_at cs) \<Longrightarrow> commitsIn cs since (Some t) = filter (\<lambda>c. since \<le> ct_at c \<and> ct_at c < t) cs"
proof (induction cs)
  case (Cons c cs)
  have "filter (\<lambda>c. since \<le> ct_at c \<and> ct_at c < t) cs = []" if "\<not> ct_at c < t"
    using that Cons.prems by (fastforce simp: filter_empty_conv)
  then show ?case using Cons by auto
qed simp

lemma filter_split_sorted:
  "sorted (map f cs) \<Longrightarrow> a \<le> b \<Longrightarrow> b \<le> c \<Longrightarrow>
     filter (\<lambda>x. a \<le> f x \<and> f x < b) cs @ filter (\<lambda>x. b \<le> f x \<and> f x < c) cs = filter (\<lambda>x. a \<le> f x \<and> f x < c) cs"
  for a :: "'t :: linorder"
proof (induction cs)
  case (Cons x cs)
  have "filter (\<lambda>y. a \<le> f y \<and> f y < b) cs = []" if "b \<le> f x"
    using that Cons.prems(1) by (fastforce simp: filter_empty_conv)
  then show ?case using Cons by (cases "b \<le> f x") (auto intro: order.strict_trans2)
qed simp

lemma windows_partition:
  assumes "sorted (map ct_at cs)" "turns \<noteq> []" "sorted (map tu_at turns)" "tu_at (last turns) \<le> t"
  shows "concat (map (\<lambda>w. commitsIn cs (tu_at (fst w)) (snd w)) (turn_windows turns (Some t)))
    = filter (\<lambda>c. tu_at (hd turns) \<le> ct_at c \<and> ct_at c < t) cs"
  using assms(2-4)
proof (induction turns "Some t" rule: turn_windows.induct)
  case (3 u v vs)
  then have "tu_at v \<le> t" by (metis (no_types, lifting) last_ConsR last_in_set list.map(2) list.set_map list.simps(3) order_trans sorted_simps(2) image_eqI set_ConsD order_refl)
  then show ?case using 3 commitsIn_sorted [OF assms(1)] filter_split_sorted [OF assms(1), of "tu_at u" "tu_at v" t] by simp
qed (simp_all add: commitsIn_sorted [OF assms(1)])

lemma loadSessions_last: "s \<in> set (loadSessions h repo) \<Longrightarrow> hi_last s = session_last h (hi_id s) \<and> (repo = [] \<or> hi_repo s = repo)"
  by (auto simp: loadSessions_def)

lemma session_last_bound:
  assumes "m \<in> set (hb_messages h)" "hm_session m = sid"
  obtains t where "session_last h sid = Some t" "\<And>m. m \<in> set (hb_messages h) \<Longrightarrow> hm_session m = sid \<Longrightarrow> hm_created m \<le> t"
proof -
  let ?ts = "map hm_created (filter (\<lambda>m. hm_session m = sid) (hb_messages h))"
  have "?ts \<noteq> []" using assms by (auto simp: filter_empty_conv)
  then obtain x xs where ts: "?ts = x # xs" by (cases ?ts) auto
  then have "session_last h sid = Some (fold max xs x)" by (simp add: session_last_def)
  then have last: "session_last h sid = Some (Max (set ?ts))" unfolding ts Max.set_eq_fold .
  have "hm_created m \<le> Max (set ?ts)" if "m \<in> set (hb_messages h)" "hm_session m = sid" for m
    using that by (intro Max_ge) auto
  with last show thesis by (rule that)
qed

lemma loadTurns_sorted: "sorted (map tu_at (loadTurns h sid n))"
  unfolding loadTurns_def by (intro sorted_filter) (simp add: comp_def)

lemma loadTurns_message:
  "t \<in> set (loadTurns h sid n) \<Longrightarrow> n \<le> rune_count (tu_text t) \<and> (\<exists>m\<in>set (hb_messages h). hm_session m = sid \<and> hm_created m = tu_at t)"
  unfolding loadTurns_def by auto

text \<open>C15: 
  When git lists the commits of a repository in the order of their times, the windows of a session's turns
  partition those between the first turn and the last message of the session: each of these commits is in
  exactly one window, in order, and no other commit is in any.
\<close>

theorem windows_cover_session:
  assumes "s \<in> set (loadSessions h repo)" "repoCommits git (hi_repo s) = Some cs" "sorted (map ct_at cs)"
    "loadTurns h (hi_id s) n \<noteq> []"
  shows "\<exists>t. hi_last s = Some t \<and>
    concat (map (\<lambda>w. commitsIn cs (tu_at (fst w)) (snd w)) (turn_windows (loadTurns h (hi_id s) n) (hi_last s)))
      = filter (\<lambda>c. tu_at (hd (loadTurns h (hi_id s) n)) \<le> ct_at c \<and> ct_at c < t) cs"
proof -
  let ?turns = "loadTurns h (hi_id s) n"
  obtain m where m: "m \<in> set (hb_messages h)" "hm_session m = hi_id s" "hm_created m = tu_at (last ?turns)"
    using loadTurns_message [OF last_in_set [OF assms(4)]] by blast
  obtain t where t: "session_last h (hi_id s) = Some t" "\<And>m. m \<in> set (hb_messages h) \<Longrightarrow> hm_session m = hi_id s \<Longrightarrow> hm_created m \<le> t"
    using session_last_bound [OF m(1,2)] by blast
  have "tu_at (last ?turns) \<le> t" using t(2) [OF m(1,2)] m(3) by simp
  from windows_partition [OF assms(3,4) loadTurns_sorted this] show ?thesis
    using loadSessions_last [OF assms(1)] t(1) by simp
qed

section \<open>Candidates\<close>

lemma commitsIn_window: "c \<in> set (commitsIn cs since till) \<Longrightarrow>
    c \<in> set cs \<and> since \<le> ct_at c \<and> (case till of None \<Rightarrow> True | Some t \<Rightarrow> ct_at c < t)"
  unfolding commitsIn_exact by (auto dest!: set_takeWhileD split: option.splits)

lemma turn_windows_turns: "w \<in> set (turn_windows ts seen) \<Longrightarrow> fst w \<in> set ts"
  by (induction ts seen rule: turn_windows.induct) auto

definition same_base :: "candidate \<Rightarrow> candidate \<Rightarrow> bool" where
  "same_base c d \<longleftrightarrow> cd_session c = cd_session d \<and> cd_title c = cd_title d \<and> cd_repo c = cd_repo d \<and> cd_prompt c = cd_prompt d \<and>
     cd_asked c = cd_asked d \<and> cd_ended c = cd_ended d \<and> cd_commits c = cd_commits d"

lemma add_numstat_base: "same_base (snd (add_numstat tolower line sc)) (snd sc)"
  by (auto simp: add_numstat_def add_path_def same_base_def Let_def split: prod.splits if_splits)

lemma same_base_trans: "same_base a b \<Longrightarrow> same_base b c \<Longrightarrow> same_base a c"
  by (simp add: same_base_def)

lemma same_base_refl: "same_base a a"
  by (simp add: same_base_def)

lemma fold_numstat_base: "same_base (snd (fold (add_numstat tolower) lines sc)) (snd sc)"
proof (induction lines arbitrary: sc)
  case (Cons l lines)
  show ?case using same_base_trans [OF Cons.IH add_numstat_base] by simp
qed (simp add: same_base_refl)

lemma add_commits_base: "add_commits git tolower repo cms sc = Some d \<Longrightarrow> same_base d (snd sc)"
proof (induction cms arbitrary: sc)
  case (Cons cm cms)
  then show ?case using same_base_trans [OF Cons.IH fold_numstat_base] by (auto split: option.splits)
qed (simp add: same_base_refl)

lemma measured_base:
  assumes "d \<in> set (measured git tolower opts c)" "cd_files c = 0" "cd_added c = 0" "cd_removed c = 0" "\<not> cd_tests c" "cd_reference c = 0"
  shows "same_base d c \<and> (exceedsSize d opts \<longrightarrow> attachStats git tolower d = None)"
proof (cases "attachStats git tolower c")
  case None
  then have "d = c" using assms by (simp add: measured_def)
  then show ?thesis using None same_base_refl by simp
next
  case (Some e)
  then have "d = e" "\<not> exceedsSize e opts" using assms(1) by (auto simp: measured_def split: if_splits)
  moreover have "same_base e c" using Some add_commits_base unfolding attachStats_def by fastforce
  ultimately show ?thesis by simp
qed

definition min_prompt :: "harvest_options \<Rightarrow> nat" where
  "min_prompt opts = nat (if ho_min opts \<le> 0 then DefaultMinPrompt else ho_min opts)"

definition supported :: "git \<Rightarrow> (string \<Rightarrow> string) \<Rightarrow> harvest_options \<Rightarrow> candidate \<Rightarrow> bool" where
  "supported git tolower opts c \<longleftrightarrow>
     cd_commits c \<noteq> [] \<and> (ho_split opts = SplitCommit \<longrightarrow> length (cd_commits c) = 1) \<and>
     (\<exists>cs. repoCommits git (cd_repo c) = Some cs \<and> set (cd_commits c) \<subseteq> set cs) \<and>
     (\<forall>k\<in>set (cd_commits c). cd_asked c \<le> ct_at k \<and> (case cd_ended c of None \<Rightarrow> True | Some t \<Rightarrow> ct_at k < t)) \<and>
     (ho_repo opts = [] \<or> cd_repo c = ho_repo opts) \<and> (exceedsSize c opts \<longrightarrow> attachStats git tolower c = None)"

lemma turn_candidates_supported:
  assumes "d \<in> set (turn_candidates git tolower opts s cs w)" "repoCommits git (hi_repo s) = Some cs"
    "ho_repo opts = [] \<or> hi_repo s = ho_repo opts"
  shows "supported git tolower opts d \<and> cd_prompt d = tu_text (fst w)"
proof -
  let ?in = "commitsIn cs (tu_at (fst w)) (snd w)"
  obtain g c where g: "?in \<noteq> []" "g \<in> set (commit_groups opts ?in)" "d \<in> set (measured git tolower opts c)"
    and c: "cd_files c = 0" "cd_added c = 0" "cd_removed c = 0" "\<not> cd_tests c" "cd_reference c = 0"
      "cd_repo c = hi_repo s" "cd_prompt c = tu_text (fst w)" "cd_asked c = tu_at (fst w)" "cd_ended c = snd w" "cd_commits c = g"
    using assms(1) unfolding turn_candidates_def Let_def by (auto split: if_splits)
  have d: "same_base d c" "exceedsSize d opts \<longrightarrow> attachStats git tolower d = None" using measured_base [OF g(3) c(1-5)] by auto
  have "g \<noteq> []" "set g \<subseteq> set ?in" "ho_split opts = SplitCommit \<longrightarrow> length g = 1"
    using g(1,2) by (auto simp: commit_groups_def split: if_splits)
  then show ?thesis using d(2) c(6-10) assms(2,3) commitsIn_window [of _ cs "tu_at (fst w)" "snd w"] d(1)
    unfolding supported_def same_base_def by (simp add: subset_iff)
qed

text \<open>C14: 
  Every proposed candidate is supported: it has commits of the history of its repository, all within the
  window that starts with its prompt; the prompt is long enough; and it is within the size limits unless git
  could not measure it. The candidates come newest prompt first and respect the limit.
\<close>

theorem Candidates_supported:
  assumes "Candidates git tolower h opts = Inr out"
  shows "list_all (\<lambda>c. supported git tolower opts c \<and> min_prompt opts \<le> rune_count (cd_prompt c)) out \<and>
    sorted_wrt (\<lambda>a b. cd_asked b \<le> cd_asked a) out \<and> (0 < ho_limit opts \<longrightarrow> int (length out) \<le> ho_limit opts)"
proof -
  define o' where "o' = (if ho_min opts \<le> 0 then opts\<lparr>ho_min := DefaultMinPrompt\<rparr> else opts)"
  define all where "all = sort_by (\<lambda>a b. cd_asked b < cd_asked a) (concat (map (session_candidates git tolower h o') (loadSessions h (ho_repo opts))))"
  have repo: "ho_repo o' = ho_repo opts" "ho_limit o' = ho_limit opts" "ho_split o' = ho_split opts" by (simp_all add: o'_def)
  have size: "exceedsSize c o' = exceedsSize c opts" for c by (simp add: o'_def exceedsSize_def)
  have out: "out = (if 0 < ho_limit opts \<and> ho_limit opts < int (length all) then take (nat (ho_limit opts)) all else all)"
    using assms unfolding Candidates_def Let_def o'_def [symmetric] repo(1,2) all_def [symmetric] by (auto split: if_splits)
  have min: "nat (ho_min o') = min_prompt opts" by (simp add: o'_def min_prompt_def)
  have "supported git tolower opts c \<and> min_prompt opts \<le> rune_count (cd_prompt c)" if c: "c \<in> set all" for c
  proof -
    obtain s where s: "s \<in> set (loadSessions h (ho_repo opts))" "c \<in> set (session_candidates git tolower h o' s)" using c by (auto simp: all_def)
    then obtain cs w where w: "repoCommits git (hi_repo s) = Some cs" "w \<in> set (turn_windows (loadTurns h (hi_id s) (min_prompt opts)) (hi_last s))"
        "c \<in> set (turn_candidates git tolower o' s cs w)"
      unfolding session_candidates_def Let_def min by (cases "repoCommits git (hi_repo s)") (auto split: if_splits)
    have "supported git tolower o' c \<and> cd_prompt c = tu_text (fst w)"
      using turn_candidates_supported [OF w(3,1)] loadSessions_last [OF s(1)] repo(1) by simp
    then show ?thesis using loadTurns_message [OF turn_windows_turns [OF w(2)]] repo(1,3) size by (simp add: supported_def)
  qed
  moreover have "sorted_wrt (\<lambda>a b. cd_asked b \<le> cd_asked a) all"
  proof -
    have "strict_weak (\<lambda>a b. cd_asked b < cd_asked a)" by unfold_locales auto
    from strict_weak.sorted_sort_by [OF this] show ?thesis unfolding all_def by (simp add: not_less)
  qed
  ultimately show ?thesis unfolding out by (auto simp: list_all_iff sorted_wrt_take dest: in_set_takeD)
qed

section \<open>A sample history\<close>

definition sample_history :: session_db where
  "sample_history = \<lparr>hb_sessions = [\<lparr>hs_id = ''s'', hs_title = ''t'', hs_project = ''p'', hs_parent = None\<rparr>], hb_projects = [(''p'', ''/r'')],
     hb_messages = [\<lparr>hm_id = ''m'', hm_session = ''s'', hm_created = 1500, hm_role = Some ''user''\<rparr>,
       \<lparr>hm_id = ''n'', hm_session = ''s'', hm_created = 9000, hm_role = Some ''assistant''\<rparr>],
     hb_parts = [\<lparr>hp_message = ''m'', hp_created = 1500, hp_type = Some ''text'', hp_text = Some ''add a test''\<rparr>]\<rparr>"

definition sample_log :: string where
  "sample_log = ''1'' @ [CHR 0x1F] @ ''a'' @ [CHR 0x1F] @ ''before'' @ [CHR 0x0A] @ ''2'' @ [CHR 0x1F] @ ''b'' @ [CHR 0x1F] @ ''within''"

definition sample_repo :: git where
  "sample_repo dir args = (if hd args = ''log'' then Some sample_log else None)"

definition sample_options :: harvest_options where
  "sample_options = \<lparr>ho_db = ''d'', ho_repo = [], ho_min = 5, ho_limit = 0, ho_commits = 0, ho_files = 0, ho_lines = 0, ho_split = []\<rparr>"


lemma trim_samples: "trim_space ''add a test'' = ''add a test''" "trim_space sample_log = sample_log" "trim_space [] = []"
  by (simp_all add: trim_space_def spaces_def upt_rec char_of_def sample_log_def)

lemma sample_turns: "loadTurns sample_history ''s'' 5 = [\<lparr>tu_at = 1500, tu_text = ''add a test''\<rparr>]"
proof -
  have "turnText sample_history ''m'' = ''add a test''"
    by (simp add: turnText_def sample_history_def trim_samples map_filter_simps)
  moreover have "5 \<le> rune_count ''add a test''" by code_simp
  ultimately show ?thesis by (simp add: loadTurns_def) (simp add: sample_history_def)
qed

lemma sample_commits: "repoCommits sample_repo ''/r'' = Some [\<lparr>ct_hash = ''a'', ct_subject = ''before'', ct_at = 1000\<rparr>, \<lparr>ct_hash = ''b'', ct_subject = ''within'', ct_at = 2000\<rparr>]"
proof -
  have "List.map_filter parse_commit (filter (\<lambda>l. l \<noteq> []) (split_on (CHR 0x0A) sample_log)) = [\<lparr>ct_hash = ''a'', ct_subject = ''before'', ct_at = 1000\<rparr>, \<lparr>ct_hash = ''b'', ct_subject = ''within'', ct_at = 2000\<rparr>]"
    by code_simp
  then show ?thesis by (simp add: repoCommits_def sample_repo_def trim_samples)
qed

lemma sample_session: "loadSessions sample_history [] = [\<lparr>hi_id = ''s'', hi_title = ''t'', hi_repo = ''/r'', hi_last = Some 9000\<rparr>]"
  by code_simp

definition sample_candidate :: candidate where
  "sample_candidate = \<lparr>cd_session = ''s'', cd_title = ''t'', cd_repo = ''/r'', cd_prompt = ''add a test'', cd_asked = 1500, cd_ended = Some 9000,
     cd_commits = [\<lparr>ct_hash = ''b'', ct_subject = ''within'', ct_at = 2000\<rparr>], cd_files = 0, cd_added = 0, cd_removed = 0,
     cd_tests = False, cd_reference = 0\<rparr>"

lemma sample_measured: "measured sample_repo (\<lambda>s. s) sample_options sample_candidate = [sample_candidate]"
  by (simp add: measured_def attachStats_def sample_repo_def sample_candidate_def)

lemma sample_candidates:
  "session_candidates sample_repo (\<lambda>s. s) sample_history sample_options \<lparr>hi_id = ''s'', hi_title = ''t'', hi_repo = ''/r'', hi_last = Some 9000\<rparr>
     = [sample_candidate]"
proof -
  have m: "ho_min sample_options = 5" "ho_split sample_options = []" by (simp_all add: sample_options_def)
  show ?thesis using sample_measured
    by (simp add: session_candidates_def m sample_turns sample_commits turn_candidates_def commit_groups_def SplitCommit_def sample_candidate_def)
qed

theorem Candidates_supported_witness:
  "\<exists>c. Candidates sample_repo (\<lambda>s. s) sample_history sample_options = Inr [c] \<and> supported sample_repo (\<lambda>s. s) sample_options c \<and>
     map ct_subject (cd_commits c) = [''within'']"
proof -
  have "ho_db sample_options \<noteq> []" "\<not> ho_min sample_options \<le> 0" "ho_repo sample_options = []" "ho_limit sample_options = 0"
    by (simp_all add: sample_options_def)
  then have c: "Candidates sample_repo (\<lambda>s. s) sample_history sample_options = Inr [sample_candidate]"
    by (simp add: Candidates_def sample_session sample_candidates)
  have "supported sample_repo (\<lambda>s. s) sample_options sample_candidate" using Candidates_supported [OF c] by simp
  then show ?thesis using c by (intro exI [of _ sample_candidate]) (simp add: sample_candidate_def)
qed

theorem windows_cover_session_witness:
  "\<exists>s cs. s \<in> set (loadSessions sample_history []) \<and> repoCommits sample_repo (hi_repo s) = Some cs \<and> length cs = 2 \<and>
    concat (map (\<lambda>w. commitsIn cs (tu_at (fst w)) (snd w)) (turn_windows (loadTurns sample_history (hi_id s) 5) (hi_last s)))
      = filter (\<lambda>c. 1500 \<le> ct_at c \<and> ct_at c < 9000) cs"
proof -
  let ?s = "\<lparr>hi_id = ''s'', hi_title = ''t'', hi_repo = ''/r'', hi_last = Some 9000\<rparr>"
  have "?s \<in> set (loadSessions sample_history [])" "loadTurns sample_history (hi_id ?s) 5 \<noteq> []"
    by (simp_all add: sample_session sample_turns)
  moreover obtain cs where cs: "repoCommits sample_repo (hi_repo ?s) = Some cs" "sorted (map ct_at cs)" "length cs = 2"
    by (simp add: sample_commits)
  ultimately show ?thesis using windows_cover_session [of ?s sample_history "[]" sample_repo cs 5]
    by (intro exI [of _ ?s] exI [of _ cs]) (auto simp: sample_turns)
qed

end
