(* ===== verification/HarvestExport.thy ===== *)
theory HarvestExport
  imports Harvest GitSource
begin

text \<open>
  \<open>internal/harvest/export.go\<close> and \<open>verify.go\<close>: writing a candidate as a task and checking that the task
  fails before its reference is applied and passes after. The effects are those of \<open>HostOS\<close> and the
  record \<open>tools\<close>; a walk that fails does so before its first effect. \<open>os_alnum\<close> says which runes above ASCII
  are letters or digits.
\<close>

section \<open>Names\<close>

definition short :: "string \<Rightarrow> string" where
  "short hash = (if 7 < length hash then take 7 hash else hash)"

text \<open>\<open>strings.Trim(s, "-")\<close>.\<close>

definition trim_dashes :: "string \<Rightarrow> string" where
  "trim_dashes s = rev (dropWhile (\<lambda>c. c = CHR ''-'') (rev (dropWhile (\<lambda>c. c = CHR ''-'') s)))"

definition letter_or_digit :: "(nat \<Rightarrow> bool) \<Rightarrow> nat \<Rightarrow> bool" where
  "letter_or_digit uni r \<longleftrightarrow> (if r < 128 then (48 \<le> r \<and> r \<le> 57) \<or> (65 \<le> r \<and> r \<le> 90) \<or> (97 \<le> r \<and> r \<le> 122) else r \<noteq> RuneError \<and> uni r)"

function slug_from :: "(nat \<Rightarrow> bool) \<Rightarrow> bool \<Rightarrow> string \<Rightarrow> string" where
  "slug_from uni lastDash s =
     (if s = [] then []
      else let (r, n) = decode_rune s
           in if letter_or_digit uni r then take n s @ slug_from uni False (drop n s)
              else (if lastDash then [] else ''-'') @ slug_from uni True (drop n s))"
  by pat_completeness auto
termination
proof (relation "measure (\<lambda>(u, d, s). length s)", goal_cases)
  case (2 uni d s x r n)
  then have "1 \<le> n" using decode_rune_width [of s] by (metis snd_conv)
  then show ?case using 2 by (cases s) auto
next
  case (3 uni d s x r n)
  then have "1 \<le> n" using decode_rune_width [of s] by (metis snd_conv)
  then show ?case using 3 by (cases s) auto
qed simp

declare slug_from.simps [simp del]

definition slugify :: "(nat \<Rightarrow> bool) \<Rightarrow> (string \<Rightarrow> string) \<Rightarrow> string \<Rightarrow> string" where
  "slugify uni tolower s = trim_dashes (slug_from uni True (tolower s))"

text \<open>\<open>strings.Index\<close>.\<close>

fun index_of :: "string \<Rightarrow> string \<Rightarrow> nat option" where
  "index_of pat [] = (if pat = [] then Some 0 else None)"
| "index_of pat (c # s) = (if has_prefix (c # s) pat then Some 0 else map_option Suc (index_of pat s))"

definition taskIDFor :: "(nat \<Rightarrow> bool) \<Rightarrow> (string \<Rightarrow> string) \<Rightarrow> candidate \<Rightarrow> string \<Rightarrow> string" where
  "taskIDFor uni tolower c firstCommit =
     (let base = ct_subject (hd (cd_commits c));
          base = (case index_of '': '' base of None \<Rightarrow> base | Some i \<Rightarrow> if 0 < i \<and> i < 16 then drop (i + 2) base else base);
          slug = slugify uni tolower base;
          slug = (if slug = [] then ''harvested'' else slug);
          slug = (if 48 < length slug then trim_dashes (take 48 slug) else slug)
      in slug @ ''-'' @ short firstCommit)"

section \<open>Effects\<close>

record 's tools =
  tl_walk :: "string \<Rightarrow> 's \<Rightarrow> (string \<times> bool) list option"
  tl_names :: "string \<Rightarrow> 's \<Rightarrow> (string \<times> bool) list option"
  tl_untar :: "string \<Rightarrow> string \<Rightarrow> 's \<Rightarrow> 's \<times> bool"
  tl_exec :: "string list \<Rightarrow> string \<Rightarrow> string list \<Rightarrow> 's \<Rightarrow> 's \<times> (string \<times> bool)"
  tl_yaml :: "string \<Rightarrow> (string \<times> string list) list option"
  tl_lower :: "string \<Rightarrow> string"
  tl_temp :: string
  tl_time :: "int \<Rightarrow> string"

text \<open>
  \<open>tl_walk\<close> lists what is below a directory, each relative path with whether it is a directory, in the order of
  \<open>filepath.WalkDir\<close>; \<open>tl_names\<close> is \<open>os.ReadDir\<close>; \<open>tl_untar\<close> unpacks an archive; \<open>tl_exec env dir argv\<close> runs a
  command and gives its output and whether it succeeded; \<open>tl_yaml\<close> decodes the kinds and commands of the validators.
\<close>

datatype export_error = NoCommits | NoRepository | FirstCommit string | DiffFailed | NothingChanged | TaskExists string
  | FileFailed string | ArchiveFailed string | ShowFailed string | UnsafePath string | BadYAML

definition harvest_git :: "'s os \<Rightarrow> string \<Rightarrow> string list \<Rightarrow> ('s, export_error, string option) io" where
  "harvest_git os repo args = io_get (os_git os (os_environ os @ [''GIT_OPTIONAL_LOCKS=0'']) repo args)"

definition revParse :: "'s os \<Rightarrow> string \<Rightarrow> string \<Rightarrow> ('s, export_error, string option) io" where
  "revParse os repo revision = io_bind (harvest_git os repo [''rev-parse'', ''--verify'', revision]) (\<lambda>out. io_return (map_option trim_space out))"

definition changedFiles :: "'s os \<Rightarrow> string \<Rightarrow> string \<Rightarrow> string \<Rightarrow> ('s, export_error, string list) io" where
  "changedFiles os repo since till =
     io_bind (harvest_git os repo [''diff'', ''--name-only'', since, till]) (\<lambda>out.
       case out of
         None \<Rightarrow> io_fail DiffFailed
       | Some text \<Rightarrow> io_return (sort (filter (\<lambda>l. l \<noteq> []) (split_on (CHR 0x0A) (trim_space text)))))"

definition showFile :: "'s os \<Rightarrow> string \<Rightarrow> string \<Rightarrow> string \<Rightarrow> ('s, export_error, string) io" where
  "showFile os repo revision path =
     io_bind (harvest_git os repo [''show'', revision @ '':'' @ path]) (\<lambda>out.
       case out of None \<Rightarrow> io_fail (ShowFailed path) | Some content \<Rightarrow> io_return content)"

definition writeUnder :: "'s os \<Rightarrow> string \<Rightarrow> string \<Rightarrow> string \<Rightarrow> ('s, export_error, unit) io" where
  "writeUnder os base rel content =
     (let clean = path_clean rel
      in if has_prefix clean ''../'' \<or> clean = ''..'' \<or> has_prefix clean ''/'' then io_fail (UnsafePath rel)
         else let full = filepath_join [base, clean]
              in io_then (io_try (os_mkdir os (file_dir full)) (FileFailed full)) (io_try (os_write os full content) (FileFailed full)))"

definition archiveTo :: "'s os \<Rightarrow> 's tools \<Rightarrow> string \<Rightarrow> string \<Rightarrow> string \<Rightarrow> ('s, export_error, unit) io" where
  "archiveTo os tk repo revision dir =
     io_bind (harvest_git os repo [''archive'', ''--format=tar'', revision]) (\<lambda>out.
       case out of None \<Rightarrow> io_fail (ArchiveFailed revision) | Some tar \<Rightarrow> io_try (tl_untar tk dir tar) (ArchiveFailed revision))"

section \<open>Exclusion\<close>

text \<open>A path and the directories above it: \<open>path.Dir\<close> repeated until the top.\<close>

definition ancestors :: "string \<Rightarrow> string list" where
  "ancestors p = (let es = split_on (CHR ''/'') p in map (\<lambda>n. join ''/'' (take n es)) (rev [1..<length es]))"

definition excluded :: "string \<Rightarrow> string list \<Rightarrow> bool" where
  "excluded rel patterns \<longleftrightarrow> list_ex (\<lambda>pattern. list_ex (\<lambda>d. path_match pattern d = Some True) (rel # ancestors rel)) patterns"

text \<open>The paths the walk collects: below an excluded directory it does not descend.\<close>

fun doomed :: "string list \<Rightarrow> string option \<Rightarrow> (string \<times> bool) list \<Rightarrow> string list" where
  "doomed patterns skip [] = []"
| "doomed patterns skip ((rel, dir) # rest) =
     (if (case skip of None \<Rightarrow> False | Some d \<Rightarrow> has_prefix rel (d @ ''/'')) then doomed patterns skip rest
      else if excluded rel patterns then rel # doomed patterns (if dir then Some rel else skip) rest
      else doomed patterns skip rest)"

definition applyExcludes :: "'s os \<Rightarrow> 's tools \<Rightarrow> string \<Rightarrow> string list \<Rightarrow> ('s, export_error, unit) io" where
  "applyExcludes os tk base patterns =
     (if patterns = [] then io_return ()
      else io_bind (io_look (tl_walk tk base)) (\<lambda>walk.
           case walk of
             None \<Rightarrow> io_fail (FileFailed base)
           | Some entries \<Rightarrow>
               io_all (\<lambda>p. io_try (os_remove_all os p) (FileFailed p))
                 (rev (sort (map (\<lambda>rel. filepath_join [base, rel]) (doomed patterns None entries))))))"

section \<open>The validator\<close>

definition hasGoFile :: "'s tools \<Rightarrow> string \<Rightarrow> 's \<Rightarrow> bool" where
  "hasGoFile tk dir m =
     (case tl_names tk dir m of None \<Rightarrow> False | Some es \<Rightarrow> list_ex (\<lambda>(name, isDir). \<not> isDir \<and> has_suffix name ''.go'') es)"

definition go_package :: "string \<Rightarrow> string" where
  "go_package dir = (if dir = ''.'' then ''.'' else ''./'' @ dir)"

definition goPackages :: "'s tools \<Rightarrow> string \<Rightarrow> string list \<Rightarrow> 's \<Rightarrow> string list" where
  "goPackages tk base changed m =
     (let dirs = filter (\<lambda>dir. \<not> (dir = ''/'' \<or> has_prefix dir ''..'') \<and> hasGoFile tk (filepath_join [base, dir]) m) (map file_dir changed)
      in sort (remdups (map go_package dirs)))"

definition inferTestCommand :: "'s os \<Rightarrow> 's tools \<Rightarrow> string \<Rightarrow> string list \<Rightarrow> 's \<Rightarrow> string list" where
  "inferTestCommand os tk base changed m =
     (let exists = (\<lambda>name. os_stat os (filepath_join [base, name]) m \<notin> {Missing, StatFailed})
      in if exists ''go.mod'' then
           (let pkgs = goPackages tk base changed m
            in if pkgs \<noteq> [] then [''go'', ''test''] @ pkgs else [''go'', ''test'', ''./...''])
         else if exists ''package.json'' then [''npm'', ''test'']
         else if exists ''pyproject.toml'' \<or> exists ''pytest.ini'' \<or> exists ''requirements.txt'' then [''python3'', ''-m'', ''pytest'']
         else if exists ''Cargo.toml'' then [''cargo'', ''test'']
         else [])"

section \<open>The scaffold\<close>

definition nl :: string where "nl = [CHR 0x0A]"
definition dq :: string where "dq = [CHR 0x22]"

text \<open>\<open>strings.ReplaceAll\<close> of one byte.\<close>

definition replace_byte :: "char \<Rightarrow> string \<Rightarrow> string \<Rightarrow> string" where
  "replace_byte c new s = concat (map (\<lambda>x. if x = c then new else [x]) s)"

definition yaml_special :: string where
  "yaml_special = '':#[]{}&*!|>'' @ [CHR 0x27, CHR 0x22] @ ''%@'' @ [CHR 0x60]"

definition yamlScalar :: "string \<Rightarrow> string" where
  "yamlScalar s =
     (if s = [] then dq @ dq
      else if list_ex (\<lambda>c. c \<in> set yaml_special) s \<or> has_prefix s '' '' then dq @ replace_byte (CHR 0x22) ([CHR 0x5C] @ dq) s @ dq
      else s)"

definition yamlList :: "string list \<Rightarrow> string" where
  "yamlList items = join '', '' (map (\<lambda>i. dq @ i @ dq) items)"

definition taskScaffold :: "string \<Rightarrow> candidate \<Rightarrow> string list \<Rightarrow> string" where
  "taskScaffold i c command =
     ''id: '' @ i @ nl @ ''version: 1'' @ nl @ ''name: '' @ yamlScalar (cd_title c) @ nl @ ''difficulty: medium'' @ nl @
     ''capabilities: []'' @ nl @ ''tags: [harvested]'' @ nl @ ''timeout: 900'' @ nl @ ''validators:'' @ nl @
     (if command = [] then ''  # TODO: no test command could be inferred; add one.'' @ nl @ ''  []'' @ nl
      else ''  - kind: command'' @ nl @ ''    name: tests'' @ nl @ ''    command: ['' @ yamlList command @ '']'' @ nl)"

section \<open>Verification\<close>

record verification =
  vf_checked :: bool
  vf_fails_before :: bool
  vf_passes_after :: bool
  vf_command :: "string list"
  vf_detail :: string
  vf_before :: string

definition not_verified :: verification where
  "not_verified = \<lparr>vf_checked = False, vf_fails_before = False, vf_passes_after = False, vf_command = [], vf_detail = [], vf_before = []\<rparr>"

definition verification_OK :: "verification \<Rightarrow> bool" where
  "verification_OK v \<longleftrightarrow> vf_checked v \<and> vf_fails_before v \<and> vf_passes_after v"

definition trim_newlines :: "string \<Rightarrow> string" where
  "trim_newlines s = rev (dropWhile (\<lambda>c. c = CHR 0x0A) (rev s))"

definition keep_last :: "nat \<Rightarrow> 'a list \<Rightarrow> 'a list" where
  "keep_last n xs = (if n < length xs then drop (length xs - n) xs else xs)"

definition trimOutput :: "string \<Rightarrow> nat \<Rightarrow> string" where
  "trimOutput out n =
     (let keep = filter (\<lambda>line. \<not> (has_prefix line ''ok  '' \<or> has_suffix line ''[no test files]''))
            (split_on (CHR 0x0A) (trim_newlines out))
      in join nl (keep_last n keep))"

definition tail_of :: "string \<Rightarrow> string" where
  "tail_of out = join nl (keep_last 4 (split_on (CHR 0x0A) (trim_newlines out)))"

definition runCommand :: "'s os \<Rightarrow> 's tools \<Rightarrow> string \<Rightarrow> string list \<Rightarrow> ('s, export_error, string \<times> bool) io" where
  "runCommand os tk dir argv = io_get (tl_exec tk (os_environ os @ [''GOPROXY=off'', ''GOFLAGS=-mod=mod'']) dir argv)"

definition commandValidator :: "'s os \<Rightarrow> 's tools \<Rightarrow> string \<Rightarrow> ('s, export_error, string list) io" where
  "commandValidator os tk path =
     io_bind (io_look (os_read os path)) (\<lambda>data.
       case data of
         None \<Rightarrow> io_fail (FileFailed path)
       | Some text \<Rightarrow>
           (case tl_yaml tk text of
              None \<Rightarrow> io_fail BadYAML
            | Some vals \<Rightarrow>
                io_return (case find (\<lambda>(kind, command). kind = ''command'' \<and> command \<noteq> []) vals of None \<Rightarrow> [] | Some (_, command) \<Rightarrow> command)))"

definition copy_entry :: "'s os \<Rightarrow> string \<Rightarrow> string \<Rightarrow> string \<times> bool \<Rightarrow> ('s, export_error, unit) io" where
  "copy_entry os src dst e =
     (case e of (rel, dir) \<Rightarrow>
        let target = filepath_join [dst, rel]
        in if dir then io_try (os_mkdir os target) (FileFailed target)
           else io_bind (io_look (os_read os (filepath_join [src, rel]))) (\<lambda>data.
                case data of
                  None \<Rightarrow> io_fail (FileFailed rel)
                | Some content \<Rightarrow> io_then (io_try (os_mkdir os (file_dir target)) (FileFailed target))
                    (io_try (os_write os target content) (FileFailed target))))"

definition copyTree :: "'s os \<Rightarrow> 's tools \<Rightarrow> string \<Rightarrow> string \<Rightarrow> ('s, export_error, unit) io" where
  "copyTree os tk src dst =
     io_bind (io_look (os_stat os src)) (\<lambda>k.
       if k = Missing then io_return ()
       else if k = StatFailed then io_fail (FileFailed src)
       else io_bind (io_look (\<lambda>m. (os_lstat os src m, tl_walk tk src m))) (\<lambda>(entry, walk).
            case walk of
              None \<Rightarrow> io_fail (FileFailed src)
            | Some entries \<Rightarrow> io_all (copy_entry os src dst) ((''.'', entry = Directory) # entries)))"

definition verify_dir :: "'s os \<Rightarrow> 's tools \<Rightarrow> string \<Rightarrow> string" where
  "verify_dir os tk taskDir =
     filepath_join [tl_temp tk, ''ocbench-verify-'' @ slugify (os_alnum os) (tl_lower tk)
       (case last_index (CHR ''/'') taskDir of None \<Rightarrow> taskDir | Some i \<Rightarrow> drop (Suc i) taskDir)]"

definition verify_reference ::
  "'s os \<Rightarrow> 's tools \<Rightarrow> string \<Rightarrow> string \<Rightarrow> string list \<Rightarrow> verification \<Rightarrow> ('s, export_error, verification) io" where
  "verify_reference os tk taskDir work command v =
     io_then (copyTree os tk (filepath_join [taskDir, ''evaluator'', ''reference'']) work)
     (io_bind (runCommand os tk work command) (\<lambda>(out, ok).
        io_return (if ok then v\<lparr>vf_passes_after := True\<rparr>
          else v\<lparr>vf_detail := ''still failing with the reference applied: '' @ tail_of out\<rparr>)))"

definition verify_fixture ::
  "'s os \<Rightarrow> 's tools \<Rightarrow> string \<Rightarrow> string \<Rightarrow> string list \<Rightarrow> verification \<Rightarrow> ('s, export_error, verification) io" where
  "verify_fixture os tk taskDir work command v =
     io_then (copyTree os tk (filepath_join [taskDir, ''fixture'']) work)
     (io_bind (runCommand os tk work command) (\<lambda>(out, ok).
        if ok then io_return (v\<lparr>vf_detail := ''the fixture passes untouched, so the task cannot show anything''\<rparr>)
        else verify_reference os tk taskDir work command (v\<lparr>vf_fails_before := True, vf_before := trimOutput out 30\<rparr>)))"

definition Verify :: "'s os \<Rightarrow> 's tools \<Rightarrow> string \<Rightarrow> ('s, export_error, verification) io" where
  "Verify os tk taskDir =
     io_bind (commandValidator os tk (filepath_join [taskDir, ''task.yaml''])) (\<lambda>command.
       if command = [] then io_return not_verified
       else let work = verify_dir os tk taskDir; remove = io_try (os_remove_all os work) (FileFailed work)
            in io_then remove
               (io_defer remove (verify_fixture os tk taskDir work command (not_verified\<lparr>vf_checked := True, vf_command := command\<rparr>))))"

section \<open>The prompt\<close>

definition tick :: string where "tick = [CHR 0x60]"
definition fence :: string where "fence = tick @ tick @ tick"
definition dash :: string where "dash = [CHR 0xE2, CHR 0x80, CHR 0x94]"

text \<open>Lines of text, each ended.\<close>

definition says :: "string list \<Rightarrow> string" where
  "says ls = concat (map (\<lambda>l. l @ nl) ls)"

definition prompt_task :: "string list \<Rightarrow> verification \<Rightarrow> string" where
  "prompt_task command v =
     (if vf_fails_before v \<and> vf_passes_after v \<and> vf_before v \<noteq> [] then
        says [''# Make the failing tests pass'', [],
          tick @ join '' '' command @ tick @ '' fails in this repository. The failing tests are the'',
          ''specification: make them pass without weakening them.'', [],
          ''## What is failing'', [], fence, vf_before v, fence, [],
          ''## TODO: say what the change is for'', [],
          ''The failure above says what to build. It does not say why, or what counts as'',
          ''a good solution rather than a passing one. Add that before running the task.'', []]
      else if \<not> vf_checked v then
        says [''# TODO: state the task'', [],
          ''No test command could be inferred, so nothing was proven about this task.'',
          ''Write the prompt and the validator before running it.'', []]
      else if vf_fails_before v \<and> \<not> vf_passes_after v then
        says [''# TODO: this task is not solvable as written'', [],
          ''The fixture fails, but applying the reference does not make it pass, so the'',
          ''reference does not satisfy the validator. The usual cause is a repo-wide'',
          ''validator: '' @ tick @ ''go test ./...'' @ tick @ '' fails on some part of the repository the change'',
          ''never touched. Narrow the validator, or trim the fixture.'', []]
      else
        says [''# TODO: state the task'', [],
          ''The fixture passes untouched, so nothing in it fails to state a task against.'',
          ''Add a validator that can fail before the change, or this task measures'',
          ''nothing.'', []])"

definition prompt_said :: "(int \<Rightarrow> string) \<Rightarrow> candidate \<Rightarrow> string" where
  "prompt_said fmt_time c =
     says [''---'', [], ''## Material for the curator'', [],
       ''The recorded user turn below is what was actually said, and it is usually a'',
       ''continuation of a conversation: it may carry no goal, no acceptance criterion'',
       ''and no context. It is not the prompt.'', [],
       ''### What was said'', [],
       ''> '' @ replace_byte (CHR 0x0A) (nl @ ''> '') (trim_space (cd_prompt c)), [],
       ''## Context'', [],
       ''- Session: '' @ cd_title c, ''- Repository: '' @ cd_repo c, ''- Asked: '' @ fmt_time (cd_asked c),
       ''- Commits in this turn: '' @ show_nat (length (cd_commits c)) @ '', across '' @ show_nat (cd_files c) @ '' file(s)'', [],
       ''### What was committed '' @ dash @ '' this is the answer, do not put it in the prompt'', []] @
     says (map (\<lambda>cm. ''- '' @ short (ct_hash cm) @ '' '' @ ct_subject cm) (cd_commits c) @ [[]])"

definition prompt_files :: "string list \<Rightarrow> string list \<Rightarrow> string list \<Rightarrow> string" where
  "prompt_files tests sources command =
     says [''## What the fixture already contains'', []] @
     (if tests = [] then
        says [''No test file changed in this turn, so the fixture carries none of the'',
          ''work'' @ [CHR 0x27] @ ''s tests. Add a validator that can fail before the change, or this'',
          ''task cannot show anything.'', []]
      else
        says ([''The tests the work added or changed are already in the fixture, at their'',
          ''final content, so the task fails until the change is made:'', []] @ map (\<lambda>p. ''- '' @ p) tests @ [[]])) @
     says ([''## The reference solution'', [],
       ''The changed non-test files are under '' @ tick @ ''evaluator/reference/'' @ tick @ '', laid out at the'',
       ''same paths they occupy in the fixture:'', []] @ map (\<lambda>p. ''- '' @ p) sources @ [[]]) @
     says [''## The inferred validator'', []] @
     (if command = [] then
        says [''No test command could be inferred from the fixture. Write one in'',
          tick @ ''task.yaml'' @ tick @ '', or the task cannot be graded.'']
      else
        says [tick @ join '' '' command @ tick @ '' was inferred from the fixture'' @ [CHR 0x27] @ ''s manifest. Confirm it, and add a'',
          tick @ ''diff'' @ tick @ '' validator if the change must stay inside particular files.''])"

definition promptDraft ::
  "(int \<Rightarrow> string) \<Rightarrow> candidate \<Rightarrow> string list \<Rightarrow> string list \<Rightarrow> string list \<Rightarrow> verification \<Rightarrow> string" where
  "promptDraft fmt_time c tests sources command v =
     prompt_task command v @ prompt_said fmt_time c @ prompt_files tests sources command"

section \<open>The export\<close>

definition put_files ::
  "'s os \<Rightarrow> string \<Rightarrow> string \<Rightarrow> string \<Rightarrow> string list \<Rightarrow> ('s, export_error, unit) io" where
  "put_files os base repo revision paths =
     io_all (\<lambda>p. io_bind (showFile os repo revision p) (writeUnder os base p)) paths"

definition write_file :: "'s os \<Rightarrow> string \<Rightarrow> string \<Rightarrow> ('s, export_error, unit) io" where
  "write_file os path content = io_try (os_write os path content) (FileFailed path)"

definition export_fixture ::
  "'s os \<Rightarrow> 's tools \<Rightarrow> string list \<Rightarrow> string \<Rightarrow> string \<Rightarrow> string \<Rightarrow> ('s, export_error, unit) io" where
  "export_fixture os tk exclude repo parent fixture =
     io_then (io_try (os_mkdir os fixture) (FileFailed fixture))
     (io_then (archiveTo os tk repo parent fixture) (applyExcludes os tk fixture exclude))"

definition export_task ::
  "'s os \<Rightarrow> 's tools \<Rightarrow> string list \<Rightarrow> candidate \<Rightarrow> string \<Rightarrow> string \<Rightarrow> string list \<Rightarrow> string \<Rightarrow> string \<Rightarrow>
   ('s, export_error, string \<times> verification) io" where
  "export_task os tk exclude c parent lastCommit changed taskID dest =
     (let fixture = filepath_join [dest, ''fixture''];
          tests = filter (looksLikeTest (tl_lower tk)) changed; sources = filter (\<lambda>p. \<not> looksLikeTest (tl_lower tk) p) changed
      in io_then (export_fixture os tk exclude (cd_repo c) parent fixture)
        (io_then (put_files os fixture (cd_repo c) lastCommit tests)
        (io_then (put_files os (filepath_join [dest, ''evaluator'', ''reference'']) (cd_repo c) lastCommit sources)
        (io_bind (io_look (inferTestCommand os tk fixture changed)) (\<lambda>command.
         io_then (write_file os (filepath_join [dest, ''task.yaml'']) (taskScaffold taskID c command))
        (io_bind (Verify os tk dest) (\<lambda>v.
         io_then (write_file os (filepath_join [dest, ''prompt.md'']) (promptDraft (tl_time tk) c tests sources command v))
           (io_return (dest, v)))))))))"

definition Export ::
  "'s os \<Rightarrow> 's tools \<Rightarrow> string \<Rightarrow> string list \<Rightarrow> candidate \<Rightarrow> ('s, export_error, string \<times> verification) io" where
  "Export os tk dir exclude c =
     (if cd_commits c = [] then io_fail NoCommits
      else if cd_repo c = [] then io_fail NoRepository
      else let first = ct_hash (hd (cd_commits c)); lastCommit = ct_hash (last (cd_commits c))
           in io_bind (revParse os (cd_repo c) (first @ ''^'')) (\<lambda>parent.
              case parent of
                None \<Rightarrow> io_fail (FirstCommit (short first))
              | Some parent \<Rightarrow>
                  io_bind (changedFiles os (cd_repo c) parent lastCommit) (\<lambda>changed.
                    if changed = [] then io_fail NothingChanged
                    else let taskID = taskIDFor (os_alnum os) (tl_lower tk) c first; dest = filepath_join [dir, taskID]
                         in io_bind (io_look (os_stat os dest)) (\<lambda>k.
                              if k \<notin> {Missing, StatFailed} then io_fail (TaskExists dest)
                              else export_task os tk exclude c parent lastCommit changed taskID dest))))"

section \<open>The name of a task\<close>

definition slug_byte :: "char \<Rightarrow> bool" where
  "slug_byte c \<longleftrightarrow> c = CHR ''-'' \<or> 48 \<le> byte c \<and> byte c \<le> 57 \<or> 65 \<le> byte c \<and> byte c \<le> 90 \<or> 97 \<le> byte c \<and> byte c \<le> 122 \<or> 128 \<le> byte c"

lemma rune_bytes:
  assumes "decode_rune s = (r, n)" "letter_or_digit uni r" "s \<noteq> []" "c \<in> set (take n s)"
  shows "slug_byte c"
proof -
  have ok: "\<not> (r = RuneError \<and> n = 1)" using assms(2) by (auto simp: letter_or_digit_def RuneError_def)
  obtain i where i: "i < n" "i < length s" "c = s ! i" using assms(4) by (auto simp: in_set_conv_nth)
  then have c: "byte c = byte_at s i" by (simp add: byte_at_def)
  from assms(1) ok assms(3) show ?thesis
  proof (cases rule: decode_rune_shapes)
    case one
    then show ?thesis using i c assms(2) by (auto simp: letter_or_digit_def slug_byte_def)
  next
    case two
    then have "i = 0 \<or> i = 1" using i by auto
    then show ?thesis using two c by (auto simp: slug_byte_def)
  next
    case three
    then have "i = 0 \<or> i = 1 \<or> i = 2" using i by auto
    then show ?thesis using three c by (auto simp: slug_byte_def)
  next
    case four
    then have "i = 0 \<or> i = 1 \<or> i = 2 \<or> i = 3" using i by auto
    then show ?thesis using four c by (auto simp: slug_byte_def)
  qed
qed

lemma slug_from_bytes: "c \<in> set (slug_from uni d s) \<Longrightarrow> slug_byte c"
proof (induction uni d s rule: slug_from.induct)
  case (1 uni d s)
  show ?case
  proof (cases "s = []")
    case False
    obtain r n where d: "decode_rune s = (r, n)" by force
    show ?thesis
    proof (cases "letter_or_digit uni r")
      case True
      then have "c \<in> set (take n s) \<or> c \<in> set (slug_from uni False (drop n s))"
        using "1.prems" False d by (subst (asm) slug_from.simps) simp
      then show ?thesis using rune_bytes [OF d True False] "1.IH"(1) [OF False d [symmetric] refl True] by blast
    next
      case no: False
      then have "c = CHR ''-'' \<or> c \<in> set (slug_from uni True (drop n s))"
        using "1.prems" False d by (subst (asm) slug_from.simps) (simp split: if_splits)
      then show ?thesis using "1.IH"(2) [OF False d [symmetric] refl no] by (auto simp: slug_byte_def)
    qed
  qed (use 1 in \<open>simp add: slug_from.simps\<close>)
qed

lemma set_trim_dashes: "c \<in> set (trim_dashes s) \<Longrightarrow> c \<in> set s"
  unfolding trim_dashes_def by (auto dest!: set_dropWhileD)

lemma length_trim_dashes: "length (trim_dashes s) \<le> length s"
  unfolding trim_dashes_def by (metis length_dropWhile_le length_rev order_trans)

text \<open>C37: 
  The id of a harvested task is a single path element whatever the commit says: at most fifty-six bytes of
  ASCII letters, digits, dashes and bytes of other runes, with a dash in it, so it is neither \<open>.\<close> nor \<open>..\<close>.
\<close>

theorem taskIDFor_element:
  assumes "\<forall>x\<in>set firstCommit. slug_byte x"
  shows "length (taskIDFor uni tolower c firstCommit) \<le> 56 \<and> (\<forall>x\<in>set (taskIDFor uni tolower c firstCommit). slug_byte x) \<and>
    CHR ''/'' \<notin> set (taskIDFor uni tolower c firstCommit) \<and> clean_rel (taskIDFor uni tolower c firstCommit)"
proof -
  let ?id = "taskIDFor uni tolower c firstCommit"
  obtain base where base: "?id = (let slug = slugify uni tolower base; slug = (if slug = [] then ''harvested'' else slug);
      slug = (if 48 < length slug then trim_dashes (take 48 slug) else slug) in slug @ ''-'' @ short firstCommit)"
    by (simp add: taskIDFor_def Let_def)
  define slug where "slug = (if slugify uni tolower base = [] then ''harvested'' else slugify uni tolower base)"
  define cut where "cut = (if 48 < length slug then trim_dashes (take 48 slug) else slug)"
  have i: "?id = cut @ ''-'' @ short firstCommit" unfolding base cut_def slug_def Let_def ..
  have "slug_byte x" if "x \<in> set slug" for x
    using that slug_from_bytes [of x uni True "tolower base"] set_trim_dashes [of x "slug_from uni True (tolower base)"]
    unfolding slug_def slugify_def by (auto simp: slug_byte_def byte_def split: if_splits)
  moreover have "set cut \<subseteq> set slug" unfolding cut_def using set_trim_dashes [of _ "take 48 slug"] by (auto dest: in_set_takeD)
  ultimately have bytes: "slug_byte x" if "x \<in> set ?id" for x
    using that assms unfolding i short_def by (auto simp: slug_byte_def dest: in_set_takeD split: if_splits)
  have "length cut \<le> 48" unfolding cut_def using length_trim_dashes [of "take 48 slug"] by auto
  then have len: "length ?id \<le> 56" unfolding i by (simp add: short_def)
  have slash: "CHR ''/'' \<notin> set ?id" using bytes by (fastforce simp: slug_byte_def byte_def)
  have "CHR ''-'' \<in> set ?id" unfolding i by simp
  then have "plain ?id" unfolding plain_def by auto
  then have "clean_rel ?id" using slash by (simp add: clean_rel_def split_on_word)
  then show ?thesis using len bytes slash by blast
qed

theorem taskIDFor_element_witness:
  "CHR ''/'' \<notin> set (taskIDFor (\<lambda>_. False) (\<lambda>s. s)
     \<lparr>cd_session = [], cd_title = [], cd_repo = [], cd_prompt = [], cd_asked = 0, cd_ended = None,
      cd_commits = [\<lparr>ct_hash = [], ct_subject = ''fix: ../../etc'', ct_at = 0\<rparr>], cd_files = 0, cd_added = 0, cd_removed = 0,
      cd_tests = False, cd_reference = 0\<rparr> ''abc'')"
  using taskIDFor_element [of "''abc''" "\<lambda>_. False" "\<lambda>s. s"] by (simp add: slug_byte_def byte_def)

section \<open>What a verification observed\<close>

definition verify_env :: "'s os \<Rightarrow> string list" where
  "verify_env os = os_environ os @ [''GOPROXY=off'', ''GOFLAGS=-mod=mod'']"

lemma runCommand_Inr:
  "runCommand os tk dir argv s = (t, Inr (out, ok)) \<longleftrightarrow> tl_exec tk (verify_env os) dir argv (fst s) = (fst t, (out, ok)) \<and> snd t = snd s"
  by (simp add: runCommand_def verify_env_def io_simps)

text \<open>The command failed in the directory, on a state reached by a copy of the fixture.\<close>

definition failed_on_fixture :: "'s os \<Rightarrow> 's tools \<Rightarrow> string \<Rightarrow> string list \<Rightarrow> string \<Rightarrow> 's \<Rightarrow> bool" where
  "failed_on_fixture os tk taskDir argv out m \<longleftrightarrow>
     (\<exists>s t. copyTree os tk (filepath_join [taskDir, ''fixture'']) (verify_dir os tk taskDir) s = (t, Inr ()) \<and>
        tl_exec tk (verify_env os) (verify_dir os tk taskDir) argv (fst t) = (m, (out, False)))"

definition passed_on_reference :: "'s os \<Rightarrow> 's tools \<Rightarrow> string \<Rightarrow> string list \<Rightarrow> 's \<Rightarrow> bool" where
  "passed_on_reference os tk taskDir argv m \<longleftrightarrow>
     (\<exists>d t out. copyTree os tk (filepath_join [taskDir, ''evaluator'', ''reference'']) (verify_dir os tk taskDir) (m, d) = (t, Inr ()) \<and>
        snd (tl_exec tk (verify_env os) (verify_dir os tk taskDir) argv (fst t)) = (out, True))"


section \<open>What an export writes\<close>

definition below :: "string \<Rightarrow> string \<Rightarrow> bool" where
  "below base p \<longleftrightarrow> (\<exists>r. (r = ''.'' \<or> clean_rel r) \<and> p = filepath_join [base, r])"

lemma clean_elems_members: "set (clean_elems r es out) \<subseteq> set es \<union> set out \<union> {''..''}"
  by (induction r es out rule: clean_elems.induct) (auto split: list.splits)

lemma path_clean_contained:
  assumes "\<not> has_prefix (path_clean rel) ''../''" "path_clean rel \<noteq> ''..''" "\<not> has_prefix (path_clean rel) ''/''"
  shows "path_clean rel = ''.'' \<or> clean_rel (path_clean rel)"
proof (cases "rel = []")
  case False
  then have rooted: "hd rel \<noteq> CHR ''/''" using assms(3) by (auto simp: path_clean_def Let_def)
  let ?es = "clean_elems False (split_on (CHR ''/'') rel) []"
  have p: "path_clean rel = (if join ''/'' ?es = [] then ''.'' else join ''/'' ?es)"
    using False rooted by (simp add: path_clean_def Let_def)
  obtain n ps where es: "?es = replicate n ''..'' @ ps" "list_all plain ps"
    using clean_elems_shape [of "[]" "[]" 0 "split_on (CHR ''/'') rel"] by auto
  have "n = 0"
  proof (rule ccontr)
    assume "n \<noteq> 0"
    then obtain k where n: "n = Suc k" by (cases n) auto
    show False
    proof (cases "replicate k ''..'' @ ps")
      case Nil
      then show False using assms(2) p es(1) n by simp
    next
      case (Cons w ws)
      then have "join ''/'' ?es = ''../'' @ join ''/'' (w # ws)" using es(1) n by simp
      then show False using assms(1) p by simp
    qed
  qed
  then have ps: "?es = ps" using es by simp
  show ?thesis
  proof (cases "ps = []")
    case True
    then show ?thesis using p ps by simp
  next
    case some: False
    have noslash: "CHR ''/'' \<notin> set w" if "w \<in> set ps" for w
      using that clean_elems_members [of False "split_on (CHR ''/'') rel" "[]"] split_on_no_sep [of w "CHR ''/''" rel]
      unfolding ps by auto
    have "join ''/'' ps \<noteq> []" using some es(2) by (cases "(''/'', ps)" rule: join.cases) (auto simp: plain_def)
    then show ?thesis using p ps split_on_join [of ps "CHR ''/''"] some noslash es(2) by (simp add: clean_rel_def)
  qed
qed (simp add: path_clean_def)

text \<open>A machine whose writes can be read off its state, and whose walks stay in the directory.\<close>

definition writes_logged :: "'s os \<Rightarrow> 's tools \<Rightarrow> ('s \<Rightarrow> (string \<times> string) list) \<Rightarrow> bool" where
  "writes_logged os tk lg \<longleftrightarrow>
     (\<forall>m p b. lg (fst (os_write os p b m)) = (if snd (os_write os p b m) then lg m @ [(p, b)] else lg m)) \<and>
     (\<forall>m p. lg (fst (os_mkdir os p m)) = lg m \<and> lg (fst (os_remove_all os p m)) = lg m) \<and>
     (\<forall>m env dir args. lg (fst (os_git os env dir args m)) = lg m \<and> lg (fst (tl_exec tk env dir args m)) = lg m) \<and>
     (\<forall>m dir tar. lg (fst (tl_untar tk dir tar m)) = lg m)"

definition walks_inside :: "'s tools \<Rightarrow> bool" where
  "walks_inside tk \<longleftrightarrow> (\<forall>dir m es e. tl_walk tk dir m = Some es \<longrightarrow> e \<in> set es \<longrightarrow> clean_rel (fst e))"

definition only_wrote :: "('s \<Rightarrow> (string \<times> string) list) \<Rightarrow> (string \<times> string) list \<Rightarrow> (string \<Rightarrow> bool) \<Rightarrow> 's \<Rightarrow> bool" where
  "only_wrote lg before ok m \<longleftrightarrow> (\<exists>ws. lg m = before @ ws \<and> (\<forall>w\<in>set ws. ok (fst w)))"

lemma logged_steps:
  assumes "writes_logged os tk lg"
  shows "keeps (\<lambda>s. only_wrote lg l ok (fst s)) (io_try (os_mkdir os p) e)"
    "keeps (\<lambda>s. only_wrote lg l ok (fst s)) (io_try (os_remove_all os p) e)"
    "keeps (\<lambda>s. only_wrote lg l ok (fst s)) (io_try (tl_untar tk p b) e)"
    "keeps (\<lambda>s. only_wrote lg l ok (fst s)) (harvest_git os repo args)"
    "keeps (\<lambda>s. only_wrote lg l ok (fst s)) (runCommand os tk p args)"
    "ok p \<Longrightarrow> keeps (\<lambda>s. only_wrote lg l ok (fst s)) (io_try (os_write os p b) e)"
proof -
  have same: "only_wrote lg l ok m \<Longrightarrow> lg m' = lg m \<Longrightarrow> only_wrote lg l ok m'" for m m' by (simp add: only_wrote_def)
  show "keeps (\<lambda>s. only_wrote lg l ok (fst s)) (io_try (os_mkdir os p) e)"
    "keeps (\<lambda>s. only_wrote lg l ok (fst s)) (io_try (os_remove_all os p) e)"
    "keeps (\<lambda>s. only_wrote lg l ok (fst s)) (io_try (tl_untar tk p b) e)"
    using assms by (auto intro!: keeps_step(1) elim!: same simp: writes_logged_def)
  show "keeps (\<lambda>s. only_wrote lg l ok (fst s)) (harvest_git os repo args)"
    "keeps (\<lambda>s. only_wrote lg l ok (fst s)) (runCommand os tk p args)"
    using assms unfolding harvest_git_def runCommand_def by (auto intro!: keeps_step(2) elim!: same simp: writes_logged_def)
  show "keeps (\<lambda>s. only_wrote lg l ok (fst s)) (io_try (os_write os p b) e)" if "ok p"
  proof (rule keeps_step(1))
    fix m assume "only_wrote lg l ok m"
    then obtain ws where "lg m = l @ ws" "\<forall>w\<in>set ws. ok (fst w)" by (auto simp: only_wrote_def)
    moreover have "lg (fst (os_write os p b m)) = lg m @ (if snd (os_write os p b m) then [(p, b)] else [])"
      using assms by (simp add: writes_logged_def)
    ultimately show "only_wrote lg l ok (fst (os_write os p b m))"
      unfolding only_wrote_def using that by (intro exI [of _ "ws @ (if snd (os_write os p b m) then [(p, b)] else [])"]) auto
  qed
qed

lemma keeps_sum: "(\<And>x y. z = (x, y) \<Longrightarrow> keeps P (f x y)) \<Longrightarrow> keeps P (case z of (x, y) \<Rightarrow> f x y)"
  by (cases z) simp

lemma keeps_look: "(\<And>s. keeps P (f (g s))) \<Longrightarrow> keeps P (io_bind (io_look g) f)"
  by (fastforce simp: keeps_def io_bind_def io_look_def)

lemma writeUnder_keeps:
  assumes "writes_logged os tk lg" "\<And>q. below base q \<Longrightarrow> ok q"
  shows "keeps (\<lambda>s. only_wrote lg l ok (fst s)) (writeUnder os base rel content)"
proof -
  have "ok (filepath_join [base, path_clean rel])"
    if "\<not> (has_prefix (path_clean rel) ''../'' \<or> path_clean rel = ''..'' \<or> has_prefix (path_clean rel) ''/'')"
    using that path_clean_contained [of rel] by (intro assms(2)) (auto simp: below_def)
  then show ?thesis unfolding writeUnder_def Let_def by (intro keeps_intro logged_steps [OF assms(1)]) auto
qed

lemma copyTree_keeps:
  assumes "writes_logged os tk lg" "walks_inside tk" "\<And>q. below dst q \<Longrightarrow> ok q"
  shows "keeps (\<lambda>s. only_wrote lg l ok (fst s)) (copyTree os tk src dst)"
proof -
  have entry: "keeps (\<lambda>s. only_wrote lg l ok (fst s)) (copy_entry os src dst e)" if "fst e = ''.'' \<or> clean_rel (fst e)" for e
  proof -
    obtain rel d where e: "e = (rel, d)" by force
    have "ok (filepath_join [dst, rel])" using that by (intro assms(3)) (auto simp: e below_def)
    then show ?thesis unfolding e copy_entry_def prod.case Let_def
      by (intro keeps_intro keeps_option logged_steps [OF assms(1)])
  qed
  have "keeps (\<lambda>s. only_wrote lg l ok (fst s)) (io_all (copy_entry os src dst) ((''.'', b) # es))"
    if "tl_walk tk src m = Some es" for m b es
  proof (intro keeps_all entry)
    fix e assume "e \<in> set ((''.'', b) # es)"
    then show "fst e = ''.'' \<or> clean_rel (fst e)"
      using assms(2) [unfolded walks_inside_def, rule_format, OF that, of e] by auto
  qed
  then show ?thesis unfolding copyTree_def
    by (intro keeps_intro keeps_look) (auto intro!: keeps_intro split: option.splits simp del: io_all.simps)
qed

lemma Verify_keeps:
  assumes "writes_logged os tk lg" "walks_inside tk" "\<And>q. below (verify_dir os tk taskDir) q \<Longrightarrow> ok q"
  shows "keeps (\<lambda>s. only_wrote lg l ok (fst s)) (Verify os tk taskDir)"
  unfolding Verify_def commandValidator_def verify_fixture_def verify_reference_def Let_def
  by (intro keeps_intro keeps_option keeps_sum logged_steps [OF assms(1)] copyTree_keeps [OF assms(1,2)] assms(3))


section \<open>What a successful export has written\<close>

definition shown :: "'s os \<Rightarrow> string \<Rightarrow> string \<Rightarrow> string \<Rightarrow> string \<Rightarrow> bool" where
  "shown os repo revision p content \<longleftrightarrow>
     (\<exists>m. snd (os_git os (os_environ os @ [''GIT_OPTIONAL_LOCKS=0'']) repo [''show'', revision @ '':'' @ p] m) = Some content)"

lemma grows:
  assumes "keeps (\<lambda>s. only_wrote lg (lg (fst s0)) (\<lambda>_. True) (fst s)) m" "m s0 = (t, r)"
  shows "set (lg (fst s0)) \<subseteq> set (lg (fst t))"
proof -
  have "only_wrote lg (lg (fst s0)) (\<lambda>_. True) (fst (fst (m s0)))" by (rule keepsD [OF assms(1)]) (simp add: only_wrote_def)
  then show ?thesis using assms(2) by (auto simp: only_wrote_def)
qed

lemma put_file:
  assumes "writes_logged os tk lg" "io_bind (showFile os repo revision p) (writeUnder os base p) s = (t, Inr ())"
  shows "\<exists>content. shown os repo revision p content \<and> (filepath_join [base, path_clean p], content) \<in> set (lg (fst t))"
proof -
  obtain s1 content where c: "showFile os repo revision p s = (s1, Inr content)" "writeUnder os base p content s1 = (t, Inr ())"
    using assms(2) by (auto simp: io_bind_Inr)
  have "shown os repo revision p content"
    using c(1) unfolding showFile_def harvest_git_def shown_def by (auto simp: io_bind_Inr io_simps split: option.splits) (metis snd_conv)
  moreover have "(filepath_join [base, path_clean p], content) \<in> set (lg (fst t))"
  proof -
    obtain m where "os_write os (filepath_join [base, path_clean p]) content m = (fst t, True)"
      using c(2) unfolding writeUnder_def Let_def by (auto simp: io_then_Inr io_simps split: if_splits)
    moreover have "lg (fst (os_write os (filepath_join [base, path_clean p]) content m)) =
        (if snd (os_write os (filepath_join [base, path_clean p]) content m) then lg m @ [(filepath_join [base, path_clean p], content)] else lg m)"
      using assms(1) by (simp add: writes_logged_def)
    ultimately show ?thesis by simp
  qed
  ultimately show ?thesis by blast
qed

lemma put_keeps:
  assumes "writes_logged os tk lg"
  shows "keeps (\<lambda>s. only_wrote lg l (\<lambda>_. True) (fst s)) (put_files os base repo revision paths)"
  unfolding put_files_def showFile_def
  by (intro keeps_intro keeps_option logged_steps [OF assms] writeUnder_keeps [OF assms] TrueI)

lemma put_files_all:
  assumes "writes_logged os tk lg" "put_files os base repo revision paths s = (t, Inr ())" "p \<in> set paths"
  shows "\<exists>content. shown os repo revision p content \<and> (filepath_join [base, path_clean p], content) \<in> set (lg (fst t))"
  using assms(2,3)
proof (induction paths arbitrary: s)
  case (Cons q qs)
  obtain s1 where s1: "io_bind (showFile os repo revision q) (writeUnder os base q) s = (s1, Inr ())"
      "put_files os base repo revision qs s1 = (t, Inr ())"
    using Cons.prems(1) by (auto simp: put_files_def io_then_Inr)
  have "set (lg (fst s1)) \<subseteq> set (lg (fst t))" by (rule grows [OF put_keeps [OF assms(1)] s1(2)])
  then show ?case using put_file [OF assms(1) s1(1)] Cons.IH [OF s1(2)] Cons.prems(2) by (metis set_ConsD subsetD)
qed simp

lemma write_file_logged:
  assumes "writes_logged os tk lg" "write_file os p content s = (t, Inr ())"
  shows "lg (fst t) = lg (fst s) @ [(p, content)]"
proof -
  have "os_write os p content (fst s) = (fst t, True)" using assms(2) by (simp add: write_file_def io_simps)
  moreover have "lg (fst (os_write os p content (fst s))) = (if snd (os_write os p content (fst s)) then lg (fst s) @ [(p, content)] else lg (fst s))"
    using assms(1) by (simp add: writes_logged_def)
  ultimately show ?thesis by simp
qed

definition changed_paths :: "'s os \<Rightarrow> string \<Rightarrow> string \<Rightarrow> string \<Rightarrow> string list \<Rightarrow> bool" where
  "changed_paths os repo parent lastCommit changed \<longleftrightarrow>
     (\<exists>m text. snd (os_git os (os_environ os @ [''GIT_OPTIONAL_LOCKS=0'']) repo [''diff'', ''--name-only'', parent, lastCommit] m) = Some text \<and>
        changed = sort (filter (\<lambda>l. l \<noteq> []) (split_on (CHR 0x0A) (trim_space text))))"

lemma changedFiles_Inr: "changedFiles os repo parent lastCommit s = (t, Inr changed) \<Longrightarrow> changed_paths os repo parent lastCommit changed"
  unfolding changedFiles_def harvest_git_def changed_paths_def
  by (auto simp: io_bind_Inr io_simps split: option.splits) (metis snd_conv)


section \<open>A sample machine\<close>

text \<open>Its state is the list of the files written; git answers every command, and a task has no validator.\<close>

definition export_os :: "(string \<times> string) list os" where
  "export_os = idle_os\<lparr>os_write := \<lambda>p b m. (m @ [(p, b)], True), os_read := \<lambda>_ _. Some [],
     os_git := \<lambda>_ _ args m. (m, Some (if hd args = ''diff'' then ''a'' else ''x''))\<rparr>"

definition export_tools :: "(string \<times> string) list tools" where
  "export_tools = \<lparr>tl_walk = \<lambda>_ _. None, tl_names = \<lambda>_ _. None, tl_untar = \<lambda>_ _ m. (m, True), tl_exec = \<lambda>_ _ _ m. (m, ([], True)),
     tl_yaml = \<lambda>_. Some [], tl_lower = \<lambda>s. s, tl_temp = ''/tmp'', tl_time = \<lambda>_. []\<rparr>"

definition one_commit :: candidate where
  "one_commit = \<lparr>cd_session = [], cd_title = [], cd_repo = ''/r'', cd_prompt = [], cd_asked = 0, cd_ended = None,
      cd_commits = [\<lparr>ct_hash = ''c'', ct_subject = [], ct_at = 0\<rparr>], cd_files = 0, cd_added = 0, cd_removed = 0,
      cd_tests = False, cd_reference = 0\<rparr>"

lemma export_machine: "writes_logged export_os export_tools (\<lambda>l. l)" "walks_inside export_tools"
  by (simp_all add: writes_logged_def walks_inside_def export_os_def export_tools_def idle_os_def)


lemma looks_at: "trim_space ''a'' = ''a''" "trim_space ''x'' = ''x''" "\<not> looksLikeTest (\<lambda>s. s) ''a''" "path_clean ''a'' = ''a''"
proof -
  show "trim_space ''a'' = ''a''" "trim_space ''x'' = ''x''" by (simp_all add: trim_space_def spaces_def upt_rec char_of_def)
  show "\<not> looksLikeTest (\<lambda>s. s) ''a''" "path_clean ''a'' = ''a''" by code_simp+
qed


text \<open>A machine that counts the commands it ran: the first fails and the second passes.\<close>

definition counting_tools :: "nat tools" where
  "counting_tools = \<lparr>tl_walk = \<lambda>_ _. None, tl_names = \<lambda>_ _. None, tl_untar = \<lambda>_ _ m. (m, True), tl_exec = \<lambda>_ _ _ m. (Suc m, ([], 0 < m)),
     tl_yaml = \<lambda>_. Some [(''command'', [''t''])], tl_lower = \<lambda>s. s, tl_temp = ''/tmp'', tl_time = \<lambda>_. []\<rparr>"


end
