(* ===== verification/Variance.thy ===== *)
theory Variance
  imports Calibration
begin

text \<open>
  \<open>internal/history/variance.go\<close>: the noise of every metric on every task, pooled over the groups of runs of
  one configuration. The maps of the loop are built by \<open>accum\<close>; Go iterates them in any order, which only
  permutes sums.
\<close>

definition varianceAxes :: "string list" where
  "varianceAxes = [''tokens_total'', ''tokens_cache_read'', ''tool_calls_total'', ''duration_ms'', ''score'']"

record axis_variance =
  av_metric :: string
  av_groups :: nat
  av_samples :: nat
  av_rel_sd :: real
  av_repeats5 :: int
  av_repeats10 :: int
  av_indicative :: bool

definition indicativeDOF :: real where "indicativeDOF = 4"

definition MDEAt :: "axis_variance \<Rightarrow> int \<Rightarrow> fl" where
  "MDEAt a n = MDEForRelSD (av_rel_sd a) n DefaultPower DefaultAlpha"

record task_variance =
  tv_suite :: string
  tv_task :: string
  tv_runs :: nat
  tv_profiles :: nat
  tv_repeated :: nat
  tv_axes :: "axis_variance list"

record variance_report =
  vr_tasks :: "task_variance list"
  vr_runs :: nat
  vr_single :: nat
  vr_repeated :: nat

section \<open>The groups\<close>

type_synonym group_id = "(string \<times> string) \<times> string"

definition group_key :: "run_row \<Rightarrow> group_id" where
  "group_key r = (task_key r, rr_profile_hash r)"

definition add_axis :: "(string, real) gomap \<Rightarrow> string \<Rightarrow> (string, real list) gomap \<Rightarrow> (string, real list) gomap" where
  "add_axis values axis m = (case map_of values axis of None \<Rightarrow> m | Some v \<Rightarrow> modify axis [] (\<lambda>vs. vs @ [v]) m)"

definition add_axes :: "db \<Rightarrow> run_row \<Rightarrow> (string, real list) gomap \<Rightarrow> (string, real list) gomap" where
  "add_axes s r m = fold (add_axis (run_values s r)) varianceAxes m"

record variance_maps =
  vm_runs :: "(string \<times> string, nat) gomap"
  vm_profiles :: "(string \<times> string, string list) gomap"
  vm_group_runs :: "(group_id, nat) gomap"
  vm_values :: "(group_id, (string, real list) gomap) gomap"

definition variance_of_runs :: "db \<Rightarrow> run_row list \<Rightarrow> variance_maps" where
  "variance_of_runs s runs =
     \<lparr>vm_runs = accum task_key (\<lambda>_. 0) (\<lambda>_. Suc) runs [],
      vm_profiles = accum task_key (\<lambda>_. []) (\<lambda>r. List.insert (rr_profile_hash r)) runs [],
      vm_group_runs = accum group_key (\<lambda>_. 0) (\<lambda>_. Suc) runs [],
      vm_values = accum group_key (\<lambda>_. []) (add_axes s) runs []\<rparr>"

section \<open>Pooling\<close>

record pool =
  po_weighted :: real
  po_dof :: real
  po_groups :: nat
  po_samples :: nat

definition no_pool :: pool where
  "no_pool = \<lparr>po_weighted = 0, po_dof = 0, po_groups = 0, po_samples = 0\<rparr>"

definition pool_values :: "real list \<Rightarrow> pool \<Rightarrow> pool" where
  "pool_values vals p =
     (if length vals < 2 then p
      else let m = Mean vals
           in if m = 0 then p
              else (case StdDev vals of
                      None \<Rightarrow> p
                    | Some sd \<Rightarrow>
                        (let weight = real (length vals - 1)
                         in \<lparr>po_weighted = po_weighted p + weight * (sd * sd / (m * m)), po_dof = po_dof p + weight,
                             po_groups = Suc (po_groups p), po_samples = po_samples p + length vals\<rparr>)))"

definition pool_axis :: "(group_id, (string, real list) gomap) gomap \<Rightarrow> string \<times> string \<Rightarrow> string \<Rightarrow> pool" where
  "pool_axis groups key axis =
     fold (\<lambda>(gk, axes) p. if fst gk \<noteq> key then p else pool_values (getd [] axes axis) p) groups no_pool"

definition axis_variance_of :: "string \<Rightarrow> pool \<Rightarrow> axis_variance option" where
  "axis_variance_of axis p =
     (if po_groups p = 0 \<or> po_dof p = 0 then None
      else let relSD = sqrt (po_weighted p / po_dof p);
               repeats = (\<lambda>effect. case RepeatsForSD relSD effect DefaultPower DefaultAlpha of None \<Rightarrow> 0 | Some n \<Rightarrow> n)
           in Some \<lparr>av_metric = axis, av_groups = po_groups p, av_samples = po_samples p, av_rel_sd = relSD,
                av_repeats5 = repeats 0.05, av_repeats10 = repeats 0.10, av_indicative = (po_dof p < indicativeDOF)\<rparr>)"

definition repeated_groups :: "(group_id, nat) gomap \<Rightarrow> (string \<times> string, nat) gomap" where
  "repeated_groups groupRuns = accum (\<lambda>g. fst (fst g)) (\<lambda>_. 0) (\<lambda>_. Suc) (filter (\<lambda>g. 2 \<le> snd g) groupRuns) []"

definition task_variance_of :: "variance_maps \<Rightarrow> string \<times> string \<Rightarrow> task_variance" where
  "task_variance_of m key =
     \<lparr>tv_suite = fst key, tv_task = snd key, tv_runs = getd 0 (vm_runs m) key, tv_profiles = length (getd [] (vm_profiles m) key),
      tv_repeated = getd 0 (repeated_groups (vm_group_runs m)) key,
      tv_axes = List.map_filter (\<lambda>axis. axis_variance_of axis (pool_axis (vm_values m) key axis)) varianceAxes\<rparr>"

definition report_variance :: "task_variance \<Rightarrow> variance_report \<Rightarrow> variance_report" where
  "report_variance t rep =
     rep\<lparr>vr_single := (if tv_runs t = 1 then Suc (vr_single rep) else vr_single rep),
         vr_repeated := (if 0 < tv_repeated t then Suc (vr_repeated rep) else vr_repeated rep),
         vr_tasks := vr_tasks rep @ [t]\<rparr>"

definition wanted_run :: "string \<Rightarrow> string list \<Rightarrow> run_row \<Rightarrow> bool" where
  "wanted_run suite tasks r \<longleftrightarrow> in_suite suite r \<and> (tasks = [] \<or> rr_task r \<in> set tasks)"

definition Variance :: "string \<Rightarrow> string list \<Rightarrow> db \<Rightarrow> variance_report" where
  "Variance suite tasks s =
     (let runs = filter (wanted_run suite tasks) (ListRuns 0 [] s);
          m = variance_of_runs s runs;
          keys = sort_by key_before (map fst (vm_runs m))
      in fold (\<lambda>key. report_variance (task_variance_of m key)) keys
           \<lparr>vr_tasks = [], vr_runs = length runs, vr_single = 0, vr_repeated = 0\<rparr>)"

section \<open>What a noise estimate rests on\<close>

lemma report_variance_tasks:
  "vr_tasks (fold (\<lambda>key. report_variance (f key)) ks rep) = vr_tasks rep @ map f ks \<and>
   vr_runs (fold (\<lambda>key. report_variance (f key)) ks rep) = vr_runs rep"
  by (induction ks arbitrary: rep) (auto simp: report_variance_def)

definition axis_values :: "db \<Rightarrow> string \<Rightarrow> run_row list \<Rightarrow> real list" where
  "axis_values s axis rs = List.map_filter (\<lambda>r. map_of (run_values s r) axis) rs"

definition opt_values :: "'a option \<Rightarrow> 'a list" where
  "opt_values x = (case x of None \<Rightarrow> [] | Some v \<Rightarrow> [v])"

lemma add_axis_value:
  "getd [] (add_axis values a m) axis = getd [] m axis @ (if a = axis then opt_values (map_of values a) else [])"
  by (auto simp: add_axis_def opt_values_def go_map split: option.split)

lemma add_axis_others: "axis \<notin> set axes \<Longrightarrow> getd [] (fold (add_axis values) axes m) axis = getd [] m axis"
  by (induction axes arbitrary: m) (auto simp: add_axis_value)

lemma add_axis_values:
  "distinct axes \<Longrightarrow> axis \<in> set axes \<Longrightarrow>
     getd [] (fold (add_axis values) axes m) axis = getd [] m axis @ opt_values (map_of values axis)"
proof (induction axes arbitrary: m)
  case (Cons a axes)
  then show ?case by (cases "a = axis") (simp_all add: add_axis_others add_axis_value)
qed simp

lemma group_axis:
  assumes "axis \<in> set varianceAxes"
  shows "getd [] (fold (add_axes s) rs m) axis = getd [] m axis @ axis_values s axis rs"
proof (induction rs arbitrary: m)
  case (Cons r rs)
  have "distinct varianceAxes" by (simp add: varianceAxes_def)
  from add_axis_values [OF this assms] Cons show ?case
    by (simp add: add_axes_def axis_values_def opt_values_def map_filter_simps split: option.splits)
qed (simp add: axis_values_def map_filter_simps)

text \<open>A group counts when it has two values whose mean is not zero.\<close>

definition usable :: "real list \<Rightarrow> bool" where
  "usable vals \<longleftrightarrow> 2 \<le> length vals \<and> Mean vals \<noteq> 0"

definition rel_variance :: "real list \<Rightarrow> real" where
  "rel_variance vals = (\<Sum>v\<leftarrow>vals. (v / Mean vals - 1)\<^sup>2)"

lemma pool_values_eq:
  "pool_values vals p = (if usable vals
     then \<lparr>po_weighted = po_weighted p + rel_variance vals, po_dof = po_dof p + real (length vals - 1),
           po_groups = Suc (po_groups p), po_samples = po_samples p + length vals\<rparr> else p)"
proof (cases "usable vals")
  case True
  then have two: "2 \<le> length vals" and m: "Mean vals \<noteq> 0" by (simp_all add: usable_def)
  have n: "real (length vals - 1) \<noteq> 0" using two by simp
  have sd: "StdDev vals = Some (sqrt ((\<Sum>v\<leftarrow>vals. (v - Mean vals)\<^sup>2) / real (length vals - 1)))"
    using two StdDev_eq [of vals] by (simp add: Mean_eq_mean)
  have "(\<Sum>v\<leftarrow>vals. (v - Mean vals)\<^sup>2) = (Mean vals)\<^sup>2 * rel_variance vals"
    unfolding rel_variance_def sum_list_const_mult [symmetric] using m
    by (intro arg_cong [where f = sum_list] map_cong refl) (simp add: power_mult_distrib [symmetric] right_diff_distrib)
  then have "real (length vals - 1) * (sqrt ((\<Sum>v\<leftarrow>vals. (v - Mean vals)\<^sup>2) / real (length vals - 1)) *
      sqrt ((\<Sum>v\<leftarrow>vals. (v - Mean vals)\<^sup>2) / real (length vals - 1)) / (Mean vals * Mean vals)) = rel_variance vals"
    using m n sum_list_sq_nonneg [of "Mean vals" vals] by (simp add: power2_eq_square)
  then show ?thesis using two m True by (simp add: pool_values_def Let_def sd)
qed (auto simp: pool_values_def usable_def Let_def)

definition task_groups :: "run_row list \<Rightarrow> string \<times> string \<Rightarrow> run_row list list" where
  "task_groups runs key =
     map (\<lambda>gk. filter (\<lambda>r. group_key r = gk) runs) (filter (\<lambda>gk. fst gk = key) (dedup (map group_key runs)))"

definition usable_groups :: "db \<Rightarrow> run_row list \<Rightarrow> string \<times> string \<Rightarrow> string \<Rightarrow> real list list" where
  "usable_groups s runs key axis = filter usable (map (axis_values s axis) (task_groups runs key))"

lemma pool_axis_eq:
  assumes axis: "axis \<in> set varianceAxes"
  shows "pool_axis (vm_values (variance_of_runs s runs)) key axis =
    (let G = usable_groups s runs key axis
     in \<lparr>po_weighted = (\<Sum>vals\<leftarrow>G. rel_variance vals), po_dof = (\<Sum>vals\<leftarrow>G. real (length vals - 1)), po_groups = length G,
         po_samples = (\<Sum>vals\<leftarrow>G. length vals)\<rparr>)"
proof -
  have "fold (\<lambda>(gk, axes) p. if fst gk \<noteq> key then p else pool_values (getd [] axes axis) p)
      (map (\<lambda>k. (k, fold (add_axes s) (filter (\<lambda>r. group_key r = k) runs) [])) ks) p =
    (let G = filter usable (map (axis_values s axis) (map (\<lambda>gk. filter (\<lambda>r. group_key r = gk) runs) (filter (\<lambda>gk. fst gk = key) ks)))
     in \<lparr>po_weighted = po_weighted p + (\<Sum>vals\<leftarrow>G. rel_variance vals), po_dof = po_dof p + (\<Sum>vals\<leftarrow>G. real (length vals - 1)),
         po_groups = po_groups p + length G, po_samples = po_samples p + (\<Sum>vals\<leftarrow>G. length vals)\<rparr>)" for ks p
    by (induction ks arbitrary: p) (auto simp: pool_values_eq group_axis [OF axis] Let_def)
  then show ?thesis
    by (simp add: pool_axis_def variance_of_runs_def accum_items usable_groups_def task_groups_def no_pool_def Let_def)
qed

lemma task_groups_runs: "(\<Sum>g\<leftarrow>task_groups runs key. length g) = length (filter (\<lambda>r. task_key r = key) runs)"
proof -
  have "(\<Sum>g\<leftarrow>task_groups runs key. length g)
      = length (filter (\<lambda>r. group_key r \<in> set (filter (\<lambda>gk. fst gk = key) (dedup (map group_key runs)))) runs)"
    unfolding task_groups_def by (simp add: comp_def length_filter_keys)
  also have "\<dots> = length (filter (\<lambda>r. task_key r = key) runs)"
    by (intro arg_cong [where f = length] filter_cong refl) (auto simp: group_key_def)
  finally show ?thesis .
qed

lemma usable_groups_bounds:
  "2 * length (usable_groups s runs key axis) \<le> (\<Sum>vals\<leftarrow>usable_groups s runs key axis. length vals)"
  "(\<Sum>vals\<leftarrow>usable_groups s runs key axis. length vals) \<le> length (filter (\<lambda>r. task_key r = key) runs)"
  "length (usable_groups s runs key axis) \<le> length (filter (\<lambda>g. 2 \<le> length g) (task_groups runs key))"
  "(\<Sum>vals\<leftarrow>usable_groups s runs key axis. real (length vals - 1))
     = real (\<Sum>vals\<leftarrow>usable_groups s runs key axis. length vals) - real (length (usable_groups s runs key axis))"
proof -
  have len: "length (axis_values s axis g) \<le> length g" for g by (simp add: axis_values_def map_filter_def)
  have "2 * length (filter usable vs) \<le> (\<Sum>v\<leftarrow>filter usable vs. length v)" for vs by (induction vs) (auto simp: usable_def)
  then show "2 * length (usable_groups s runs key axis) \<le> (\<Sum>vals\<leftarrow>usable_groups s runs key axis. length vals)"
    unfolding usable_groups_def by blast
  have "(\<Sum>v\<leftarrow>filter usable (map (axis_values s axis) gs). length v) \<le> (\<Sum>g\<leftarrow>gs. length g)" for gs
    by (induction gs) (auto intro: add_mono len trans_le_add2)
  then show "(\<Sum>vals\<leftarrow>usable_groups s runs key axis. length vals) \<le> length (filter (\<lambda>r. task_key r = key) runs)"
    unfolding usable_groups_def task_groups_runs [symmetric] by blast
  have "length (filter usable (map (axis_values s axis) gs)) \<le> length (filter (\<lambda>g. 2 \<le> length g) gs)" for gs
    by (induction gs) (auto simp: usable_def dest: le_trans [OF _ len])
  then show "length (usable_groups s runs key axis) \<le> length (filter (\<lambda>g. 2 \<le> length g) (task_groups runs key))"
    unfolding usable_groups_def by blast
  have "(\<Sum>v\<leftarrow>filter usable vs. real (length v - 1)) = real (\<Sum>v\<leftarrow>filter usable vs. length v) - real (length (filter usable vs))" for vs
    by (induction vs) (auto simp: usable_def of_nat_diff)
  then show "(\<Sum>vals\<leftarrow>usable_groups s runs key axis. real (length vals - 1))
     = real (\<Sum>vals\<leftarrow>usable_groups s runs key axis. length vals) - real (length (usable_groups s runs key axis))"
    unfolding usable_groups_def by blast
qed

lemma tv_repeated_eq:
  "tv_repeated (task_variance_of (variance_of_runs s runs) key) = length (filter (\<lambda>g. 2 \<le> length g) (task_groups runs key))"
proof -
  have "length (filter (\<lambda>g. fst (fst g) = key \<and> 2 \<le> snd g) (map (\<lambda>k. (k, length (filter (\<lambda>r. group_key r = k) runs))) ks))
     = length (filter (\<lambda>g. 2 \<le> length g) (map (\<lambda>gk. filter (\<lambda>r. group_key r = gk) runs) (filter (\<lambda>gk. fst gk = key) ks)))" for ks
    by (induction ks) auto
  moreover have "getd 0 (repeated_groups gr) key = length (filter (\<lambda>g. fst (fst g) = key \<and> 2 \<le> snd g) gr)" for gr
    unfolding repeated_groups_def getd_count by (simp add: conj_commute)
  moreover have "vm_group_runs (variance_of_runs s runs) = map (\<lambda>k. (k, length (filter (\<lambda>r. group_key r = k) runs))) (dedup (map group_key runs))"
    by (simp add: variance_of_runs_def accum_items count_Suc)
  ultimately show ?thesis by (simp only: task_variance_of_def task_variance.simps task_groups_def)
qed

lemma Variance_eq:
  fixes suite tasks s
  defines "runs \<equiv> filter (wanted_run suite tasks) (ListRuns 0 [] s)"
  shows "vr_tasks (Variance suite tasks s) = map (task_variance_of (variance_of_runs s runs)) (sorted_list_of_set (task_key ` set runs))"
    "vr_runs (Variance suite tasks s) = length runs"
proof -
  have ks: "sort_by key_before (map fst (vm_runs (variance_of_runs s runs))) = sorted_list_of_set (task_key ` set runs)"
    unfolding sort_keys by (simp add: variance_of_runs_def keys_accum_order sort_dedup)
  show "vr_tasks (Variance suite tasks s) = map (task_variance_of (variance_of_runs s runs)) (sorted_list_of_set (task_key ` set runs))"
    "vr_runs (Variance suite tasks s) = length runs"
    unfolding Variance_def Let_def runs_def [symmetric] ks by (simp_all add: report_variance_tasks)
qed

lemma axis_variance_Some:
  assumes "axis_variance_of axis p = Some a"
  shows "po_groups p \<noteq> 0" "av_groups a = po_groups p" "av_samples a = po_samples p" "av_metric a = axis"
    "av_rel_sd a = sqrt (po_weighted p / po_dof p)" "av_indicative a \<longleftrightarrow> po_dof p < 4"
    "av_repeats5 a \<noteq> 0 \<Longrightarrow> RepeatsForSD (av_rel_sd a) 0.05 DefaultPower DefaultAlpha = Some (av_repeats5 a)"
    "av_repeats10 a \<noteq> 0 \<Longrightarrow> RepeatsForSD (av_rel_sd a) 0.10 DefaultPower DefaultAlpha = Some (av_repeats10 a)"
  using assms by (auto simp: axis_variance_of_def Let_def indicativeDOF_def split: if_splits option.splits)

lemma sized_repeats:
  assumes "RepeatsForSD (av_rel_sd a) effect DefaultPower DefaultAlpha = Some n"
  shows "(\<exists>m. MDEAt a n = Fin m \<and> m \<le> effect) \<and> (\<forall>k. 1 \<le> k \<and> k < n \<longrightarrow> (\<exists>m. MDEAt a k = Fin m \<and> effect < \<bar>m\<bar>))"
  unfolding MDEAt_def using RepeatsForSD_detects [OF assms] RepeatsForSD_least [OF assms] by blast

text \<open>C8: 
  A noise estimate rests on repeats: it pools at least one and at most the repeated groups of its task, each
  with two or more of the task's runs, and is marked indicative when it has fewer than four degrees of freedom
  (samples less groups). Its spread is the pooled relative one, so scaling a metric does not change it. The
  repeats it proposes for five and ten per cent, when it proposes any, are the fewest that detect that effect.
\<close>

theorem Variance_estimates:
  assumes "t \<in> set (vr_tasks (Variance suite tasks s))" "a \<in> set (tv_axes t)"
  defines "runs \<equiv> filter (wanted_run suite tasks) (ListRuns 0 [] s)"
  defines "G \<equiv> usable_groups s runs (tv_suite t, tv_task t) (av_metric a)"
  shows "av_groups a = length G \<and> 1 \<le> av_groups a \<and> av_groups a \<le> tv_repeated t \<and>
    2 * av_groups a \<le> av_samples a \<and> av_samples a \<le> tv_runs t \<and> (av_indicative a \<longleftrightarrow> av_samples a < av_groups a + 4) \<and>
    av_rel_sd a = sqrt ((\<Sum>vals\<leftarrow>G. rel_variance vals) / real (av_samples a - av_groups a)) \<and>
    (\<forall>(n, effect)\<in>{(av_repeats5 a, 0.05), (av_repeats10 a, 0.10)}. n \<noteq> 0 \<longrightarrow>
       (\<exists>m. MDEAt a n = Fin m \<and> m \<le> effect) \<and> (\<forall>k. 1 \<le> k \<and> k < n \<longrightarrow> (\<exists>m. MDEAt a k = Fin m \<and> effect < \<bar>m\<bar>)))"
proof -
  obtain key where t: "t = task_variance_of (variance_of_runs s runs) key" using assms(1) unfolding Variance_eq runs_def by auto
  then have key: "(tv_suite t, tv_task t) = key" by (simp add: task_variance_of_def)
  obtain axis where axis: "axis \<in> set varianceAxes" "axis_variance_of axis (pool_axis (vm_values (variance_of_runs s runs)) key axis) = Some a"
    using assms(2) unfolding t by (auto simp: task_variance_of_def map_filter_def)
  then have name: "av_metric a = axis" by (auto simp: axis_variance_of_def Let_def split: if_splits)
  have G: "G = usable_groups s runs key axis" unfolding G_def key name ..
  note bounds = usable_groups_bounds [of s runs key axis, folded G]
  note A = axis_variance_Some [OF axis(2), unfolded pool_axis_eq [OF axis(1)] Let_def pool.simps, folded G]
  have n: "av_groups a \<le> av_samples a" using bounds(1) unfolding A(2,3) by linarith
  have dof: "(\<Sum>vals\<leftarrow>G. real (length vals - 1)) = real (av_samples a) - real (av_groups a)" unfolding A(2,3) by (rule bounds(4))
  have runs: "tv_runs t = length (filter (\<lambda>r. task_key r = key) runs)"
    unfolding t by (simp add: task_variance_of_def variance_of_runs_def getd_count)
  have rep: "tv_repeated t = length (filter (\<lambda>g. 2 \<le> length g) (task_groups runs key))" unfolding t by (rule tv_repeated_eq)
  have "av_rel_sd a = sqrt ((\<Sum>vals\<leftarrow>G. rel_variance vals) / real (av_samples a - av_groups a))"
    unfolding A(5) dof using n by (simp add: of_nat_diff)
  moreover have "av_indicative a \<longleftrightarrow> av_samples a < av_groups a + 4" unfolding A(6) dof by linarith
  moreover have "\<forall>(n, effect)\<in>{(av_repeats5 a, 0.05), (av_repeats10 a, 0.10)}. n \<noteq> 0 \<longrightarrow>
       (\<exists>m. MDEAt a n = Fin m \<and> m \<le> effect) \<and> (\<forall>k. 1 \<le> k \<and> k < n \<longrightarrow> (\<exists>m. MDEAt a k = Fin m \<and> effect < \<bar>m\<bar>))"
    using sized_repeats [OF A(7)] sized_repeats [OF A(8)] by simp
  moreover have "1 \<le> length G" using A(1) by linarith
  ultimately show ?thesis unfolding runs rep using A(2,3) bounds(1-3) by simp
qed

definition repeated_db :: db where
  "repeated_db = empty_db\<lparr>db_runs := map (run_params [])
       [zero_run\<lparr>rr_id := ''a'', rr_task := ''t'', rr_started := ''1''\<rparr>, zero_run\<lparr>rr_id := ''b'', rr_task := ''t'', rr_started := ''2''\<rparr>],
     db_metrics := [\<lparr>mq_run = ''a'', mq_name = ''score'', mq_num = Some 1, mq_text = None, mq_unit = None\<rparr>,
       \<lparr>mq_run = ''b'', mq_name = ''score'', mq_num = Some 3, mq_text = None, mq_unit = None\<rparr>]\<rparr>"

theorem Variance_estimates_witness:
  "\<exists>t a. vr_tasks (Variance [] [] repeated_db) = [t] \<and> a \<in> set (tv_axes t) \<and> av_samples a = 2 \<and> av_indicative a \<and> av_rel_sd a = sqrt (1 / 2)"
proof -
  let ?a = "zero_run\<lparr>rr_id := ''a'', rr_task := ''t'', rr_started := ''1''\<rparr>" and ?b = "zero_run\<lparr>rr_id := ''b'', rr_task := ''t'', rr_started := ''2''\<rparr>"
  have runs: "filter (wanted_run [] []) (ListRuns 0 [] repeated_db) = [?b, ?a]" by code_simp
  have vals: "run_values repeated_db ?a = [(''score'', 1)]" "run_values repeated_db ?b = [(''score'', 3)]" by code_simp+
  have key: "task_key ?a = ([], ''t'')" "task_key ?b = ([], ''t'')" "group_key ?a = (([], ''t''), [])" "group_key ?b = (([], ''t''), [])"
    by (simp_all add: group_key_def task_key_def zero_run_def)
  let ?t = "task_variance_of (variance_of_runs repeated_db [?b, ?a]) ([], ''t'')"
  have t: "vr_tasks (Variance [] [] repeated_db) = [?t]" unfolding Variance_eq runs by (simp add: key)
  have groups: "task_groups [?b, ?a] ([], ''t'') = [[?b, ?a]]" by (simp add: task_groups_def key dedup_def)
  have "axis_values repeated_db ''score'' [?b, ?a] = [3, 1]" by (simp add: axis_values_def map_filter_simps vals)
  then have G: "usable_groups repeated_db [?b, ?a] ([], ''t'') ''score'' = [[3, 1]]"
    by (simp add: usable_groups_def groups usable_def Mean_eq_mean mean_sum)
  obtain a where a: "axis_variance_of ''score'' (pool_axis (vm_values (variance_of_runs repeated_db [?b, ?a])) ([], ''t'') ''score'') = Some a"
    by (simp add: pool_axis_eq varianceAxes_def G axis_variance_of_def Let_def)
  then have "a \<in> set (tv_axes ?t)" "av_metric a = ''score''" "av_samples a = 2" "av_groups a = 1"
    using axis_variance_Some [OF a] by (auto simp: task_variance_of_def map_filter_def varianceAxes_def pool_axis_eq G image_iff)
  moreover note Variance_estimates [of ?t "[]" "[]" repeated_db a, unfolded t runs]
  ultimately show ?thesis
    using t G by (auto simp: task_variance_of_def rel_variance_def Mean_eq_mean mean_sum power2_eq_square)
qed

end
