(* ===== verification/Overview.thy ===== *)
theory Overview
  imports Variance ProfileView
begin

text \<open>
  \<open>internal/history/overview.go\<close>: the score of a profile and the leaderboard. \<open>time\<close> reads an RFC 3339 time as
  the nanoseconds since Go's zero time, \<open>src\<close> seeds the generator of the bootstrap, \<open>parse\<close> is the JSON
  tokenizer. Go iterates the maps of sums in any order, which only permutes sums of reals here.
\<close>

definition ScopeAll :: string where "ScopeAll = ''all''"

definition suiteOrder :: "string list" where
  "suiteOrder = [''core'', ''standard'', ''hard'', ''agentic'']"

definition ciSeed :: int where "ciSeed = 0x0CBE9C"

definition ciIters :: int where "ciIters = DefaultBootstrapIters"

record task_score =
  ot_task :: string
  ot_suite :: string
  ot_runs :: nat
  ot_score :: real
  ot_pass :: real
  ot_solved :: nat
  ot_cost :: real
  ot_cost_complete :: bool
  ot_median :: int
  ot_has_tokens :: bool

record profile_score =
  sc_hash :: string
  sc_id :: string
  sc_label :: string
  sc_runs :: nat
  sc_has_runs :: bool
  sc_score :: real
  sc_score_ci :: "(real \<times> real) option"
  sc_pass_rate :: real
  sc_pass_ci :: "(real \<times> real) option"
  sc_cost :: "real option"
  sc_tokens :: "int option"
  sc_cache :: "real option"
  sc_task_count :: nat
  sc_mde :: fl
  sc_per_suite :: "(string, real) gomap"
  sc_tasks :: "task_score list"
  sc_last :: int

section \<open>One task of a profile\<close>

record score_acc =
  xa_suite :: string
  xa_task :: string
  xa_runs :: nat
  xa_score :: real
  xa_pass :: real
  xa_solved :: nat
  xa_cost :: real
  xa_cost_runs :: nat
  xa_tokens :: "int list"

definition new_score_acc :: "string \<times> string \<Rightarrow> score_acc" where
  "new_score_acc key = \<lparr>xa_suite = fst key, xa_task = snd key, xa_runs = 0, xa_score = 0, xa_pass = 0, xa_solved = 0,
     xa_cost = 0, xa_cost_runs = 0, xa_tokens = []\<rparr>"

definition run_solved :: "db \<Rightarrow> run_row \<Rightarrow> bool" where
  "run_solved s r =
     (let values = run_values s r
      in RunSucceeded r (metric_or_zero values ''success'') (map_of values ''success'' \<noteq> None))"

definition score_run :: "db \<Rightarrow> run_row \<Rightarrow> score_acc \<Rightarrow> score_acc" where
  "score_run s r a =
     (let values = run_values s r;
          a = a\<lparr>xa_runs := Suc (xa_runs a), xa_score := xa_score a + history_scoreOf values\<rparr>;
          a = (if run_solved s r then a\<lparr>xa_solved := Suc (xa_solved a), xa_pass := xa_pass a + 1\<rparr> else a);
          a = (case map_of values ''cost'' of None \<Rightarrow> a | Some c \<Rightarrow> a\<lparr>xa_cost := xa_cost a + c, xa_cost_runs := Suc (xa_cost_runs a)\<rparr>)
      in case map_of values ''tokens_total'' of None \<Rightarrow> a | Some n \<Rightarrow> a\<lparr>xa_tokens := xa_tokens a @ [trunc_int n]\<rparr>)"

definition floats :: "int list \<Rightarrow> real list" where
  "floats = map real_of_int"

definition task_score_of :: "score_acc \<Rightarrow> task_score" where
  "task_score_of a =
     \<lparr>ot_task = xa_task a, ot_suite = xa_suite a, ot_runs = xa_runs a, ot_score = xa_score a / real (xa_runs a),
      ot_pass = xa_pass a / real (xa_runs a), ot_solved = xa_solved a, ot_cost = xa_cost a,
      ot_cost_complete = (xa_cost_runs a = xa_runs a), ot_median = trunc_int (Median (floats (xa_tokens a))),
      ot_has_tokens = (xa_tokens a \<noteq> [])\<rparr>"

definition task_scores :: "db \<Rightarrow> run_row list \<Rightarrow> task_score list" where
  "task_scores s runs =
     sort_by (\<lambda>a b. if ot_suite a \<noteq> ot_suite b then ot_suite a < ot_suite b else ot_task a < ot_task b)
       (map task_score_of (map snd (accum task_key new_score_acc (score_run s) runs [])))"

section \<open>The score of a profile\<close>

definition suite_sums :: "task_score list \<Rightarrow> (string, real) gomap" where
  "suite_sums ts = accum ot_suite (\<lambda>_. 0) (\<lambda>t a. a + ot_score t) ts []"

definition suite_counts :: "task_score list \<Rightarrow> (string, nat) gomap" where
  "suite_counts ts = accum ot_suite (\<lambda>_. 0) (\<lambda>_. Suc) ts []"

definition per_suite :: "task_score list \<Rightarrow> (string, real) gomap" where
  "per_suite ts = map (\<lambda>(suite, total). (suite, total / real (getd 0 (suite_counts ts) suite))) (suite_sums ts)"

definition weightedScore :: "(string, real) gomap \<Rightarrow> (string, nat) gomap \<Rightarrow> real" where
  "weightedScore perSuite counts =
     (let (weighted, weights) =
            fold (\<lambda>(suite, score) (wd, ws). let w = real (getd 0 counts suite) in (wd + score * w, ws + w)) perSuite (0, 0)
      in if weights = 0 then 0 else weighted / weights)"

definition solved_cost :: "task_score list \<Rightarrow> real \<times> nat" where
  "solved_cost ts =
     fold (\<lambda>t (c, n). if ot_cost_complete t \<and> 0 < ot_solved t then (c + ot_cost t, n + ot_solved t) else (c, n)) ts (0, 0)"

definition ci :: "(int \<Rightarrow> 'g) \<Rightarrow> 'g rng \<Rightarrow> real list \<Rightarrow> (real \<times> real) option" where
  "ci src draw samples = BootstrapCI draw samples ciIters (src ciSeed)"

definition shortHash :: "string \<Rightarrow> string" where
  "shortHash h = (if 8 < length h then take 8 h else h)"

definition profile_label :: "(string \<Rightarrow> json option) \<Rightarrow> db \<Rightarrow> string \<Rightarrow> string" where
  "profile_label parse s hash =
     (let label = (case profile_Load parse hash s of Inl _ \<Rightarrow> [] | Inr p \<Rightarrow> view_Summary (NewView parse p))
      in if label = [] then shortHash hash else label)"

definition last_run :: "(string \<Rightarrow> int option) \<Rightarrow> run_row \<Rightarrow> int \<Rightarrow> int" where
  "last_run time r latest = (case time (rr_started r) of Some t \<Rightarrow> if latest < t then t else latest | None \<Rightarrow> latest)"

definition token_median :: "task_score list \<Rightarrow> int option" where
  "token_median ts =
     (if ts = [] then None
      else map_option trunc_int (MedianOK (map (\<lambda>t. real_of_int (ot_median t)) (filter ot_has_tokens ts))))"

definition scoreProfile ::
  "(int \<Rightarrow> 'g) \<Rightarrow> 'g rng \<Rightarrow> (string \<Rightarrow> int option) \<Rightarrow> (string \<Rightarrow> json option) \<Rightarrow> db \<Rightarrow> string \<Rightarrow> run_row list \<Rightarrow> profile_score" where
  "scoreProfile src draw time parse s hash runs =
     (let ts = task_scores s runs;
          cacheRead = fold (\<lambda>r a. a + metric_or_zero (run_values s r) ''tokens_cache_read'') runs 0;
          cacheInput = fold (\<lambda>r a. a + metric_or_zero (run_values s r) ''tokens_input'') runs 0;
          solved = fold (\<lambda>t n. n + ot_solved t) ts 0;
          total = fold (\<lambda>t n. n + ot_runs t) ts 0;
          (cost, costSolved) = solved_cost ts
      in \<lparr>sc_hash = hash, sc_id = fold (\<lambda>r _. rr_profile r) runs [], sc_label = profile_label parse s hash,
          sc_runs = length runs, sc_has_runs = (0 < length runs),
          sc_score = weightedScore (per_suite ts) (suite_counts ts), sc_score_ci = ci src draw (map ot_score ts),
          sc_pass_rate = (if 0 < total then real solved / real total else 0),
          sc_pass_ci = (if 0 < total then Some (Wilson (int solved) (int total) 1.96) else None),
          sc_cost = (if 0 < costSolved then Some (cost / real costSolved) else None),
          sc_tokens = token_median ts,
          sc_cache = CacheHitRate [(''tokens_cache_read'', cacheRead), (''tokens_input'', cacheInput)],
          sc_task_count = length ts,
          sc_mde = (case MDE (map ot_score ts) (int (length ts)) DefaultPower DefaultAlpha of None \<Rightarrow> Fin 0 | Some m \<Rightarrow> m),
          sc_per_suite = per_suite ts, sc_tasks = ts, sc_last = fold (last_run time) runs 0\<rparr>)"

definition ProfileScoreForRuns ::
  "(int \<Rightarrow> 'g) \<Rightarrow> 'g rng \<Rightarrow> (string \<Rightarrow> int option) \<Rightarrow> (string \<Rightarrow> json option) \<Rightarrow> db \<Rightarrow> string \<Rightarrow> run_row list \<Rightarrow> profile_score" where
  "ProfileScoreForRuns src draw time parse s hash runs =
     scoreProfile src draw time parse s hash (filter (\<lambda>r. \<not> rr_dry r \<and> rr_profile_hash r = hash) runs)"

section \<open>The leaderboard\<close>

definition latest_seen :: "run_row \<Rightarrow> (string, string \<times> string) gomap \<Rightarrow> (string, string \<times> string) gomap" where
  "latest_seen r seen =
     (if rr_dry r then seen
      else case map_of seen (rr_suite_name r) of
             Some (hash, since) \<Rightarrow> if since < rr_started r then put (rr_suite_name r) (rr_suite_hash r, rr_started r) seen else seen
           | None \<Rightarrow> put (rr_suite_name r) (rr_suite_hash r, rr_started r) seen)"

definition latestSuiteHashes :: "run_row list \<Rightarrow> (string, string) gomap" where
  "latestSuiteHashes runs = map (\<lambda>(name, l). (name, fst l)) (fold latest_seen runs [])"

definition orderedSuites :: "string list \<Rightarrow> string list" where
  "orderedSuites names = filter (\<lambda>n. n \<in> set names) suiteOrder @ sort (remdups (filter (\<lambda>n. n \<notin> set suiteOrder) names))"

record scatter_point =
  pt_hash :: string
  pt_label :: string
  pt_score :: real
  pt_cost :: real

record overview =
  ov_scope :: string
  ov_profiles :: "profile_score list"
  ov_suites :: "string list"
  ov_scatter :: "scatter_point list"
  ov_excluded :: nat
  ov_runs :: nat
  ov_last :: int

definition in_scope :: "string \<Rightarrow> run_row \<Rightarrow> bool" where
  "in_scope scope r \<longleftrightarrow> \<not> rr_dry r \<and> (scope = ScopeAll \<or> rr_suite_name r = scope)"

definition outdated :: "(string, string) gomap \<Rightarrow> run_row \<Rightarrow> bool" where
  "outdated currentHash r \<longleftrightarrow> getd [] currentHash (rr_suite_name r) \<noteq> [] \<and> rr_suite_hash r \<noteq> getd [] currentHash (rr_suite_name r)"

record tally =
  tl_runs :: nat
  tl_excluded :: nat
  tl_last :: int
  tl_profiles :: "(string, run_row list) gomap"

definition tally_run :: "(string \<Rightarrow> int option) \<Rightarrow> (string, string) gomap \<Rightarrow> string \<Rightarrow> run_row \<Rightarrow> tally \<Rightarrow> tally" where
  "tally_run time currentHash scope r t =
     (if \<not> in_scope scope r then t
      else let t = t\<lparr>tl_runs := Suc (tl_runs t), tl_last := (if rr_started r > [] then last_run time r (tl_last t) else tl_last t)\<rparr>
           in if outdated currentHash r then t\<lparr>tl_excluded := Suc (tl_excluded t)\<rparr>
              else t\<lparr>tl_profiles := modify (rr_profile_hash r) [] (\<lambda>rs. rs @ [r]) (tl_profiles t)\<rparr>)"

definition leads :: "profile_score \<Rightarrow> profile_score \<Rightarrow> bool" where
  "leads a b =
     (if sc_has_runs a \<noteq> sc_has_runs b then sc_has_runs a
      else if sc_has_runs a \<and> sc_score a \<noteq> sc_score b then sc_score b < sc_score a
      else sc_hash a < sc_hash b)"

definition scatter_of :: "profile_score \<Rightarrow> scatter_point option" where
  "scatter_of p =
     (if sc_has_runs p then map_option (\<lambda>c. \<lparr>pt_hash = sc_hash p, pt_label = sc_label p, pt_score = sc_score p, pt_cost = c\<rparr>) (sc_cost p)
      else None)"

definition Overview ::
  "(int \<Rightarrow> 'g) \<Rightarrow> 'g rng \<Rightarrow> (string \<Rightarrow> int option) \<Rightarrow> (string \<Rightarrow> json option) \<Rightarrow> string \<Rightarrow> db \<Rightarrow> overview" where
  "Overview src draw time parse scope s =
     (let scope = (if scope = [] then ScopeAll else scope);
          runs = ListRuns 0 [] s;
          t = fold (tally_run time (latestSuiteHashes runs) scope) runs \<lparr>tl_runs = 0, tl_excluded = 0, tl_last = 0, tl_profiles = []\<rparr>;
          profiles = map (\<lambda>row. (scoreProfile src draw time parse s (pr_hash row) (getd [] (tl_profiles t) (pr_hash row)))\<lparr>sc_id := pr_id row\<rparr>)
            (ListProfiles s);
          ranked = sort_by leads profiles
      in \<lparr>ov_scope = scope, ov_profiles = ranked, ov_suites = orderedSuites (map rr_suite_name (filter (\<lambda>r. \<not> rr_dry r) runs)),
          ov_scatter = List.map_filter scatter_of ranked, ov_excluded = tl_excluded t, ov_runs = tl_runs t, ov_last = tl_last t\<rparr>)"

section \<open>What the score is\<close>

lemma score_run_fields:
  "xa_suite (score_run s r a) = xa_suite a" "xa_task (score_run s r a) = xa_task a" "xa_runs (score_run s r a) = Suc (xa_runs a)"
  "xa_score (score_run s r a) = xa_score a + history_scoreOf (run_values s r)"
  "xa_solved (score_run s r a) = (if run_solved s r then Suc (xa_solved a) else xa_solved a)"
  by (simp_all add: score_run_def Let_def split: option.split)

lemma scored:
  "xa_suite (fold (score_run s) rs a) = xa_suite a" "xa_task (fold (score_run s) rs a) = xa_task a"
  "xa_runs (fold (score_run s) rs a) = xa_runs a + length rs"
  "xa_score (fold (score_run s) rs a) = xa_score a + (\<Sum>r\<leftarrow>rs. history_scoreOf (run_values s r))"
  "xa_solved (fold (score_run s) rs a) = xa_solved a + length (filter (run_solved s) rs)"
  by (induction rs arbitrary: a) (simp_all add: score_run_fields algebra_simps)

definition task_score_at :: "db \<Rightarrow> run_row list \<Rightarrow> string \<times> string \<Rightarrow> task_score" where
  "task_score_at s runs key = task_score_of (fold (score_run s) (filter (\<lambda>r. task_key r = key) runs) (new_score_acc key))"

definition mean_score :: "db \<Rightarrow> run_row list \<Rightarrow> real" where
  "mean_score s rs = (\<Sum>r\<leftarrow>rs. history_scoreOf (run_values s r)) / real (length rs)"

lemma task_score_at:
  fixes s runs key
  defines "rs \<equiv> filter (\<lambda>r. task_key r = key) runs"
  shows "(ot_suite (task_score_at s runs key), ot_task (task_score_at s runs key)) = key"
    "ot_runs (task_score_at s runs key) = length rs" "ot_score (task_score_at s runs key) = mean_score s rs"
    "ot_solved (task_score_at s runs key) = length (filter (run_solved s) rs)"
proof -
  note scored [of s rs "new_score_acc key", unfolded new_score_acc_def, simplified, folded new_score_acc_def]
  then show "(ot_suite (task_score_at s runs key), ot_task (task_score_at s runs key)) = key"
    "ot_runs (task_score_at s runs key) = length rs" "ot_score (task_score_at s runs key) = mean_score s rs"
    "ot_solved (task_score_at s runs key) = length (filter (run_solved s) rs)"
    unfolding task_score_at_def rs_def [symmetric] by (simp_all add: task_score_of_def mean_score_def)
qed

lemma task_scores_eq: "task_scores s runs = map (task_score_at s runs) (sorted_list_of_set (task_key ` set runs))"
proof -
  let ?k = "\<lambda>t. (ot_suite t, ot_task t)"
  have lt: "(\<lambda>a b. if ot_suite a \<noteq> ot_suite b then ot_suite a < ot_suite b else ot_task a < ot_task b) = (\<lambda>a b. ?k a < ?k b)"
    by (intro ext) (auto simp: less_prod_def')
  have "map task_score_of (map snd (accum task_key new_score_acc (score_run s) runs [])) = map (task_score_at s runs) (dedup (map task_key runs))"
    unfolding accum_values by (simp add: task_score_at_def comp_def)
  then have "task_scores s runs = sort_key ?k (map (task_score_at s runs) (dedup (map task_key runs)))"
    unfolding task_scores_def lt sort_by_key by simp
  also have "\<dots> = map (task_score_at s runs) (sort (dedup (map task_key runs)))"
    by (rule sort_key_map_inj) (rule task_score_at)
  finally show ?thesis by (simp add: sort_dedup)
qed

text \<open>The mean over the suites, weighted by their tasks, is the plain mean over the tasks.\<close>

lemma fold_pair_sum: "fold (\<lambda>x (a, b). (a + f x, b + g x)) xs (a, b) = (a + (\<Sum>x\<leftarrow>xs. f x), b + (\<Sum>x\<leftarrow>xs. g x))"
  for f g :: "'x \<Rightarrow> real"
  by (induction xs arbitrary: a b) (auto simp: algebra_simps)

lemma fold_score: "fold (\<lambda>t a. a + ot_score t) xs a = a + (\<Sum>t\<leftarrow>xs. ot_score t)"
  by (induction xs arbitrary: a) auto

lemma suite_sums_eq: "suite_sums ts = map (\<lambda>k. (k, \<Sum>t\<leftarrow>filter (\<lambda>t. ot_suite t = k) ts. ot_score t)) (dedup (map ot_suite ts))"
  unfolding suite_sums_def accum_items fold_score by simp

lemma real_sum_list: "(\<Sum>x\<leftarrow>xs. real (f x)) = real (\<Sum>x\<leftarrow>xs. f x)"
  by (induction xs) auto

lemma weighted_mean: "weightedScore (per_suite ts) (suite_counts ts) = (if ts = [] then 0 else (\<Sum>t\<leftarrow>ts. ot_score t) / real (length ts))"
proof -
  let ?ks = "dedup (map ot_suite ts)" and ?n = "\<lambda>k. length (filter (\<lambda>t. ot_suite t = k) ts)"
    and ?sum = "\<lambda>k. \<Sum>t\<leftarrow>filter (\<lambda>t. ot_suite t = k) ts. ot_score t"
  have count: "getd 0 (suite_counts ts) k = ?n k" for k by (simp add: suite_counts_def getd_count)
  have pos: "0 < ?n k" if "k \<in> set ?ks" for k using that by (auto simp: filter_empty_conv)
  have "fold (\<lambda>(suite, score) (wd, ws). let w = real (getd 0 (suite_counts ts) suite) in (wd + score * w, ws + w)) (per_suite ts) (0, 0)
      = fold (\<lambda>x (a, b). (a + snd x * real (?n (fst x)), b + real (?n (fst x)))) (per_suite ts) (0, 0)"
    by (intro fold_cong refl ext) (auto simp: count Let_def split: prod.splits)
  also have "\<dots> = (\<Sum>x\<leftarrow>per_suite ts. snd x * real (?n (fst x)), \<Sum>x\<leftarrow>per_suite ts. real (?n (fst x)))"
    unfolding fold_pair_sum by simp
  also have "(\<Sum>x\<leftarrow>per_suite ts. snd x * real (?n (fst x))) = (\<Sum>k\<leftarrow>?ks. ?sum k)"
    unfolding per_suite_def suite_sums_eq map_map comp_def
    by (intro arg_cong [where f = sum_list] map_cong refl) (use pos in \<open>simp add: count filter_empty_conv\<close>)
  also have "\<dots> = (\<Sum>t\<leftarrow>filter (\<lambda>t. ot_suite t \<in> set ?ks) ts. ot_score t)" by (rule sum_filter_keys) simp
  also have "filter (\<lambda>t. ot_suite t \<in> set ?ks) ts = ts" by (simp add: filter_id_conv)
  also have "(\<Sum>x\<leftarrow>per_suite ts. real (?n (fst x))) = real (\<Sum>k\<leftarrow>?ks. ?n k)"
    unfolding per_suite_def suite_sums_eq by (simp add: comp_def real_sum_list)
  also have "(\<Sum>k\<leftarrow>?ks. ?n k) = length (filter (\<lambda>t. ot_suite t \<in> set ?ks) ts)" by (rule length_filter_keys) simp
  also have "filter (\<lambda>t. ot_suite t \<in> set ?ks) ts = ts" by (simp add: filter_id_conv)
  finally show ?thesis unfolding weightedScore_def by simp
qed

lemma fold_count: "fold (\<lambda>t n. n + f t) ts a = a + (\<Sum>t\<leftarrow>ts. f t)" for f :: "'t \<Rightarrow> nat"
  by (induction ts arbitrary: a) auto

lemma task_totals:
  "(\<Sum>t\<leftarrow>task_scores s runs. ot_runs t) = length runs"
  "(\<Sum>t\<leftarrow>task_scores s runs. ot_solved t) = length (filter (run_solved s) runs)"
proof -
  let ?ks = "sorted_list_of_set (task_key ` set runs)"
  have "(\<Sum>k\<leftarrow>?ks. length (filter (\<lambda>r. task_key r = k) xs)) = length (filter (\<lambda>r. task_key r \<in> set ?ks) xs)" for xs
    by (rule length_filter_keys) simp
  moreover have "filter (\<lambda>r. task_key r \<in> set ?ks) xs = xs" if "set xs \<subseteq> set runs" for xs using that by (auto simp: filter_id_conv)
  ultimately have all: "(\<Sum>k\<leftarrow>?ks. length (filter (\<lambda>r. task_key r = k) xs)) = length xs" if "set xs \<subseteq> set runs" for xs using that by simp
  show "(\<Sum>t\<leftarrow>task_scores s runs. ot_runs t) = length runs"
    unfolding task_scores_eq using all [of runs] by (simp add: comp_def task_score_at(2))
  have "filter (run_solved s) (filter (\<lambda>r. task_key r = k) runs) = filter (\<lambda>r. task_key r = k) (filter (run_solved s) runs)" for k
    by (simp add: conj_commute)
  then show "(\<Sum>t\<leftarrow>task_scores s runs. ot_solved t) = length (filter (run_solved s) runs)"
    unfolding task_scores_eq using all [of "filter (run_solved s) runs"] by (simp add: comp_def task_score_at(4) del: filter_filter)
qed

text \<open>C10: 
  A profile's score is the plain mean, over the tasks it ran, of the mean score of its runs of the task: the
  weights of the suites cancel, and how often a task was run does not count. Its pass rate is the share of its
  runs that succeeded, and the interval reported for it contains it.
\<close>

theorem scoreProfile_score:
  "let p = scoreProfile src draw time parse s hash runs;
       ks = sorted_list_of_set (task_key ` set runs); solved = length (filter (run_solved s) runs)
    in map (\<lambda>t. (ot_suite t, ot_task t)) (sc_tasks p) = ks \<and> sc_task_count p = length ks \<and>
       sc_score p = (if runs = [] then 0 else (\<Sum>k\<leftarrow>ks. mean_score s (filter (\<lambda>r. task_key r = k) runs)) / real (length ks)) \<and>
       sc_pass_rate p = (if runs = [] then 0 else real solved / real (length runs)) \<and>
       (case sc_pass_ci p of None \<Rightarrow> runs = [] | Some (lo, hi) \<Rightarrow> 0 \<le> lo \<and> lo \<le> sc_pass_rate p \<and> sc_pass_rate p \<le> hi \<and> hi \<le> 1)"
proof -
  define ks where "ks = sorted_list_of_set (task_key ` set runs)"
  define solved where "solved = length (filter (run_solved s) runs)"
  let ?p = "scoreProfile src draw time parse s hash runs"
  have solved: "fold (\<lambda>t n. n + ot_solved t) (task_scores s runs) 0 = solved" by (simp add: fold_count task_totals solved_def)
  have total: "fold (\<lambda>t n. n + ot_runs t) (task_scores s runs) 0 = length runs" by (simp add: fold_count task_totals)
  have p: "sc_tasks ?p = task_scores s runs" "sc_task_count ?p = length (task_scores s runs)"
    "sc_score ?p = weightedScore (per_suite (task_scores s runs)) (suite_counts (task_scores s runs))"
    "sc_pass_rate ?p = (if 0 < length runs then real solved / real (length runs) else 0)"
    "sc_pass_ci ?p = (if 0 < length runs then Some (Wilson (int solved) (int (length runs)) 1.96) else None)"
    unfolding scoreProfile_def Let_def solved total by (simp_all split: prod.split)
  have empty: "task_scores s runs = [] \<longleftrightarrow> runs = []" unfolding task_scores_eq by simp
  have "solved \<le> length runs" by (simp add: solved_def)
  then have "case sc_pass_ci ?p of None \<Rightarrow> runs = [] | Some (lo, hi) \<Rightarrow> 0 \<le> lo \<and> lo \<le> sc_pass_rate ?p \<and> sc_pass_rate ?p \<le> hi \<and> hi \<le> 1"
    unfolding p using Wilson_contains [of "int (length runs)" "int solved" "1.96"] Wilson_range [of "1.96" "int solved" "int (length runs)"]
    by (auto split: prod.splits)
  moreover have "map (\<lambda>t. (ot_suite t, ot_task t)) (sc_tasks ?p) = ks"
    unfolding p task_scores_eq ks_def by (simp add: comp_def task_score_at(1))
  moreover have "sc_score ?p = (if runs = [] then 0 else (\<Sum>k\<leftarrow>ks. mean_score s (filter (\<lambda>r. task_key r = k) runs)) / real (length ks))"
    unfolding p weighted_mean empty unfolding task_scores_eq ks_def by (simp add: comp_def task_score_at(3))
  ultimately show ?thesis unfolding Let_def ks_def [symmetric] solved_def [symmetric] using p(2,4) by (simp add: task_scores_eq ks_def)
qed

section \<open>What the leaderboard counts\<close>

definition newest_in_suite :: "run_row list \<Rightarrow> string \<Rightarrow> run_row \<Rightarrow> bool" where
  "newest_in_suite runs suite q \<longleftrightarrow> q \<in> set runs \<and> \<not> rr_dry q \<and> rr_suite_name q = suite \<and>
     (\<forall>r\<in>set runs. \<not> rr_dry r \<and> rr_suite_name r = suite \<longrightarrow> rr_started r \<le> rr_started q)"

lemma newest_snoc:
  "newest_in_suite runs suite q \<Longrightarrow> rr_dry r \<or> rr_suite_name r \<noteq> suite \<or> rr_started r \<le> rr_started q \<Longrightarrow> newest_in_suite (runs @ [r]) suite q"
  "newest_in_suite runs suite q \<Longrightarrow> \<not> rr_dry r \<Longrightarrow> rr_suite_name r = suite \<Longrightarrow> rr_started q < rr_started r \<Longrightarrow> newest_in_suite (runs @ [r]) suite r"
  unfolding newest_in_suite_def by (auto intro: order.trans)

lemma latest_seen_lookup:
  "map_of (latest_seen r seen) n =
     (if rr_dry r \<or> rr_suite_name r \<noteq> n then map_of seen n
      else case map_of seen n of None \<Rightarrow> Some (rr_suite_hash r, rr_started r)
           | Some (hash, since) \<Rightarrow> if since < rr_started r then Some (rr_suite_hash r, rr_started r) else Some (hash, since))"
  by (auto simp: latest_seen_def go_map split: option.splits)

lemma latest_seen_newest:
  "case map_of (fold latest_seen runs []) suite of
     None \<Rightarrow> \<forall>r\<in>set runs. rr_dry r \<or> rr_suite_name r \<noteq> suite
   | Some l \<Rightarrow> \<exists>q. newest_in_suite runs suite q \<and> l = (rr_suite_hash q, rr_started q)"
proof (induction runs rule: rev_induct)
  case (snoc r runs)
  show ?case
  proof (cases "rr_dry r \<or> rr_suite_name r \<noteq> suite")
    case True
    then have "map_of (fold latest_seen (runs @ [r]) []) suite = map_of (fold latest_seen runs []) suite"
      by (auto simp: latest_seen_lookup split: option.split)
    moreover have "newest_in_suite runs suite q \<Longrightarrow> newest_in_suite (runs @ [r]) suite q" for q
      using True newest_snoc(1) by blast
    ultimately show ?thesis using snoc True by (cases "map_of (fold latest_seen runs []) suite") auto
  next
    case False
    then have r: "\<not> rr_dry r" "rr_suite_name r = suite" by auto
    show ?thesis
    proof (cases "map_of (fold latest_seen runs []) suite")
      case None
      then have "newest_in_suite (runs @ [r]) suite r" using snoc r by (auto simp: newest_in_suite_def)
      then show ?thesis using None r by (auto simp: latest_seen_lookup)
    next
      case (Some l)
      then obtain q where q: "newest_in_suite runs suite q" "l = (rr_suite_hash q, rr_started q)" using snoc by auto
      show ?thesis
      proof (cases "rr_started q < rr_started r")
        case True
        then show ?thesis using newest_snoc(2) [OF q(1) r True] Some q(2) r by (auto simp: latest_seen_lookup)
      next
        case late: False
        then have "newest_in_suite (runs @ [r]) suite q" using newest_snoc(1) [OF q(1), of r] leI [OF late] by blast
        then show ?thesis using Some q(2) r late by (auto simp: latest_seen_lookup)
      qed
    qed
  qed
qed simp

lemma map_of_fsts: "map_of (map (\<lambda>(name, l). (name, fst l)) xs) n = map_option fst (map_of xs n)"
  by (induction xs) auto

lemma latest_hash: "\<not> rr_dry r \<Longrightarrow> r \<in> set runs \<Longrightarrow>
    \<exists>q. newest_in_suite runs (rr_suite_name r) q \<and> getd [] (latestSuiteHashes runs) (rr_suite_name r) = rr_suite_hash q"
proof -
  assume r: "\<not> rr_dry r" "r \<in> set runs"
  have m: "map_of (latestSuiteHashes runs) n = map_option fst (map_of (fold latest_seen runs []) n)" for n
    unfolding latestSuiteHashes_def by (rule map_of_fsts)
  show ?thesis using latest_seen_newest [of runs "rr_suite_name r"] r unfolding getd_def m
    by (auto split: option.splits)
qed

lemma tally_fields:
  fixes t :: tally
  shows "tl_runs (fold (tally_run time cur scope) rs t) = tl_runs t + length (filter (in_scope scope) rs)"
    "tl_excluded (fold (tally_run time cur scope) rs t) = tl_excluded t + length (filter (\<lambda>r. in_scope scope r \<and> outdated cur r) rs)"
    "getd [] (tl_profiles (fold (tally_run time cur scope) rs t)) h
       = getd [] (tl_profiles t) h @ filter (\<lambda>r. in_scope scope r \<and> rr_profile_hash r = h \<and> \<not> outdated cur r) rs"
  by (induction rs arbitrary: t) (auto simp: tally_run_def Let_def go_map)

definition lead_key :: "profile_score \<Rightarrow> bool \<times> real \<times> string" where
  "lead_key p = (\<not> sc_has_runs p, if sc_has_runs p then - sc_score p else 0, sc_hash p)"

lemma sort_leads: "sort_by leads ps = sort_key lead_key ps"
proof -
  have "leads = (\<lambda>a b. lead_key a < lead_key b)"
    by (intro ext) (auto simp: leads_def lead_key_def less_prod_def')
  then show ?thesis by (metis sort_by_key)
qed

lemma leads_sorted:
  "sorted_wrt (\<lambda>p q. sc_has_runs q \<longrightarrow> sc_has_runs p \<and> sc_score q \<le> sc_score p) (sort_by leads ps)"
proof -
  have "sorted_wrt (\<lambda>a b. lead_key a \<le> lead_key b) (sort_key lead_key ps)"
    using sorted_sort_key [of lead_key ps] by (simp add: sorted_map)
  then show ?thesis unfolding sort_leads
    by (elim sorted_wrt_mono_rel [rotated]) (auto simp: lead_key_def less_eq_prod_def split: if_splits)
qed

text \<open>C9: 
  The leaderboard of a scope has every stored profile once, those with runs first and by score. A profile is
  scored on exactly its runs in scope that have the content of the newest run of their suite (or whose suite's
  newest run has no content hash); every other run in scope is counted as excluded.
\<close>

theorem Overview_counts:
  "let ov = Overview src draw time parse scope s; all = ListRuns 0 [] s;
       runs = filter (in_scope (ov_scope ov)) all; cur = latestSuiteHashes all
   in ov_runs ov = length runs \<and> ov_excluded ov = length (filter (outdated cur) runs) \<and>
      mset (map sc_hash (ov_profiles ov)) = mset (map pr_hash (db_profiles s)) \<and>
      sorted_wrt (\<lambda>p q. sc_has_runs q \<longrightarrow> sc_has_runs p \<and> sc_score q \<le> sc_score p) (ov_profiles ov) \<and>
      (\<forall>p\<in>set (ov_profiles ov). p = (scoreProfile src draw time parse s (sc_hash p)
          (filter (\<lambda>r. rr_profile_hash r = sc_hash p \<and> \<not> outdated cur r) runs))\<lparr>sc_id := sc_id p\<rparr>) \<and>
      (\<forall>r\<in>set runs. \<exists>q. newest_in_suite all (rr_suite_name r) q \<and>
          (outdated cur r \<longleftrightarrow> rr_suite_hash q \<noteq> [] \<and> rr_suite_hash r \<noteq> rr_suite_hash q))"
proof -
  define sc where "sc = (if scope = [] then ScopeAll else scope)"
  define all where "all = ListRuns 0 [] s"
  define cur where "cur = latestSuiteHashes all"
  define runs where "runs = filter (in_scope sc) all"
  define score where "score = (\<lambda>row :: profile_row. (scoreProfile src draw time parse s (pr_hash row)
      (filter (\<lambda>r. rr_profile_hash r = pr_hash row \<and> \<not> outdated cur r) runs))\<lparr>sc_id := pr_id row\<rparr>)"
  let ?ov = "Overview src draw time parse scope s"
  have f: "filter (\<lambda>r. rr_profile_hash r = h \<and> \<not> outdated cur r) runs
      = filter (\<lambda>r. in_scope sc r \<and> rr_profile_hash r = h \<and> \<not> outdated cur r) all" for h
    unfolding runs_def filter_filter by (rule filter_cong) auto
  have ov: "ov_scope ?ov = sc" "ov_runs ?ov = length runs" "ov_excluded ?ov = length (filter (outdated cur) runs)"
    "ov_profiles ?ov = sort_by leads (map score (ListProfiles s))"
    unfolding Overview_def Let_def score_def f
    by (simp_all add: sc_def [symmetric] all_def [symmetric] cur_def [symmetric] tally_fields runs_def)
  have hash: "sc_hash (score row) = pr_hash row" for row by (simp add: score_def scoreProfile_def Let_def split: prod.split)
  have "mset (map sc_hash (ov_profiles ?ov)) = mset (map pr_hash (db_profiles s))"
    unfolding ov(4) by (simp add: ListProfiles_def hash multiset.map_comp comp_def)
  moreover have "\<forall>p\<in>set (ov_profiles ?ov). p = (scoreProfile src draw time parse s (sc_hash p)
          (filter (\<lambda>r. rr_profile_hash r = sc_hash p \<and> \<not> outdated cur r) runs))\<lparr>sc_id := sc_id p\<rparr>"
    unfolding ov(4) by (simp add: hash) (simp add: score_def)
  moreover have "\<forall>r\<in>set runs. \<exists>q. newest_in_suite all (rr_suite_name r) q \<and>
          (outdated cur r \<longleftrightarrow> rr_suite_hash q \<noteq> [] \<and> rr_suite_hash r \<noteq> rr_suite_hash q)"
  proof
    fix r assume "r \<in> set runs"
    then have "\<not> rr_dry r" "r \<in> set all" by (auto simp: runs_def in_scope_def)
    from latest_hash [OF this] show "\<exists>q. newest_in_suite all (rr_suite_name r) q \<and>
          (outdated cur r \<longleftrightarrow> rr_suite_hash q \<noteq> [] \<and> rr_suite_hash r \<noteq> rr_suite_hash q)"
      unfolding outdated_def cur_def by metis
  qed
  ultimately show ?thesis
    unfolding Let_def ov(1) all_def [symmetric] cur_def [symmetric] runs_def [symmetric] using ov(2,3) leads_sorted [of "map score (ListProfiles s)"]
    by (simp only: ov(4) simp_thms)
qed

definition outdated_db :: db where
  "outdated_db = empty_db\<lparr>db_profiles := [\<lparr>pr_id = ''p'', pr_hash = ''h'', pr_opencode = [], pr_ocbench = [], pr_json = [], pr_created = []\<rparr>],
     db_runs := map (run_params [])
       [zero_run\<lparr>rr_id := ''a'', rr_task := ''t'', rr_profile_hash := ''h'', rr_suite_hash := ''old'', rr_started := ''1''\<rparr>,
        zero_run\<lparr>rr_id := ''b'', rr_task := ''t'', rr_profile_hash := ''h'', rr_suite_hash := ''new'', rr_started := ''2''\<rparr>]\<rparr>"

theorem Overview_counts_witness:
  "let ov = Overview (\<lambda>_. ()) (\<lambda>g n. (0, g)) (\<lambda>_. None) (\<lambda>_. None) [] outdated_db
   in ov_runs ov = 2 \<and> ov_excluded ov = 1 \<and> map sc_hash (ov_profiles ov) = [''h'']"
proof -
  have sc: "ov_scope (Overview (\<lambda>_. ()) (\<lambda>g n. (0, g)) (\<lambda>_. None) (\<lambda>_. None) [] outdated_db) = ScopeAll" by (simp add: Overview_def Let_def)
  have runs: "length (filter (in_scope ScopeAll) (ListRuns 0 [] outdated_db)) = 2"
    "length (filter (outdated (latestSuiteHashes (ListRuns 0 [] outdated_db))) (filter (in_scope ScopeAll) (ListRuns 0 [] outdated_db))) = 1"
    by code_simp+
  note O = Overview_counts [of "\<lambda>_. ()" "\<lambda>g n. (0, g)" "\<lambda>_. None" "\<lambda>_. None" "[]" outdated_db, unfolded Let_def sc runs]
  have "mset (map sc_hash (ov_profiles (Overview (\<lambda>_. ()) (\<lambda>g n. (0, g)) (\<lambda>_. None) (\<lambda>_. None) [] outdated_db))) = mset [''h'']"
    using O [THEN conjunct2, THEN conjunct2, THEN conjunct1] by (simp add: outdated_db_def)
  then have "map sc_hash (ov_profiles (Overview (\<lambda>_. ()) (\<lambda>g n. (0, g)) (\<lambda>_. None) (\<lambda>_. None) [] outdated_db)) = [''h'']"
    by (metis mset_single_iff_right mset.simps)
  then show ?thesis unfolding Let_def using O [THEN conjunct1] O [THEN conjunct2, THEN conjunct1] by blast
qed

end
