(* ===== verification/Trace.thy ===== *)
theory Trace
  imports Session
begin

text \<open>
  \<open>internal/trace/trace.go\<close>: the timeline of a run. The pointer \<open>cur\<close> of \<open>Build\<close> always
  points into the newest \<open>tr.Steps\<close>, because each append is followed by re-pointing it; it is
  the index of a step here, absent before the first.
\<close>

record subagent_span =
  sa_session :: string
  sa_agent :: string
  sa_tokens :: usage
  sa_cost :: real
  sa_tools :: "tool_call list"

record tool_span =
  tsp_tool :: string
  tsp_title :: string
  tsp_status :: string
  tsp_duration :: i64
  tsp_child :: "subagent_span option"

record step =
  sp_index :: nat
  sp_tokens :: usage
  sp_cost :: real
  sp_duration :: i64
  sp_retries :: nat
  sp_compactions :: nat
  sp_tools :: "tool_span list"

record trace =
  tr_run :: string
  tr_task :: string
  tr_steps :: "step list"
  tr_subagents :: "subagent_span list"

text \<open>The variables of \<open>Build\<close>: the steps, their first and last timestamps, the current step,
  the subagents and the sessions already listed.\<close>

record builder =
  b_steps :: "step list"
  b_times :: "(i64 \<times> i64) list"
  b_cur :: "nat option"
  b_subs :: "subagent_span list"
  b_seen :: "string list"

record display_state =
  ds_status :: string
  ds_title :: string
  ds_start :: i64
  ds_end :: i64

definition zero_display :: display_state where
  "zero_display = \<lparr>ds_status = [], ds_title = [], ds_start = 0, ds_end = 0\<rparr>"

definition dec_display :: "display_state dec" where
  "dec_display = dec_struct (\<lambda>k.
     if k = ''status'' then dec_field ds_status_update ds_status dec_string
     else if k = ''title'' then dec_field ds_title_update ds_title dec_string
     else if k = ''time'' then dec_struct (\<lambda>k.
       if k = ''start'' then dec_field ds_start_update ds_start dec_i64
       else if k = ''end'' then dec_field ds_end_update ds_end dec_i64
       else skip_field)
     else skip_field)"

definition dec_task_session :: "string dec" where
  "dec_task_session = dec_struct (\<lambda>k.
     if k = ''metadata'' then dec_struct (\<lambda>k. if k = ''sessionid'' then dec_string else skip_field)
     else skip_field)"

definition flattenTools :: "session \<Rightarrow> tool_call list" where
  "flattenTools s = concat (map ms_tools (se_messages s))"

definition toSessionTokens :: "tokens option \<Rightarrow> usage" where
  "toSessionTokens t =
     (case t of
        None \<Rightarrow> Usage 0 0 0 0 0 0
      | Some t \<Rightarrow>
          Usage (tk_input t) (tk_output t) (tk_reasoning t) (tk_cache_read t) (tk_cache_write t)
            (if tk_total t = 0 then tk_input t + tk_output t + tk_reasoning t + tk_cache_read t
             else tk_total t))"

type_synonym sessions = "(string, session option) gomap"

definition new_child :: "sessions \<Rightarrow> string \<Rightarrow> subagent_span \<times> bool" where
  "new_child ss i =
     (case map_of ss i of
        Some (Some s) \<Rightarrow>
          (\<lparr>sa_session = i, sa_agent = se_agent s, sa_tokens = se_tokens s, sa_cost = se_cost s,
            sa_tools = flattenTools s\<rparr>, True)
      | _ \<Rightarrow> (\<lparr>sa_session = i, sa_agent = [], sa_tokens = Usage 0 0 0 0 0 0, sa_cost = 0, sa_tools = []\<rparr>, False))"

definition buildTool :: "part \<Rightarrow> sessions \<Rightarrow> builder \<Rightarrow> tool_span \<times> builder" where
  "buildTool p ss b =
     (let ts = \<lparr>tsp_tool = pt_tool p, tsp_title = [], tsp_status = [], tsp_duration = 0, tsp_child = None\<rparr>
      in case pt_state p of
           None \<Rightarrow> (ts, b)
         | Some j \<Rightarrow>
             (case unmarshal dec_display zero_display j of
                None \<Rightarrow> (ts, b)
              | Some st \<Rightarrow>
                  (let ts = ts\<lparr>tsp_title := ds_title st, tsp_status := ds_status st,
                       tsp_duration := (if ds_start st <s ds_end st then ds_end st - ds_start st else 0)\<rparr>
                   in if pt_tool p \<noteq> ''task'' then (ts, b)
                      else (case unmarshal dec_task_session [] j of
                              None \<Rightarrow> (ts, b)
                            | Some i \<Rightarrow>
                                if i = [] then (ts, b)
                                else (let (child, captured) = new_child ss i;
                                          b = (if captured \<and> i \<notin> set (b_seen b)
                                               then b\<lparr>b_seen := i # b_seen b, b_subs := b_subs b @ [child]\<rparr> else b)
                                      in (ts\<lparr>tsp_child := Some child\<rparr>, b))))))"

definition new_step :: "nat \<Rightarrow> step" where
  "new_step i = \<lparr>sp_index = i, sp_tokens = Usage 0 0 0 0 0 0, sp_cost = 0, sp_duration = 0,
     sp_retries = 0, sp_compactions = 0, sp_tools = []\<rparr>"

definition open_step :: "i64 \<Rightarrow> builder \<Rightarrow> builder" where
  "open_step t b =
     b\<lparr>b_steps := b_steps b @ [new_step (length (b_steps b))], b_times := b_times b @ [(t, t)],
       b_cur := Some (length (b_steps b))\<rparr>"

definition ensure :: "i64 \<Rightarrow> builder \<Rightarrow> builder" where
  "ensure t b = (if b_cur b = None then open_step t b else b)"

definition mark :: "i64 \<Rightarrow> builder \<Rightarrow> builder" where
  "mark t b =
     (let i = length (b_steps b) - 1; (f, l) = b_times b ! i
      in b\<lparr>b_times := (b_times b)[i := (if t <s f then t else f, if l <s t then t else l)]\<rparr>)"

definition on_cur :: "(step \<Rightarrow> step) \<Rightarrow> builder \<Rightarrow> builder" where
  "on_cur f b = (case b_cur b of None \<Rightarrow> b | Some i \<Rightarrow> b\<lparr>b_steps := (b_steps b)[i := f (b_steps b ! i)]\<rparr>)"

definition build_event :: "sessions \<Rightarrow> event \<Rightarrow> builder \<Rightarrow> builder" where
  "build_event ss e b =
     (case PartDecoded e of
        None \<Rightarrow> b
      | Some p \<Rightarrow>
          (let t = ev_timestamp e
           in if ev_type e = ''step_start'' then open_step t b
              else if ev_type e = ''tool_use'' then
                (let b = mark t (ensure t b); (ts, b) = buildTool p ss b
                 in on_cur (\<lambda>s. s\<lparr>sp_tools := sp_tools s @ [ts]\<rparr>) b)
              else if ev_type e = ''step_finish'' then
                (let b = on_cur (\<lambda>s. s\<lparr>sp_tokens := toSessionTokens (pt_tokens p)\<rparr>) (mark t (ensure t b))
                 in case pt_cost p of None \<Rightarrow> b | Some c \<Rightarrow> on_cur (\<lambda>s. s\<lparr>sp_cost := c\<rparr>) b)
              else if pt_type p = ''retry'' then
                on_cur (\<lambda>s. s\<lparr>sp_retries := sp_retries s + 1\<rparr>) (mark t (ensure t b))
              else if pt_type p = ''compaction'' then
                on_cur (\<lambda>s. s\<lparr>sp_compactions := sp_compactions s + 1\<rparr>) (mark t (ensure t b))
              else b))"

definition empty_builder :: builder where
  "empty_builder = \<lparr>b_steps = [], b_times = [], b_cur = None, b_subs = [], b_seen = []\<rparr>"

definition timed :: "step \<Rightarrow> i64 \<times> i64 \<Rightarrow> step" where
  "timed s t = (case t of (f, l) \<Rightarrow> if f <s l then s\<lparr>sp_duration := l - f\<rparr> else s)"

definition Build :: "string \<Rightarrow> string \<Rightarrow> event list \<Rightarrow> sessions \<Rightarrow> trace" where
  "Build run task events ss =
     (let b = fold (build_event ss) events empty_builder
      in \<lparr>tr_run = run, tr_task = task, tr_steps = map2 timed (b_steps b) (b_times b), tr_subagents = b_subs b\<rparr>)"

section \<open>The invariant of the builder\<close>

definition builder_inv :: "builder \<Rightarrow> bool" where
  "builder_inv b \<longleftrightarrow>
     b_cur b = (if b_steps b = [] then None else Some (length (b_steps b) - 1)) \<and>
     length (b_times b) = length (b_steps b) \<and>
     map sp_index (b_steps b) = [0..<length (b_steps b)] \<and>
     rev (b_seen b) = map sa_session (b_subs b) \<and> distinct (b_seen b) \<and>
     (\<forall>(f, l)\<in>set (b_times b). sint f \<le> sint l)"

lemma builder_inv_empty: "builder_inv empty_builder"
  by (simp add: builder_inv_def empty_builder_def)

lemma builder_inv_open: "builder_inv b \<Longrightarrow> builder_inv (open_step t b)"
  by (auto simp: builder_inv_def open_step_def new_step_def)

lemma builder_inv_ensure: "builder_inv b \<Longrightarrow> builder_inv (ensure t b) \<and> b_steps (ensure t b) \<noteq> []"
  by (cases "b_steps b = []") (auto simp: ensure_def builder_inv_open, auto simp: builder_inv_def open_step_def)

lemma builder_inv_mark: "builder_inv b \<Longrightarrow> builder_inv (mark t b)"
  by (auto simp: builder_inv_def mark_def Let_def word_sless_alt split: prod.splits
      dest!: set_update_subset_insert [THEN subsetD])

lemma builder_inv_on_cur:
  assumes "builder_inv b" "\<And>s. sp_index (f s) = sp_index s"
  shows "builder_inv (on_cur f b)"
proof (cases "b_cur b")
  case (Some i)
  have "map sp_index ((b_steps b)[i := f (b_steps b ! i)]) = map sp_index (b_steps b)"
    using assms(2) by (simp add: map_update) (metis list_update_beyond list_update_id map_update not_le nth_map)
  then show ?thesis using assms(1) Some by (auto simp: builder_inv_def on_cur_def)
qed (use assms in \<open>simp add: on_cur_def\<close>)

lemma buildTool_frame:
  "b_steps (snd (buildTool p ss b)) = b_steps b" "b_times (snd (buildTool p ss b)) = b_times b"
  "b_cur (snd (buildTool p ss b)) = b_cur b"
  by (auto simp: buildTool_def Let_def split: option.splits prod.splits)

lemma new_child_session: "sa_session (fst (new_child ss i)) = i"
  by (auto simp: new_child_def split: option.splits)

lemma builder_inv_buildTool: "builder_inv b \<Longrightarrow> builder_inv (snd (buildTool p ss b))"
  using new_child_session
  by (auto simp: buildTool_def Let_def builder_inv_def split: option.splits prod.splits) (metis fst_conv)+

lemma builder_inv_event: "builder_inv b \<Longrightarrow> builder_inv (build_event ss e b)"
  by (auto simp: build_event_def Let_def builder_inv_open builder_inv_ensure builder_inv_mark
      intro!: builder_inv_on_cur split: option.splits prod.splits)
   (metis builder_inv_buildTool builder_inv_ensure builder_inv_mark snd_conv)+

lemma builder_inv_fold: "builder_inv b \<Longrightarrow> builder_inv (fold (build_event ss) es b)"
  by (induction es arbitrary: b) (auto simp: builder_inv_event)

section \<open>Totals over the steps\<close>

definition tot :: "(step \<Rightarrow> nat) \<Rightarrow> builder \<Rightarrow> nat" where
  "tot g b = sum_list (map g (b_steps b))"

lemma tot_on_cur:
  assumes "builder_inv b" "b_steps b \<noteq> []" "\<And>s. g (f s) = g s + d"
  shows "tot g (on_cur f b) = tot g b + d"
proof -
  let ?i = "length (b_steps b) - 1"
  have i: "?i < length (b_steps b)" using assms(2) by simp
  have c: "b_cur b = Some ?i" using assms(1,2) by (simp add: builder_inv_def)
  have "map g ((b_steps b)[?i := f (b_steps b ! ?i)]) = (map g (b_steps b))[?i := g (b_steps b ! ?i) + d]"
    using assms(3) by (simp add: map_update)
  then have "tot g (on_cur f b) = sum_list ((map g (b_steps b))[?i := g (b_steps b ! ?i) + d])"
    by (simp add: tot_def on_cur_def c)
  also have "\<dots> = tot g b + d"
    unfolding tot_def using i member_le_sum_list [of "g (b_steps b ! ?i)" "map g (b_steps b)"]
    by (simp add: sum_list_update)
  finally show ?thesis .
qed

lemma tot_frame:
  "g (new_step (length (b_steps b))) = 0 \<Longrightarrow> tot g (open_step t b) = tot g b"
  "g (new_step (length (b_steps b))) = 0 \<Longrightarrow> tot g (ensure t b) = tot g b"
  "tot g (mark t b) = tot g b" "tot g (snd (buildTool p ss b)) = tot g b"
  by (auto simp: tot_def open_step_def ensure_def mark_def buildTool_frame Let_def split: prod.splits)

lemma mark_steps: "b_steps (mark t b) = b_steps b"
  by (simp add: mark_def Let_def split: prod.split)

text \<open>One event, when a kind of event adds one to a count of the steps and no other changes it.\<close>

lemma ensured:
  assumes "builder_inv b"
  shows "builder_inv (mark t (ensure t b))" "b_steps (mark t (ensure t b)) \<noteq> []"
    "builder_inv (snd (buildTool p ss (mark t (ensure t b))))" "b_steps (snd (buildTool p ss (mark t (ensure t b)))) \<noteq> []"
  using builder_inv_ensure [OF assms, of t]
  by (simp_all add: builder_inv_mark builder_inv_buildTool mark_steps buildTool_frame)

lemma on_cur_ok:
  "builder_inv b \<Longrightarrow> b_steps b \<noteq> [] \<Longrightarrow> (\<And>s. sp_index (f s) = sp_index s) \<Longrightarrow>
   builder_inv (on_cur f b) \<and> b_steps (on_cur f b) \<noteq> []"
  using builder_inv_on_cur [of b f] by (auto simp: on_cur_def split: option.split)

definition adds :: "nat \<Rightarrow> nat \<Rightarrow> nat \<Rightarrow> event \<Rightarrow> nat" where
  "adds dt dr dc e =
     (case PartDecoded e of
        None \<Rightarrow> 0
      | Some p \<Rightarrow>
          if ev_type e = ''step_start'' then 0
          else if ev_type e = ''tool_use'' then dt
          else if ev_type e = ''step_finish'' then 0
          else if pt_type p = ''retry'' then dr
          else if pt_type p = ''compaction'' then dc else 0)"

lemma tot_event:
  assumes inv: "builder_inv b"
    and z: "\<And>i. g (new_step i) = 0"
    and t: "\<And>s ts. g (s\<lparr>sp_tools := sp_tools s @ [ts]\<rparr>) = g s + dt"
    and u: "\<And>s x. g (s\<lparr>sp_tokens := x\<rparr>) = g s" "\<And>s x. g (s\<lparr>sp_cost := x\<rparr>) = g s"
    and r: "\<And>s. g (s\<lparr>sp_retries := sp_retries s + 1\<rparr>) = g s + dr"
    and c: "\<And>s. g (s\<lparr>sp_compactions := sp_compactions s + 1\<rparr>) = g s + dc"
  shows "tot g (build_event ss e b) = tot g b + adds dt dr dc e"
proof (cases "PartDecoded e")
  case (Some p)
  let ?b = "mark (ev_timestamp e) (ensure (ev_timestamp e) b)"
  note ok = ensured(1,2) [OF inv, of "ev_timestamp e"]
  have m: "tot g ?b = tot g b" by (simp add: tot_frame z)
  obtain ts b' where bt: "buildTool p ss ?b = (ts, b')" by fastforce
  have "builder_inv b'" "b_steps b' \<noteq> []" "tot g b' = tot g b"
    using ensured(3,4) [OF inv, of p ss "ev_timestamp e"] tot_frame(4) [of g p ss ?b] m by (simp_all add: bt)
  then have 1: "tot g (on_cur (\<lambda>s. s\<lparr>sp_tools := sp_tools s @ [ts]\<rparr>) b') = tot g b + dt"
    using tot_on_cur [where g = g and d = dt] t by simp
  have 2: "tot g (on_cur (\<lambda>s. s\<lparr>sp_tokens := x\<rparr>) ?b) = tot g b" for x
    using tot_on_cur [OF ok, where g = g and d = 0] u m by simp
  have 3: "tot g (on_cur (\<lambda>s. s\<lparr>sp_cost := y\<rparr>) (on_cur (\<lambda>s. s\<lparr>sp_tokens := x\<rparr>) ?b)) = tot g b" for x y
    using on_cur_ok [OF ok, of "\<lambda>s. s\<lparr>sp_tokens := x\<rparr>"] tot_on_cur [where g = g and d = 0] u 2 by simp
  have 4: "tot g (on_cur (\<lambda>s. s\<lparr>sp_retries := sp_retries s + 1\<rparr>) ?b) = tot g b + dr"
    "tot g (on_cur (\<lambda>s. s\<lparr>sp_compactions := sp_compactions s + 1\<rparr>) ?b) = tot g b + dc"
    using tot_on_cur [OF ok, where g = g and d = dr] tot_on_cur [OF ok, where g = g and d = dc] r c m by simp_all
  show ?thesis
    unfolding build_event_def adds_def Some option.case Let_def bt prod.case
    using 1 2 3 4 by (simp add: tot_frame z split: option.split)
qed (simp add: build_event_def adds_def)

lemma tot_events:
  assumes "builder_inv b" "\<And>e b. builder_inv b \<Longrightarrow> tot g (build_event ss e b) = tot g b + d e"
  shows "tot g (fold (build_event ss) es b) = tot g b + sum_list (map d es)"
  using assms by (induction es arbitrary: b) (auto simp: builder_inv_event)

lemma sum_list_flags: "sum_list (map (\<lambda>e. if P e then 1 else 0) es) = length (filter P es)"
  by (induction es) auto

lemma Build_steps_map:
  assumes "\<And>s t. g (timed s t) = g s"
  shows "map g (tr_steps (Build run task es ss)) = map g (b_steps (fold (build_event ss) es empty_builder))"
proof -
  have "length (b_times (fold (build_event ss) es empty_builder)) = length (b_steps (fold (build_event ss) es empty_builder))"
    using builder_inv_fold [OF builder_inv_empty, of ss es] by (simp add: builder_inv_def)
  moreover have "map g (map2 timed xs ts) = map g xs" if "length ts = length xs" for xs ts
    using that by (induction xs ts rule: list_induct2') (auto simp: assms)
  ultimately show ?thesis by (simp add: Build_def Let_def)
qed

lemma timed_frame [simp]:
  "sp_index (timed s t) = sp_index s" "sp_tools (timed s t) = sp_tools s"
  "sp_retries (timed s t) = sp_retries s" "sp_compactions (timed s t) = sp_compactions s"
  by (auto simp: timed_def split: prod.split)

lemma Build_sum:
  assumes "\<And>s t. g (timed s t) = g s" "\<And>e b. builder_inv b \<Longrightarrow> tot g (build_event ss e b) = tot g b + d e"
  shows "sum_list (map g (tr_steps (Build run task es ss))) = sum_list (map d es)"
  using tot_events [OF builder_inv_empty assms(2), of es] Build_steps_map [of g, OF assms(1)]
  by (simp add: tot_def empty_builder_def)

text \<open>The metrics count a retry or a compaction on any event.\<close>

lemma observe_all_Retries:
  "Retries (observe_all es m) = Retries m
     + length (filter (\<lambda>e. \<exists>p. PartDecoded e = Some p \<and> pt_type p = ''retry'') es)"
proof (induction es arbitrary: m)
  case (Cons e es)
  have "Retries (Observe e m) = Retries m + (if \<exists>p. PartDecoded e = Some p \<and> pt_type p = ''retry'' then 1 else 0)"
    by (simp add: Observe_def Let_def observeTool_def observeText_def split: option.split)
  then show ?case using Cons by simp
qed simp

section \<open>Properties\<close>

text \<open>The steps of a timeline are numbered from 0, and each captured
  delegated session is listed once, however often the run called it.\<close>

theorem Build_structure:
  "map sp_index (tr_steps (Build run task es ss)) = [0..<length (tr_steps (Build run task es ss))] \<and>
   distinct (map sa_session (tr_subagents (Build run task es ss)))"
proof -
  let ?b = "fold (build_event ss) es empty_builder"
  have inv: "builder_inv ?b" by (rule builder_inv_fold [OF builder_inv_empty])
  then have "length (tr_steps (Build run task es ss)) = length (b_steps ?b)"
    by (simp add: Build_def Let_def builder_inv_def)
  then have "map sp_index (tr_steps (Build run task es ss)) = [0..<length (tr_steps (Build run task es ss))]"
    using inv Build_steps_map [of sp_index run task es ss] by (simp add: builder_inv_def)
  moreover have "tr_subagents (Build run task es ss) = b_subs ?b" by (simp add: Build_def Let_def)
  then have "distinct (map sa_session (tr_subagents (Build run task es ss)))"
    using inv by (simp add: builder_inv_def) (metis distinct_rev)
  ultimately show ?thesis by simp
qed

text \<open>C32: the timeline shows every tool call the metrics counted: the spans of its steps are as many as
  the tool calls of the metrics folded over the same events.\<close>

theorem Build_tools_eq_metrics:
  "sum_list (map (\<lambda>s. length (sp_tools s)) (tr_steps (Build run task es ss)))
   = ToolCalls (observe_all es (NewMetrics servers))"
proof -
  have "sum_list (map (\<lambda>s. length (sp_tools s)) (tr_steps (Build run task es ss)))
      = sum_list (map (adds 1 0 0) es)"
    by (rule Build_sum, simp) (rule tot_event; simp add: new_step_def)
  also have "\<dots> = sum_list (map (\<lambda>e. if is_tool e then 1 else 0) es)"
    by (intro arg_cong [where f = sum_list] map_cong refl) (auto simp: adds_def is_tool_def split: option.split)
  finally show ?thesis
    by (simp add: sum_list_flags observe_all_ToolCalls NewMetrics_def)
qed

text \<open>The retries shown on the steps are those of the metrics, when no retry part rides on an event
  that opens, ends or acts in a step.\<close>

theorem Build_retries_eq_metrics:
  assumes "\<And>e p. e \<in> set es \<Longrightarrow> PartDecoded e = Some p \<Longrightarrow> pt_type p = ''retry'' \<Longrightarrow>
    ev_type e \<notin> {''step_start'', ''tool_use'', ''step_finish''}"
  shows "sum_list (map sp_retries (tr_steps (Build run task es ss)))
    = Retries (observe_all es (NewMetrics servers))"
proof -
  have "sum_list (map sp_retries (tr_steps (Build run task es ss))) = sum_list (map (adds 0 1 0) es)"
    by (rule Build_sum, simp) (rule tot_event; simp add: new_step_def)
  also have "\<dots> = sum_list (map (\<lambda>e. if \<exists>p. PartDecoded e = Some p \<and> pt_type p = ''retry'' then 1 else 0) es)"
    using assms by (intro arg_cong [where f = sum_list] map_cong refl) (auto simp: adds_def split: option.split)
  finally show ?thesis
    by (simp add: sum_list_flags observe_all_Retries NewMetrics_def)
qed

theorem Build_retries_eq_metrics_witness:
  "sum_list (map sp_retries (tr_steps (Build [] [] [zero_event\<lparr>ev_part := Some (JObj [(''type'', JStr ''retry'')])\<rparr>] [])))
   = Retries (observe_all [zero_event\<lparr>ev_part := Some (JObj [(''type'', JStr ''retry'')])\<rparr>] (NewMetrics []))"
  by (rule Build_retries_eq_metrics) (auto simp: zero_event_def)

end
