(* ===== verification/Spec2Isabelle.thy ===== *)
theory Spec2Isabelle
  imports Calibration Canon Capture Cohort Discover Environ Events Experiment ExperimentRun Fmt
    GitOutput GitSource Glob GoJson GoPath GoStrings Harvest HarvestExport History HostOS Overview
    Plan PowerAnalysis Prelude Profile ProfileStore ProfileView RunMetrics RunRecord Runner Session
    SliceSort Stats Store Suite Trace Validators Variance Watch
begin

text \<open>OCBench verification.\<close>

end
